(* ===== verification/Go_Base.thy ===== *)
theory Go_Base
  imports Main "HOL-Library.Word" "HOL-Library.Sublist"
begin

text \<open>
  The prelude of the development: what the components share.

  \<^item> Bytes and Go strings. A Go \<open>string\<close> or \<open>[]byte\<close> is a sequence of octets; HOL's \<open>char\<close>
    has exactly 256 values, so both are \<open>char list\<close>, and \<open>byte c\<close> is the octet's number.
  \<^item> Fallible results. A Go function returning \<open>(v, error)\<close> is a function into
    \<open>'e + 'a\<close>: \<open>Inl\<close> is the error branch, \<open>Inr\<close> the value.
  \<^item> The functions of Go's packages \<open>strings\<close>, \<open>bytes\<close> and \<open>strconv\<close> that the sources call,
    on octet strings (those that look at Unicode runes are in theory \<open>Go_Unicode\<close>).
  \<^item> Two interfaces as locales: \<open>codec\<close> (an encoder and a decoder of whole strings) and
    \<open>framing\<close> (an encoder and a reader of a stream), with the facts every client uses.
\<close>

section \<open>Bytes and results\<close>

type_synonym bytes = "char list"

abbreviation byte :: "char \<Rightarrow> nat" where
  "byte c \<equiv> of_char c"

abbreviation CR :: char where
  "CR \<equiv> CHR 0x0D"

abbreviation LF :: char where
  "LF \<equiv> CHR 0x0A"

abbreviation NUL :: char where
  "NUL \<equiv> CHR 0x00"

abbreviation TAB :: char where
  "TAB \<equiv> CHR 0x09"

abbreviation SP :: char where
  "SP \<equiv> CHR 0x20"

abbreviation DQUOTE :: char where
  "DQUOTE \<equiv> CHR 0x22"

abbreviation BSLASH :: char where
  "BSLASH \<equiv> CHR 0x5C"

abbreviation CRLF :: bytes where
  "CRLF \<equiv> [CR, LF]"

named_theorems wire_defs \<open>definitions of the byte classes of the wire grammar\<close>

named_theorems stream_simps \<open>how reader operations act on the remaining stream\<close>

lemma char_eq_byte: "c = d \<longleftrightarrow> byte c = byte d"
  by simp

lemma byte_less [simp]: "byte c \<le> 255"
proof -
  have "byte c < 256" by simp
  then show ?thesis by linarith
qed

definition is_ok :: "'e + 'a \<Rightarrow> bool" where
  "is_ok r \<longleftrightarrow> (case r of Inl _ \<Rightarrow> False | Inr _ \<Rightarrow> True)"

lemma is_ok_simps [simp]: "is_ok (Inr x)" "\<not> is_ok (Inl e)"
  by (simp_all add: is_ok_def)

lemma is_ok_iff: "is_ok r \<longleftrightarrow> (\<exists>x. r = Inr x)"
  by (cases r) auto

text \<open>The error return threaded through a sequence of fallible calls.\<close>

definition bind_res :: "'e + 'a \<Rightarrow> ('a \<Rightarrow> 'e + 'b) \<Rightarrow> 'e + 'b" where
  "bind_res r f = (case r of Inl e \<Rightarrow> Inl e | Inr x \<Rightarrow> f x)"

lemma bind_res_simps [simp]:
  "bind_res (Inl e) f = Inl e" "bind_res (Inr x) f = f x"
  by (simp_all add: bind_res_def)

lemma bind_res_Inr_iff: "bind_res r f = Inr y \<longleftrightarrow> (\<exists>x. r = Inr x \<and> f x = Inr y)"
  by (cases r) auto

lemma bind_res_Inl_iff:
  "bind_res r f = Inl e \<longleftrightarrow> r = Inl e \<or> (\<exists>x. r = Inr x \<and> f x = Inl e)"
  by (cases r) auto

text \<open>Go's \<open>int\<close> and \<open>int64\<close> have 64 bits: an unbounded result is reduced to the signed range
  wherever the sources do arithmetic that can leave it.\<close>

definition int64 :: "int \<Rightarrow> int" where
  "int64 x = (x + 2 ^ 63) mod 2 ^ 64 - 2 ^ 63"

definition MaxInt64 :: int where
  "MaxInt64 = 2 ^ 63 - 1"

lemma int64_id [simp]: "- (2 ^ 63) \<le> x \<Longrightarrow> x \<le> MaxInt64 \<Longrightarrow> int64 x = x"
  by (simp add: int64_def MaxInt64_def)

lemma int64_range: "- (2 ^ 63) \<le> int64 x \<and> int64 x \<le> MaxInt64"
proof -
  have "0 \<le> (x + 2 ^ 63) mod 2 ^ 64" "(x + 2 ^ 63) mod 2 ^ 64 < 2 ^ 64"
    by simp_all
  then show ?thesis unfolding int64_def MaxInt64_def by simp
qed

section \<open>ASCII classes\<close>

definition is_upper :: "char \<Rightarrow> bool" where
  [wire_defs]: "is_upper c \<longleftrightarrow> 65 \<le> byte c \<and> byte c \<le> 90"

definition is_lower :: "char \<Rightarrow> bool" where
  [wire_defs]: "is_lower c \<longleftrightarrow> 97 \<le> byte c \<and> byte c \<le> 122"

definition is_digit :: "char \<Rightarrow> bool" where
  [wire_defs]: "is_digit c \<longleftrightarrow> 48 \<le> byte c \<and> byte c \<le> 57"

definition is_alnum :: "char \<Rightarrow> bool" where
  [wire_defs]: "is_alnum c \<longleftrightarrow> is_upper c \<or> is_lower c \<or> is_digit c"

definition is_ascii :: "char \<Rightarrow> bool" where
  [wire_defs]: "is_ascii c \<longleftrightarrow> byte c < 128"

definition is_control :: "char \<Rightarrow> bool" where
  [wire_defs]: "is_control c \<longleftrightarrow> byte c < 32 \<or> byte c = 127"

definition digit_val :: "char \<Rightarrow> nat" where
  "digit_val c = byte c - 48"

definition digit_char :: "nat \<Rightarrow> char" where
  "digit_char d = char_of (48 + d)"

definition upper_char :: "char \<Rightarrow> char" where
  "upper_char c = (if is_lower c then char_of (byte c - 32) else c)"

lemma digit_val_less: "is_digit c \<Longrightarrow> digit_val c < 10"
  by (auto simp: is_digit_def digit_val_def)

lemma digit_char_props [simp]:
  assumes "d < 10"
  shows "is_digit (digit_char d)" and "digit_val (digit_char d) = d"
    and "byte (digit_char d) = 48 + d"
  using assms by (simp_all add: digit_char_def is_digit_def digit_val_def)

lemma digit_char_val [simp]: "is_digit c \<Longrightarrow> digit_char (digit_val c) = c"
  by (simp add: digit_char_def digit_val_def is_digit_def)

lemma upper_char_idem [simp]: "upper_char (upper_char c) = upper_char c"
  by (auto simp: upper_char_def is_lower_def)

lemma upper_char_id: "\<not> is_lower c \<Longrightarrow> upper_char c = c"
  by (simp add: upper_char_def)

lemma upper_char_not_lower: "\<not> is_lower (upper_char c)"
  by (auto simp: upper_char_def is_lower_def)

lemma upper_char_ascii [simp]: "is_ascii (upper_char c) \<longleftrightarrow> is_ascii c"
  by (auto simp: upper_char_def is_lower_def is_ascii_def)

section \<open>Package strings, on octets\<close>

text \<open>\<open>strings.Cut\<close> at a one-octet separator.\<close>

definition Cut :: "bytes \<Rightarrow> char \<Rightarrow> bytes \<times> bytes \<times> bool" where
  "Cut s sep = (takeWhile ((\<noteq>) sep) s, drop 1 (dropWhile ((\<noteq>) sep) s), sep \<in> set s)"

text \<open>\<open>strings.Split\<close> at a one-octet separator; the empty string splits into itself.\<close>

fun Split :: "bytes \<Rightarrow> char \<Rightarrow> bytes list" where
  "Split [] sep = [[]]"
| "Split (c # s) sep =
     (if c = sep then [] # Split s sep
      else (case Split s sep of [] \<Rightarrow> [[c]] | f # fs \<Rightarrow> (c # f) # fs))"

text \<open>\<open>strings.Join\<close>.\<close>

fun Join :: "bytes list \<Rightarrow> bytes \<Rightarrow> bytes" where
  "Join [] sep = []"
| "Join [x] sep = x"
| "Join (x # y # ys) sep = x @ sep @ Join (y # ys) sep"

text \<open>\<open>strings.TrimLeft(s, " ")\<close>, \<open>strings.HasPrefix\<close>, \<open>strings.HasSuffix\<close> and
  \<open>strings.ContainsAny\<close> (with an ASCII cutset).\<close>

definition TrimLeftSP :: "bytes \<Rightarrow> bytes" where
  "TrimLeftSP s = dropWhile ((=) SP) s"

definition HasPrefix :: "bytes \<Rightarrow> bytes \<Rightarrow> bool" where
  "HasPrefix s p \<longleftrightarrow> take (length p) s = p"

definition HasSuffix :: "bytes \<Rightarrow> bytes \<Rightarrow> bool" where
  "HasSuffix s p \<longleftrightarrow> length p \<le> length s \<and> drop (length s - length p) s = p"

definition ContainsAny :: "bytes \<Rightarrow> bytes \<Rightarrow> bool" where
  "ContainsAny s cs \<longleftrightarrow> list_ex (\<lambda>c. List.member cs c) s"

text \<open>The ASCII case conversion \<open>strings.ToUpper\<close> performs on a string all of whose octets
  are below 128.\<close>

definition ToUpperASCII :: "bytes \<Rightarrow> bytes" where
  "ToUpperASCII s = map upper_char s"

lemma ContainsAny_iff: "ContainsAny s cs \<longleftrightarrow> set s \<inter> set cs \<noteq> {}"
  by (auto simp: ContainsAny_def list_ex_iff)

lemma not_ContainsAny_append [simp]:
  "\<not> ContainsAny (s @ t) cs \<longleftrightarrow> \<not> ContainsAny s cs \<and> \<not> ContainsAny t cs"
  by (auto simp: ContainsAny_iff)

lemma ContainsAny_Nil [simp]: "\<not> ContainsAny [] cs"
  by (simp add: ContainsAny_def)

lemma HasPrefix_iff: "HasPrefix s p \<longleftrightarrow> prefix p s"
  by (auto simp: HasPrefix_def prefix_def take_is_prefix)
    (metis append_take_drop_id)

lemma Cut_no_sep [simp]: "sep \<notin> set s \<Longrightarrow> Cut s sep = (s, [], False)"
proof -
  assume "sep \<notin> set s"
  then have "takeWhile ((\<noteq>) sep) s = s" "dropWhile ((\<noteq>) sep) s = []"
    by (induction s) auto
  with \<open>sep \<notin> set s\<close> show ?thesis
    by (simp add: Cut_def del: dropWhile_eq_Nil_conv takeWhile_eq_all_conv)
qed

lemma Cut_append [simp]: "sep \<notin> set a \<Longrightarrow> Cut (a @ sep # b) sep = (a, b, True)"
  by (auto simp: Cut_def takeWhile_append dropWhile_append)

lemma Cut_eq: "Cut s sep = (a, b, f) \<Longrightarrow>
    sep \<notin> set a \<and> (if f then s = a @ sep # b else s = a \<and> b = [])"
proof -
  assume eq: "Cut s sep = (a, b, f)"
  show ?thesis
  proof (cases "sep \<in> set s")
    case False
    with eq show ?thesis by auto
  next
    case True
    then obtain xs ys where "s = xs @ sep # ys" "sep \<notin> set xs"
      using split_list_first by metis
    with eq show ?thesis by auto
  qed
qed

lemma Split_nonempty [simp]: "Split s sep \<noteq> []"
  by (induction s sep rule: Split.induct) (auto split: list.splits)

lemma Join_Cons: "xs \<noteq> [] \<Longrightarrow> Join (x # xs) sep = x @ sep @ Join xs sep"
  by (cases xs) auto

lemma Join_Split: "Join (Split s sep) [sep] = s"
proof (induction s sep rule: Split.induct)
  case (2 c s sep)
  obtain f fs where fs: "Split s sep = f # fs"
    by (meson Split_nonempty list.exhaust)
  with 2 show ?case by (cases fs) auto
qed simp

lemma Split_no_sep: "\<forall>p \<in> set (Split s sep). sep \<notin> set p"
  by (induction s sep rule: Split.induct) (auto split: list.splits)

lemma Split_single: "sep \<notin> set s \<Longrightarrow> Split s sep = [s]"
  by (induction s) auto

lemma Split_append: "sep \<notin> set a \<Longrightarrow> Split (a @ sep # b) sep = a # Split b sep"
  by (induction a) auto

lemma Split_Join:
  "ps \<noteq> [] \<Longrightarrow> \<forall>p \<in> set ps. sep \<notin> set p \<Longrightarrow> Split (Join ps [sep]) sep = ps"
proof (induction ps)
  case (Cons p ps)
  then show ?case by (cases ps) (auto simp: Split_single Split_append)
qed simp

lemma TrimLeftSP_id: "s = [] \<or> hd s \<noteq> SP \<Longrightarrow> TrimLeftSP s = s"
  by (cases s) (auto simp: TrimLeftSP_def)

lemma ToUpperASCII_idem [simp]: "ToUpperASCII (ToUpperASCII s) = ToUpperASCII s"
  by (simp add: ToUpperASCII_def)

lemma length_ToUpperASCII [simp]: "length (ToUpperASCII s) = length s"
  by (simp add: ToUpperASCII_def)

section \<open>Package strconv, base 10\<close>

text \<open>\<open>strconv.FormatUint(n, 10)\<close> and \<open>strconv.Itoa\<close>.\<close>

fun FormatUint :: "nat \<Rightarrow> bytes" where
  "FormatUint n = (if n < 10 then [digit_char n] else FormatUint (n div 10) @ [digit_char (n mod 10)])"

declare FormatUint.simps [simp del]

definition Itoa :: "int \<Rightarrow> bytes" where
  "Itoa i = (if i < 0 then CHR ''-'' # FormatUint (nat (- i)) else FormatUint (nat i))"

text \<open>The value of a digit string, most significant digit first.\<close>

definition decimal :: "bytes \<Rightarrow> nat" where
  "decimal s = foldl (\<lambda>n c. 10 * n + digit_val c) 0 s"

text \<open>\<open>strconv.ParseUint(s, 10, bits)\<close>: \<open>None\<close> is a syntax or a range error.\<close>

definition ParseUint :: "nat \<Rightarrow> bytes \<Rightarrow> nat option" where
  "ParseUint bits s =
     (if s \<noteq> [] \<and> list_all is_digit s \<and> decimal s < 2 ^ bits then Some (decimal s) else None)"

text \<open>\<open>strconv.ParseInt(s, 10, 64)\<close> (and \<open>strconv.Atoi\<close> where \<open>int\<close> has 64 bits).\<close>

definition ParseInt :: "bytes \<Rightarrow> int option" where
  "ParseInt s =
     (case s of
        [] \<Rightarrow> None
      | c # cs \<Rightarrow>
          (let neg = (c = CHR ''-''); ds = (if c = CHR ''+'' \<or> c = CHR ''-'' then cs else s) in
           case ParseUint 64 ds of
             None \<Rightarrow> None
           | Some n \<Rightarrow>
               if neg then (if n \<le> 2 ^ 63 then Some (- int n) else None)
               else (if n < 2 ^ 63 then Some (int n) else None)))"

lemma decimal_snoc [simp]: "decimal (s @ [c]) = 10 * decimal s + digit_val c"
  by (simp add: decimal_def)

lemma decimal_Nil [simp]: "decimal [] = 0"
  by (simp add: decimal_def)

lemma FormatUint_nonempty [simp]: "FormatUint n \<noteq> []"
  by (subst FormatUint.simps) simp

lemma FormatUint_digits: "list_all is_digit (FormatUint n)"
proof (induction n rule: FormatUint.induct)
  case (1 n)
  then show ?case
    by (cases "n < 10") (simp_all add: FormatUint.simps [of n])
qed

lemma FormatUint_digit: "c \<in> set (FormatUint n) \<Longrightarrow> is_digit c"
  using FormatUint_digits [of n] by (auto simp: list_all_iff)

lemma decimal_FormatUint [simp]: "decimal (FormatUint n) = n"
proof (induction n rule: FormatUint.induct)
  case (1 n)
  show ?case
  proof (cases "n < 10")
    case True
    have "[digit_char n] = [] @ [digit_char n]" by simp
    with True show ?thesis
      by (simp add: FormatUint.simps [of n] decimal_def)
  next
    case False
    with 1 show ?thesis
      by (simp add: FormatUint.simps [of n])
  qed
qed

lemma FormatUint_digit1: "d < 10 \<Longrightarrow> FormatUint d = [digit_char d]"
  by (simp add: FormatUint.simps [of d])

lemma FormatUint_snoc: "0 < n \<Longrightarrow> d < 10 \<Longrightarrow> FormatUint (10 * n + d) = FormatUint n @ [digit_char d]"
  by (subst FormatUint.simps) simp

lemma FormatUint_length: "n < 10 ^ k \<Longrightarrow> 0 < k \<Longrightarrow> length (FormatUint n) \<le> k"
proof (induction n arbitrary: k rule: FormatUint.induct)
  case (1 n)
  show ?case
  proof (cases "n < 10")
    case True
    with "1.prems" show ?thesis by (simp add: FormatUint_digit1)
  next
    case False
    then have "k \<noteq> 1" using "1.prems" by auto
    then obtain k' where k': "k = Suc k'" "0 < k'"
      using "1.prems" by (cases k) auto
    then have "n div 10 < 10 ^ k'" using "1.prems" by (simp add: div_less_iff_less_mult mult.commute)
    from "1.IH" [OF False this k'(2)] False k' show ?thesis
      by (simp add: FormatUint.simps [of n])
  qed
qed

lemma ParseUint_FormatUint: "n < 2 ^ bits \<Longrightarrow> ParseUint bits (FormatUint n) = Some n"
  by (simp add: ParseUint_def FormatUint_digits)

lemma ParseInt_digits:
  assumes "list_all is_digit s" and "s \<noteq> []"
  shows "ParseInt s = (if decimal s < 2 ^ 63 then Some (int (decimal s)) else None)"
proof (cases s)
  case (Cons c cs)
  with assms have "c \<noteq> CHR ''+''" "c \<noteq> CHR ''-''" by (auto simp: is_digit_def)
  with Cons assms show ?thesis by (auto simp: ParseInt_def ParseUint_def Let_def)
qed (use assms in simp)

lemma ParseInt_FormatUint: "n < 2 ^ 63 \<Longrightarrow> ParseInt (FormatUint n) = Some (int n)"
  by (simp add: ParseInt_digits FormatUint_digits)

lemma FormatUint_inject [simp]: "FormatUint m = FormatUint n \<longleftrightarrow> m = n"
  by (metis decimal_FormatUint)

lemma ParseUint_bound: "ParseUint bits s = Some n \<Longrightarrow> n < 2 ^ bits"
  by (auto simp: ParseUint_def split: if_splits)

section \<open>Interfaces\<close>

text \<open>A codec of whole strings: decoding what the encoder printed gives the value back.\<close>

locale codec =
  fixes enc :: "'a \<Rightarrow> bytes"
    and dec :: "bytes \<Rightarrow> 'e + 'a"
    and ok :: "'a \<Rightarrow> bool"
  assumes dec_enc: "ok x \<Longrightarrow> dec (enc x) = Inr x"
begin

lemma enc_inj: "inj_on enc {x. ok x}"
proof (rule inj_onI)
  fix x y
  assume "x \<in> {x. ok x}" "y \<in> {x. ok x}" and eq: "enc x = enc y"
  then have "ok x" "ok y" by simp_all
  then have "Inr x = dec (enc x)" "Inr y = dec (enc y)" by (simp_all only: dec_enc)
  with eq show "x = y" by (metis sum.inject(2))
qed

lemma decode_list:
  "\<forall>x \<in> set xs. ok x \<Longrightarrow> map (dec \<circ> enc) xs = map Inr xs"
  by (induction xs) (simp_all add: dec_enc)

end

text \<open>
  A framing: a value is written to a stream and read back from it, and what follows it on the
  stream is left for the next reader. \<open>stream\<close> is what a reader state has yet to deliver.
  \<open>read_n\<close> reads a sequence of values; its law is the one pipelining rests on, that the
  \<open>k\<close>-th value read is the \<open>k\<close>-th value written.
\<close>

primrec read_n :: "('s \<Rightarrow> ('e + 'a) \<times> 's) \<Rightarrow> nat \<Rightarrow> 's \<Rightarrow> ('e + 'a list) \<times> 's" where
  "read_n rd 0 s = (Inr [], s)"
| "read_n rd (Suc n) s =
     (case rd s of
        (Inl e, s') \<Rightarrow> (Inl e, s')
      | (Inr x, s') \<Rightarrow>
          (case read_n rd n s' of (Inl e, s'') \<Rightarrow> (Inl e, s'') | (Inr xs, s'') \<Rightarrow> (Inr (x # xs), s'')))"

locale framing =
  fixes enc :: "'a \<Rightarrow> bytes"
    and rd :: "'s \<Rightarrow> ('e + 'a) \<times> 's"
    and stream :: "'s \<Rightarrow> bytes"
    and ok :: "'a \<Rightarrow> bool"
  assumes rd_enc: "ok x \<Longrightarrow> stream s = enc x @ rest \<Longrightarrow> \<exists>s'. rd s = (Inr x, s') \<and> stream s' = rest"
    and stream_surj: "\<exists>s. stream s = bs"
begin

lemma enc_prefix_free:
  assumes "ok x" "ok y" "enc x @ r = enc y @ r'"
  shows "x = y \<and> r = r'"
proof -
  obtain s where s: "stream s = enc x @ r"
    using stream_surj by blast
  obtain s1 where "rd s = (Inr x, s1)" "stream s1 = r"
    using rd_enc [OF assms(1) s] by blast
  moreover obtain s2 where "rd s = (Inr y, s2)" "stream s2 = r'"
    using rd_enc [OF assms(2)] s assms(3) by metis
  ultimately show ?thesis by simp
qed

lemma rd_sequence:
  assumes "list_all ok xs" "stream s = concat (map enc xs) @ rest"
  shows "\<exists>s'. read_n rd (length xs) s = (Inr xs, s') \<and> stream s' = rest"
  using assms
proof (induction xs arbitrary: s)
  case Nil
  then show ?case by simp
next
  case (Cons x xs)
  then have "ok x" and st: "stream s = enc x @ (concat (map enc xs) @ rest)"
    by simp_all
  then obtain s1 where s1: "rd s = (Inr x, s1)" "stream s1 = concat (map enc xs) @ rest"
    using rd_enc by metis
  with Cons obtain s2 where "read_n rd (length xs) s1 = (Inr xs, s2)" "stream s2 = rest"
    by fastforce
  with s1 show ?case by simp
qed

end

text \<open>
  Go's \<open>io.Writer\<close>: a \<open>Write\<close> puts a prefix of its argument behind what was written before, and
  all of it when it reports no error. \<open>content\<close> is what the writer's consumer has received.
  \<open>write_all\<close> is a client that stops at the first error.
\<close>

primrec write_all :: "(bytes \<Rightarrow> 'w \<Rightarrow> 'e option \<times> 'w) \<Rightarrow> bytes list \<Rightarrow> 'w \<Rightarrow> 'e option \<times> 'w" where
  "write_all wr [] w = (None, w)"
| "write_all wr (p # ps) w =
     (case wr p w of (Some e, w') \<Rightarrow> (Some e, w') | (None, w') \<Rightarrow> write_all wr ps w')"

locale sink =
  fixes wr :: "bytes \<Rightarrow> 'w \<Rightarrow> 'e option \<times> 'w"
    and content :: "'w \<Rightarrow> bytes"
  assumes wr_grows: "wr p w = (e, w') \<Longrightarrow>
    \<exists>q. content w' = content w @ q \<and> prefix q p \<and> (e = None \<longrightarrow> q = p)"
begin

lemma wr_None: "wr p w = (None, w') \<Longrightarrow> content w' = content w @ p"
  using wr_grows by fastforce

lemma wr_Some: "wr p w = (Some e, w') \<Longrightarrow> \<exists>q. content w' = content w @ q \<and> prefix q p"
  using wr_grows by blast

lemma write_all_grows:
  "write_all wr ps w = (e, w') \<Longrightarrow>
    \<exists>q. content w' = content w @ q \<and> prefix q (concat ps) \<and> (e = None \<longrightarrow> q = concat ps)"
proof (induction ps arbitrary: w)
  case (Cons p ps)
  show ?case
  proof (cases "wr p w")
    case (Pair e1 w1)
    show ?thesis
    proof (cases e1)
      case None
      with Cons Pair obtain q where "content w' = content w1 @ q" "prefix q (concat ps)" "e = None \<longrightarrow> q = concat ps"
        by fastforce
      with wr_None Pair None show ?thesis by (intro exI [of _ "p @ q"]) auto
    next
      case (Some x)
      with Cons.prems Pair have "e = Some x" "w' = w1" by auto
      with wr_Some Pair Some show ?thesis by (fastforce intro: prefix_order.trans)
    qed
  qed
qed simp

end

text \<open>
  Go's \<open>io.Reader\<close>: \<open>rd k\<close> is a \<open>Read\<close> into a buffer of \<open>k\<close> octets. \<open>future s\<close> is what the reader
  has yet to deliver, with the way it ends; a \<open>Read\<close> delivers a non-empty piece of it, or reports the
  end and leaves the reader \<open>stopped\<close>. \<open>read_sizes\<close> is a client with buffers of the given sizes that stops at the first error.
\<close>

primrec read_sizes ::
  "(nat \<Rightarrow> 's \<Rightarrow> (bytes \<times> 'e option) \<times> 's) \<Rightarrow> nat list \<Rightarrow> 's \<Rightarrow> (bytes \<times> 'e option) \<times> 's" where
  "read_sizes rd [] s = (([], None), s)"
| "read_sizes rd (k # ks) s =
     (case rd k s of
        ((bs, Some e), s') \<Rightarrow> ((bs, Some e), s')
      | ((bs, None), s') \<Rightarrow>
          (case read_sizes rd ks s' of ((bs', e), s'') \<Rightarrow> ((bs @ bs', e), s'')))"

locale source =
  fixes rd :: "nat \<Rightarrow> 's \<Rightarrow> (bytes \<times> 'e option) \<times> 's"
    and future :: "'s \<Rightarrow> bytes \<times> 'z"
    and err_of :: "'z \<Rightarrow> 'e"
    and stopped :: "'z \<Rightarrow> 's \<Rightarrow> bool"
  assumes rd_more: "0 < k \<Longrightarrow> future s = (c, z) \<Longrightarrow> c \<noteq> [] \<Longrightarrow>
      \<exists>bs c' s'. rd k s = ((bs, None), s') \<and> bs \<noteq> [] \<and> c = bs @ c' \<and> future s' = (c', z)"
    and rd_end: "0 < k \<Longrightarrow> future s = ([], z) \<Longrightarrow>
      \<exists>s'. rd k s = (([], Some (err_of z)), s') \<and> future s' = ([], z) \<and> stopped z s'"
begin

lemma read_sizes_all:
  assumes "list_all (\<lambda>k. 0 < k) ks" "future s = (c, z)" "length c < length ks"
  shows "\<exists>s'. read_sizes rd ks s = ((c, Some (err_of z)), s') \<and> future s' = ([], z) \<and> stopped z s'"
  using assms
proof (induction ks arbitrary: s c)
  case (Cons k ks)
  then have k: "0 < k" by simp
  show ?case
  proof (cases "c = []")
    case True
    with Cons.prems rd_end [OF k, of s z] show ?thesis by fastforce
  next
    case False
    then obtain bs c' s1 where s1: "rd k s = ((bs, None), s1)" "bs \<noteq> []" "c = bs @ c'" "future s1 = (c', z)"
      using rd_more [OF k Cons.prems(2)] by blast
    then have "length c' < length ks" using Cons.prems(3) by (cases bs) auto
    with Cons.IH [of s1 c'] Cons.prems(1) s1 show ?thesis by auto
  qed
qed simp

lemma read_sizes_piece:
  assumes "list_all (\<lambda>k. 0 < k) ks" "future s = (c, z)" "read_sizes rd ks s = ((bs, e), s')"
  shows "\<exists>c'. c = bs @ c' \<and> future s' = (c', z) \<and> (e = None \<or> (c' = [] \<and> e = Some (err_of z) \<and> stopped z s'))"
  using assms
proof (induction ks arbitrary: s c bs)
  case (Cons k ks)
  then have k: "0 < k" by simp
  show ?case
  proof (cases "c = []")
    case True
    with Cons.prems rd_end [OF k, of s z] show ?thesis by fastforce
  next
    case False
    then obtain b1 c1 s1 where s1: "rd k s = ((b1, None), s1)" "c = b1 @ c1" "future s1 = (c1, z)"
      using rd_more [OF k Cons.prems(2)] by blast
    obtain b2 e2 s2 where s2: "read_sizes rd ks s1 = ((b2, e2), s2)" by (cases "read_sizes rd ks s1") auto
    with Cons.prems(3) s1 have "bs = b1 @ b2" "e = e2" "s' = s2" by auto
    with Cons.IH [of s1 c1 b2] Cons.prems(1) s1 s2 show ?thesis by auto
  qed
qed auto

end

text \<open>\<open>bytes.Buffer.Write\<close> appends and never fails.\<close>

definition Buffer_Write :: "bytes \<Rightarrow> bytes \<Rightarrow> 'e option \<times> bytes" where
  "Buffer_Write p b = (None, b @ p)"

interpretation buffer_sink: sink Buffer_Write "\<lambda>b. b"
  by unfold_locales (auto simp: Buffer_Write_def)

end
