(* ===== verification/Go_Unicode.thy ===== *)
theory Go_Unicode
  imports Go_Base
begin

text \<open>
  The parts of Go's standard library that look at Unicode runes or parse network addresses:
  \<open>unicode/utf8\<close> (\<open>DecodeRuneInString\<close>, \<open>ValidString\<close>), \<open>unicode\<close> (\<open>IsSpace\<close>, \<open>IsControl\<close>),
  \<open>strings\<close> (\<open>Fields\<close>, \<open>EqualFold\<close> against an ASCII string, \<open>ToUpper\<close>) and \<open>net/netip\<close>
  (\<open>ParseAddr\<close>, of which the sources only ask whether it succeeds and which family it finds).
  The Unicode case table above ASCII is data of the Go distribution, not logic: it is the
  argument \<open>upr\<close> of \<open>ToUpper\<close>.
\<close>

section \<open>UTF-8\<close>

definition RuneError :: nat where
  "RuneError = 0xFFFD"

text \<open>Size and range of the second octet for a leading octet above ASCII; \<open>None\<close> where the
  octet cannot start a sequence.\<close>

definition rune_head :: "nat \<Rightarrow> (nat \<times> nat \<times> nat) option" where
  "rune_head b =
     (if b < 0xC2 then None
      else if b \<le> 0xDF then Some (2, 0x80, 0xBF)
      else if b = 0xE0 then Some (3, 0xA0, 0xBF)
      else if b = 0xED then Some (3, 0x80, 0x9F)
      else if b \<le> 0xEF then Some (3, 0x80, 0xBF)
      else if b = 0xF0 then Some (4, 0x90, 0xBF)
      else if b \<le> 0xF3 then Some (4, 0x80, 0xBF)
      else if b = 0xF4 then Some (4, 0x80, 0x8F)
      else None)"

text \<open>\<open>utf8.DecodeRuneInString\<close>: the rune and the number of octets it takes.\<close>

definition DecodeRune :: "bytes \<Rightarrow> nat \<times> nat" where
  "DecodeRune s =
     (case s of
        [] \<Rightarrow> (RuneError, 0)
      | c0 # _ \<Rightarrow>
          (if byte c0 < 128 then (byte c0, 1)
           else case rune_head (byte c0) of
             None \<Rightarrow> (RuneError, 1)
           | Some (sz, lo, hi) \<Rightarrow>
               (if length s < sz then (RuneError, 1)
                else
                  let b0 = byte c0; b1 = byte (s ! 1) in
                  if b1 < lo \<or> hi < b1 then (RuneError, 1)
                  else if sz \<le> 2 then ((b0 mod 32) * 64 + b1 mod 64, 2)
                  else
                    let b2 = byte (s ! 2) in
                    if b2 < 0x80 \<or> 0xBF < b2 then (RuneError, 1)
                    else if sz \<le> 3 then ((b0 mod 16) * 4096 + (b1 mod 64) * 64 + b2 mod 64, 3)
                    else
                      let b3 = byte (s ! 3) in
                      if b3 < 0x80 \<or> 0xBF < b3 then (RuneError, 1)
                      else ((b0 mod 8) * 262144 + (b1 mod 64) * 4096 + (b2 mod 64) * 64 + b3 mod 64, 4))))"

lemma DecodeRune_size: "s \<noteq> [] \<Longrightarrow> 0 < snd (DecodeRune s)"
  by (auto simp: DecodeRune_def Let_def split: list.splits option.splits)

lemma DecodeRune_ascii [simp]: "byte c < 128 \<Longrightarrow> DecodeRune (c # s) = (byte c, 1)"
  by (simp add: DecodeRune_def)

text \<open>The runes of a string in order, as \<open>range\<close> over it visits them, each with its octets.\<close>

function runes :: "bytes \<Rightarrow> (nat \<times> bytes) list" where
  "runes s =
     (if s = [] then []
      else (fst (DecodeRune s), take (snd (DecodeRune s)) s) # runes (drop (snd (DecodeRune s)) s))"
  by pat_completeness auto
termination
  by (relation "measure length") (auto simp: DecodeRune_size)

declare runes.simps [simp del]

lemma runes_Nil [simp]: "runes [] = []"
  by (simp add: runes.simps)

lemma runes_ascii_Cons [simp]: "byte c < 128 \<Longrightarrow> runes (c # s) = (byte c, [c]) # runes s"
  by (simp add: runes.simps [of "c # s"])

lemma concat_runes: "concat (map snd (runes s)) = s"
proof (induction s rule: runes.induct)
  case (1 s)
  then show ?case by (cases "s = []") (simp_all add: runes.simps [of s])
qed

lemma runes_ascii: "list_all is_ascii s \<Longrightarrow> runes s = map (\<lambda>c. (byte c, [c])) s"
  by (induction s) (simp_all add: is_ascii_def)

text \<open>An octet above ASCII never decodes to an ASCII rune, so a test on runes that only ASCII
  passes is a test on octets.\<close>

lemma rune_head_cases:
  assumes "rune_head b = Some (sz, lo, hi)"
  shows "(sz = 2 \<and> 2 \<le> b mod 32) \<or> (sz = 3 \<and> (1 \<le> b mod 16 \<or> lo = 0xA0)) \<or>
         (sz = 4 \<and> (1 \<le> b mod 8 \<or> lo = 0x90))"
proof -
  have "b mod 32 = b - 192 \<and> 194 \<le> b" if "194 \<le> b" "b \<le> 223"
    using that by (simp add: mod_nat_eqI)
  moreover have "b mod 16 = b - 224" if "224 \<le> b" "b \<le> 239"
    using that by (simp add: mod_nat_eqI)
  moreover have "b mod 8 = b - 240" if "240 \<le> b" "b \<le> 247"
    using that by (simp add: mod_nat_eqI)
  ultimately show ?thesis using assms by (auto simp: rune_head_def split: if_splits)
qed

lemma DecodeRune_high:
  assumes "128 \<le> byte c"
  shows "128 \<le> fst (DecodeRune (c # s))"
proof (cases "rune_head (byte c)")
  case None
  with assms show ?thesis by (simp add: DecodeRune_def RuneError_def)
next
  case (Some t)
  then obtain sz lo hi where t: "rune_head (byte c) = Some (sz, lo, hi)" by (cases t) auto
  define d where "d = s ! 0"
  have "32 \<le> byte d mod 64" if "160 \<le> byte d" "byte d \<le> 191"
    using that by (subst mod_nat_eqI [of "byte d - 128"]) auto
  moreover have "16 \<le> byte d mod 64" if "144 \<le> byte d" "byte d \<le> 191"
    using that by (subst mod_nat_eqI [of "byte d - 128"]) auto
  moreover have "hi \<le> 191" using t by (auto simp: rune_head_def split: if_splits)
  ultimately have "lo = 0xA0 \<Longrightarrow> lo \<le> byte d \<Longrightarrow> byte d \<le> hi \<Longrightarrow> 2048 \<le> byte d mod 64 * 64"
    and "lo = 0x90 \<Longrightarrow> lo \<le> byte d \<Longrightarrow> byte d \<le> hi \<Longrightarrow> 65536 \<le> byte d mod 64 * 4096"
    by linarith+
  with rune_head_cases [OF t] t assms show ?thesis
    by (auto simp: DecodeRune_def Let_def RuneError_def not_less d_def trans_le_add1 trans_le_add2)
qed

lemma runes_all_ascii:
  assumes "\<And>r. P r \<Longrightarrow> r < 128"
  shows "list_all (\<lambda>x. P (fst x)) (runes s) \<longleftrightarrow> list_all (\<lambda>c. P (byte c)) s"
proof (induction s)
  case (Cons c s)
  show ?case
  proof (cases "byte c < 128")
    case False
    with assms DecodeRune_high [of c s] have "\<not> P (fst (DecodeRune (c # s)))" "\<not> P (byte c)"
      by fastforce+
    then show ?thesis by (simp add: runes.simps [of "c # s"])
  qed (simp add: Cons)
qed simp

text \<open>\<open>utf8.ValidString\<close>: no octet decodes to an error of width one.\<close>

definition ValidString :: "bytes \<Rightarrow> bool" where
  "ValidString s \<longleftrightarrow> list_all (\<lambda>(r, bs). \<not> (r = RuneError \<and> length bs = 1)) (runes s)"

lemma ValidString_ascii: "list_all is_ascii s \<Longrightarrow> ValidString s"
  by (auto simp: ValidString_def runes_ascii list_all_iff is_ascii_def RuneError_def)

text \<open>\<open>utf8.AppendRune\<close>; a surrogate or out-of-range rune is written as \<open>RuneError\<close>.\<close>

definition EncodeRune :: "nat \<Rightarrow> bytes" where
  "EncodeRune r0 =
     (let r = (if r0 > 0x10FFFF \<or> (0xD800 \<le> r0 \<and> r0 \<le> 0xDFFF) then RuneError else r0) in
      if r < 0x80 then [char_of r]
      else if r < 0x800 then [char_of (0xC0 + r div 64), char_of (0x80 + r mod 64)]
      else if r < 0x10000 then
        [char_of (0xE0 + r div 4096), char_of (0x80 + (r div 64) mod 64), char_of (0x80 + r mod 64)]
      else
        [char_of (0xF0 + r div 262144), char_of (0x80 + (r div 4096) mod 64),
         char_of (0x80 + (r div 64) mod 64), char_of (0x80 + r mod 64)])"

section \<open>Package unicode\<close>

definition IsSpace :: "nat \<Rightarrow> bool" where
  "IsSpace r \<longleftrightarrow>
     (9 \<le> r \<and> r \<le> 13) \<or> r = 0x20 \<or> r = 0x85 \<or> r = 0xA0 \<or> r = 0x1680 \<or>
     (0x2000 \<le> r \<and> r \<le> 0x200A) \<or> r = 0x2028 \<or> r = 0x2029 \<or> r = 0x202F \<or> r = 0x205F \<or> r = 0x3000"

definition IsControl :: "nat \<Rightarrow> bool" where
  "IsControl r \<longleftrightarrow> r < 0x20 \<or> (0x7F \<le> r \<and> r < 0xA0)"

section \<open>Package strings, on runes\<close>

text \<open>\<open>strings.Fields\<close>: the maximal runs of runes that are not white space.\<close>

fun fields_runes :: "(nat \<times> bytes) list \<Rightarrow> bytes \<Rightarrow> bytes list" where
  "fields_runes [] cur = (if cur = [] then [] else [cur])"
| "fields_runes ((r, bs) # rs) cur =
     (if IsSpace r then (if cur = [] then fields_runes rs [] else cur # fields_runes rs [])
      else fields_runes rs (cur @ bs))"

definition Fields :: "bytes \<Rightarrow> bytes list" where
  "Fields s = fields_runes (runes s) []"

text \<open>\<open>strings.EqualFold(s, t)\<close> for \<open>t\<close> in ASCII. Besides the ASCII case pairs, Unicode simple
  folding identifies U+017F with s and U+212A with k.\<close>

definition fold_match :: "nat \<Rightarrow> char \<Rightarrow> bool" where
  "fold_match r c \<longleftrightarrow>
     (r < 128 \<and> upper_char (char_of r) = upper_char c) \<or>
     (r = 0x17F \<and> upper_char c = CHR ''S'') \<or>
     (r = 0x212A \<and> upper_char c = CHR ''K'')"

definition EqualFold :: "bytes \<Rightarrow> bytes \<Rightarrow> bool" where
  "EqualFold s t \<longleftrightarrow> list_all2 fold_match (map fst (runes s)) t"

text \<open>\<open>strings.ToUpper\<close>, with the case table above ASCII as an argument. An octet that is not
  valid UTF-8 comes out as the replacement rune unless the whole string is ASCII.\<close>

definition ToUpper :: "(nat \<Rightarrow> nat) \<Rightarrow> bytes \<Rightarrow> bytes" where
  "ToUpper upr s =
     (if list_all is_ascii s then ToUpperASCII s
      else concat (map (\<lambda>(r, _). EncodeRune (if r < 128 then byte (upper_char (char_of r)) else upr r)) (runes s)))"

lemma ToUpper_ascii [simp]: "list_all is_ascii s \<Longrightarrow> ToUpper upr s = ToUpperASCII s"
  by (simp add: ToUpper_def)

lemma EqualFold_ascii:
  "list_all is_ascii s \<Longrightarrow> EqualFold s t \<longleftrightarrow> ToUpperASCII s = ToUpperASCII t"
proof (induction s arbitrary: t)
  case Nil
  then show ?case by (simp add: EqualFold_def ToUpperASCII_def)
next
  case (Cons c s)
  then show ?case
    by (cases t) (auto simp: EqualFold_def ToUpperASCII_def fold_match_def is_ascii_def)
qed

lemma fields_runes_nonempty:
  "\<forall>(r, bs) \<in> set rs. bs \<noteq> [] \<Longrightarrow> [] \<notin> set (fields_runes rs cur)"
  by (induction rs cur rule: fields_runes.induct) auto

lemma runes_octets_nonempty: "(r, bs) \<in> set (runes s) \<Longrightarrow> bs \<noteq> []"
proof (induction s rule: runes.induct)
  case (1 s)
  show ?case
  proof (cases "s = []")
    case True
    with 1 show ?thesis by simp
  next
    case False
    with 1 DecodeRune_size [of s] show ?thesis by (auto simp: runes.simps [of s])
  qed
qed

lemma Fields_nonempty: "f \<in> set (Fields s) \<Longrightarrow> f \<noteq> []"
  using fields_runes_nonempty [of "runes s" "[]"] runes_octets_nonempty
  by (fastforce simp: Fields_def)

text \<open>On a string without white space below and no octet above ASCII, the fields of a joined
  list of words are the words again.\<close>

definition plain_word :: "bytes \<Rightarrow> bool" where
  "plain_word w \<longleftrightarrow> w \<noteq> [] \<and> list_all (\<lambda>c. is_ascii c \<and> \<not> IsSpace (byte c)) w"

lemma fields_runes_word:
  assumes "list_all (\<lambda>c. is_ascii c \<and> \<not> IsSpace (byte c)) w"
  shows "fields_runes (runes (w @ s)) cur = fields_runes (runes s) (cur @ w)"
  using assms by (induction w arbitrary: cur) (simp_all add: is_ascii_def)

lemma IsSpace_SP [simp]: "IsSpace 32"
  by (simp add: IsSpace_def)

lemma Fields_word:
  assumes "plain_word w"
  shows "Fields w = [w]" and "Fields (w @ SP # s) = w # Fields s"
  using assms fields_runes_word [of w "[]" "[]"] fields_runes_word [of w "SP # s" "[]"]
  by (simp_all add: Fields_def plain_word_def)

lemma Fields_Nil [simp]: "Fields [] = []"
  by (simp add: Fields_def)

lemma Fields_SP [simp]: "Fields (SP # s) = Fields s"
  by (simp add: Fields_def)

lemma Fields_Join: "list_all plain_word ws \<Longrightarrow> Fields (Join ws [SP]) = ws"
proof (induction ws)
  case (Cons w ws)
  then show ?case by (cases ws) (simp_all add: Fields_word)
qed simp

section \<open>Package net/netip\<close>

datatype ip_family = Is4 | Is6

text \<open>\<open>parseIPv4Fields\<close>: four decimal octets, no leading zero, each at most 255. The flag says
  that the previous octet was a dot, or that there was none.\<close>

fun parseIPv4Fields :: "bytes \<Rightarrow> bool \<Rightarrow> nat \<Rightarrow> nat \<Rightarrow> nat \<Rightarrow> bool" where
  "parseIPv4Fields [] dot v pos digLen = (3 \<le> pos)"
| "parseIPv4Fields (c # cs) dot v pos digLen =
     (if is_digit c then
        (if digLen = 1 \<and> v = 0 then False
         else
           let v' = v * 10 + digit_val c in
           if v' > 255 then False else parseIPv4Fields cs False v' pos (digLen + 1))
      else if c = CHR ''.'' then
        (if dot \<or> cs = [] then False
         else if pos = 3 then False
         else parseIPv4Fields cs True 0 (pos + 1) 0)
      else False)"

definition is_hex :: "char \<Rightarrow> bool" where
  "is_hex c \<longleftrightarrow> is_digit c \<or> (97 \<le> byte c \<and> byte c \<le> 102) \<or> (65 \<le> byte c \<and> byte c \<le> 70)"

definition ipv6_end :: "nat \<Rightarrow> bool \<Rightarrow> bytes \<Rightarrow> bool" where
  "ipv6_end i ell s \<longleftrightarrow> s = [] \<and> (if i < 16 then ell else \<not> ell)"

text \<open>The group loop of \<open>parseIPv6\<close>: \<open>i\<close> octets are filled, \<open>ell\<close> says whether an ellipsis was
  seen, \<open>s\<close> is what is left.\<close>

function ipv6_loop :: "nat \<Rightarrow> bool \<Rightarrow> bytes \<Rightarrow> bool" where
  "ipv6_loop i ell s =
     (if 16 \<le> i then ipv6_end i ell s
      else
        let off = length (takeWhile is_hex s); r = drop off s in
        if off = 0 \<or> 4 < off then False
        else
          (case r of
             [] \<Rightarrow> ipv6_end (i + 2) ell []
           | c # s1 \<Rightarrow>
               if c = CHR ''.'' then
                 (if \<not> ell \<and> i \<noteq> 12 then False
                  else if 16 < i + 4 then False
                  else parseIPv4Fields s True 0 0 0 \<and> ipv6_end (i + 4) ell [])
               else if c \<noteq> CHR '':'' then False
               else
                 (case s1 of
                    [] \<Rightarrow> False
                  | d # s2 \<Rightarrow>
                      if d = CHR '':'' then
                        (if ell then False
                         else if s2 = [] then ipv6_end (i + 2) True []
                         else ipv6_loop (i + 2) True s2)
                      else ipv6_loop (i + 2) ell s1)))"
  by pat_completeness auto
termination
  by (relation "measure (\<lambda>(i, ell, s). 16 - i)") auto

declare ipv6_loop.simps [simp del]

definition parseIPv6 :: "bytes \<Rightarrow> bool" where
  "parseIPv6 s0 =
     (let (s, zone, hasZone) = Cut s0 (CHR ''%'') in
      if hasZone \<and> zone = [] then False
      else if HasPrefix s ''::'' then
        (let s1 = drop 2 s in if s1 = [] then True else ipv6_loop 0 True s1)
      else ipv6_loop 0 False s)"

text \<open>\<open>netip.ParseAddr\<close>: the first dot, colon or percent sign decides the family.\<close>

definition ParseAddr :: "bytes \<Rightarrow> ip_family option" where
  "ParseAddr s =
     (case dropWhile (\<lambda>c. c \<noteq> CHR ''.'' \<and> c \<noteq> CHR '':'' \<and> c \<noteq> CHR ''%'') s of
        [] \<Rightarrow> None
      | c # _ \<Rightarrow>
          if c = CHR ''.'' then (if parseIPv4Fields s True 0 0 0 then Some Is4 else None)
          else if c = CHR '':'' then (if parseIPv6 s then Some Is6 else None)
          else None)"

end
