(* ===== verification/Wire_Reader.thy ===== *)
theory Wire_Reader
  imports Go_Unicode
begin

text \<open>
  The byte source of the wire codec: \<open>smtpwire.LineReader\<close> (src/internal/smtpwire/reply.go), the
  limits that bound every accumulation, and the error values of the package.

  A \<open>LineReader\<close> wraps a \<open>bufio.Reader\<close> over a connection. Its state is the octets already
  prefetched (\<open>lr_buf\<close>), what each further \<open>Read\<close> of the connection will deliver (\<open>lr_src\<close>, one
  element per \<open>Read\<close>) and the error with which the connection ends (\<open>lr_fin\<close>). Where the network
  cuts the stream is thus part of the state, so that \<open>Buffered\<close> and \<open>DiscardBuffered\<close> mean what
  they mean in the code, and it is a theorem, not an assumption, that no decoder's result depends
  on it (locale \<open>chunk_blind\<close>).
\<close>

section \<open>Errors\<close>

datatype io_error = EOF | ErrUnexpectedEOF | IOError nat

datatype wire_error =
    IO io_error
  | ErrReplyLineTooLong | ErrTooManyReplyLines | ErrReplyTooLarge | ErrReplyLineTooShort
  | ErrReplyCodeSyntax | ErrReplyCodeMismatch
  | ErrCommandLineTooLong | ErrCommandBareLF | ErrCommandEmpty | ErrCommandVerbSyntax
  | ErrCommandArgumentControl
  | ErrInvalidCommandToken | ErrEmptyKeyword | ErrInvalidKeyword | ErrInvalidParamValue
  | ErrXtextTruncatedEscape | ErrXtextInvalidEscape | ErrXtextInvalidChar
  | ErrReplyEncodeCode | ErrReplyEncodeText | ErrEnhancedCodeSyntax | ErrEnhancedClassMismatch
  | ErrEHLOEmpty | ErrEHLOEmptyKeyword | ErrHelloVerb | ErrHelloArgument | ErrEHLOEncode
  | ErrBDATChunkTooLarge | ErrBDATSizeOverflow | ErrBDATShortSource | ErrBDATCommandSyntax
  | ErrMalformedTerminator | ErrBareLFTerminator | ErrTruncatedDot io_error
  | ErrPathPrefix | ErrPathSyntax | ErrPathTooLong | ErrPathUTF8Required | ErrNullForwardPath
  | ErrPathParameter
  | ErrReceivedField | ErrReceivedState

section \<open>Limits\<close>

record limits =
  MaxReplyLineLength :: int
  MaxReplyLines :: int
  MaxReplySize :: int
  MaxBDATChunkSize :: int
  MaxCommandLineLength :: int
  MaxSASLResponseLength :: int

definition DefaultLimits :: limits where
  "DefaultLimits =
     \<lparr>MaxReplyLineLength = 8192, MaxReplyLines = 1000, MaxReplySize = 1048576,
      MaxBDATChunkSize = 67108864, MaxCommandLineLength = 4096, MaxSASLResponseLength = 32768\<rparr>"

definition withDefaults :: "limits \<Rightarrow> limits" where
  "withDefaults l =
     \<lparr>MaxReplyLineLength =
        (if MaxReplyLineLength l \<le> 0 then MaxReplyLineLength DefaultLimits else MaxReplyLineLength l),
      MaxReplyLines =
        (if MaxReplyLines l \<le> 0 then MaxReplyLines DefaultLimits else MaxReplyLines l),
      MaxReplySize =
        (if MaxReplySize l \<le> 0 then MaxReplySize DefaultLimits else MaxReplySize l),
      MaxBDATChunkSize =
        (if MaxBDATChunkSize l \<le> 0 then MaxBDATChunkSize DefaultLimits else MaxBDATChunkSize l),
      MaxCommandLineLength =
        (if MaxCommandLineLength l \<le> 0 then MaxCommandLineLength DefaultLimits else MaxCommandLineLength l),
      MaxSASLResponseLength =
        (if MaxSASLResponseLength l \<le> 0 then MaxSASLResponseLength DefaultLimits
         else MaxSASLResponseLength l)\<rparr>"

lemma withDefaults_pos [simp]:
  "0 < MaxReplyLineLength (withDefaults l)" "0 < MaxReplyLines (withDefaults l)"
  "0 < MaxReplySize (withDefaults l)" "0 < MaxBDATChunkSize (withDefaults l)"
  "0 < MaxCommandLineLength (withDefaults l)" "0 < MaxSASLResponseLength (withDefaults l)"
  by (simp_all add: withDefaults_def DefaultLimits_def)

lemma withDefaults_idem [simp]: "withDefaults (withDefaults l) = withDefaults l"
  by (simp add: withDefaults_def DefaultLimits_def)

section \<open>LineReader\<close>

record line_reader =
  lr_buf :: bytes
  lr_src :: "bytes list"
  lr_fin :: io_error

text \<open>Everything the reader has yet to deliver, wherever the network cuts it.\<close>

definition lr_stream :: "line_reader \<Rightarrow> bytes" where
  "lr_stream lr = lr_buf lr @ concat (lr_src lr)"

definition NewLineReader :: "bytes list \<Rightarrow> io_error \<Rightarrow> line_reader" where
  "NewLineReader src fin = \<lparr>lr_buf = [], lr_src = src, lr_fin = fin\<rparr>"

text \<open>\<open>bufio.Reader.ReadByte\<close>: from the buffer, or from the next non-empty \<open>Read\<close>.\<close>

definition ReadByte :: "line_reader \<Rightarrow> (io_error + char) \<times> line_reader" where
  "ReadByte lr =
     (case lr_buf lr of
        c # cs \<Rightarrow> (Inr c, lr\<lparr>lr_buf := cs\<rparr>)
      | [] \<Rightarrow>
          (case dropWhile (\<lambda>ch. ch = []) (lr_src lr) of
             [] \<Rightarrow> (Inl (lr_fin lr), lr\<lparr>lr_src := []\<rparr>)
           | ch # chs \<Rightarrow> (Inr (hd ch), lr\<lparr>lr_buf := tl ch, lr_src := chs\<rparr>)))"

text \<open>\<open>bufio.Reader.Peek(n)\<close>: reads ahead until \<open>n\<close> octets are buffered, consuming none.\<close>

fun fill_to :: "nat \<Rightarrow> bytes \<Rightarrow> bytes list \<Rightarrow> bytes \<times> bytes list" where
  "fill_to n buf [] = (buf, [])"
| "fill_to n buf (ch # chs) = (if n \<le> length buf then (buf, ch # chs) else fill_to n (buf @ ch) chs)"

definition Peek :: "nat \<Rightarrow> line_reader \<Rightarrow> (io_error + bytes) \<times> line_reader" where
  "Peek n lr =
     (let (buf, src) = fill_to n (lr_buf lr) (lr_src lr); lr' = lr\<lparr>lr_buf := buf, lr_src := src\<rparr> in
      (if n \<le> length buf then Inr (take n buf) else Inl (lr_fin lr), lr'))"

definition Buffered :: "line_reader \<Rightarrow> nat" where
  "Buffered lr = length (lr_buf lr)"

text \<open>\<open>DiscardBuffered\<close> drops what is prefetched and never touches the connection.\<close>

definition DiscardBuffered :: "line_reader \<Rightarrow> nat \<times> line_reader" where
  "DiscardBuffered lr = (Buffered lr, lr\<lparr>lr_buf := []\<rparr>)"

definition normalizeReadErr :: "io_error \<Rightarrow> io_error" where
  "normalizeReadErr e = (if e = EOF then ErrUnexpectedEOF else e)"

text \<open>\<open>setDeadline\<close> acts on the connection's clock, outside the model: its outcome is the
  argument \<open>dl\<close> of the operations that call it, \<open>None\<close> where it succeeded.\<close>

definition setDeadline :: "io_error option \<Rightarrow> wire_error option" where
  "setDeadline dl = map_option IO dl"

subsection \<open>Reader operations on the remaining stream\<close>

lemma concat_dropWhile_Nil: "concat (dropWhile (\<lambda>ch. ch = []) xs) = concat xs"
  by (induction xs) auto

lemma dropWhile_Nil_hd: "dropWhile (\<lambda>ch. ch = []) xs = ch # chs \<Longrightarrow> ch \<noteq> []"
  by (induction xs) (auto split: if_splits)

lemma ReadByte_cases:
  obtains (ended) lr' where "lr_stream lr = []" "ReadByte lr = (Inl (lr_fin lr), lr')"
    "lr_stream lr' = []" "lr_fin lr' = lr_fin lr"
  | (octet) c lr' where "lr_stream lr = c # lr_stream lr'" "ReadByte lr = (Inr c, lr')"
    "lr_fin lr' = lr_fin lr"
proof (cases "lr_buf lr")
  case (Cons c cs)
  show ?thesis
    by (rule octet [of c "lr\<lparr>lr_buf := cs\<rparr>"]) (simp_all add: Cons ReadByte_def lr_stream_def)
next
  case Nil
  show ?thesis
  proof (cases "dropWhile (\<lambda>ch. ch = []) (lr_src lr)")
    case src: Nil
    have "concat (lr_src lr) = []"
      using concat_dropWhile_Nil [of "lr_src lr"] src by simp
    then show ?thesis
      by (intro ended [of "lr\<lparr>lr_src := []\<rparr>"]) (simp_all add: Nil src ReadByte_def lr_stream_def)
  next
    case (Cons ch chs)
    have ne: "ch \<noteq> []" by (rule dropWhile_Nil_hd [OF Cons])
    have "concat (lr_src lr) = ch @ concat chs"
      using concat_dropWhile_Nil [of "lr_src lr"] Cons by simp
    with ne Nil Cons show ?thesis
      by (intro octet [of "hd ch" "lr\<lparr>lr_buf := tl ch, lr_src := chs\<rparr>"])
        (simp_all add: ReadByte_def lr_stream_def)
  qed
qed

lemma ReadByte_shorter [termination_simp]:
  "(Inr c, lr') = ReadByte lr \<Longrightarrow> length (lr_stream lr') < length (lr_stream lr)"
  by (cases rule: ReadByte_cases [of lr]) auto

lemma ReadByte_stream_Cons:
  assumes "lr_stream lr = c # cs"
  obtains lr' where "ReadByte lr = (Inr c, lr')" "lr_stream lr' = cs" "lr_fin lr' = lr_fin lr"
  using assms by (cases rule: ReadByte_cases [of lr]) auto

lemma ReadByte_stream_Nil:
  assumes "lr_stream lr = []"
  obtains lr' where "ReadByte lr = (Inl (lr_fin lr), lr')" "lr_stream lr' = []" "lr_fin lr' = lr_fin lr"
  using assms by (cases rule: ReadByte_cases [of lr]) auto

lemma fill_to_concat: "fill_to n buf chs = (buf', chs') \<Longrightarrow> buf' @ concat chs' = buf @ concat chs"
  by (induction n buf chs rule: fill_to.induct) (auto split: if_splits)

lemma fill_to_enough:
  "fill_to n buf chs = (buf', chs') \<Longrightarrow> n \<le> length buf' \<longleftrightarrow> n \<le> length (buf @ concat chs)"
proof (induction n buf chs rule: fill_to.induct)
  case (2 n buf ch chs)
  then show ?case by (cases "n \<le> length buf") auto
qed auto

lemma Peek_stream:
  obtains lr' where
    "Peek n lr = (if n \<le> length (lr_stream lr) then Inr (take n (lr_stream lr)) else Inl (lr_fin lr), lr')"
    "lr_stream lr' = lr_stream lr" "lr_fin lr' = lr_fin lr"
proof -
  obtain buf src where f: "fill_to n (lr_buf lr) (lr_src lr) = (buf, src)"
    by (cases "fill_to n (lr_buf lr) (lr_src lr)")
  from fill_to_concat [OF f] have st: "buf @ concat src = lr_stream lr"
    by (simp add: lr_stream_def)
  have en: "n \<le> length buf \<longleftrightarrow> n \<le> length (lr_stream lr)"
    using fill_to_enough [OF f] by (simp add: lr_stream_def)
  have tk: "n \<le> length buf \<Longrightarrow> take n buf = take n (lr_stream lr)"
    using st by (metis take_append append_Nil2 diff_is_0_eq take0 take_0 take_eq_Nil)
  show ?thesis
    by (rule that [of "lr\<lparr>lr_buf := buf, lr_src := src\<rparr>"])
      (use f st en tk in \<open>auto simp: Peek_def lr_stream_def\<close>)
qed

lemma DiscardBuffered_stream:
  "DiscardBuffered lr = (n, lr') \<Longrightarrow> lr_stream lr = lr_buf lr @ lr_stream lr' \<and> n = length (lr_buf lr)"
  by (auto simp: DiscardBuffered_def Buffered_def lr_stream_def)

subsection \<open>Independence from the network's segmentation\<close>

text \<open>Two readers that will deliver the same octets and end the same way.\<close>

definition same_input :: "line_reader \<Rightarrow> line_reader \<Rightarrow> bool" where
  "same_input a b \<longleftrightarrow> lr_stream a = lr_stream b \<and> lr_fin a = lr_fin b"

text \<open>A decoder is blind to segmentation when it returns the same on both and leaves them alike.\<close>

definition same_outcome :: "'r \<times> line_reader \<Rightarrow> 'r \<times> line_reader \<Rightarrow> bool" where
  "same_outcome p q \<longleftrightarrow> fst p = fst q \<and> same_input (snd p) (snd q)"

lemma same_outcome_Pair [simp]: "same_outcome (r, a) (r', b) \<longleftrightarrow> r = r' \<and> same_input a b"
  by (simp add: same_outcome_def)

lemma same_input_refl [simp]: "same_input a a"
  by (simp add: same_input_def)

lemma same_input_ReadByte: "same_input a b \<Longrightarrow> same_outcome (ReadByte a) (ReadByte b)"
  by (cases rule: ReadByte_cases [of a]; cases rule: ReadByte_cases [of b])
    (auto simp: same_input_def)

lemma same_input_Peek:
  assumes "same_input a b"
  shows "same_outcome (Peek n a) (Peek n b)"
proof -
  obtain a' where "Peek n a = (if n \<le> length (lr_stream a) then Inr (take n (lr_stream a)) else Inl (lr_fin a), a')"
    "lr_stream a' = lr_stream a" "lr_fin a' = lr_fin a"
    by (rule Peek_stream)
  moreover obtain b' where "Peek n b = (if n \<le> length (lr_stream b) then Inr (take n (lr_stream b)) else Inl (lr_fin b), b')"
    "lr_stream b' = lr_stream b" "lr_fin b' = lr_fin b"
    by (rule Peek_stream)
  ultimately show ?thesis
    using assms by (simp add: same_input_def)
qed

locale chunk_blind =
  fixes rd :: "line_reader \<Rightarrow> 'r \<times> line_reader"
  assumes rd_cong: "same_input a b \<Longrightarrow> same_outcome (rd a) (rd b)"
begin

text \<open>The reader that has all input prefetched stands for every segmentation of it.\<close>

lemma rd_flat:
  "same_outcome (rd lr) (rd \<lparr>lr_buf = lr_stream lr, lr_src = [], lr_fin = lr_fin lr\<rparr>)"
  by (rule rd_cong) (simp add: same_input_def lr_stream_def)

lemma rd_segmentation:
  assumes "concat src = concat src'"
  shows "fst (rd (NewLineReader src fin)) = fst (rd (NewLineReader src' fin))"
proof -
  have "same_input (NewLineReader src fin) (NewLineReader src' fin)"
    using assms by (simp add: same_input_def lr_stream_def NewLineReader_def)
  from rd_cong [OF this] show ?thesis by (simp add: same_outcome_def)
qed

end

interpretation read_byte: chunk_blind ReadByte
  by unfold_locales (rule same_input_ReadByte)

end
