(* ===== verification/Wire_Reply.thy ===== *)
theory Wire_Reply
  imports Wire_Reader
begin

text \<open>
  Reply framing in both directions: the reader of src/internal/smtpwire/reply.go, the encoder of
  reply_encoder.go and the enhanced status codes of enhanced.go. An encoder that validates its
  input and then makes one \<open>io.WriteString\<close> call is a function into \<open>wire_error + bytes\<close>: the
  octets of that call, or the error with which nothing is written.
\<close>

section \<open>Reading a reply\<close>

record reply =
  rep_Code :: int
  rep_Lines :: "bytes list"
  rep_Text :: bytes

definition chomp :: "bytes \<Rightarrow> bytes" where
  "chomp buf = (if buf \<noteq> [] \<and> last buf = CR then butlast buf else buf)"

function readLine :: "int \<Rightarrow> bytes \<Rightarrow> line_reader \<Rightarrow> (wire_error + bytes) \<times> line_reader" where
  "readLine maxLen buf lr =
     (case ReadByte lr of
        (Inl err, lr') \<Rightarrow> (Inl (IO (if buf = [] then err else normalizeReadErr err)), lr')
      | (Inr b, lr') \<Rightarrow>
          (if b = LF then (Inr (chomp buf), lr')
           else if int (length buf) \<ge> maxLen then (Inl ErrReplyLineTooLong, lr')
           else readLine maxLen (buf @ [b]) lr'))"
  by pat_completeness auto
termination
  by (relation "measure (\<lambda>(m, buf, lr). length (lr_stream lr))") (auto intro: ReadByte_shorter)

declare readLine.simps [simp del]

definition parseReplyLine :: "bytes \<Rightarrow> wire_error + (int \<times> bool \<times> bytes)" where
  "parseReplyLine line =
     (case line of
        d0 # d1 # d2 # rest \<Rightarrow>
          (if byte d0 < 50 \<or> byte d0 > 53 \<or> byte d1 < 48 \<or> byte d1 > 53 \<or> byte d2 < 48 \<or> byte d2 > 57
           then Inl ErrReplyCodeSyntax
           else
             let code = (int (byte d0) - 48) * 100 + (int (byte d1) - 48) * 10 + (int (byte d2) - 48) in
             case rest of
               [] \<Rightarrow> Inr (code, False, [])
             | c # text \<Rightarrow>
                 if c = CHR ''-'' then Inr (code, True, text)
                 else if c = SP then Inr (code, False, text)
                 else Inr (code, False, rest))
      | _ \<Rightarrow> Inl ErrReplyLineTooShort)"

lemma readLine_shorter:
  "readLine m buf lr = (Inr l, lr') \<Longrightarrow> length (lr_stream lr') < length (lr_stream lr)"
proof (induction m buf lr arbitrary: l lr' rule: readLine.induct)
  case (1 m buf lr)
  show ?case
  proof (cases rule: ReadByte_cases [of lr])
    case (ended lr1)
    with "1.prems" show ?thesis by (simp add: readLine.simps [of m buf lr])
  next
    case (octet c lr1)
    with 1 show ?thesis
      by (fastforce simp: readLine.simps [of m buf lr] split: if_splits)
  qed
qed

text \<open>The loop of \<open>ReadReply\<close>: the code of the first line (\<open>None\<close> before it), the lines so far
  and their cumulative size.\<close>

function readReplyLoop ::
  "limits \<Rightarrow> int option \<Rightarrow> bytes list \<Rightarrow> int \<Rightarrow> line_reader \<Rightarrow> (wire_error + reply) \<times> line_reader" where
  "readReplyLoop lim code lines totalSize lr =
     (case readLine (int64 (MaxReplyLineLength lim + 5)) [] lr of
        (Inl err, lr') \<Rightarrow>
          (if err = IO EOF \<and> lines \<noteq> [] then (Inl (IO ErrUnexpectedEOF), lr') else (Inl err, lr'))
      | (Inr raw, lr') \<Rightarrow>
          (case parseReplyLine raw of
             Inl err \<Rightarrow> (Inl err, lr')
           | Inr (lineCode, cont, text) \<Rightarrow>
               if int (length text) > MaxReplyLineLength lim then (Inl ErrReplyLineTooLong, lr')
               else if code \<noteq> None \<and> code \<noteq> Some lineCode then (Inl ErrReplyCodeMismatch, lr')
               else
                 let totalSize' = totalSize + int (length text); lines' = lines @ [text] in
                 if totalSize' > MaxReplySize lim then (Inl ErrReplyTooLarge, lr')
                 else if int (length lines') > MaxReplyLines lim then (Inl ErrTooManyReplyLines, lr')
                 else if \<not> cont
                 then (Inr \<lparr>rep_Code = lineCode, rep_Lines = lines', rep_Text = Join lines' [LF]\<rparr>, lr')
                 else readReplyLoop lim (Some lineCode) lines' totalSize' lr'))"
  by pat_completeness auto
termination
  by (relation "measure (\<lambda>(lim, code, lines, t, lr). length (lr_stream lr))")
    (auto intro: readLine_shorter dest: sym)

declare readReplyLoop.simps [simp del]

definition ReadReply ::
  "io_error option \<Rightarrow> limits \<Rightarrow> line_reader \<Rightarrow> (wire_error + reply) \<times> line_reader" where
  "ReadReply dl lim lr =
     (case setDeadline dl of
        Some err \<Rightarrow> (Inl err, lr)
      | None \<Rightarrow> readReplyLoop (withDefaults lim) None [] 0 lr)"

section \<open>Enhanced status codes\<close>

record wire_enhanced =
  we_Class :: int
  we_Subject :: int
  we_Detail :: int
  we_Raw :: bytes

definition no_enhanced :: wire_enhanced where
  "no_enhanced = \<lparr>we_Class = 0, we_Subject = 0, we_Detail = 0, we_Raw = []\<rparr>"

text \<open>One to three digits from the front; \<open>None\<close> where there is none, or a fourth.\<close>

definition scanUpTo3Digits :: "bytes \<Rightarrow> (nat \<times> nat) option" where
  "scanUpTo3Digits s =
     (let ds = takeWhile is_digit (take 3 s); i = length ds in
      if i = 0 then None
      else if i < length s \<and> is_digit (s ! i) then None
      else Some (decimal ds, i))"

definition ExtractEnhancedCode :: "bytes \<Rightarrow> wire_enhanced \<times> bytes \<times> bool" where
  "ExtractEnhancedCode text =
     (let none = (no_enhanced, text, False) in
      case text of
        c # d # s1 \<Rightarrow>
          (if c \<notin> {CHR ''2'', CHR ''4'', CHR ''5''} then none
           else if d \<noteq> CHR ''.'' then none
           else
             case scanUpTo3Digits s1 of
               None \<Rightarrow> none
             | Some (subject, adv) \<Rightarrow>
                 (case drop adv s1 of
                    [] \<Rightarrow> none
                  | e # s2 \<Rightarrow>
                      if e \<noteq> CHR ''.'' then none
                      else
                        case scanUpTo3Digits s2 of
                          None \<Rightarrow> none
                        | Some (detail, adv2) \<Rightarrow>
                            let i = 2 + adv + 1 + adv2;
                                code = \<lparr>we_Class = int (digit_val c), we_Subject = int subject,
                                        we_Detail = int detail, we_Raw = take i text\<rparr> in
                            case drop adv2 s2 of
                              [] \<Rightarrow> (code, [], True)
                            | f # rest \<Rightarrow> if f = SP then (code, rest, True) else none))
      | _ \<Rightarrow> none)"

section \<open>Writing a reply\<close>

datatype ReplyContext = ReplyContextCommand | ReplyContextGreeting | ReplyContextHello

record reply_options =
  ro_Enhanced :: "wire_enhanced option"
  ro_Context :: ReplyContext

definition validReplyCode :: "int \<Rightarrow> bool" where
  "validReplyCode code \<longleftrightarrow> 200 \<le> code \<and> code \<le> 559 \<and> (code div 10) mod 10 \<le> 5"

definition formatEnhancedCode :: "int \<Rightarrow> wire_enhanced \<Rightarrow> wire_error + bytes" where
  "formatEnhancedCode replyCode c =
     (if we_Class c \<notin> {2, 4, 5} \<or> we_Subject c < 0 \<or> we_Subject c > 999 \<or> we_Detail c < 0 \<or> we_Detail c > 999
      then Inl ErrEnhancedCodeSyntax
      else if replyCode div 100 \<noteq> we_Class c then Inl ErrEnhancedClassMismatch
      else Inr (Itoa (we_Class c) @ ''.'' @ Itoa (we_Subject c) @ ''.'' @ Itoa (we_Detail c)))"

definition prefixLine :: "bytes \<Rightarrow> bytes \<Rightarrow> bytes" where
  "prefixLine p line = (if line = [] then p else p @ [SP] @ line)"

fun replyLines :: "int \<Rightarrow> bytes list \<Rightarrow> bytes" where
  "replyLines code [] = []"
| "replyLines code [l] = Itoa code @ [SP] @ l @ CRLF"
| "replyLines code (l # l' # ls) = Itoa code @ ''-'' @ l @ CRLF @ replyLines code (l' # ls)"

definition EncodeReply :: "reply \<Rightarrow> reply_options \<Rightarrow> wire_error + bytes" where
  "EncodeReply r opts =
     (if \<not> validReplyCode (rep_Code r) then Inl ErrReplyEncodeCode
      else
        let lines = (if rep_Lines r = [] then [rep_Text r] else rep_Lines r) in
        if list_ex (\<lambda>l. ContainsAny l [CR, LF, NUL]) lines then Inl ErrReplyEncodeText
        else
          case ro_Enhanced opts of
            Some e \<Rightarrow>
              (if ro_Context opts = ReplyContextCommand
               then bind_res (formatEnhancedCode (rep_Code r) e)
                      (\<lambda>p. Inr (replyLines (rep_Code r) (map (prefixLine p) lines)))
               else Inr (replyLines (rep_Code r) lines))
          | None \<Rightarrow> Inr (replyLines (rep_Code r) lines))"

section \<open>Lines on the stream\<close>

text \<open>\<open>readLine\<close> as a relation between the stream and the line it delivers: it succeeds exactly on
  a line that ends in LF and fits, and leaves what follows.\<close>

lemma readLine_ok:
  assumes "lr_stream lr = l @ LF # rest" "LF \<notin> set l" "int (length buf + length l) \<le> m"
  shows "\<exists>lr'. readLine m buf lr = (Inr (chomp (buf @ l)), lr') \<and> lr_stream lr' = rest \<and> lr_fin lr' = lr_fin lr"
  using assms
proof (induction l arbitrary: buf lr)
  case Nil
  then obtain lr' where "ReadByte lr = (Inr LF, lr')" "lr_stream lr' = rest" "lr_fin lr' = lr_fin lr"
    by (auto elim: ReadByte_stream_Cons)
  then show ?case by (simp add: readLine.simps [of m buf lr])
next
  case (Cons c l)
  then obtain lr1 where r: "ReadByte lr = (Inr c, lr1)" "lr_stream lr1 = l @ LF # rest" "lr_fin lr1 = lr_fin lr"
    by (auto elim: ReadByte_stream_Cons)
  have "\<exists>lr'. readLine m (buf @ [c]) lr1 = (Inr (chomp ((buf @ [c]) @ l)), lr') \<and>
      lr_stream lr' = rest \<and> lr_fin lr' = lr_fin lr1"
    by (rule Cons.IH) (use Cons.prems r in auto)
  with r Cons.prems show ?case by (auto simp: readLine.simps [of m buf lr])
qed

lemma readLine_inv:
  assumes "readLine m buf lr = (Inr line, lr')"
  shows "\<exists>l. lr_stream lr = l @ LF # lr_stream lr' \<and> LF \<notin> set l \<and> line = chomp (buf @ l) \<and>
    (l = [] \<or> int (length buf + length l) \<le> m) \<and> lr_fin lr' = lr_fin lr"
  using assms
proof (induction m buf lr rule: readLine.induct)
  case (1 m buf lr)
  show ?case
  proof (cases rule: ReadByte_cases [of lr])
    case (ended lr1)
    with "1.prems" show ?thesis by (simp add: readLine.simps [of m buf lr])
  next
    case (octet c lr1)
    show ?thesis
    proof (cases "c = LF")
      case True
      with octet "1.prems" show ?thesis by (auto simp: readLine.simps [of m buf lr])
    next
      case False
      with octet "1.prems" have lt: "int (length buf) < m" and rl: "readLine m (buf @ [c]) lr1 = (Inr line, lr')"
        by (auto simp: readLine.simps [of m buf lr] split: if_splits)
      from "1.IH" [OF octet(2) [symmetric] refl False _ rl] lt
      obtain l where l: "lr_stream lr1 = l @ LF # lr_stream lr'" "LF \<notin> set l" "line = chomp ((buf @ [c]) @ l)"
        "l = [] \<or> int (length (buf @ [c]) + length l) \<le> m" "lr_fin lr' = lr_fin lr1"
        by auto
      with False octet lt show ?thesis by (intro exI [of _ "c # l"]) auto
    qed
  qed
qed

lemma readLine_cong: "same_input a b \<Longrightarrow> same_outcome (readLine m buf a) (readLine m buf b)"
proof (induction m buf a arbitrary: b rule: readLine.induct)
  case (1 m buf a)
  have "same_outcome (ReadByte a) (ReadByte b)"
    by (rule same_input_ReadByte) (rule "1.prems")
  then obtain r a' b' where r: "ReadByte a = (r, a')" "ReadByte b = (r, b')" "same_input a' b'"
    by (cases "ReadByte a"; cases "ReadByte b") auto
  show ?case
  proof (cases r)
    case (Inl e)
    with r show ?thesis by (simp add: readLine.simps [of m buf])
  next
    case (Inr c)
    with r "1.IH" show ?thesis by (simp add: readLine.simps [of m buf])
  qed
qed

lemma readReplyLoop_cong:
  "same_input a b \<Longrightarrow> same_outcome (readReplyLoop lim code ls t a) (readReplyLoop lim code ls t b)"
proof (induction lim code ls t a arbitrary: b rule: readReplyLoop.induct)
  case (1 lim code ls t a)
  have "same_outcome (readLine (int64 (MaxReplyLineLength lim + 5)) [] a) (readLine (int64 (MaxReplyLineLength lim + 5)) [] b)"
    by (rule readLine_cong) (rule "1.prems")
  then obtain r a' b' where r: "readLine (int64 (MaxReplyLineLength lim + 5)) [] a = (r, a')"
    "readLine (int64 (MaxReplyLineLength lim + 5)) [] b = (r, b')" "same_input a' b'"
    by (cases "readLine (int64 (MaxReplyLineLength lim + 5)) [] a";
        cases "readLine (int64 (MaxReplyLineLength lim + 5)) [] b") auto
  show ?case
  proof (cases r)
    case (Inl e)
    with r show ?thesis by (simp add: readReplyLoop.simps [of lim code ls t])
  next
    case (Inr raw)
    show ?thesis
    proof (cases "parseReplyLine raw")
      case (Inl e)
      with r Inr show ?thesis by (simp add: readReplyLoop.simps [of lim code ls t])
    next
      case p: (Inr q)
      obtain lc cont tx where q: "q = (lc, cont, tx)" by (cases q)
      note IH = "1.IH" [OF r(1) [unfolded Inr, symmetric] refl p [unfolded q] refl refl _ _ refl refl]
      show ?thesis
        using r Inr p q IH by (auto simp: readReplyLoop.simps [of lim code ls t] Let_def)
    qed
  qed
qed

lemma ReadReply_cong: "same_input a b \<Longrightarrow> same_outcome (ReadReply dl lim a) (ReadReply dl lim b)"
  by (auto simp: ReadReply_def readReplyLoop_cong split: option.splits)

interpretation read_reply: chunk_blind "ReadReply dl lim"
  by unfold_locales (rule ReadReply_cong)

section \<open>Soundness of ReadReply\<close>

text \<open>The wire form of a reply with these lines: every line carries the same code, all but the
  last are marked as continued.\<close>

fun reply_on_wire :: "int \<Rightarrow> bytes list \<Rightarrow> bytes list \<Rightarrow> bool" where
  "reply_on_wire code [raw] [t] \<longleftrightarrow> parseReplyLine (chomp raw) = Inr (code, False, t)"
| "reply_on_wire code (raw # raws) (t # ts) \<longleftrightarrow>
     parseReplyLine (chomp raw) = Inr (code, True, t) \<and> reply_on_wire code raws ts"
| "reply_on_wire code _ _ \<longleftrightarrow> False"

definition lines_on_stream :: "bytes list \<Rightarrow> bytes" where
  "lines_on_stream raws = concat (map (\<lambda>r. r @ [LF]) raws)"

lemma lines_on_stream_simps [simp]:
  "lines_on_stream [] = []" "lines_on_stream (r # rs) = r @ LF # lines_on_stream rs"
  by (simp_all add: lines_on_stream_def)

definition reply_within :: "limits \<Rightarrow> reply \<Rightarrow> bool" where
  "reply_within lim r \<longleftrightarrow>
     int (length (rep_Lines r)) \<le> MaxReplyLines lim \<and>
     int (sum_list (map length (rep_Lines r))) \<le> MaxReplySize lim \<and>
     list_all (\<lambda>l. int (length l) \<le> MaxReplyLineLength lim) (rep_Lines r)"

lemma readReplyLoop_sound:
  assumes "readReplyLoop lim code ls t lr = (Inr r, lr')"
    and "t = int (sum_list (map length ls))"
    and "list_all (\<lambda>l. int (length l) \<le> MaxReplyLineLength lim) ls"
  shows "\<exists>raws ts. lr_stream lr = lines_on_stream raws @ lr_stream lr' \<and> list_all (\<lambda>x. LF \<notin> set x) raws \<and>
    reply_on_wire (rep_Code r) raws ts \<and> rep_Lines r = ls @ ts \<and> rep_Text r = Join (rep_Lines r) [LF] \<and>
    (code = None \<or> code = Some (rep_Code r)) \<and> reply_within lim r"
  using assms
proof (induction lim code ls t lr rule: readReplyLoop.induct)
  case (1 lim code ls t lr)
  let ?m = "int64 (MaxReplyLineLength lim + 5)"
  from "1.prems"(1) obtain raw lr1 where rl: "readLine ?m [] lr = (Inr raw, lr1)"
    by (auto simp: readReplyLoop.simps [of lim code ls t lr] split: prod.splits sum.splits if_splits)
  with "1.prems"(1) obtain lc cont tx where p: "parseReplyLine raw = Inr (lc, cont, tx)"
    by (auto simp: readReplyLoop.simps [of lim code ls t lr] split: sum.splits)
  let ?t = "t + int (length tx)" and ?ls = "ls @ [tx]"
  from "1.prems"(1) rl p
  have c: "\<not> int (length tx) > MaxReplyLineLength lim" "\<not> (code \<noteq> None \<and> code \<noteq> Some lc)"
    "\<not> ?t > MaxReplySize lim" "\<not> int (length ?ls) > MaxReplyLines lim"
    and res: "(if \<not> cont then (Inr \<lparr>rep_Code = lc, rep_Lines = ?ls, rep_Text = Join ?ls [LF]\<rparr>, lr1)
       else readReplyLoop lim (Some lc) ?ls ?t lr1) = (Inr r, lr')"
    by (auto simp: readReplyLoop.simps [of lim code ls t lr] Let_def split: if_splits)
  obtain l where l: "lr_stream lr = l @ LF # lr_stream lr1" "LF \<notin> set l" "raw = chomp l"
    using readLine_inv [OF rl] by auto
  show ?case
  proof (cases cont)
    case False
    with res have r: "r = \<lparr>rep_Code = lc, rep_Lines = ?ls, rep_Text = Join ?ls [LF]\<rparr>" "lr' = lr1"
      by simp_all
    have "reply_within lim r"
      using c r "1.prems"(2,3) by (simp add: reply_within_def)
    moreover have "reply_on_wire (rep_Code r) [l] [tx]"
      using p l r False by simp
    ultimately show ?thesis
      using l r c(2) by (intro exI [of _ "[l]"] exI [of _ "[tx]"]) auto
  next
    case True
    with res have rec: "readReplyLoop lim (Some lc) ?ls ?t lr1 = (Inr r, lr')" by simp
    have "\<exists>raws ts. lr_stream lr1 = lines_on_stream raws @ lr_stream lr' \<and> list_all (\<lambda>x. LF \<notin> set x) raws \<and>
      reply_on_wire (rep_Code r) raws ts \<and> rep_Lines r = ?ls @ ts \<and> rep_Text r = Join (rep_Lines r) [LF] \<and>
      (Some lc = None \<or> Some lc = Some (rep_Code r)) \<and> reply_within lim r"
      by (rule "1.IH" [OF rl [symmetric] refl p refl refl c(1,2) refl refl c(3,4) _ rec])
        (use True c "1.prems"(2,3) in auto)
    then obtain raws ts where rt: "lr_stream lr1 = lines_on_stream raws @ lr_stream lr'"
      "list_all (\<lambda>x. LF \<notin> set x) raws" "reply_on_wire (rep_Code r) raws ts" "rep_Lines r = ?ls @ ts"
      "rep_Text r = Join (rep_Lines r) [LF]" "lc = rep_Code r" "reply_within lim r"
      by auto
    then have "reply_on_wire (rep_Code r) (l # raws) (tx # ts)"
      using p l True by (cases raws; cases ts) auto
    with rt l c(2) show ?thesis
      by (intro exI [of _ "l # raws"] exI [of _ "tx # ts"]) auto
  qed
qed

section \<open>Replies written and read back\<close>

lemma code_digits:
  assumes "validReplyCode code"
  obtains a b c where "code = int (100 * a + 10 * b + c)" "2 \<le> a" "a \<le> 5" "b \<le> 5" "c < 10"
proof -
  define n where "n = nat code"
  have n: "code = int n" "200 \<le> n" "n \<le> 559"
    using assms by (auto simp: n_def validReplyCode_def)
  have "int (n div 10 mod 10) \<le> 5"
    using assms by (simp add: validReplyCode_def n(1) zdiv_int zmod_int)
  then have b: "n div 10 mod 10 \<le> 5"
    by simp
  have "n = 10 * (n div 10) + n mod 10" "n div 10 = 10 * (n div 10 div 10) + n div 10 mod 10"
    by simp_all
  then have "n = 100 * (n div 10 div 10) + 10 * (n div 10 mod 10) + n mod 10"
    by linarith
  moreover have "2 \<le> n div 10 div 10" "n div 10 div 10 \<le> 5"
    using n by simp_all
  ultimately show ?thesis
    using n b that [of "n div 10 div 10" "n div 10 mod 10" "n mod 10"] by simp
qed

lemma Itoa_code:
  assumes "2 \<le> a" "a \<le> 5" "b \<le> 5" "c < 10"
  shows "Itoa (int (100 * a + 10 * b + c)) = [digit_char a, digit_char b, digit_char c]"
proof -
  have "FormatUint (10 * (10 * a + b) + c) = FormatUint (10 * a + b) @ [digit_char c]"
    by (rule FormatUint_snoc) (use assms in auto)
  also have "FormatUint (10 * a + b) = [digit_char a, digit_char b]"
    using assms by (simp only: FormatUint_snoc FormatUint_digit1) simp
  finally have "FormatUint (10 * (10 * a + b) + c) = [digit_char a, digit_char b, digit_char c]"
    by simp
  moreover have "10 * (10 * a + b) + c = 100 * a + 10 * b + c"
    by simp
  ultimately show ?thesis
    by (simp only: Itoa_def nat_int) simp
qed

lemma parseReplyLine_encoded:
  assumes "validReplyCode code"
  shows "parseReplyLine (Itoa code @ ''-'' @ l) = Inr (code, True, l)"
    and "parseReplyLine (Itoa code @ [SP] @ l) = Inr (code, False, l)"
proof -
  obtain a b c where abc: "code = int (100 * a + 10 * b + c)" "2 \<le> a" "a \<le> 5" "b \<le> 5" "c < 10"
    using assms by (rule code_digits)
  then have *: "Itoa code = [digit_char a, digit_char b, digit_char c]"
    by (simp only: Itoa_code)
  show "parseReplyLine (Itoa code @ ''-'' @ l) = Inr (code, True, l)"
    and "parseReplyLine (Itoa code @ [SP] @ l) = Inr (code, False, l)"
    unfolding * using abc by (simp_all add: parseReplyLine_def)
qed

lemma Itoa_code_length:
  assumes "validReplyCode code"
  shows "length (Itoa code) = 3"
  using assms
proof (rule code_digits)
  fix a b c
  assume "code = int (100 * a + 10 * b + c)" "2 \<le> a" "a \<le> 5" "b \<le> 5" "c < 10"
  then have "Itoa code = [digit_char a, digit_char b, digit_char c]"
    by (simp only: Itoa_code)
  then show ?thesis by simp
qed

lemma Itoa_not_CRLF: "c \<in> set (Itoa i) \<Longrightarrow> c \<noteq> LF \<and> c \<noteq> CR \<and> c \<noteq> NUL"
  by (auto simp: Itoa_def is_digit_def dest!: FormatUint_digit split: if_splits)

definition wire_text :: "bytes \<Rightarrow> bool" where
  "wire_text l \<longleftrightarrow> \<not> ContainsAny l [CR, LF, NUL]"

lemma wire_text_iff: "wire_text l \<longleftrightarrow> CR \<notin> set l \<and> LF \<notin> set l \<and> NUL \<notin> set l"
  by (auto simp: wire_text_def ContainsAny_iff)

lemma chomp_CR [simp]: "chomp (l @ [CR]) = l"
  by (simp add: chomp_def)

text \<open>The lines \<open>EncodeReply\<close> puts on the wire, the enhanced code prefixed to each of them.\<close>

definition sent_lines :: "reply \<Rightarrow> reply_options \<Rightarrow> bytes list" where
  "sent_lines r opts =
     (let lines = (if rep_Lines r = [] then [rep_Text r] else rep_Lines r) in
      case ro_Enhanced opts of
        Some e \<Rightarrow>
          (if ro_Context opts = ReplyContextCommand
           then (case formatEnhancedCode (rep_Code r) e of Inr p \<Rightarrow> map (prefixLine p) lines | Inl _ \<Rightarrow> lines)
           else lines)
      | None \<Rightarrow> lines)"

lemma formatEnhancedCode_text: "formatEnhancedCode code e = Inr p \<Longrightarrow> wire_text p"
  by (auto simp: formatEnhancedCode_def wire_text_iff dest: Itoa_not_CRLF split: if_splits)

lemma wire_text_prefixLine: "wire_text p \<Longrightarrow> wire_text l \<Longrightarrow> wire_text (prefixLine p l)"
  by (auto simp: prefixLine_def wire_text_iff)

lemma EncodeReply_Inr:
  assumes "EncodeReply r opts = Inr w"
  shows "validReplyCode (rep_Code r) \<and> w = replyLines (rep_Code r) (sent_lines r opts) \<and>
    sent_lines r opts \<noteq> [] \<and> list_all wire_text (sent_lines r opts)"
proof -
  let ?ls = "if rep_Lines r = [] then [rep_Text r] else rep_Lines r"
  have ok: "validReplyCode (rep_Code r)" "list_all wire_text ?ls" "?ls \<noteq> []"
    using assms by (auto simp: EncodeReply_def wire_text_def list_all_iff list_ex_iff Let_def split: if_splits)
  show ?thesis
  proof (cases "ro_Enhanced opts \<noteq> None \<and> ro_Context opts = ReplyContextCommand")
    case True
    then obtain e where e: "ro_Enhanced opts = Some e" "ro_Context opts = ReplyContextCommand" by auto
    with assms obtain p where p: "formatEnhancedCode (rep_Code r) e = Inr p"
      "w = replyLines (rep_Code r) (map (prefixLine p) ?ls)"
      by (auto simp: EncodeReply_def Let_def bind_res_Inr_iff split: if_splits)
    have "list_all wire_text (map (prefixLine p) ?ls)"
      using ok(2) formatEnhancedCode_text [OF p(1)] wire_text_prefixLine by (auto simp: list_all_iff)
    with e p ok show ?thesis by (simp add: sent_lines_def)
  next
    case False
    with assms ok show ?thesis
      by (auto simp: EncodeReply_def sent_lines_def Let_def split: if_splits option.splits)
  qed
qed

lemma replyLines_Cons:
  "replyLines code (l # ls) =
     Itoa code @ (if ls = [] then [SP] else ''-'') @ l @ CR # LF # replyLines code ls"
  by (cases ls) simp_all

lemma readReplyLoop_replyLines:
  assumes "lr_stream lr = replyLines code new @ rest" "new \<noteq> []" "validReplyCode code" "list_all wire_text new"
    and "pre = None \<or> pre = Some code" "t = int (sum_list (map length ls))"
    and "MaxReplyLineLength lim \<le> MaxInt64 - 5"
    and "reply_within lim \<lparr>rep_Code = code, rep_Lines = ls @ new, rep_Text = tx\<rparr>"
  shows "\<exists>lr'. readReplyLoop lim pre ls t lr =
      (Inr \<lparr>rep_Code = code, rep_Lines = ls @ new, rep_Text = Join (ls @ new) [LF]\<rparr>, lr') \<and>
    lr_stream lr' = rest \<and> lr_fin lr' = lr_fin lr"
  using assms
proof (induction new arbitrary: lr pre ls t)
  case (Cons l new)
  let ?sep = "if new = [] then [SP] else ''-''" and ?m = "int64 (MaxReplyLineLength lim + 5)"
  let ?raw = "Itoa code @ ?sep @ l @ [CR]"
  have lim: "int (length ls) < MaxReplyLines lim" "int (length l) \<le> MaxReplyLineLength lim"
    "t + int (length l) \<le> MaxReplySize lim"
    using Cons.prems(6,8) by (auto simp: reply_within_def)
  have m: "?m = MaxReplyLineLength lim + 5"
    using Cons.prems(7) lim(2) by (intro int64_id) (auto simp: MaxInt64_def)
  have wt: "wire_text l" using Cons.prems(4) by simp
  have stream: "lr_stream lr = ?raw @ LF # (replyLines code new @ rest)"
    using Cons.prems(1) by (simp add: replyLines_Cons)
  have noLF: "LF \<notin> set ?raw"
    using Itoa_not_CRLF wt by (auto simp: wire_text_iff)
  have len: "int (length ([]::bytes) + length ?raw) \<le> ?m"
    using lim(2) Itoa_code_length [OF Cons.prems(3)] by (simp add: m)
  obtain lr1 where r: "readLine ?m [] lr = (Inr (Itoa code @ ?sep @ l), lr1)"
    "lr_stream lr1 = replyLines code new @ rest" "lr_fin lr1 = lr_fin lr"
    using readLine_ok [OF stream noLF len] chomp_CR [of "Itoa code @ ?sep @ l"] by auto
  have p: "parseReplyLine (Itoa code @ ?sep @ l) = Inr (code, new \<noteq> [], l)"
    using parseReplyLine_encoded [OF Cons.prems(3), of l] by simp
  show ?case
  proof (cases "new = []")
    case True
    with r p lim Cons.prems(5) show ?thesis
      by (auto simp: readReplyLoop.simps [of lim pre ls t lr] Let_def)
  next
    case False
    have "\<exists>lr'. readReplyLoop lim (Some code) (ls @ [l]) (t + int (length l)) lr1 =
        (Inr \<lparr>rep_Code = code, rep_Lines = (ls @ [l]) @ new, rep_Text = Join ((ls @ [l]) @ new) [LF]\<rparr>, lr') \<and>
      lr_stream lr' = rest \<and> lr_fin lr' = lr_fin lr1"
      by (rule Cons.IH [OF r(2) False Cons.prems(3)]) (use Cons.prems in \<open>auto simp: reply_within_def\<close>)
    with False r p lim Cons.prems(5) show ?thesis
      by (auto simp: readReplyLoop.simps [of lim pre ls t lr] Let_def)
  qed
qed simp

text \<open>The replies the framing carries unchanged, and what goes on the wire for them.\<close>

definition plain_reply :: reply_options where
  "plain_reply = \<lparr>ro_Enhanced = None, ro_Context = ReplyContextCommand\<rparr>"

definition wire_reply :: "reply \<Rightarrow> bytes" where
  "wire_reply r = (case EncodeReply r plain_reply of Inr w \<Rightarrow> w | Inl _ \<Rightarrow> [])"

definition reply_ok :: "limits \<Rightarrow> reply \<Rightarrow> bool" where
  "reply_ok lim r \<longleftrightarrow> is_ok (EncodeReply r plain_reply) \<and> rep_Lines r \<noteq> [] \<and> rep_Text r = Join (rep_Lines r) [LF] \<and>
     reply_within (withDefaults lim) r \<and> MaxReplyLineLength lim \<le> MaxInt64 - 5"

lemma withDefaults_line_bound:
  "MaxReplyLineLength lim \<le> MaxInt64 - 5 \<Longrightarrow> MaxReplyLineLength (withDefaults lim) \<le> MaxInt64 - 5"
  by (simp add: withDefaults_def DefaultLimits_def MaxInt64_def)

lemma ReadReply_EncodeReply:
  assumes "EncodeReply r opts = Inr w" "lr_stream lr = w @ rest"
    and "reply_within (withDefaults lim) \<lparr>rep_Code = rep_Code r, rep_Lines = sent_lines r opts, rep_Text = tx\<rparr>"
    and "MaxReplyLineLength lim \<le> MaxInt64 - 5"
  shows "\<exists>lr'. ReadReply None lim lr =
      (Inr \<lparr>rep_Code = rep_Code r, rep_Lines = sent_lines r opts, rep_Text = Join (sent_lines r opts) [LF]\<rparr>, lr') \<and>
    lr_stream lr' = rest \<and> lr_fin lr' = lr_fin lr"
  using readReplyLoop_replyLines [of lr "rep_Code r" "sent_lines r opts" rest None 0 "[]" "withDefaults lim" tx]
    EncodeReply_Inr [OF assms(1)] assms(2-) withDefaults_line_bound
  by (simp add: ReadReply_def setDeadline_def)

interpretation reply_framing: framing wire_reply "ReadReply None lim" lr_stream "reply_ok lim" for lim
proof unfold_locales
  fix x s rest
  assume ok: "reply_ok lim x" and st: "lr_stream s = wire_reply x @ rest"
  then have sl: "sent_lines x plain_reply = rep_Lines x"
    by (simp add: reply_ok_def sent_lines_def plain_reply_def)
  from ok have enc: "EncodeReply x plain_reply = Inr (wire_reply x)"
    by (auto simp: reply_ok_def wire_reply_def is_ok_iff)
  have x: "\<lparr>rep_Code = rep_Code x, rep_Lines = rep_Lines x, rep_Text = Join (rep_Lines x) [LF]\<rparr> = x"
    using ok by (simp add: reply_ok_def)
  show "\<exists>s'. ReadReply None lim s = (Inr x, s') \<and> lr_stream s' = rest"
    using ReadReply_EncodeReply [OF enc st, of lim "Join (rep_Lines x) [LF]", unfolded sl x] ok
    by (auto simp: reply_ok_def)
next
  show "\<exists>s. lr_stream s = bs" for bs
    by (rule exI [of _ "\<lparr>lr_buf = bs, lr_src = [], lr_fin = EOF\<rparr>"]) (simp add: lr_stream_def)
qed

section \<open>Enhanced codes written and read back\<close>

lemma scanUpTo3Digits_FormatUint:
  assumes "n \<le> 999" "s = [] \<or> \<not> is_digit (hd s)"
  shows "scanUpTo3Digits (FormatUint n @ s) = Some (n, length (FormatUint n))"
proof -
  have len: "length (FormatUint n) \<le> 3"
    using FormatUint_length [of n 3] assms(1) by simp
  have tw: "takeWhile is_digit (FormatUint n @ s') = FormatUint n @ takeWhile is_digit s'" for s'
    using FormatUint_digits [of n] by (intro takeWhile_append2) (simp add: list_all_iff)
  have "takeWhile is_digit (take k s) = []" for k
    using assms(2) by (cases s; cases k) auto
  then have "takeWhile is_digit (take 3 (FormatUint n @ s)) = FormatUint n"
    using len by (simp add: tw)
  moreover have "\<not> (length (FormatUint n) < length (FormatUint n @ s) \<and> is_digit ((FormatUint n @ s) ! length (FormatUint n)))"
    using assms(2) by (cases s) (auto simp: nth_append)
  ultimately show ?thesis
    by (simp add: scanUpTo3Digits_def Let_def)
qed

lemma digit_chars: "digit_char 2 = CHR ''2''" "digit_char 4 = CHR ''4''" "digit_char 5 = CHR ''5''"
  by (simp_all add: digit_char_def char_eq_byte del: of_char_eq_iff)

lemma ExtractEnhancedCode_format:
  assumes "formatEnhancedCode code e = Inr p" "s = [] \<or> hd s = SP"
  shows "ExtractEnhancedCode (p @ s) = (e\<lparr>we_Raw := p\<rparr>, tl s, True)"
proof -
  obtain su de where n: "we_Subject e = int su" "su \<le> 999" "we_Detail e = int de" "de \<le> 999"
    and c: "we_Class e \<in> {2, 4, 5}"
    using assms(1) nonneg_int_cases [of "we_Subject e"] nonneg_int_cases [of "we_Detail e"]
    by (fastforce simp: formatEnhancedCode_def split: if_splits)
  define d where "d = digit_char (nat (we_Class e))"
  have "nat (we_Class e) < 10" and ic: "Itoa (we_Class e) = [d]"
    and d: "d \<in> {CHR ''2'', CHR ''4'', CHR ''5''}" "int (digit_val d) = we_Class e"
    using c by (auto simp: Itoa_def FormatUint_digit1 d_def digit_chars digit_val_def)
  have p: "p = d # CHR ''.'' # FormatUint su @ CHR ''.'' # FormatUint de"
    using assms(1) n ic by (auto simp: formatEnhancedCode_def Itoa_def split: if_splits)
  have sc: "scanUpTo3Digits (FormatUint su @ CHR ''.'' # FormatUint de @ s) = Some (su, length (FormatUint su))"
    "scanUpTo3Digits (FormatUint de @ s) = Some (de, length (FormatUint de))"
    using n assms(2) by (auto intro!: scanUpTo3Digits_FormatUint simp: is_digit_def)
  have "take (2 + length (FormatUint su) + 1 + length (FormatUint de)) (p @ s) = p"
    by (simp add: p)
  moreover have "e\<lparr>we_Raw := p\<rparr> = \<lparr>we_Class = int (digit_val d), we_Subject = int su, we_Detail = int de, we_Raw = p\<rparr>"
    using n d by simp
  ultimately show ?thesis
    using assms(2) d(1) sc by (cases s) (auto simp: ExtractEnhancedCode_def Let_def p)
qed

lemma ExtractEnhancedCode_prefixLine:
  "formatEnhancedCode code e = Inr p \<Longrightarrow> ExtractEnhancedCode (prefixLine p l) = (e\<lparr>we_Raw := p\<rparr>, l, True)"
  using ExtractEnhancedCode_format [of code e p "[]"] ExtractEnhancedCode_format [of code e p "SP # l"]
  by (simp add: prefixLine_def)

lemma parseReplyLine_code: "parseReplyLine raw = Inr (code, cont, t) \<Longrightarrow> validReplyCode code"
proof -
  have valid: "validReplyCode (int (100 * a + 10 * b + c))" if "2 \<le> a" "a \<le> 5" "b \<le> 5" "c \<le> 9" for a b c :: nat
  proof -
    have "int (100 * a + 10 * b + c) = 10 * (10 * int a + int b) + int c"
      by simp
    moreover have "(10 * (10 * int a + int b) + int c) div 10 = 10 * int a + int b"
      using that by simp
    ultimately show ?thesis
      using that by (simp add: validReplyCode_def)
  qed
  assume p: "parseReplyLine raw = Inr (code, cont, t)"
  then obtain d0 d1 d2 rest where raw: "raw = d0 # d1 # d2 # rest"
    by (auto simp: parseReplyLine_def split: list.splits)
  let ?a = "byte d0 - 48" and ?b = "byte d1 - 48" and ?c = "byte d2 - 48"
  from p raw have r: "50 \<le> byte d0" "byte d0 \<le> 53" "48 \<le> byte d1" "byte d1 \<le> 53" "48 \<le> byte d2" "byte d2 \<le> 57"
    by (auto simp: parseReplyLine_def split: if_splits)
  with p raw have "code = int (100 * ?a + 10 * ?b + ?c)"
    by (auto simp: parseReplyLine_def Let_def of_nat_diff split: list.splits if_splits)
  with valid [of ?a ?b ?c] r show ?thesis by auto
qed

lemma reply_on_wire_code: "reply_on_wire code raws ts \<Longrightarrow> validReplyCode code"
  by (induction code raws ts rule: reply_on_wire.induct) (auto dest: parseReplyLine_code)

section \<open>Properties\<close>

text \<open>C11: Pipelined replies stay in step. A client that reads as many replies as a server wrote
  with \<open>EncodeReply\<close> gets exactly those replies, in order, whatever reads the network makes of them,
  and the octets after them are left unread.\<close>

theorem ReadReply_pipelined:
  assumes "list_all (reply_ok lim) rs" "lr_stream lr = concat (map wire_reply rs) @ rest"
  shows "\<exists>lr'. read_n (ReadReply None lim) (length rs) lr = (Inr rs, lr') \<and> lr_stream lr' = rest"
  by (rule reply_framing.rd_sequence [OF assms])

theorem ReadReply_pipelined_witness:
  "\<exists>lr'. read_n (ReadReply None DefaultLimits) 2
      (NewLineReader [''250-ho'', ''st'' @ CRLF @ ''250 SIZE'' @ CRLF @ ''3'', ''54 go'' @ CRLF @ ''220''] EOF) =
    (Inr [\<lparr>rep_Code = 250, rep_Lines = [''host'', ''SIZE''], rep_Text = ''host'' @ [LF] @ ''SIZE''\<rparr>,
          \<lparr>rep_Code = 354, rep_Lines = [''go''], rep_Text = ''go''\<rparr>], lr') \<and> lr_stream lr' = ''220''"
proof -
  let ?rs = "[\<lparr>rep_Code = 250, rep_Lines = [''host'', ''SIZE''], rep_Text = ''host'' @ [LF] @ ''SIZE''\<rparr>,
          \<lparr>rep_Code = 354, rep_Lines = [''go''], rep_Text = ''go''\<rparr>]"
  let ?lr = "NewLineReader [''250-ho'', ''st'' @ CRLF @ ''250 SIZE'' @ CRLF @ ''3'', ''54 go'' @ CRLF @ ''220''] EOF"
  have ok: "list_all (reply_ok DefaultLimits) ?rs"
    by code_simp
  have st: "lr_stream ?lr = concat (map wire_reply ?rs) @ ''220''"
    by code_simp
  have "length ?rs = 2"
    by simp
  with ReadReply_pipelined [OF ok st] show ?thesis
    by (simp only:)
qed

text \<open>C12: What \<open>ReadReply\<close> accepts is a reply. It consumes whole lines and nothing more, all lines
  carry one and the same code in 200..559, all but the last and only those are marked as continued,
  the text is the lines joined, and the caller's limits on lines, line length and total size hold.\<close>

theorem ReadReply_sound:
  assumes "ReadReply dl lim lr = (Inr r, lr')"
  shows "\<exists>raws. lr_stream lr = lines_on_stream raws @ lr_stream lr' \<and> list_all (\<lambda>x. LF \<notin> set x) raws \<and>
    reply_on_wire (rep_Code r) raws (rep_Lines r) \<and> validReplyCode (rep_Code r) \<and>
    rep_Text r = Join (rep_Lines r) [LF] \<and> reply_within (withDefaults lim) r"
proof -
  have "readReplyLoop (withDefaults lim) None [] 0 lr = (Inr r, lr')"
    using assms by (auto simp: ReadReply_def split: option.splits)
  from readReplyLoop_sound [OF this] show ?thesis
    using reply_on_wire_code by fastforce
qed

theorem ReadReply_sound_witness:
  "\<exists>raws r lr'. ReadReply None DefaultLimits (NewLineReader [''250-a'' @ CRLF, ''250 b'' @ CRLF @ ''x''] EOF) = (Inr r, lr') \<and>
    ''250-a'' @ CRLF @ ''250 b'' @ CRLF @ ''x'' = lines_on_stream raws @ lr_stream lr' \<and>
    reply_on_wire 250 raws [''a'', ''b'']"
proof -
  let ?lr = "NewLineReader [''250-a'' @ CRLF, ''250 b'' @ CRLF @ ''x''] EOF"
  let ?r = "\<lparr>rep_Code = 250, rep_Lines = [''a'', ''b''], rep_Text = ''a'' @ [LF] @ ''b''\<rparr>"
  have run: "ReadReply None DefaultLimits ?lr = (Inr ?r, \<lparr>lr_buf = ''x'', lr_src = [], lr_fin = EOF\<rparr>)"
    by code_simp
  moreover have "lr_stream ?lr = ''250-a'' @ CRLF @ ''250 b'' @ CRLF @ ''x''"
    by code_simp
  ultimately show ?thesis
    using ReadReply_sound [OF run] by auto
qed

text \<open>C17: An enhanced status code survives the wire. The client that reads a reply encoded with an
  enhanced code finds, on every line, that code and the line's own text.\<close>

theorem enhanced_reply_roundtrip:
  assumes "EncodeReply r \<lparr>ro_Enhanced = Some e, ro_Context = ReplyContextCommand\<rparr> = Inr w"
    and "lr_stream lr = w @ rest" "rep_Lines r \<noteq> []" "MaxReplyLineLength lim \<le> MaxInt64 - 5"
    and "reply_within (withDefaults lim)
      \<lparr>rep_Code = rep_Code r,
       rep_Lines = sent_lines r \<lparr>ro_Enhanced = Some e, ro_Context = ReplyContextCommand\<rparr>, rep_Text = []\<rparr>"
  shows "\<exists>q p lr'. ReadReply None lim lr = (Inr q, lr') \<and> lr_stream lr' = rest \<and> rep_Code q = rep_Code r \<and>
    map ExtractEnhancedCode (rep_Lines q) = map (\<lambda>l. (e\<lparr>we_Raw := p\<rparr>, l, True)) (rep_Lines r)"
proof -
  let ?o = "\<lparr>ro_Enhanced = Some e, ro_Context = ReplyContextCommand\<rparr>"
  obtain p where p: "formatEnhancedCode (rep_Code r) e = Inr p"
    using assms(1) by (auto simp: EncodeReply_def Let_def bind_res_Inr_iff split: if_splits)
  then have "map ExtractEnhancedCode (sent_lines r ?o) = map (\<lambda>l. (e\<lparr>we_Raw := p\<rparr>, l, True)) (rep_Lines r)"
    using assms(3) ExtractEnhancedCode_prefixLine [OF p] by (simp add: sent_lines_def)
  with ReadReply_EncodeReply [OF assms(1,2,5,4)] show ?thesis by fastforce
qed

theorem enhanced_reply_roundtrip_witness:
  "\<exists>q p lr'. ReadReply None DefaultLimits (NewLineReader [''550-5.1.1 no'' @ CRLF @ ''550 5.1.1'' @ CRLF] EOF) = (Inr q, lr') \<and>
    map ExtractEnhancedCode (rep_Lines q) =
      map (\<lambda>l. (\<lparr>we_Class = 5, we_Subject = 1, we_Detail = 1, we_Raw = p\<rparr>, l, True)) [''no'', []]"
proof -
  let ?r = "\<lparr>rep_Code = 550, rep_Lines = [''no'', []], rep_Text = []\<rparr>"
  let ?e = "\<lparr>we_Class = 5, we_Subject = 1, we_Detail = 1, we_Raw = []\<rparr>"
  let ?o = "\<lparr>ro_Enhanced = Some ?e, ro_Context = ReplyContextCommand\<rparr>"
  let ?w = "''550-5.1.1 no'' @ CRLF @ ''550 5.1.1'' @ CRLF"
  have "EncodeReply ?r ?o = Inr ?w" by code_simp
  moreover have "lr_stream (NewLineReader [?w] EOF) = ?w @ []" by code_simp
  moreover have "MaxReplyLineLength DefaultLimits \<le> MaxInt64 - 5" by code_simp
  moreover have "reply_within (withDefaults DefaultLimits)
      \<lparr>rep_Code = rep_Code ?r, rep_Lines = sent_lines ?r ?o, rep_Text = []\<rparr>" by code_simp
  ultimately show ?thesis
    using enhanced_reply_roundtrip [of ?r ?e ?w "NewLineReader [?w] EOF" "[]" DefaultLimits] by fastforce
qed

end
