(* ===== verification/Wire_Command.thy ===== *)
theory Wire_Command
  imports Wire_Reply
begin

text \<open>
  Command lines in both directions: the strict reader of src/internal/smtpwire/command_decoder.go
  (\<open>ReadCommand\<close>, \<open>ReadSASLResponse\<close>), and the encoders of encoder.go (\<open>EncodeCommand\<close>, ESMTP
  parameters, xtext). Shown here: a written command is read back and what follows it stays on the
  stream; an accepted command line has exactly one boundary; every terminated line, accepted or not,
  is consumed up to its LF; xtext round-trips and always is a valid parameter value.
\<close>

section \<open>Reading commands\<close>

record command =
  cmd_Verb :: bytes
  cmd_Argument :: bytes

text \<open>The rest of an oversized line, up to its LF.\<close>

function drainLine :: "char \<Rightarrow> line_reader \<Rightarrow> wire_error \<times> line_reader" where
  "drainLine b lr =
     (if b = LF then (ErrCommandLineTooLong, lr)
      else
        case ReadByte lr of
          (Inl err, lr') \<Rightarrow> (IO err, lr')
        | (Inr b', lr') \<Rightarrow> drainLine b' lr')"
  by pat_completeness auto
termination
  by (relation "measure (\<lambda>(b, lr). length (lr_stream lr))") (auto intro: ReadByte_shorter)

declare drainLine.simps [simp del]

function readCommandLineLoop ::
  "int \<Rightarrow> bytes \<Rightarrow> int \<Rightarrow> line_reader \<Rightarrow> (wire_error + bytes) \<times> line_reader" where
  "readCommandLineLoop maxLen line consumed lr =
     (case ReadByte lr of
        (Inl err, lr') \<Rightarrow> (Inl (IO (if line = [] then err else normalizeReadErr err)), lr')
      | (Inr b, lr') \<Rightarrow>
          (if consumed + 1 > maxLen then (let (err, lr'') = drainLine b lr' in (Inl err, lr''))
           else if b \<noteq> LF then readCommandLineLoop maxLen (line @ [b]) (consumed + 1) lr'
           else if line = [] \<or> last line \<noteq> CR then (Inl ErrCommandBareLF, lr')
           else (Inr (butlast line), lr')))"
  by pat_completeness auto
termination
  by (relation "measure (\<lambda>(m, line, c, lr). length (lr_stream lr))") (auto intro: ReadByte_shorter)

declare readCommandLineLoop.simps [simp del]

definition readCommandLine :: "int \<Rightarrow> line_reader \<Rightarrow> (wire_error + bytes) \<times> line_reader" where
  "readCommandLine maxLen lr = readCommandLineLoop maxLen [] 0 lr"

definition verb_char :: "char \<Rightarrow> bool" where
  "verb_char c \<longleftrightarrow> is_alnum c \<or> c = CHR ''-''"

definition validateCommandVerb :: "bytes \<Rightarrow> wire_error option" where
  "validateCommandVerb verb =
     (if verb = [] then Some ErrCommandVerbSyntax
      else if list_all verb_char verb then None else Some ErrCommandVerbSyntax)"

definition ReadCommand ::
  "io_error option \<Rightarrow> limits \<Rightarrow> line_reader \<Rightarrow> (wire_error + command) \<times> line_reader" where
  "ReadCommand dl lim lr =
     (case setDeadline dl of
        Some err \<Rightarrow> (Inl err, lr)
      | None \<Rightarrow>
          (case readCommandLine (MaxCommandLineLength (withDefaults lim)) lr of
             (Inl err, lr') \<Rightarrow> (Inl err, lr')
           | (Inr line, lr') \<Rightarrow>
               (if line = [] then (Inl ErrCommandEmpty, lr')
                else
                  let (before, after, found) = Cut line SP;
                      verb = (if found then before else line);
                      argument = (if found then TrimLeftSP after else []) in
                  case validateCommandVerb verb of
                    Some err \<Rightarrow> (Inl err, lr')
                  | None \<Rightarrow>
                      if list_ex is_control argument then (Inl ErrCommandArgumentControl, lr')
                      else (Inr \<lparr>cmd_Verb = verb, cmd_Argument = argument\<rparr>, lr'))))"

definition ReadSASLResponse ::
  "io_error option \<Rightarrow> limits \<Rightarrow> line_reader \<Rightarrow> (wire_error + bytes) \<times> line_reader" where
  "ReadSASLResponse dl lim lr =
     (case setDeadline dl of
        Some err \<Rightarrow> (Inl err, lr)
      | None \<Rightarrow>
          (case readCommandLine (MaxSASLResponseLength (withDefaults lim)) lr of
             (Inl err, lr') \<Rightarrow> (Inl err, lr')
           | (Inr line, lr') \<Rightarrow>
               if list_ex is_control line then (Inl ErrCommandArgumentControl, lr')
               else (Inr line, lr')))"

section \<open>Writing commands\<close>

definition validateCommandToken :: "bytes \<Rightarrow> wire_error option" where
  "validateCommandToken s = (if list_ex is_control s then Some ErrInvalidCommandToken else None)"

fun appendArgs :: "bytes \<Rightarrow> bytes list \<Rightarrow> wire_error + bytes" where
  "appendArgs b [] = Inr b"
| "appendArgs b (a # args) =
     (case validateCommandToken a of
        Some err \<Rightarrow> Inl err
      | None \<Rightarrow> appendArgs (b @ [SP] @ a) args)"

definition EncodeCommand :: "bytes \<Rightarrow> bytes list \<Rightarrow> wire_error + bytes" where
  "EncodeCommand verb args =
     (case validateCommandToken verb of
        Some err \<Rightarrow> Inl err
      | None \<Rightarrow> bind_res (appendArgs verb args) (\<lambda>b. Inr (b @ CRLF)))"

section \<open>ESMTP parameters and xtext\<close>

record param =
  par_Keyword :: bytes
  par_Value :: bytes

definition validateKeyword :: "bytes \<Rightarrow> wire_error option" where
  "validateKeyword kw =
     (case kw of
        [] \<Rightarrow> Some ErrEmptyKeyword
      | c # cs \<Rightarrow>
          if is_alnum c \<and> list_all (\<lambda>d. is_alnum d \<or> d = CHR ''-'') cs then None else Some ErrInvalidKeyword)"

definition esmtp_char :: "char \<Rightarrow> bool" where
  "esmtp_char c \<longleftrightarrow> \<not> (byte c < 33 \<or> byte c > 126 \<or> c = CHR ''='')"

definition validateESMTPValue :: "bytes \<Rightarrow> wire_error option" where
  "validateESMTPValue v =
     (if v = [] then Some ErrInvalidParamValue
      else if list_all esmtp_char v then None else Some ErrInvalidParamValue)"

definition EncodeParam :: "param \<Rightarrow> wire_error + bytes" where
  "EncodeParam p =
     (case validateKeyword (par_Keyword p) of
        Some err \<Rightarrow> Inl err
      | None \<Rightarrow>
          if par_Value p = [] then Inr (par_Keyword p)
          else
            case validateESMTPValue (par_Value p) of
              Some err \<Rightarrow> Inl err
            | None \<Rightarrow> Inr (par_Keyword p @ ''='' @ par_Value p))"

definition xtextHexDigits :: bytes where
  "xtextHexDigits = ''0123456789ABCDEF''"

definition xtext_escape :: "char \<Rightarrow> bytes" where
  "xtext_escape c = [CHR ''+'', xtextHexDigits ! (byte c div 16), xtextHexDigits ! (byte c mod 16)]"

fun EncodeXtext :: "bytes \<Rightarrow> bytes" where
  "EncodeXtext [] = []"
| "EncodeXtext (c # raw) =
     (if c = CHR ''+'' \<or> c = CHR ''='' \<or> byte c < 33 \<or> byte c > 126
      then xtext_escape c @ EncodeXtext raw
      else c # EncodeXtext raw)"

definition XtextParam :: "bytes \<Rightarrow> bytes \<Rightarrow> param" where
  "XtextParam keyword rawValue = \<lparr>par_Keyword = keyword, par_Value = EncodeXtext rawValue\<rparr>"

definition hexVal :: "char \<Rightarrow> nat option" where
  "hexVal c =
     (if 48 \<le> byte c \<and> byte c \<le> 57 then Some (byte c - 48)
      else if 65 \<le> byte c \<and> byte c \<le> 70 then Some (byte c - 65 + 10)
      else if 97 \<le> byte c \<and> byte c \<le> 102 then Some (byte c - 97 + 10)
      else None)"

fun DecodeXtext :: "bytes \<Rightarrow> wire_error + bytes" where
  "DecodeXtext [] = Inr []"
| "DecodeXtext (c # s) =
     (if c = CHR ''+'' then
        (case s of
           h # l # rest \<Rightarrow>
             (case (hexVal h, hexVal l) of
                (Some hi, Some lo) \<Rightarrow> bind_res (DecodeXtext rest) (\<lambda>r. Inr (char_of (hi * 16 + lo) # r))
              | _ \<Rightarrow> Inl ErrXtextInvalidEscape)
         | _ \<Rightarrow> Inl ErrXtextTruncatedEscape)
      else if byte c < 33 \<or> byte c > 126 then Inl ErrXtextInvalidChar
      else bind_res (DecodeXtext s) (\<lambda>r. Inr (c # r)))"

section \<open>A command line as a function of the stream\<close>

text \<open>What the reader makes of a line \<open>l\<close> that ends in LF, and of a stream: the outcome and what
  is left. The length bound counts the LF.\<close>

definition line_outcome :: "int \<Rightarrow> bytes \<Rightarrow> wire_error + bytes" where
  "line_outcome m l =
     (if int (length l) + 1 > m then Inl ErrCommandLineTooLong
      else if l = [] \<or> last l \<noteq> CR then Inl ErrCommandBareLF
      else Inr (butlast l))"

definition command_line_spec :: "int \<Rightarrow> bytes \<Rightarrow> io_error \<Rightarrow> (wire_error + bytes) \<times> bytes" where
  "command_line_spec m s fin =
     (let (l, rest, terminated) = Cut s LF in
      if terminated then (line_outcome m l, rest)
      else (Inl (IO (if l = [] \<or> int (length l) > m then fin else normalizeReadErr fin)), []))"

lemma drainLine_step: "ReadByte lr = (Inr d, lr1) \<Longrightarrow> b \<noteq> LF \<Longrightarrow> drainLine b lr = drainLine d lr1"
  by (simp add: drainLine.simps [of b lr])

lemma drainLine_terminated:
  assumes "b # lr_stream lr = l @ LF # rest" "LF \<notin> set l"
  shows "\<exists>lr'. drainLine b lr = (ErrCommandLineTooLong, lr') \<and> lr_stream lr' = rest \<and> lr_fin lr' = lr_fin lr"
  using assms
proof (induction l arbitrary: b lr)
  case Nil
  then show ?case by (simp add: drainLine.simps [of LF lr])
next
  case (Cons c l)
  then have b: "b = c" "b \<noteq> LF" and st: "lr_stream lr = l @ LF # rest" by auto
  from st obtain d ds where "lr_stream lr = d # ds" "d # ds = l @ LF # rest"
    by (cases l) auto
  then obtain lr1 where r: "ReadByte lr = (Inr d, lr1)" "lr_stream lr1 = ds" "lr_fin lr1 = lr_fin lr"
    using ReadByte_stream_Cons by metis
  have "\<exists>lr'. drainLine d lr1 = (ErrCommandLineTooLong, lr') \<and> lr_stream lr' = rest \<and> lr_fin lr' = lr_fin lr1"
    by (rule Cons.IH) (use r Cons.prems \<open>d # ds = l @ LF # rest\<close> in auto)
  then show ?case
    by (simp only: drainLine_step [OF r(1) b(2)] r(3))
qed

lemma drainLine_unterminated:
  assumes "LF \<notin> set (b # lr_stream lr)"
  shows "\<exists>lr'. drainLine b lr = (IO (lr_fin lr), lr') \<and> lr_stream lr' = [] \<and> lr_fin lr' = lr_fin lr"
  using assms
proof (induction b lr rule: drainLine.induct)
  case (1 b lr)
  show ?case
  proof (cases rule: ReadByte_cases [of lr])
    case (ended lr1)
    with "1.prems" show ?thesis by (simp add: drainLine.simps [of b lr])
  next
    case (octet c lr1)
    with "1.prems" "1.IH" [OF _ octet(2) [symmetric] refl] show ?thesis
      by (auto simp: drainLine.simps [of b lr])
  qed
qed

lemma readCommandLineLoop_step:
  assumes "ReadByte lr = (Inr c, lr1)" "c \<noteq> LF" "\<not> int (length pre) + 1 > m"
  shows "readCommandLineLoop m pre (int (length pre)) lr =
    readCommandLineLoop m (pre @ [c]) (int (length (pre @ [c]))) lr1"
  using assms by (simp add: readCommandLineLoop.simps [of m pre _ lr] add.commute)

lemma readCommandLineLoop_terminated:
  assumes "lr_stream lr = l @ LF # rest" "LF \<notin> set l"
  shows "\<exists>lr'. readCommandLineLoop m pre (int (length pre)) lr = (line_outcome m (pre @ l), lr') \<and>
    lr_stream lr' = rest \<and> lr_fin lr' = lr_fin lr"
  using assms
proof (induction l arbitrary: pre lr)
  case Nil
  then obtain lr1 where r: "ReadByte lr = (Inr LF, lr1)" "lr_stream lr1 = rest" "lr_fin lr1 = lr_fin lr"
    by (auto elim: ReadByte_stream_Cons)
  then show ?case
    by (auto simp: readCommandLineLoop.simps [of m pre] drainLine.simps [of LF] line_outcome_def)
next
  case (Cons c l)
  then obtain lr1 where r: "ReadByte lr = (Inr c, lr1)" "lr_stream lr1 = l @ LF # rest" "lr_fin lr1 = lr_fin lr"
    by (auto elim: ReadByte_stream_Cons)
  show ?case
  proof (cases "int (length pre) + 1 > m")
    case True
    have "\<exists>lr'. drainLine c lr1 = (ErrCommandLineTooLong, lr') \<and> lr_stream lr' = rest \<and> lr_fin lr' = lr_fin lr1"
      by (rule drainLine_terminated [of c lr1 "c # l"]) (use r Cons.prems in auto)
    with True r show ?thesis
      by (auto simp: readCommandLineLoop.simps [of m pre] line_outcome_def)
  next
    case False
    have "\<exists>lr'. readCommandLineLoop m (pre @ [c]) (int (length (pre @ [c]))) lr1 =
        (line_outcome m ((pre @ [c]) @ l), lr') \<and> lr_stream lr' = rest \<and> lr_fin lr' = lr_fin lr1"
      by (rule Cons.IH) (use r Cons.prems in auto)
    moreover from Cons.prems(2) have c: "c \<noteq> LF" by auto
    ultimately show ?thesis
      by (simp only: readCommandLineLoop_step [OF r(1) c False] r(3)) simp
  qed
qed

lemma readCommandLineLoop_unterminated:
  assumes "LF \<notin> set (lr_stream lr)" "int (length pre) \<le> m"
  shows "\<exists>lr'. readCommandLineLoop m pre (int (length pre)) lr =
      (Inl (IO (if pre @ lr_stream lr = [] \<or> int (length (pre @ lr_stream lr)) > m then lr_fin lr
                else normalizeReadErr (lr_fin lr))), lr') \<and>
    lr_stream lr' = [] \<and> lr_fin lr' = lr_fin lr"
  using assms
proof (induction "lr_stream lr" arbitrary: pre lr)
  case Nil
  then obtain lr1 where "ReadByte lr = (Inl (lr_fin lr), lr1)" "lr_stream lr1 = []" "lr_fin lr1 = lr_fin lr"
    using ReadByte_stream_Nil [of lr] by metis
  with Nil show ?case
    by (auto simp: readCommandLineLoop.simps [of m pre])
next
  case (Cons c s)
  then obtain lr1 where r: "ReadByte lr = (Inr c, lr1)" "lr_stream lr1 = s" "lr_fin lr1 = lr_fin lr"
    using ReadByte_stream_Cons [of lr c s] by metis
  have noLF: "LF \<notin> set (c # s)"
    using Cons.hyps(2) Cons.prems(1) by metis
  show ?case
  proof (cases "int (length pre) + 1 > m")
    case True
    have "\<exists>lr'. drainLine c lr1 = (IO (lr_fin lr1), lr') \<and> lr_stream lr' = [] \<and> lr_fin lr' = lr_fin lr1"
      by (rule drainLine_unterminated) (use r noLF in auto)
    with True r Cons.hyps(2) show ?thesis
      by (auto simp: readCommandLineLoop.simps [of m pre] simp flip: Cons.hyps(2))
  next
    case False
    have "\<exists>lr'. readCommandLineLoop m (pre @ [c]) (int (length (pre @ [c]))) lr1 =
        (Inl (IO (if (pre @ [c]) @ lr_stream lr1 = [] \<or> int (length ((pre @ [c]) @ lr_stream lr1)) > m
                  then lr_fin lr1 else normalizeReadErr (lr_fin lr1))), lr') \<and>
      lr_stream lr' = [] \<and> lr_fin lr' = lr_fin lr1"
      by (rule Cons.hyps(1)) (use r noLF False in auto)
    moreover from noLF have c: "c \<noteq> LF" by auto
    ultimately show ?thesis
      by (simp only: readCommandLineLoop_step [OF r(1) c False] r(2,3) flip: Cons.hyps(2)) simp
  qed
qed

lemma readCommandLine_spec:
  assumes "0 \<le> m"
  obtains lr' where "readCommandLine m lr = (fst (command_line_spec m (lr_stream lr) (lr_fin lr)), lr')"
    "lr_stream lr' = snd (command_line_spec m (lr_stream lr) (lr_fin lr))" "lr_fin lr' = lr_fin lr"
proof -
  obtain l rest f where c: "Cut (lr_stream lr) LF = (l, rest, f)" by (cases "Cut (lr_stream lr) LF")
  from Cut_eq [OF c] have s: "LF \<notin> set l" "if f then lr_stream lr = l @ LF # rest else lr_stream lr = l \<and> rest = []"
    by auto
  have "\<exists>lr'. readCommandLine m lr = (fst (command_line_spec m (lr_stream lr) (lr_fin lr)), lr') \<and>
    lr_stream lr' = snd (command_line_spec m (lr_stream lr) (lr_fin lr)) \<and> lr_fin lr' = lr_fin lr"
  proof (cases f)
    case True
    with s have st: "lr_stream lr = l @ LF # rest" by simp
    from readCommandLineLoop_terminated [OF st s(1), of m "[]"] c True show ?thesis
      by (simp add: readCommandLine_def command_line_spec_def)
  next
    case False
    with s have st: "lr_stream lr = l" by simp
    with readCommandLineLoop_unterminated [of lr "[]" m] c False s(1) assms show ?thesis
      by (simp add: readCommandLine_def command_line_spec_def)
  qed
  with that show ?thesis by blast
qed

lemma readCommandLine_cong:
  assumes "0 \<le> m" "same_input a b"
  shows "same_outcome (readCommandLine m a) (readCommandLine m b)"
proof -
  obtain a' where a': "readCommandLine m a = (fst (command_line_spec m (lr_stream a) (lr_fin a)), a')"
    "lr_stream a' = snd (command_line_spec m (lr_stream a) (lr_fin a))" "lr_fin a' = lr_fin a"
    by (rule readCommandLine_spec [OF assms(1)])
  obtain b' where b': "readCommandLine m b = (fst (command_line_spec m (lr_stream b) (lr_fin b)), b')"
    "lr_stream b' = snd (command_line_spec m (lr_stream b) (lr_fin b))" "lr_fin b' = lr_fin b"
    by (rule readCommandLine_spec [OF assms(1)])
  show ?thesis
    using a' b' assms(2) by (simp add: same_input_def)
qed

lemma ReadCommand_cong: "same_input a b \<Longrightarrow> same_outcome (ReadCommand dl lim a) (ReadCommand dl lim b)"
  using readCommandLine_cong [of "MaxCommandLineLength (withDefaults lim)" a b]
  by (cases "readCommandLine (MaxCommandLineLength (withDefaults lim)) a";
      cases "readCommandLine (MaxCommandLineLength (withDefaults lim)) b")
    (auto simp: ReadCommand_def Let_def less_imp_le split: option.splits sum.splits prod.splits)

lemma ReadSASLResponse_cong:
  "same_input a b \<Longrightarrow> same_outcome (ReadSASLResponse dl lim a) (ReadSASLResponse dl lim b)"
  using readCommandLine_cong [of "MaxSASLResponseLength (withDefaults lim)" a b]
  by (cases "readCommandLine (MaxSASLResponseLength (withDefaults lim)) a";
      cases "readCommandLine (MaxSASLResponseLength (withDefaults lim)) b")
    (auto simp: ReadSASLResponse_def less_imp_le split: option.splits sum.splits)

interpretation read_command: chunk_blind "ReadCommand dl lim" for dl lim
  by unfold_locales (rule ReadCommand_cong)

interpretation read_sasl: chunk_blind "ReadSASLResponse dl lim" for dl lim
  by unfold_locales (rule ReadSASLResponse_cong)

section \<open>Commands written and read back\<close>

lemma appendArgs_eq:
  "appendArgs b args =
     (if list_ex (list_ex is_control) args then Inl ErrInvalidCommandToken
      else Inr (b @ concat (map (\<lambda>a. SP # a) args)))"
  by (induction b args rule: appendArgs.induct) (auto simp: validateCommandToken_def)

lemma EncodeCommand_Inr:
  "EncodeCommand verb args = Inr w \<longleftrightarrow>
     \<not> list_ex is_control verb \<and> \<not> list_ex (list_ex is_control) args \<and>
     w = verb @ concat (map (\<lambda>a. SP # a) args) @ CRLF"
  by (auto simp: EncodeCommand_def validateCommandToken_def appendArgs_eq)

lemma concat_SP: "args \<noteq> [] \<Longrightarrow> concat (map (\<lambda>a. SP # a) args) = SP # Join args [SP]"
proof (induction args)
  case (Cons a args)
  then show ?case by (cases args) auto
qed simp

lemma not_control_noteq: "\<not> list_ex is_control s \<Longrightarrow> LF \<notin> set s \<and> CR \<notin> set s"
  by (auto simp: list_ex_iff is_control_def)

lemma verb_no_SP: "validateCommandVerb verb = None \<Longrightarrow> SP \<notin> set verb \<and> verb \<noteq> []"
  by (auto simp: validateCommandVerb_def list_all_iff verb_char_def wire_defs split: if_splits)

lemma verb_no_control: "validateCommandVerb verb = None \<Longrightarrow> \<not> list_ex is_control verb"
  by (auto simp: validateCommandVerb_def list_all_iff list_ex_iff verb_char_def wire_defs split: if_splits)

lemma list_ex_dropWhile: "\<not> list_ex P s \<Longrightarrow> \<not> list_ex P (dropWhile Q s)"
  by (auto simp: list_ex_iff dest: set_dropWhileD)

lemma not_control_Join:
  "\<not> list_ex (list_ex is_control) args \<Longrightarrow> \<not> list_ex is_control (Join args [SP])"
proof (induction args)
  case (Cons a args)
  then show ?case by (cases args) (auto simp: is_control_def)
qed simp

lemma line_outcome_CRLF:
  "int (length body) + 2 \<le> m \<Longrightarrow> line_outcome m (body @ [CR]) = Inr body"
  by (simp add: line_outcome_def)

lemma readCommandLine_body:
  assumes "lr_stream lr = body @ CRLF @ rest" "LF \<notin> set body" "int (length body) + 2 \<le> m"
  obtains lr' where "readCommandLine m lr = (Inr body, lr')" "lr_stream lr' = rest" "lr_fin lr' = lr_fin lr"
proof -
  have c: "Cut (lr_stream lr) LF = (body @ [CR], rest, True)"
    using Cut_append [of LF "body @ [CR]" rest] assms(1,2) by simp
  show ?thesis
    by (rule readCommandLine_spec [of m lr])
      (use assms(3) that in \<open>auto simp: command_line_spec_def c line_outcome_CRLF\<close>)
qed

lemma ReadCommand_EncodeCommand:
  assumes "EncodeCommand verb args = Inr w" "validateCommandVerb verb = None"
    and "lr_stream lr = w @ rest" "int (length w) \<le> MaxCommandLineLength (withDefaults lim)"
  shows "\<exists>lr'. ReadCommand None lim lr =
      (Inr \<lparr>cmd_Verb = verb, cmd_Argument = TrimLeftSP (Join args [SP])\<rparr>, lr') \<and> lr_stream lr' = rest"
proof -
  let ?tail = "concat (map (\<lambda>a. SP # a) args)"
  from assms(1) have ok: "\<not> list_ex is_control verb" "\<not> list_ex (list_ex is_control) args"
    and w: "w = verb @ ?tail @ CRLF" by (auto simp: EncodeCommand_Inr)
  have "LF \<notin> set ?tail"
    using ok(2) by (auto simp: list_ex_iff dest!: bspec [where x = LF] bspec) (auto simp: is_control_def)
  then have noLF: "LF \<notin> set (verb @ ?tail)"
    using not_control_noteq [OF ok(1)] by simp
  obtain lr' where r: "readCommandLine (MaxCommandLineLength (withDefaults lim)) lr = (Inr (verb @ ?tail), lr')"
    "lr_stream lr' = rest"
    by (rule readCommandLine_body [OF _ noLF, of lr rest "MaxCommandLineLength (withDefaults lim)"])
      (use assms(3,4) w in auto)
  have cut: "Cut (verb @ ?tail) SP = (if args = [] then (verb, [], False) else (verb, Join args [SP], True))"
    using verb_no_SP [OF assms(2)] by (simp add: concat_SP)
  have "\<not> list_ex is_control (TrimLeftSP (Join args [SP]))"
    unfolding TrimLeftSP_def by (rule list_ex_dropWhile) (rule not_control_Join [OF ok(2)])
  with r cut assms(2) verb_no_SP [OF assms(2)] show ?thesis
    by (simp add: ReadCommand_def setDeadline_def Let_def TrimLeftSP_def)
qed

text \<open>A command as a value: the verb, and one argument unless it is empty.\<close>

definition wire_command :: "command \<Rightarrow> bytes" where
  "wire_command c =
     (case EncodeCommand (cmd_Verb c) (if cmd_Argument c = [] then [] else [cmd_Argument c]) of
        Inr w \<Rightarrow> w | Inl _ \<Rightarrow> [])"

definition command_ok :: "limits \<Rightarrow> command \<Rightarrow> bool" where
  "command_ok lim c \<longleftrightarrow>
     validateCommandVerb (cmd_Verb c) = None \<and> \<not> list_ex is_control (cmd_Argument c) \<and>
     (cmd_Argument c = [] \<or> hd (cmd_Argument c) \<noteq> SP) \<and>
     int (length (wire_command c)) \<le> MaxCommandLineLength (withDefaults lim)"

interpretation command_framing: framing wire_command "ReadCommand None lim" lr_stream "command_ok lim" for lim
proof unfold_locales
  fix x s rest
  assume ok: "command_ok lim x" and st: "lr_stream s = wire_command x @ rest"
  let ?args = "if cmd_Argument x = [] then [] else [cmd_Argument x]"
  have enc: "EncodeCommand (cmd_Verb x) ?args = Inr (wire_command x)"
    using ok verb_no_control [of "cmd_Verb x"]
    by (auto simp: command_ok_def wire_command_def EncodeCommand_Inr split: sum.splits)
      (auto simp: EncodeCommand_def validateCommandToken_def split: if_splits)
  have "TrimLeftSP (Join ?args [SP]) = cmd_Argument x"
    using ok by (auto simp: command_ok_def TrimLeftSP_id)
  then have "\<lparr>cmd_Verb = cmd_Verb x, cmd_Argument = TrimLeftSP (Join ?args [SP])\<rparr> = x"
    by simp
  then
  show "\<exists>s'. ReadCommand None lim s = (Inr x, s') \<and> lr_stream s' = rest"
    using ReadCommand_EncodeCommand [OF enc _ st, of lim] ok by (simp add: command_ok_def del: command.ext_inject)
next
  show "\<exists>s. lr_stream s = bs" for bs
    by (rule exI [of _ "\<lparr>lr_buf = bs, lr_src = [], lr_fin = EOF\<rparr>"]) (simp add: lr_stream_def)
qed

section \<open>What an accepted command line looks like\<close>

lemma TrimLeftSP_split: "\<exists>k. s = replicate k SP @ TrimLeftSP s"
proof (induction s)
  case (Cons c s)
  then obtain k where k: "s = replicate k SP @ TrimLeftSP s" by blast
  show ?case
  proof (cases "c = SP")
    case True
    with k have "c # s = replicate (Suc k) SP @ TrimLeftSP (c # s)" by (simp add: TrimLeftSP_def)
    then show ?thesis by blast
  qed (auto simp: TrimLeftSP_def intro: exI [of _ 0])
qed (simp add: TrimLeftSP_def)

lemma TrimLeftSP_hd: "TrimLeftSP s = [] \<or> hd (TrimLeftSP s) \<noteq> SP"
  by (induction s) (auto simp: TrimLeftSP_def)

lemma line_outcome_Inr:
  "line_outcome m l = Inr body \<Longrightarrow> l = body @ [CR] \<and> int (length body) + 2 \<le> m"
  by (cases l rule: rev_cases) (auto simp: line_outcome_def split: if_splits)

lemma readCommandLine_Inr:
  assumes "readCommandLine m lr = (Inr body, lr')" "0 \<le> m"
  shows "lr_stream lr = body @ CRLF @ lr_stream lr' \<and> LF \<notin> set body \<and> int (length body) + 2 \<le> m"
proof -
  obtain l rest f where c: "Cut (lr_stream lr) LF = (l, rest, f)" by (cases "Cut (lr_stream lr) LF")
  obtain lr1 where "readCommandLine m lr = (fst (command_line_spec m (lr_stream lr) (lr_fin lr)), lr1)"
    "lr_stream lr1 = snd (command_line_spec m (lr_stream lr) (lr_fin lr))"
    by (rule readCommandLine_spec [OF assms(2), of lr])
  with assms(1) c have "f" "line_outcome m l = Inr body" "lr_stream lr' = rest"
    by (auto simp: command_line_spec_def split: if_splits)
  with Cut_eq [OF c] line_outcome_Inr show ?thesis by fastforce
qed

text \<open>\<open>raw\<close> is the line of a command: the verb, or the verb, a run of spaces and the argument.\<close>

definition command_line_of :: "command \<Rightarrow> bytes \<Rightarrow> bool" where
  "command_line_of c raw \<longleftrightarrow>
     (raw = cmd_Verb c \<and> cmd_Argument c = []) \<or>
     (\<exists>k. raw = cmd_Verb c @ replicate (Suc k) SP @ cmd_Argument c)"

lemma ReadCommand_Inr:
  assumes "ReadCommand dl lim lr = (Inr c, lr')"
  shows "\<exists>raw. lr_stream lr = raw @ CRLF @ lr_stream lr' \<and> \<not> list_ex is_control raw \<and>
    int (length raw) + 2 \<le> MaxCommandLineLength (withDefaults lim) \<and> command_line_of c raw \<and>
    validateCommandVerb (cmd_Verb c) = None \<and> (cmd_Argument c = [] \<or> hd (cmd_Argument c) \<noteq> SP)"
proof -
  let ?m = "MaxCommandLineLength (withDefaults lim)"
  obtain raw where r: "readCommandLine ?m lr = (Inr raw, lr')" and raw: "raw \<noteq> []"
    using assms by (auto simp: ReadCommand_def Let_def split: option.splits prod.splits sum.splits if_splits)
  obtain before after f where cut: "Cut raw SP = (before, after, f)" by (cases "Cut raw SP")
  let ?verb = "if f then before else raw" and ?arg = "if f then TrimLeftSP after else []"
  from assms r raw cut have c: "c = \<lparr>cmd_Verb = ?verb, cmd_Argument = ?arg\<rparr>"
    "validateCommandVerb ?verb = None" "\<not> list_ex is_control ?arg"
    by (auto simp: ReadCommand_def Let_def split: option.splits if_splits)
  obtain k where k: "after = replicate k SP @ TrimLeftSP after"
    using TrimLeftSP_split by blast
  have line: "raw = (if f then ?verb @ replicate (Suc k) SP @ ?arg else ?verb)"
    using Cut_eq [OF cut] k by auto
  then have "command_line_of c raw"
    using c(1) by (auto simp: command_line_of_def)
  moreover have "\<not> list_ex is_control raw"
    using verb_no_control [OF c(2)] c(3) line by (auto simp: list_ex_iff is_control_def split: if_splits)
  moreover have "?arg = [] \<or> hd ?arg \<noteq> SP"
    using TrimLeftSP_hd by simp
  ultimately show ?thesis
    using readCommandLine_Inr [OF r] c by (intro exI [of _ raw]) (auto simp: less_imp_le)
qed

lemma ReadCommand_terminated:
  assumes "lr_stream lr = l @ LF # rest" "LF \<notin> set l"
  shows "lr_stream (snd (ReadCommand None lim lr)) = rest"
proof -
  have c: "Cut (lr_stream lr) LF = (l, rest, True)"
    using assms by simp
  obtain lr' where "readCommandLine (MaxCommandLineLength (withDefaults lim)) lr =
      (line_outcome (MaxCommandLineLength (withDefaults lim)) l, lr')" "lr_stream lr' = rest"
    by (rule readCommandLine_spec [of "MaxCommandLineLength (withDefaults lim)" lr])
      (auto simp: command_line_spec_def c less_imp_le)
  then show ?thesis
    by (auto simp: ReadCommand_def setDeadline_def Let_def split: sum.splits prod.splits option.splits)
qed

section \<open>xtext\<close>

lemma xtextHexDigits_nth: "n < 16 \<Longrightarrow> hexVal (xtextHexDigits ! n) = Some n \<and> esmtp_char (xtextHexDigits ! n)"
proof -
  have "list_all (\<lambda>n. hexVal (xtextHexDigits ! n) = Some n \<and> esmtp_char (xtextHexDigits ! n)) [0..<16]"
    by code_simp
  moreover assume "n < 16"
  ultimately show ?thesis by (simp add: list_all_iff)
qed

lemma DecodeXtext_escape:
  "DecodeXtext (xtext_escape c @ s) = bind_res (DecodeXtext s) (\<lambda>r. Inr (c # r))"
proof -
  have "byte c div 16 < 16" "byte c mod 16 < 16"
    using byte_less [of c] by (auto simp: div_less_iff_less_mult simp del: byte_less)
  with xtextHexDigits_nth show ?thesis
    by (simp add: xtext_escape_def)
qed

lemma DecodeXtext_EncodeXtext: "DecodeXtext (EncodeXtext raw) = Inr raw"
  by (induction raw) (auto simp: DecodeXtext_escape)

interpretation xtext: codec EncodeXtext DecodeXtext "\<lambda>_. True"
  by unfold_locales (rule DecodeXtext_EncodeXtext)

lemma EncodeXtext_esmtp: "list_all esmtp_char (EncodeXtext raw)"
proof (induction raw)
  case (Cons c raw)
  have "byte c div 16 < 16" "byte c mod 16 < 16"
    using byte_less [of c] by (auto simp: div_less_iff_less_mult simp del: byte_less)
  with Cons xtextHexDigits_nth show ?case
    by (auto simp: xtext_escape_def) (auto simp: esmtp_char_def)
qed simp

lemma EncodeXtext_nonempty: "raw \<noteq> [] \<Longrightarrow> EncodeXtext raw \<noteq> []"
  by (cases raw) (auto simp: xtext_escape_def)

lemma ReadCommand_overlong_unterminated:
  assumes "LF \<notin> set (lr_stream lr)" "int (length (lr_stream lr)) > MaxCommandLineLength (withDefaults lim)"
  shows "fst (ReadCommand None lim lr) = Inl (IO (lr_fin lr))"
proof -
  have c: "Cut (lr_stream lr) LF = (lr_stream lr, [], False)"
    using assms(1) by simp
  obtain lr' where "readCommandLine (MaxCommandLineLength (withDefaults lim)) lr = (Inl (IO (lr_fin lr)), lr')"
    by (rule readCommandLine_spec [of "MaxCommandLineLength (withDefaults lim)" lr])
      (use assms(2) in \<open>auto simp: command_line_spec_def c less_imp_le\<close>)
  then show ?thesis
    by (simp add: ReadCommand_def setDeadline_def)
qed

section \<open>Properties\<close>

text \<open>C8: Pipelined commands stay in step. A server that reads as many commands as a client wrote
  with \<open>EncodeCommand\<close> gets exactly those commands in order, however the network segments them, and
  the octets after them (message content, or the next batch) are left unread.\<close>

theorem ReadCommand_pipelined:
  assumes "list_all (command_ok lim) cs" "lr_stream lr = concat (map wire_command cs) @ rest"
  shows "\<exists>lr'. read_n (ReadCommand None lim) (length cs) lr = (Inr cs, lr') \<and> lr_stream lr' = rest"
  by (rule command_framing.rd_sequence [OF assms])

theorem ReadCommand_pipelined_witness:
  "\<exists>lr'. read_n (ReadCommand None DefaultLimits) 2
      (NewLineReader [''RCPT TO:<a@'', ''b>'' @ CRLF @ ''DA'', ''TA'' @ CRLF @ ''Subject''] EOF) =
    (Inr [\<lparr>cmd_Verb = ''RCPT'', cmd_Argument = ''TO:<a@b>''\<rparr>, \<lparr>cmd_Verb = ''DATA'', cmd_Argument = []\<rparr>], lr') \<and>
    lr_stream lr' = ''Subject''"
proof -
  let ?cs = "[\<lparr>cmd_Verb = ''RCPT'', cmd_Argument = ''TO:<a@b>''\<rparr>, \<lparr>cmd_Verb = ''DATA'', cmd_Argument = []\<rparr>]"
  let ?lr = "NewLineReader [''RCPT TO:<a@'', ''b>'' @ CRLF @ ''DA'', ''TA'' @ CRLF @ ''Subject''] EOF"
  have ok: "list_all (command_ok DefaultLimits) ?cs"
    by code_simp
  have st: "lr_stream ?lr = concat (map wire_command ?cs) @ ''Subject''"
    by code_simp
  have "length ?cs = 2"
    by simp
  with ReadCommand_pipelined [OF ok st] show ?thesis
    by (simp only:)
qed

text \<open>C9: A command line has one boundary. What \<open>ReadCommand\<close> accepts is a line ending in CR LF with
  no other control octet in it, so no bare CR, bare LF or NUL; it fits the configured bound, its verb
  is a word of letters, digits and hyphens, the argument starts after the run of spaces, and the
  reader stands right behind the CR LF.\<close>

theorem ReadCommand_sound:
  assumes "ReadCommand dl lim lr = (Inr c, lr')"
  shows "\<exists>raw. lr_stream lr = raw @ CRLF @ lr_stream lr' \<and> \<not> list_ex is_control raw \<and>
    int (length raw) + 2 \<le> MaxCommandLineLength (withDefaults lim) \<and> command_line_of c raw \<and>
    validateCommandVerb (cmd_Verb c) = None \<and> (cmd_Argument c = [] \<or> hd (cmd_Argument c) \<noteq> SP)"
  by (rule ReadCommand_Inr [OF assms])

theorem ReadCommand_sound_witness:
  "\<exists>raw. ''MAIL  FROM:<>'' @ CRLF @ ''x'' = raw @ CRLF @ ''x'' \<and> \<not> list_ex is_control raw \<and>
    command_line_of \<lparr>cmd_Verb = ''MAIL'', cmd_Argument = ''FROM:<>''\<rparr> raw"
proof -
  let ?lr = "NewLineReader [''MAIL  FR'', ''OM:<>'' @ CRLF @ ''x''] EOF"
  have run: "ReadCommand None DefaultLimits ?lr =
      (Inr \<lparr>cmd_Verb = ''MAIL'', cmd_Argument = ''FROM:<>''\<rparr>, \<lparr>lr_buf = ''x'', lr_src = [], lr_fin = EOF\<rparr>)"
    by code_simp
  have "lr_stream ?lr = ''MAIL  FROM:<>'' @ CRLF @ ''x''" "lr_stream \<lparr>lr_buf = ''x'', lr_src = [], lr_fin = EOF\<rparr> = ''x''"
    by code_simp+
  with ReadCommand_sound [OF run] show ?thesis
    by metis
qed

text \<open>C10: A bad command line never desynchronises the session. Whatever \<open>ReadCommand\<close> makes of a line
  that ends in LF (accepted, too long, bare LF, bad verb, control octet), the reader is left right
  behind that LF.\<close>

theorem ReadCommand_resync:
  assumes "lr_stream lr = l @ LF # rest" "LF \<notin> set l"
  shows "lr_stream (snd (ReadCommand None lim lr)) = rest"
  by (rule ReadCommand_terminated [OF assms])

theorem ReadCommand_resync_witness:
  "fst (ReadCommand None (DefaultLimits\<lparr>MaxCommandLineLength := 6\<rparr>) (NewLineReader [''NOOP waste'' @ CRLF @ ''QUIT''] EOF)) =
     Inl ErrCommandLineTooLong \<and>
   lr_stream (snd (ReadCommand None (DefaultLimits\<lparr>MaxCommandLineLength := 6\<rparr>)
     (NewLineReader [''NOOP waste'' @ CRLF @ ''QUIT''] EOF))) = ''QUIT''"
proof
  show "fst (ReadCommand None (DefaultLimits\<lparr>MaxCommandLineLength := 6\<rparr>) (NewLineReader [''NOOP waste'' @ CRLF @ ''QUIT''] EOF)) =
     Inl ErrCommandLineTooLong"
    by code_simp
  have "lr_stream (NewLineReader [''NOOP waste'' @ CRLF @ ''QUIT''] EOF) = (''NOOP waste'' @ [CR]) @ LF # ''QUIT''"
    by code_simp
  then show "lr_stream (snd (ReadCommand None (DefaultLimits\<lparr>MaxCommandLineLength := 6\<rparr>)
     (NewLineReader [''NOOP waste'' @ CRLF @ ''QUIT''] EOF))) = ''QUIT''"
    by (rule ReadCommand_resync) simp
qed

text \<open>C20: xtext is lossless and always safe to send. Decoding the encoding of any octet string gives
  it back, and a non-empty string under a valid keyword always makes a parameter the encoder accepts.\<close>

theorem xtext_roundtrip:
  "DecodeXtext (EncodeXtext raw) = Inr raw \<and>
   (raw \<noteq> [] \<and> validateKeyword kw = None \<longrightarrow> EncodeParam (XtextParam kw raw) = Inr (kw @ ''='' @ EncodeXtext raw))"
  using EncodeXtext_esmtp [of raw] EncodeXtext_nonempty [of raw]
  by (auto simp: DecodeXtext_EncodeXtext EncodeParam_def XtextParam_def validateESMTPValue_def)

theorem xtext_roundtrip_witness:
  "DecodeXtext (EncodeXtext ''a+b=c d'') = Inr ''a+b=c d'' \<and>
   EncodeParam (XtextParam ''ENVID'' ''a+b=c d'') = Inr ''ENVID=a+2Bb+3Dc+20d''"
proof -
  have "validateKeyword ''ENVID'' = None" and e: "''ENVID'' @ ''='' @ EncodeXtext ''a+b=c d'' = ''ENVID=a+2Bb+3Dc+20d''"
    by code_simp+
  with xtext_roundtrip [of "''a+b=c d''" "''ENVID''"] show ?thesis by (simp only: e) simp
qed

text \<open>An oversized last line ends like a clean close. When the peer's stream ends inside a line
  that is already over the bound, \<open>ReadCommand\<close> returns the connection's own end error unchanged: EOF
  stays EOF, although for a line under the bound an end inside the line is reported as unexpected.\<close>

theorem ReadCommand_overlong_eof:
  assumes "LF \<notin> set (lr_stream lr)" "int (length (lr_stream lr)) > MaxCommandLineLength (withDefaults lim)"
  shows "fst (ReadCommand None lim lr) = Inl (IO (lr_fin lr))"
  by (rule ReadCommand_overlong_unterminated [OF assms])

theorem ReadCommand_overlong_eof_witness:
  "fst (ReadCommand None (DefaultLimits\<lparr>MaxCommandLineLength := 6\<rparr>) (NewLineReader [''NOOP xyz''] EOF)) = Inl (IO EOF) \<and>
   fst (ReadCommand None (DefaultLimits\<lparr>MaxCommandLineLength := 6\<rparr>) (NewLineReader [''NOOP''] EOF)) = Inl (IO ErrUnexpectedEOF)"
proof
  let ?lr = "NewLineReader [''NOOP xyz''] EOF"
  have "LF \<notin> set (lr_stream ?lr)"
    "int (length (lr_stream ?lr)) > MaxCommandLineLength (withDefaults (DefaultLimits\<lparr>MaxCommandLineLength := 6\<rparr>))"
    by code_simp+
  from ReadCommand_overlong_eof [OF this]
  show "fst (ReadCommand None (DefaultLimits\<lparr>MaxCommandLineLength := 6\<rparr>) (NewLineReader [''NOOP xyz''] EOF)) = Inl (IO EOF)"
    by (simp add: NewLineReader_def)
  show "fst (ReadCommand None (DefaultLimits\<lparr>MaxCommandLineLength := 6\<rparr>) (NewLineReader [''NOOP''] EOF)) = Inl (IO ErrUnexpectedEOF)"
    by code_simp
qed

end
