(* ===== verification/Wire_Ehlo.thy ===== *)
theory Wire_Ehlo
  imports Wire_Command
begin

text \<open>
  Greetings and trace fields: the EHLO reply as the client parses it (src/internal/smtpwire/ehlo.go)
  and as the server writes it, the HELO family of commands (hello.go) and the Received header
  (received.go). The case table above ASCII is the argument \<open>upr\<close> of \<open>strings.ToUpper\<close>. A time is
  its civil fields in its own zone; \<open>ts_zero\<close> stands for \<open>IsZero\<close>.
\<close>

section \<open>EHLO replies\<close>

record extension =
  ext_Keyword :: bytes
  ext_Params :: "bytes list"
  ext_Raw :: bytes

record ehlo_reply =
  ehlo_Domain :: bytes
  ehlo_Greeting :: bytes
  ehlo_Extensions :: "extension list"

fun parseExtensions :: "(nat \<Rightarrow> nat) \<Rightarrow> bytes list \<Rightarrow> wire_error + extension list" where
  "parseExtensions upr [] = Inr []"
| "parseExtensions upr (line # lines) =
     (let (kw, raw, found) = Cut line SP in
      if kw = [] then Inl ErrEHLOEmptyKeyword
      else
        let ext = \<lparr>ext_Keyword = ToUpper upr kw, ext_Params = (if found then Fields raw else []),
                   ext_Raw = (if found then raw else [])\<rparr> in
        bind_res (parseExtensions upr lines) (\<lambda>exts. Inr (ext # exts)))"

definition ParseEHLOReply :: "(nat \<Rightarrow> nat) \<Rightarrow> bytes list \<Rightarrow> wire_error + ehlo_reply" where
  "ParseEHLOReply upr lines =
     (case lines of
        [] \<Rightarrow> Inl ErrEHLOEmpty
      | l # ls \<Rightarrow>
          let (domain, greeting, _) = Cut l SP in
          bind_res (parseExtensions upr ls)
            (\<lambda>exts. Inr \<lparr>ehlo_Domain = domain, ehlo_Greeting = greeting, ehlo_Extensions = exts\<rparr>))"

definition extensionLine :: "extension \<Rightarrow> wire_error + bytes" where
  "extensionLine ext =
     (if validateKeyword (ext_Keyword ext) \<noteq> None then Inl ErrEHLOEncode
      else if ext_Raw ext \<noteq> [] then
        (if ContainsAny (ext_Raw ext) [CR, LF, NUL] then Inl ErrEHLOEncode
         else Inr (ext_Keyword ext @ [SP] @ ext_Raw ext))
      else if ext_Params ext \<noteq> [] then
        (if list_ex (\<lambda>p. p = [] \<or> ContainsAny p [SP, CR, LF, NUL]) (ext_Params ext) then Inl ErrEHLOEncode
         else Inr (ext_Keyword ext @ [SP] @ Join (ext_Params ext) [SP]))
      else Inr (ext_Keyword ext))"

fun extensionLines :: "extension list \<Rightarrow> wire_error + bytes list" where
  "extensionLines [] = Inr []"
| "extensionLines (e # es) =
     bind_res (extensionLine e) (\<lambda>l. bind_res (extensionLines es) (\<lambda>ls. Inr (l # ls)))"

definition EncodeEHLOReply :: "ehlo_reply \<Rightarrow> wire_error + bytes" where
  "EncodeEHLOReply r =
     (if ehlo_Domain r = [] \<or> ContainsAny (ehlo_Domain r) [SP, CR, LF, NUL] \<or>
         ContainsAny (ehlo_Greeting r) [CR, LF, NUL]
      then Inl ErrEHLOEncode
      else
        let first = ehlo_Domain r @ (if ehlo_Greeting r \<noteq> [] then [SP] @ ehlo_Greeting r else []) in
        bind_res (extensionLines (ehlo_Extensions r))
          (\<lambda>ls. EncodeReply \<lparr>rep_Code = 250, rep_Lines = first # ls, rep_Text = []\<rparr>
                  \<lparr>ro_Enhanced = None, ro_Context = ReplyContextHello\<rparr>))"

section \<open>HELO, EHLO and LHLO\<close>

record hello =
  hello_Verb :: bytes
  hello_Domain :: bytes

definition ParseHelloCommand :: "(nat \<Rightarrow> nat) \<Rightarrow> command \<Rightarrow> wire_error + hello" where
  "ParseHelloCommand upr c =
     (let verb = ToUpper upr (cmd_Verb c) in
      if verb \<notin> {''HELO'', ''EHLO'', ''LHLO''} then Inl ErrHelloVerb
      else if cmd_Argument c = [] \<or> SP \<in> set (cmd_Argument c) then Inl ErrHelloArgument
      else Inr \<lparr>hello_Verb = verb, hello_Domain = cmd_Argument c\<rparr>)"

section \<open>The Received field\<close>

record timestamp =
  ts_zero :: bool
  ts_Weekday :: nat
  ts_Day :: nat
  ts_Month :: nat
  ts_Year :: nat
  ts_Hour :: nat
  ts_Min :: nat
  ts_Sec :: nat
  ts_Offset :: int

definition pad :: "nat \<Rightarrow> nat \<Rightarrow> bytes" where
  "pad width n = replicate (width - length (FormatUint n)) (CHR ''0'') @ FormatUint n"

definition shortDayNames :: "bytes list" where
  "shortDayNames = [''Sun'', ''Mon'', ''Tue'', ''Wed'', ''Thu'', ''Fri'', ''Sat'']"

definition shortMonthNames :: "bytes list" where
  "shortMonthNames = [''Jan'', ''Feb'', ''Mar'', ''Apr'', ''May'', ''Jun'', ''Jul'', ''Aug'', ''Sep'', ''Oct'', ''Nov'', ''Dec'']"

text \<open>\<open>Time.Format\<close> with the layout \<open>Mon, 02 Jan 2006 15:04:05 -0700\<close>.\<close>

definition formatTime :: "timestamp \<Rightarrow> bytes" where
  "formatTime t =
     (let zone = nat (\<bar>ts_Offset t\<bar>) div 60 in
      shortDayNames ! (ts_Weekday t mod 7) @ '', '' @ pad 2 (ts_Day t) @ [SP] @
      shortMonthNames ! ((ts_Month t - 1) mod 12) @ [SP] @ pad 4 (ts_Year t) @ [SP] @
      pad 2 (ts_Hour t) @ '':'' @ pad 2 (ts_Min t) @ '':'' @ pad 2 (ts_Sec t) @ [SP] @
      (if ts_Offset t \<le> - 60 then ''-'' else ''+'') @ pad 2 (zone div 60) @ pad 2 (zone mod 60))"

record received_options =
  rcv_From :: bytes
  rcv_By :: bytes
  rcv_Extended :: bool
  rcv_LMTP :: bool
  rcv_TLS :: bool
  rcv_Authenticated :: bool
  rcv_ID :: bytes
  rcv_For :: bytes
  rcv_RecipientCount :: int
  rcv_Timestamp :: timestamp

definition receivedProtocol :: "received_options \<Rightarrow> wire_error + bytes" where
  "receivedProtocol opts =
     (if rcv_LMTP opts then
        (if rcv_TLS opts \<and> rcv_Authenticated opts then Inr ''LMTPSA''
         else if rcv_TLS opts then Inr ''LMTPS''
         else if rcv_Authenticated opts then Inr ''LMTPA''
         else Inr ''LMTP'')
      else if \<not> rcv_Extended opts then
        (if rcv_TLS opts \<or> rcv_Authenticated opts then Inl ErrReceivedState else Inr ''SMTP'')
      else if rcv_TLS opts \<and> rcv_Authenticated opts then Inr ''ESMTPSA''
      else if rcv_TLS opts then Inr ''ESMTPS''
      else if rcv_Authenticated opts then Inr ''ESMTPA''
      else Inr ''ESMTP'')"

definition FormatReceived :: "received_options \<Rightarrow> wire_error + bytes" where
  "FormatReceived opts =
     (if rcv_From opts = [] \<or> rcv_By opts = [] \<or> ts_zero (rcv_Timestamp opts) \<or> rcv_RecipientCount opts < 0
      then Inl ErrReceivedField
      else if list_ex (\<lambda>f. ContainsAny f [CR, LF, NUL]) [rcv_From opts, rcv_By opts, rcv_ID opts, rcv_For opts]
      then Inl ErrReceivedField
      else
        bind_res (receivedProtocol opts) (\<lambda>wth.
          let b = ''Received: from '' @ rcv_From opts @ '' by '' @ rcv_By opts @ '' with '' @ wth @
                  (if rcv_ID opts \<noteq> [] then '' id '' @ rcv_ID opts else []) in
          if rcv_RecipientCount opts = 1 \<and> rcv_For opts \<noteq> [] then
            (if hd (rcv_For opts) \<noteq> CHR ''<'' \<or> last (rcv_For opts) \<noteq> CHR ''>'' then Inl ErrReceivedField
             else Inr (b @ '' for '' @ rcv_For opts @ ''; '' @ formatTime (rcv_Timestamp opts) @ CRLF))
          else Inr (b @ ''; '' @ formatTime (rcv_Timestamp opts) @ CRLF)))"

section \<open>EHLO replies written and read back\<close>

text \<open>What a parsed extension line says of the extension it was made of.\<close>

definition ext_raw :: "extension \<Rightarrow> bytes" where
  "ext_raw e = (if ext_Raw e \<noteq> [] then ext_Raw e else Join (ext_Params e) [SP])"

definition ext_received :: "extension \<Rightarrow> extension" where
  "ext_received e =
     \<lparr>ext_Keyword = ToUpperASCII (ext_Keyword e), ext_Params = Fields (ext_raw e), ext_Raw = ext_raw e\<rparr>"

definition ehlo_first :: "ehlo_reply \<Rightarrow> bytes" where
  "ehlo_first r = ehlo_Domain r @ (if ehlo_Greeting r \<noteq> [] then [SP] @ ehlo_Greeting r else [])"

lemma keyword_ascii:
  assumes "validateKeyword kw = None"
  shows "kw \<noteq> [] \<and> SP \<notin> set kw \<and> list_all is_ascii kw"
  using assms by (cases kw) (auto simp: validateKeyword_def list_all_iff wire_defs split: if_splits)

lemma Join_eq_Nil: "list_all (\<lambda>p. p \<noteq> []) ps \<Longrightarrow> Join ps [SP] = [] \<longleftrightarrow> ps = []"
proof (induction ps)
  case (Cons p ps)
  then show ?case by (cases ps) auto
qed simp

lemma extensionLine_form:
  assumes "extensionLine e = Inr l"
  shows "validateKeyword (ext_Keyword e) = None \<and>
    l = ext_Keyword e @ (if ext_raw e = [] then [] else [SP] @ ext_raw e)"
proof -
  have "Join (ext_Params e) [SP] = [] \<longleftrightarrow> ext_Params e = []" if "ext_Raw e = []"
    using assms that by (intro Join_eq_Nil) (auto simp: extensionLine_def list_ex_iff list_all_iff split: if_splits)
  with assms show ?thesis
    by (auto simp: extensionLine_def ext_raw_def split: if_splits)
qed

lemma parseExtensions_lines:
  "extensionLines es = Inr ls \<Longrightarrow> parseExtensions upr ls = Inr (map ext_received es)"
proof (induction es arbitrary: ls)
  case (Cons e es)
  then obtain l ls' where ls: "ls = l # ls'" "extensionLine e = Inr l" "extensionLines es = Inr ls'"
    by (auto simp: bind_res_Inr_iff)
  have l: "validateKeyword (ext_Keyword e) = None" "l = ext_Keyword e @ (if ext_raw e = [] then [] else [SP] @ ext_raw e)"
    using extensionLine_form [OF ls(2)] by auto
  have "Cut l SP = (ext_Keyword e, ext_raw e, ext_raw e \<noteq> [])"
    using l(2) keyword_ascii [OF l(1)] by simp
  with keyword_ascii [OF l(1)] Cons.IH [OF ls(3)] ls(1) show ?case
    by (simp add: ext_received_def)
qed simp

lemma EncodeEHLOReply_lines:
  assumes "EncodeEHLOReply r = Inr w"
  obtains ls where "extensionLines (ehlo_Extensions r) = Inr ls" "SP \<notin> set (ehlo_Domain r)"
    "EncodeReply \<lparr>rep_Code = 250, rep_Lines = ehlo_first r # ls, rep_Text = []\<rparr>
       \<lparr>ro_Enhanced = None, ro_Context = ReplyContextHello\<rparr> = Inr w"
  using assms that
  by (auto simp: EncodeEHLOReply_def ehlo_first_def bind_res_Inr_iff ContainsAny_iff Let_def split: if_splits)

lemma ehlo_read_back:
  assumes "EncodeEHLOReply r = Inr w" "lr_stream lr = w @ rest" "MaxReplyLineLength lim \<le> MaxInt64 - 5"
    and "extensionLines (ehlo_Extensions r) = Inr ls"
    and "reply_within (withDefaults lim) \<lparr>rep_Code = 250, rep_Lines = ehlo_first r # ls, rep_Text = []\<rparr>"
  shows "\<exists>q lr'. ReadReply None lim lr = (Inr q, lr') \<and> rep_Code q = 250 \<and> lr_stream lr' = rest \<and>
    ParseEHLOReply upr (rep_Lines q) =
      Inr (r\<lparr>ehlo_Extensions := map ext_received (ehlo_Extensions r)\<rparr>)"
proof -
  let ?rep = "\<lparr>rep_Code = 250, rep_Lines = ehlo_first r # ls, rep_Text = []\<rparr>"
  let ?o = "\<lparr>ro_Enhanced = None, ro_Context = ReplyContextHello\<rparr>"
  have enc: "EncodeReply ?rep ?o = Inr w" and dom: "SP \<notin> set (ehlo_Domain r)"
    using assms(4) by (auto intro: EncodeEHLOReply_lines [OF assms(1)])
  have sent: "sent_lines ?rep ?o = ehlo_first r # ls" by (simp add: sent_lines_def)
  have "Cut (ehlo_first r) SP = (ehlo_Domain r, ehlo_Greeting r, ehlo_Greeting r \<noteq> [])"
    using dom by (simp add: ehlo_first_def)
  then have "ParseEHLOReply upr (ehlo_first r # ls) = Inr (r\<lparr>ehlo_Extensions := map ext_received (ehlo_Extensions r)\<rparr>)"
    using parseExtensions_lines [OF assms(4)] by (simp add: ParseEHLOReply_def)
  with ReadReply_EncodeReply [OF enc assms(2), of lim "[]", unfolded sent] assms(3,5) show ?thesis
    by fastforce
qed

section \<open>One line of trace\<close>

lemma formatTime_text: "wire_text (formatTime t)"
proof -
  have days: "\<forall>d \<in> set shortDayNames. wire_text d" and months: "\<forall>d \<in> set shortMonthNames. wire_text d"
    by (auto simp: shortDayNames_def shortMonthNames_def wire_text_iff)
  have "shortDayNames ! (ts_Weekday t mod 7) \<in> set shortDayNames"
    "shortMonthNames ! ((ts_Month t - 1) mod 12) \<in> set shortMonthNames"
    by (rule nth_mem, simp add: shortDayNames_def, rule nth_mem, simp add: shortMonthNames_def)
  with days months have "wire_text (shortDayNames ! (ts_Weekday t mod 7))" "wire_text (shortMonthNames ! ((ts_Month t - 1) mod 12))"
    by blast+
  moreover have "wire_text (pad w n)" for w n
    by (auto simp: pad_def wire_text_iff is_digit_def dest!: FormatUint_digit)
  ultimately show ?thesis
    by (simp add: formatTime_def wire_text_iff Let_def)
qed

lemma receivedProtocol_text: "receivedProtocol opts = Inr wth \<Longrightarrow> wire_text wth"
  by (auto simp: receivedProtocol_def wire_text_iff split: if_splits)

lemma FormatReceived_line:
  assumes "FormatReceived opts = Inr h"
  shows "\<exists>line. h = line @ CRLF \<and> wire_text line \<and> HasPrefix line ''Received: from ''"
proof -
  obtain wth where wth: "receivedProtocol opts = Inr wth"
    using assms by (auto simp: FormatReceived_def bind_res_Inr_iff split: if_splits)
  have fields: "wire_text (rcv_From opts)" "wire_text (rcv_By opts)" "wire_text (rcv_ID opts)" "wire_text (rcv_For opts)"
    using assms by (auto simp: FormatReceived_def wire_text_def split: if_splits)
  let ?tail = "rcv_From opts @ '' by '' @ rcv_By opts @ '' with '' @ wth @
    (if rcv_ID opts \<noteq> [] then '' id '' @ rcv_ID opts else []) @
    (if rcv_RecipientCount opts = 1 \<and> rcv_For opts \<noteq> [] then '' for '' @ rcv_For opts else []) @
    ''; '' @ formatTime (rcv_Timestamp opts)"
  have "h = (''Received: from '' @ ?tail) @ CRLF"
    using assms wth by (auto simp: FormatReceived_def Let_def split: if_splits)
  moreover have "wire_text (''Received: from '' @ ?tail)"
    using fields receivedProtocol_text [OF wth] formatTime_text [of "rcv_Timestamp opts"]
    by (simp add: wire_text_iff)
  moreover have "HasPrefix (''Received: from '' @ ?tail) ''Received: from ''"
    by (simp add: HasPrefix_def)
  ultimately show ?thesis by blast
qed

section \<open>Properties\<close>

text \<open>C18: The capabilities a server advertises are the ones the client sees. An EHLO reply that
  \<open>EncodeEHLOReply\<close> writes is read and parsed back with the same domain and greeting text, and every
  extension in order with its keyword in upper case and its parameters.\<close>

theorem ehlo_roundtrip:
  assumes "EncodeEHLOReply r = Inr w" "lr_stream lr = w @ rest" "MaxReplyLineLength lim \<le> MaxInt64 - 5"
    and "extensionLines (ehlo_Extensions r) = Inr ls"
    and "reply_within (withDefaults lim) \<lparr>rep_Code = 250, rep_Lines = ehlo_first r # ls, rep_Text = []\<rparr>"
  shows "\<exists>q lr'. ReadReply None lim lr = (Inr q, lr') \<and> rep_Code q = 250 \<and> lr_stream lr' = rest \<and>
    ParseEHLOReply upr (rep_Lines q) =
      Inr (r\<lparr>ehlo_Extensions := map ext_received (ehlo_Extensions r)\<rparr>)"
  by (rule ehlo_read_back [OF assms])

theorem ehlo_roundtrip_witness:
  "\<exists>q lr'. ReadReply None DefaultLimits (NewLineReader [''250-mx hi'' @ CRLF @ ''250-SIZE'', '' 99'' @ CRLF @ ''250 DSN'' @ CRLF] EOF) = (Inr q, lr') \<and>
    ParseEHLOReply (\<lambda>r. r) (rep_Lines q) = Inr \<lparr>ehlo_Domain = ''mx'', ehlo_Greeting = ''hi'', ehlo_Extensions =
      [\<lparr>ext_Keyword = ''SIZE'', ext_Params = [''99''], ext_Raw = ''99''\<rparr>, \<lparr>ext_Keyword = ''DSN'', ext_Params = [], ext_Raw = []\<rparr>]\<rparr>"
proof -
  let ?s = "\<lparr>ehlo_Domain = ''mx'', ehlo_Greeting = ''hi'', ehlo_Extensions =
      [\<lparr>ext_Keyword = ''SIZE'', ext_Params = [''99''], ext_Raw = []\<rparr>, \<lparr>ext_Keyword = ''DSN'', ext_Params = [], ext_Raw = []\<rparr>]\<rparr>"
  let ?lr = "NewLineReader [''250-mx hi'' @ CRLF @ ''250-SIZE'', '' 99'' @ CRLF @ ''250 DSN'' @ CRLF] EOF"
  let ?w = "''250-mx hi'' @ CRLF @ ''250-SIZE 99'' @ CRLF @ ''250 DSN'' @ CRLF"
  have enc: "EncodeEHLOReply ?s = Inr ?w" by code_simp
  have st: "lr_stream ?lr = ?w @ []" by code_simp
  have lim: "MaxReplyLineLength DefaultLimits \<le> MaxInt64 - 5" by code_simp
  have ls: "extensionLines (ehlo_Extensions ?s) = Inr [''SIZE 99'', ''DSN'']" by code_simp
  have win: "reply_within (withDefaults DefaultLimits) \<lparr>rep_Code = 250, rep_Lines = ehlo_first ?s # [''SIZE 99'', ''DSN''], rep_Text = []\<rparr>"
    by code_simp
  have "Fields ''99'' = [''99'']"
    by (rule Fields_word) (simp add: plain_word_def is_ascii_def IsSpace_def)
  then have res: "?s\<lparr>ehlo_Extensions := map ext_received (ehlo_Extensions ?s)\<rparr> =
      \<lparr>ehlo_Domain = ''mx'', ehlo_Greeting = ''hi'', ehlo_Extensions =
      [\<lparr>ext_Keyword = ''SIZE'', ext_Params = [''99''], ext_Raw = ''99''\<rparr>, \<lparr>ext_Keyword = ''DSN'', ext_Params = [], ext_Raw = []\<rparr>]\<rparr>"
    by (simp add: ext_received_def ext_raw_def ToUpperASCII_def upper_char_def is_lower_def)
  show ?thesis
    using ehlo_roundtrip [OF enc st lim ls win, of "\<lambda>r. r"] unfolding res by blast
qed

text \<open>C19: No header injection through the envelope. A Received field is one line: no CR, LF or NUL
  comes before its final CR LF, whatever the peer put into its greeting name or a recipient; and with
  any number of recipients but one, it does not depend on the recipient at all.\<close>

theorem received_one_line:
  assumes "FormatReceived opts = Inr h"
  shows "(\<exists>line. h = line @ CRLF \<and> wire_text line \<and> HasPrefix line ''Received: from '') \<and>
    (rcv_RecipientCount opts \<noteq> 1 \<longrightarrow> FormatReceived (opts\<lparr>rcv_For := []\<rparr>) = Inr h)"
  using FormatReceived_line [OF assms] assms
  by (auto simp: FormatReceived_def receivedProtocol_def Let_def bind_res_Inr_iff split: if_splits)

theorem received_one_line_witness:
  "\<exists>line. FormatReceived \<lparr>rcv_From = ''c'', rcv_By = ''s'', rcv_Extended = True, rcv_LMTP = False, rcv_TLS = True,
      rcv_Authenticated = False, rcv_ID = [], rcv_For = ''<a@b>'', rcv_RecipientCount = 1,
      rcv_Timestamp = \<lparr>ts_zero = False, ts_Weekday = 1, ts_Day = 2, ts_Month = 1, ts_Year = 2006, ts_Hour = 15,
        ts_Min = 4, ts_Sec = 5, ts_Offset = -25200\<rparr>\<rparr> = Inr (line @ CRLF) \<and> wire_text line"
proof -
  let ?o = "\<lparr>rcv_From = ''c'', rcv_By = ''s'', rcv_Extended = True, rcv_LMTP = False, rcv_TLS = True,
      rcv_Authenticated = False, rcv_ID = [], rcv_For = ''<a@b>'', rcv_RecipientCount = 1,
      rcv_Timestamp = \<lparr>ts_zero = False, ts_Weekday = 1, ts_Day = 2, ts_Month = 1, ts_Year = 2006, ts_Hour = 15,
        ts_Min = 4, ts_Sec = 5, ts_Offset = -25200\<rparr>\<rparr>"
  have "FormatReceived ?o = Inr (''Received: from c by s with ESMTPS for <a@b>; '' @ formatTime (rcv_Timestamp ?o) @ CRLF)"
    by (simp add: FormatReceived_def receivedProtocol_def ContainsAny_def)
  from received_one_line [OF this] this show ?thesis by metis
qed

end
