(* ===== verification/Srv_Connections.thy ===== *)
theory Srv_Connections
  imports Go_Base "HOL-Library.Mapping" "HOL-Library.AList_Mapping"
begin

text \<open>
  The registry of live connections (smtpserver/connections.go): the limit on all connections, the limit per source
  and the shutdown. The state under the registry's mutex changes in one critical section per operation, so an execution
  of the server is a sequence of these sections in some order; \<open>registry_step\<close> is one of them and \<open>registry_run\<close> any
  interleaving. What the code does after the unlock: the \<open>wait.Done()\<close> of \<open>unregister\<close> is a step of its own, which
  other operations may precede, and \<open>rg_leaving\<close> counts the handlers that stand between the unlock and that call. The
  calls \<open>cancel()\<close> of \<open>shutdown\<close> and \<open>Close()\<close> of \<open>closeAll\<close> touch the connections only, never the registry, and each is
  part of the step that made the copy of the connections it runs over.

  A connection is a number, as distinct connections are distinct map keys. \<open>rg_wait\<close> is the counter of the WaitGroup,
  \<open>rg_cancelled\<close> the connections whose context was cancelled and \<open>rg_closed\<close> those that were closed by force.
\<close>

section \<open>State\<close>

record connectionSource =
  cs_kind :: nat
  cs_network :: bytes
  cs_value :: bytes

type_synonym conn = nat

record connectionRegistry =
  rg_accepting :: bool
  rg_max :: int
  rg_maxSource :: int
  rg_active :: "(conn, connectionSource) mapping"
  rg_bySource :: "(connectionSource, int) mapping"
  rg_wait :: int
  rg_leaving :: nat
  rg_cancelled :: "conn list"
  rg_closed :: "conn list"

definition newConnectionRegistry :: "int \<Rightarrow> int \<Rightarrow> connectionRegistry" where
  "newConnectionRegistry maximum maximumPerSource =
     \<lparr>rg_accepting = True, rg_max = maximum, rg_maxSource = maximumPerSource, rg_active = Mapping.empty,
      rg_bySource = Mapping.empty, rg_wait = 0, rg_leaving = 0, rg_cancelled = [], rg_closed = []\<rparr>"

text \<open>A Go map read without the second result: the zero value for an absent key.\<close>

definition source_count :: "connectionRegistry \<Rightarrow> connectionSource \<Rightarrow> int" where
  "source_count r s = Mapping.lookup_default 0 (rg_bySource r) s"

section \<open>Operations\<close>

definition register :: "conn \<Rightarrow> connectionSource \<Rightarrow> connectionRegistry \<Rightarrow> bool \<times> connectionRegistry" where
  "register c s r =
     (if \<not> rg_accepting r \<or> (rg_max r > 0 \<and> int (Mapping.size (rg_active r)) \<ge> rg_max r) \<or> source_count r s \<ge> rg_maxSource r
      then (False, r)
      else if Mapping.lookup (rg_active r) c \<noteq> None then (False, r)
      else
        (True,
         r\<lparr>rg_active := Mapping.update c s (rg_active r),
           rg_bySource := Mapping.update s (source_count r s + 1) (rg_bySource r),
           rg_wait := rg_wait r + 1\<rparr>))"

definition unregister :: "conn \<Rightarrow> connectionRegistry \<Rightarrow> connectionRegistry" where
  "unregister c r =
     (case Mapping.lookup (rg_active r) c of
        None \<Rightarrow> r
      | Some s \<Rightarrow>
          let remaining = source_count r s - 1 in
          r\<lparr>rg_active := Mapping.delete c (rg_active r),
            rg_bySource := (if remaining = 0 then Mapping.delete s (rg_bySource r) else Mapping.update s remaining (rg_bySource r)),
            rg_leaving := rg_leaving r + 1\<rparr>)"

text \<open>The call of \<open>wait.Done()\<close> by a handler that has left its critical section.\<close>

definition wait_Done :: "connectionRegistry \<Rightarrow> connectionRegistry" where
  "wait_Done r = r\<lparr>rg_wait := rg_wait r - 1, rg_leaving := rg_leaving r - 1\<rparr>"

text \<open>\<open>shutdown\<close> up to the end of its loop over \<open>cancel()\<close>: it takes the mutex to stop the registration and to copy the
  connections and cancels these. Then it waits for the WaitGroup or the end of its context; Go leaves the order of the
  map open.\<close>

definition shutdown_begin :: "connectionRegistry \<Rightarrow> connectionRegistry" where
  "shutdown_begin r =
     r\<lparr>rg_accepting := False, rg_cancelled := rg_cancelled r @ Mapping.ordered_keys (rg_active r)\<rparr>"

definition shutdown_done :: "connectionRegistry \<Rightarrow> bool" where
  "shutdown_done r \<longleftrightarrow> rg_wait r = 0"

definition closeAll :: "connectionRegistry \<Rightarrow> connectionRegistry" where
  "closeAll r = r\<lparr>rg_closed := rg_closed r @ Mapping.ordered_keys (rg_active r)\<rparr>"

datatype registry_event = Register conn connectionSource bool | Unregister conn | WaitDone | ShutdownBegin | ShutdownExpired

inductive registry_step :: "connectionRegistry \<Rightarrow> registry_event \<Rightarrow> connectionRegistry \<Rightarrow> bool" where
  register_step: "register c s r = (ok, r') \<Longrightarrow> registry_step r (Register c s ok) r'"
| unregister_step: "registry_step r (Unregister c) (unregister c r)"
| done_step: "0 < rg_leaving r \<Longrightarrow> registry_step r WaitDone (wait_Done r)"
| begin_step: "registry_step r ShutdownBegin (shutdown_begin r)"
| expire_step: "\<not> rg_accepting r \<Longrightarrow> registry_step r ShutdownExpired (closeAll r)"

inductive_cases registry_stepE: "registry_step r e r'"

inductive registry_run :: "connectionRegistry \<Rightarrow> registry_event list \<Rightarrow> connectionRegistry \<Rightarrow> bool" where
  run_Nil: "registry_run r [] r"
| run_snoc: "registry_run r es r1 \<Longrightarrow> registry_step r1 e r2 \<Longrightarrow> registry_run r (es @ [e]) r2"

section \<open>Invariant\<close>

definition live :: "connectionRegistry \<Rightarrow> connectionSource \<Rightarrow> conn set" where
  "live r s = {c \<in> Mapping.keys (rg_active r). Mapping.lookup (rg_active r) c = Some s}"

definition registry_ok :: "connectionRegistry \<Rightarrow> bool" where
  "registry_ok r \<longleftrightarrow>
     finite (Mapping.keys (rg_active r)) \<and> rg_wait r = int (Mapping.size (rg_active r) + rg_leaving r) \<and>
     (rg_max r > 0 \<longrightarrow> int (Mapping.size (rg_active r)) \<le> rg_max r) \<and>
     (\<forall>s. source_count r s = int (card (live r s))) \<and>
     (\<forall>s. Mapping.lookup (rg_bySource r) s \<noteq> Some 0) \<and>
     (\<forall>s. 0 \<le> rg_maxSource r \<longrightarrow> source_count r s \<le> rg_maxSource r)"

lemma source_count_lookup: "source_count r s = (case Mapping.lookup (rg_bySource r) s of None \<Rightarrow> 0 | Some n \<Rightarrow> n)"
  by (simp add: source_count_def Mapping.lookup_default_def)

lemma lookup_delete_if: "Mapping.lookup (Mapping.delete k m) k' = (if k = k' then None else Mapping.lookup m k')"
  by simp

lemma finite_live [simp]: "finite (Mapping.keys (rg_active r)) \<Longrightarrow> finite (live r s)"
  by (simp add: live_def)

lemma register_live:
  assumes "Mapping.lookup (rg_active r) c = None" "rg_active r' = Mapping.update c s (rg_active r)"
  shows "live r' t = (if t = s then insert c (live r t) else live r t)"
  using assms by (auto simp: live_def lookup_update' keys_is_none_rep Option.is_none_def split: if_splits)

lemma register_ok:
  assumes "registry_ok r" "register c s r = (ok, r')"
  shows "registry_ok r'"
proof (cases "r' = r")
  case False
  then have new: "Mapping.lookup (rg_active r) c = None" "\<not> (rg_max r > 0 \<and> int (Mapping.size (rg_active r)) \<ge> rg_max r)"
    "source_count r s < rg_maxSource r"
    and r': "r' = r\<lparr>rg_active := Mapping.update c s (rg_active r),
      rg_bySource := Mapping.update s (source_count r s + 1) (rg_bySource r), rg_wait := rg_wait r + 1\<rparr>"
    using assms(2) by (auto simp: register_def split: if_splits)
  have fin: "finite (Mapping.keys (rg_active r))" using assms(1) by (simp add: registry_ok_def)
  have fresh: "c \<notin> Mapping.keys (rg_active r)" using new(1) by (simp add: keys_is_none_rep)
  have size: "Mapping.size (rg_active r') = Suc (Mapping.size (rg_active r))"
    using fresh fin by (simp add: r' Mapping.size_def)
  have sc: "source_count r' t = (if t = s then source_count r s + 1 else source_count r t)" for t
    by (simp add: r' source_count_lookup lookup_update')
  have lv: "live r' t = (if t = s then insert c (live r t) else live r t)" for t
    by (rule register_live [OF new(1)]) (simp add: r')
  have "c \<notin> live r s" using fresh by (simp add: live_def)
  then have "source_count r' t = int (card (live r' t))" for t
    using assms(1) by (simp add: sc lv registry_ok_def fin)
  moreover have "source_count r s \<ge> 0" using assms(1) by (simp add: registry_ok_def)
  ultimately show ?thesis
    using assms(1) size new sc fin unfolding registry_ok_def
    by (auto simp: r' lookup_update' split: if_splits)
qed (use assms in simp)

lemma unregister_ok:
  assumes "registry_ok r"
  shows "registry_ok (unregister c r)"
proof (cases "Mapping.lookup (rg_active r) c")
  case (Some s)
  let ?r = "unregister c r"
  have fin: "finite (Mapping.keys (rg_active r))" using assms by (simp add: registry_ok_def)
  have act: "rg_active ?r = Mapping.delete c (rg_active r)" "rg_max ?r = rg_max r" "rg_maxSource ?r = rg_maxSource r"
    "rg_wait ?r = rg_wait r" "rg_leaving ?r = rg_leaving r + 1" by (simp_all add: unregister_def Some Let_def)
  have mem: "c \<in> Mapping.keys (rg_active r)" using Some by (simp add: keys_is_none_rep)
  then have pos: "0 < Mapping.size (rg_active r)" using fin by (auto simp: Mapping.size_def card_gt_0_iff)
  have size: "Mapping.size (rg_active ?r) = Mapping.size (rg_active r) - 1"
    using mem fin by (simp add: act Mapping.size_def)
  have lv: "live ?r t = (if t = s then live r t - {c} else live r t)" for t
    using Some by (auto simp: live_def act lookup_delete_if)
  have "c \<in> live r s" using Some mem by (simp add: live_def)
  then have card: "card (live ?r t) = (if t = s then card (live r t) - 1 else card (live r t))" "0 < card (live r s)" for t
    using fin by (auto simp: lv card_gt_0_iff)
  have sc: "source_count ?r t = (if t = s then source_count r s - 1 else source_count r t)" for t
    by (simp add: unregister_def Some Let_def source_count_lookup lookup_update' lookup_delete_if split: option.splits)
  have eq: "source_count ?r t = int (card (live ?r t))" for t
    using assms card by (auto simp: sc registry_ok_def of_nat_diff)
  have "Mapping.lookup (rg_bySource ?r) t \<noteq> Some 0" for t
    using assms by (auto simp: registry_ok_def unregister_def Some Let_def lookup_update' lookup_delete_if)
  moreover have "0 \<le> rg_maxSource r \<longrightarrow> source_count ?r t \<le> rg_maxSource r" for t
  proof -
    have "0 \<le> rg_maxSource r \<longrightarrow> source_count r t \<le> rg_maxSource r"
      using assms unfolding registry_ok_def by blast
    then show ?thesis by (auto simp: sc)
  qed
  ultimately show ?thesis
    using assms size pos fin eq unfolding registry_ok_def act by (auto simp: of_nat_diff)
qed (use assms in \<open>simp add: unregister_def\<close>)

lemma wait_Done_ok: "registry_ok r \<Longrightarrow> 0 < rg_leaving r \<Longrightarrow> registry_ok (wait_Done r)"
  by (auto simp: registry_ok_def wait_Done_def source_count_def live_def)

lemma shutdown_ok [simp]: "registry_ok (shutdown_begin r) = registry_ok r" "registry_ok (closeAll r) = registry_ok r"
  by (simp_all add: registry_ok_def shutdown_begin_def closeAll_def source_count_def live_def)

lemma step_ok: "registry_step r e r' \<Longrightarrow> registry_ok r \<Longrightarrow> registry_ok r'"
  by (induction rule: registry_step.induct) (auto intro: register_ok unregister_ok wait_Done_ok)

lemma run_ok: "registry_run r es r' \<Longrightarrow> registry_ok r \<Longrightarrow> registry_ok r'"
  by (induction rule: registry_run.induct) (auto intro: step_ok)

lemma new_registry_ok: "registry_ok (newConnectionRegistry m k)"
  by (simp add: registry_ok_def newConnectionRegistry_def source_count_lookup live_def Mapping.size_def)

lemma step_limits: "registry_step r e r' \<Longrightarrow> rg_max r' = rg_max r \<and> rg_maxSource r' = rg_maxSource r"
  by (induction rule: registry_step.induct)
    (auto simp: register_def unregister_def wait_Done_def shutdown_begin_def closeAll_def Let_def split: option.splits if_splits)

lemma run_limits: "registry_run r es r' \<Longrightarrow> rg_max r' = rg_max r \<and> rg_maxSource r' = rg_maxSource r"
  by (induction rule: registry_run.induct) (auto dest: step_limits)

text \<open>Once the registry stopped accepting it only loses connections.\<close>

lemma step_stopped:
  "registry_step r e r' \<Longrightarrow> \<not> rg_accepting r \<Longrightarrow>
    \<not> rg_accepting r' \<and> Mapping.keys (rg_active r') \<subseteq> Mapping.keys (rg_active r) \<and> set (rg_cancelled r) \<subseteq> set (rg_cancelled r')"
  by (induction rule: registry_step.induct)
    (auto simp: register_def unregister_def wait_Done_def shutdown_begin_def closeAll_def Let_def split: option.splits if_splits)

lemma run_stopped:
  "registry_run r es r' \<Longrightarrow> \<not> rg_accepting r \<Longrightarrow>
    \<not> rg_accepting r' \<and> Mapping.keys (rg_active r') \<subseteq> Mapping.keys (rg_active r) \<and> set (rg_cancelled r) \<subseteq> set (rg_cancelled r')"
  by (induction rule: registry_run.induct) (blast dest: step_stopped)+

lemma ordered_keys_set: "finite (Mapping.keys m) \<Longrightarrow> set (Mapping.ordered_keys m) = Mapping.keys m"
  by (simp add: Mapping.ordered_keys_def)

text \<open>Every connection that was ever admitted is live, or its handler is about to call \<open>wait.Done()\<close>, or has done so.\<close>

definition admitted :: "registry_event list \<Rightarrow> nat" where
  "admitted es = length (filter (\<lambda>e. case e of Register _ _ ok \<Rightarrow> ok | _ \<Rightarrow> False) es)"

definition left :: "registry_event list \<Rightarrow> nat" where
  "left es = length (filter ((=) WaitDone) es)"

lemma register_size:
  assumes "registry_ok r" "register c s r = (ok, r')"
  shows "Mapping.size (rg_active r') = Mapping.size (rg_active r) + (if ok then 1 else 0) \<and> rg_leaving r' = rg_leaving r"
proof -
  have "finite (Mapping.keys (rg_active r))" using assms(1) by (simp add: registry_ok_def)
  with assms(2) show ?thesis
    by (auto simp: register_def Mapping.size_def keys_is_none_rep Option.is_none_def split: if_splits)
qed

lemma unregister_size:
  assumes "registry_ok r"
  shows "Mapping.size (rg_active (unregister c r)) + rg_leaving (unregister c r) = Mapping.size (rg_active r) + rg_leaving r"
proof (cases "Mapping.lookup (rg_active r) c")
  case (Some s)
  then have "c \<in> Mapping.keys (rg_active r)" by (simp add: keys_is_none_rep)
  moreover have "finite (Mapping.keys (rg_active r))" using assms by (simp add: registry_ok_def)
  ultimately have "0 < Mapping.size (rg_active r)" "Mapping.size (Mapping.delete c (rg_active r)) = Mapping.size (rg_active r) - 1"
    by (auto simp: Mapping.size_def card_gt_0_iff)
  with Some show ?thesis by (simp add: unregister_def Let_def)
qed (simp add: unregister_def)

lemma step_balance:
  assumes "registry_step r e r'" "registry_ok r"
  shows "Mapping.size (rg_active r') + rg_leaving r' + left [e] = Mapping.size (rg_active r) + rg_leaving r + admitted [e]"
  using assms(1)
proof cases
  case (register_step c s ok)
  then show ?thesis using register_size [OF assms(2) register_step(2)] by (simp add: admitted_def left_def)
next
  case (unregister_step c)
  then show ?thesis using unregister_size [OF assms(2), of c] by (simp add: admitted_def left_def)
qed (auto simp: admitted_def left_def wait_Done_def shutdown_begin_def closeAll_def)

lemma run_balance:
  assumes "registry_run r es r'" "registry_ok r"
  shows "Mapping.size (rg_active r') + rg_leaving r' + left es = Mapping.size (rg_active r) + rg_leaving r + admitted es"
  using assms
proof (induction rule: registry_run.induct)
  case (run_snoc r es r1 e r2)
  with step_balance [OF run_snoc.hyps(2) run_ok [OF run_snoc.hyps(1)]] show ?case by (simp add: admitted_def left_def)
qed (simp add: admitted_def left_def)

text \<open>C36: whatever the interleaving of connections that arrive and leave with a shutdown, the registry never holds
  more connections than its limit nor more of one source than the limit per source. The counter a shutdown waits for
  is the number of live connections plus that of the handlers between the unlock and the \<open>wait.Done()\<close> of
  \<open>unregister\<close>; these, the live ones and those that called it are together all the connections ever admitted. So the
  wait can end only when no connection is live, and does so exactly when, in addition, no handler is left between the
  two.\<close>

theorem registry_limits:
  assumes "registry_run (newConnectionRegistry m k) es r" "0 < m" "0 < k"
  shows "int (Mapping.size (rg_active r)) \<le> m \<and> (\<forall>s. int (card (live r s)) \<le> k) \<and>
    rg_wait r = int (Mapping.size (rg_active r)) + int (rg_leaving r) \<and>
    admitted es = Mapping.size (rg_active r) + rg_leaving r + left es \<and>
    (shutdown_done r \<longleftrightarrow> Mapping.keys (rg_active r) = {} \<and> rg_leaving r = 0)"
proof -
  have ok: "registry_ok r" by (rule run_ok [OF assms(1) new_registry_ok])
  have "rg_max r = m" "rg_maxSource r = k" using run_limits [OF assms(1)] by (simp_all add: newConnectionRegistry_def)
  moreover have "admitted es = Mapping.size (rg_active r) + rg_leaving r + left es"
    using run_balance [OF assms(1) new_registry_ok] by (simp add: newConnectionRegistry_def Mapping.size_def)
  moreover have fin: "finite (Mapping.keys (rg_active r))"
    and wait: "rg_wait r = int (Mapping.size (rg_active r)) + int (rg_leaving r)" using ok by (simp_all add: registry_ok_def)
  moreover have "shutdown_done r \<longleftrightarrow> Mapping.size (rg_active r) = 0 \<and> rg_leaving r = 0"
    unfolding shutdown_done_def wait by linarith
  ultimately show ?thesis using ok assms(2,3) by (auto simp: registry_ok_def Mapping.size_def)
qed

text \<open>C37: after a shutdown began no connection is admitted, and every connection that is still live has had its
  context cancelled; when the shutdown's own context ends, each of them is closed.\<close>

theorem registry_shutdown:
  assumes "registry_run (newConnectionRegistry m k) es r0" "registry_run (shutdown_begin r0) es' r"
  shows "Mapping.keys (rg_active r) \<subseteq> set (rg_cancelled r) \<and> fst (register c s r) = False \<and>
    Mapping.keys (rg_active r) \<subseteq> set (rg_closed (closeAll r))"
proof (intro conjI)
  have ok: "registry_ok r0" by (rule run_ok [OF assms(1) new_registry_ok])
  then have fin: "finite (Mapping.keys (rg_active r0))" by (simp add: registry_ok_def)
  note st = run_stopped [OF assms(2)]
  have stopped: "\<not> rg_accepting (shutdown_begin r0)" by (simp add: shutdown_begin_def)
  have sub: "Mapping.keys (rg_active r) \<subseteq> Mapping.keys (rg_active r0)" using st [OF stopped] by (simp add: shutdown_begin_def)
  with st [OF stopped] fin show "Mapping.keys (rg_active r) \<subseteq> set (rg_cancelled r)"
    by (auto simp: shutdown_begin_def ordered_keys_set)
  show "fst (register c s r) = False" using st [OF stopped] by (simp add: register_def)
  show "Mapping.keys (rg_active r) \<subseteq> set (rg_closed (closeAll r))"
    using finite_subset [OF sub fin] by (simp add: closeAll_def ordered_keys_set)
qed

definition sample_source :: connectionSource where
  "sample_source = \<lparr>cs_kind = 1, cs_network = [], cs_value = ''192.0.2.1''\<rparr>"

lemma sample_run:
  "registry_run (newConnectionRegistry 2 1) [Register 7 sample_source True] (snd (register 7 sample_source (newConnectionRegistry 2 1)))"
proof -
  have "register 7 sample_source (newConnectionRegistry 2 1) = (True, snd (register 7 sample_source (newConnectionRegistry 2 1)))"
    by (simp add: register_def newConnectionRegistry_def source_count_lookup Mapping.size_def)
  from run_snoc [OF run_Nil register_step [OF this]] show ?thesis by simp
qed

lemma sample_leave:
  "registry_run (newConnectionRegistry 2 1) [Register 7 sample_source True, Unregister 7]
     (unregister 7 (snd (register 7 sample_source (newConnectionRegistry 2 1))))"
  using run_snoc [OF sample_run unregister_step [of _ 7]] by simp

theorem registry_limits_witness:
  "Mapping.keys (rg_active (unregister 7 (snd (register 7 sample_source (newConnectionRegistry 2 1))))) = {} \<and>
   rg_wait (unregister 7 (snd (register 7 sample_source (newConnectionRegistry 2 1)))) = 1 \<and>
   \<not> shutdown_done (unregister 7 (snd (register 7 sample_source (newConnectionRegistry 2 1))))"
  using registry_limits [OF sample_leave]
  by (simp add: register_def unregister_def newConnectionRegistry_def source_count_lookup Mapping.size_def Let_def)

theorem registry_shutdown_witness:
  "7 \<in> set (rg_cancelled (shutdown_begin (snd (register 7 sample_source (newConnectionRegistry 2 1)))))"
  using registry_shutdown [OF sample_run run_Nil]
  by (auto simp: register_def newConnectionRegistry_def source_count_lookup Mapping.size_def shutdown_begin_def)

end
