(* ===== verification/Go_Crypto.thy ===== *)
theory Go_Crypto
  imports Go_Base
begin

text \<open>
  What the sources use of the Go packages crypto/md5, crypto/sha1, crypto/sha256 and crypto/hmac.
  The three hash functions are written out on 32-bit words (RFC 1321, FIPS 180-4): a block is a window of sixteen words
  that slides with the rounds. The proofs only use the sizes of the digests; the concrete functions let a theorem about
  SCRAM speak of the hash the program really computes.
\<close>

unbundle bit_operations_syntax

section \<open>Padding and blocks\<close>

definition word_bytes_be :: "32 word \<Rightarrow> bytes" where
  "word_bytes_be w = map (\<lambda>k. char_of (unat (drop_bit k w AND 255))) [24, 16, 8, 0]"

definition word_bytes_le :: "32 word \<Rightarrow> bytes" where
  "word_bytes_le w = map (\<lambda>k. char_of (unat (drop_bit k w AND 255))) [0, 8, 16, 24]"

fun words_be :: "bytes \<Rightarrow> 32 word list" where
  "words_be (a # b # c # d # bs) =
     (of_nat (byte a * 0x1000000 + byte b * 0x10000 + byte c * 0x100 + byte d) # words_be bs)"
| "words_be _ = []"

fun words_le :: "bytes \<Rightarrow> 32 word list" where
  "words_le (a # b # c # d # bs) =
     (of_nat (byte d * 0x1000000 + byte c * 0x10000 + byte b * 0x100 + byte a) # words_le bs)"
| "words_le _ = []"

text \<open>The bit length of the message modulo \<open>2 ^ 64\<close>, and a message with its padding.\<close>

definition length_words :: "bytes \<Rightarrow> 32 word \<times> 32 word" where
  "length_words m = (let n = 8 * int (length m) in (of_int (n div 0x100000000), of_int n))"

definition padded :: "bytes \<Rightarrow> bytes \<Rightarrow> bytes" where
  "padded m len = m @ [char_of (0x80 :: nat)] @ replicate ((119 - length m mod 64) mod 64) NUL @ len"

function fold_blocks :: "('s \<Rightarrow> bytes \<Rightarrow> 's) \<Rightarrow> 's \<Rightarrow> bytes \<Rightarrow> 's" where
  "fold_blocks f s m = (if length m < 64 then s else fold_blocks f (f s (take 64 m)) (drop 64 m))"
  by pat_completeness auto
termination
  by (relation "measure (\<lambda>(f, s, m). length m)") auto

declare fold_blocks.simps [simp del]

section \<open>SHA-256\<close>

record state8 =
  h_a :: "32 word"
  h_b :: "32 word"
  h_c :: "32 word"
  h_d :: "32 word"
  h_e :: "32 word"
  h_f :: "32 word"
  h_g :: "32 word"
  h_h :: "32 word"

text \<open>The round constants are the first 32 bits of the fractional parts of the cube roots of the first 64 primes. A root is
  found bit by bit; the roots are below 8, so 35 bits of it with 32 after the point are enough.\<close>

primrec cube_root :: "nat \<Rightarrow> int \<Rightarrow> int \<Rightarrow> int" where
  "cube_root 0 n r = r"
| "cube_root (Suc k) n r = cube_root k n (if (r + 2 ^ k) ^ 3 \<le> n then r + 2 ^ k else r)"

definition sha256_primes :: "int list" where
  "sha256_primes =
     [2, 3, 5, 7, 11, 13, 17, 19, 23, 29, 31, 37, 41, 43, 47, 53,
      59, 61, 67, 71, 73, 79, 83, 89, 97, 101, 103, 107, 109, 113, 127, 131,
      137, 139, 149, 151, 157, 163, 167, 173, 179, 181, 191, 193, 197, 199, 211, 223,
      227, 229, 233, 239, 241, 251, 257, 263, 269, 271, 277, 281, 283, 293, 307, 311]"

definition sha256_k :: "32 word list" where
  "sha256_k = map (\<lambda>p. word_of_int (cube_root 35 (p * 2 ^ 96) 0)) sha256_primes"

definition sha256_init :: state8 where
  "sha256_init =
     \<lparr>h_a = 0x6a09e667, h_b = 0xbb67ae85, h_c = 0x3c6ef372, h_d = 0xa54ff53a, h_e = 0x510e527f, h_f = 0x9b05688c, h_g = 0x1f83d9ab,
      h_h = 0x5be0cd19\<rparr>"

definition rotr :: "nat \<Rightarrow> 32 word \<Rightarrow> 32 word" where
  "rotr n w = (drop_bit n w OR push_bit (32 - n) w)"

definition rotl :: "nat \<Rightarrow> 32 word \<Rightarrow> 32 word" where
  "rotl n w = (push_bit n w OR drop_bit (32 - n) w)"

definition sha256_round :: "32 word list \<times> state8 \<Rightarrow> 32 word \<Rightarrow> 32 word list \<times> state8" where
  "sha256_round x k =
     (case x of (w, s) \<Rightarrow>
        let s1 = rotr 6 (h_e s) XOR rotr 11 (h_e s) XOR rotr 25 (h_e s);
            ch = (h_e s AND h_f s) XOR (NOT (h_e s) AND h_g s);
            t1 = h_h s + s1 + ch + k + w ! 0;
            s0 = rotr 2 (h_a s) XOR rotr 13 (h_a s) XOR rotr 22 (h_a s);
            maj = (h_a s AND h_b s) XOR (h_a s AND h_c s) XOR (h_b s AND h_c s);
            w15 = w ! 1; w2 = w ! 14;
            next = (rotr 17 w2 XOR rotr 19 w2 XOR drop_bit 10 w2) + w ! 9 +
                   (rotr 7 w15 XOR rotr 18 w15 XOR drop_bit 3 w15) + w ! 0 in
        (tl w @ [next],
         \<lparr>h_a = t1 + s0 + maj, h_b = h_a s, h_c = h_b s, h_d = h_c s, h_e = h_d s + t1, h_f = h_e s, h_g = h_f s,
          h_h = h_g s\<rparr>))"

definition sha256_block :: "state8 \<Rightarrow> bytes \<Rightarrow> state8" where
  "sha256_block s m =
     (let r = snd (foldl sha256_round (words_be m, s) sha256_k) in
      \<lparr>h_a = h_a s + h_a r, h_b = h_b s + h_b r, h_c = h_c s + h_c r, h_d = h_d s + h_d r, h_e = h_e s + h_e r,
       h_f = h_f s + h_f r, h_g = h_g s + h_g r, h_h = h_h s + h_h r\<rparr>)"

definition sha256 :: "bytes \<Rightarrow> bytes" where
  "sha256 m =
     (let len = (case length_words m of (hi, lo) \<Rightarrow> word_bytes_be hi @ word_bytes_be lo);
          s = fold_blocks sha256_block sha256_init (padded m len) in
      concat (map word_bytes_be [h_a s, h_b s, h_c s, h_d s, h_e s, h_f s, h_g s, h_h s]))"

section \<open>SHA-1\<close>

record state5 =
  i_a :: "32 word"
  i_b :: "32 word"
  i_c :: "32 word"
  i_d :: "32 word"
  i_e :: "32 word"

definition sha1_init :: state5 where
  "sha1_init = \<lparr>i_a = 0x67452301, i_b = 0xefcdab89, i_c = 0x98badcfe, i_d = 0x10325476, i_e = 0xc3d2e1f0\<rparr>"

definition sha1_f :: "nat \<Rightarrow> state5 \<Rightarrow> 32 word" where
  "sha1_f t s =
     (if t < 20 then ((i_b s AND i_c s) OR (NOT (i_b s) AND i_d s)) + 0x5a827999
      else if t < 40 then (i_b s XOR i_c s XOR i_d s) + 0x6ed9eba1
      else if t < 60 then ((i_b s AND i_c s) OR (i_b s AND i_d s) OR (i_c s AND i_d s)) + 0x8f1bbcdc
      else (i_b s XOR i_c s XOR i_d s) + 0xca62c1d6)"

definition sha1_round :: "32 word list \<times> state5 \<Rightarrow> nat \<Rightarrow> 32 word list \<times> state5" where
  "sha1_round x t =
     (case x of (w, s) \<Rightarrow>
        (tl w @ [rotl 1 (w ! 13 XOR w ! 8 XOR w ! 2 XOR w ! 0)],
         \<lparr>i_a = rotl 5 (i_a s) + sha1_f t s + i_e s + w ! 0, i_b = i_a s, i_c = rotl 30 (i_b s), i_d = i_c s, i_e = i_d s\<rparr>))"

definition sha1_block :: "state5 \<Rightarrow> bytes \<Rightarrow> state5" where
  "sha1_block s m =
     (let r = snd (foldl sha1_round (words_be m, s) [0..<80]) in
      \<lparr>i_a = i_a s + i_a r, i_b = i_b s + i_b r, i_c = i_c s + i_c r, i_d = i_d s + i_d r, i_e = i_e s + i_e r\<rparr>)"

definition sha1 :: "bytes \<Rightarrow> bytes" where
  "sha1 m =
     (let len = (case length_words m of (hi, lo) \<Rightarrow> word_bytes_be hi @ word_bytes_be lo);
          s = fold_blocks sha1_block sha1_init (padded m len) in
      concat (map word_bytes_be [i_a s, i_b s, i_c s, i_d s, i_e s]))"

section \<open>MD5\<close>

record state4 =
  j_a :: "32 word"
  j_b :: "32 word"
  j_c :: "32 word"
  j_d :: "32 word"

definition md5_k :: "32 word list" where
  "md5_k =
     [0xd76aa478, 0xe8c7b756, 0x242070db, 0xc1bdceee, 0xf57c0faf, 0x4787c62a,
      0xa8304613, 0xfd469501, 0x698098d8, 0x8b44f7af, 0xffff5bb1, 0x895cd7be,
      0x6b901122, 0xfd987193, 0xa679438e, 0x49b40821, 0xf61e2562, 0xc040b340,
      0x265e5a51, 0xe9b6c7aa, 0xd62f105d, 0x02441453, 0xd8a1e681, 0xe7d3fbc8,
      0x21e1cde6, 0xc33707d6, 0xf4d50d87, 0x455a14ed, 0xa9e3e905, 0xfcefa3f8,
      0x676f02d9, 0x8d2a4c8a, 0xfffa3942, 0x8771f681, 0x6d9d6122, 0xfde5380c,
      0xa4beea44, 0x4bdecfa9, 0xf6bb4b60, 0xbebfbc70, 0x289b7ec6, 0xeaa127fa,
      0xd4ef3085, 0x04881d05, 0xd9d4d039, 0xe6db99e5, 0x1fa27cf8, 0xc4ac5665,
      0xf4292244, 0x432aff97, 0xab9423a7, 0xfc93a039, 0x655b59c3, 0x8f0ccc92,
      0xffeff47d, 0x85845dd1, 0x6fa87e4f, 0xfe2ce6e0, 0xa3014314, 0x4e0811a1,
      0xf7537e82, 0xbd3af235, 0x2ad7d2bb, 0xeb86d391]"

definition md5_shift :: "nat \<Rightarrow> nat" where
  "md5_shift t = [[7, 12, 17, 22], [5, 9, 14, 20], [4, 11, 16, 23], [6, 10, 15, 21]] ! (t div 16) ! (t mod 4)"

definition md5_init :: state4 where
  "md5_init = \<lparr>j_a = 0x67452301, j_b = 0xefcdab89, j_c = 0x98badcfe, j_d = 0x10325476\<rparr>"

definition md5_round :: "32 word list \<Rightarrow> state4 \<Rightarrow> nat \<Rightarrow> state4" where
  "md5_round w s t =
     (let (f, g) =
        (if t < 16 then ((j_b s AND j_c s) OR (NOT (j_b s) AND j_d s), t)
         else if t < 32 then ((j_d s AND j_b s) OR (NOT (j_d s) AND j_c s), (5 * t + 1) mod 16)
         else if t < 48 then (j_b s XOR j_c s XOR j_d s, (3 * t + 5) mod 16)
         else (j_c s XOR (j_b s OR NOT (j_d s)), 7 * t mod 16)) in
      \<lparr>j_a = j_d s, j_b = j_b s + rotl (md5_shift t) (f + j_a s + md5_k ! t + w ! g), j_c = j_b s, j_d = j_c s\<rparr>)"

definition md5_block :: "state4 \<Rightarrow> bytes \<Rightarrow> state4" where
  "md5_block s m =
     (let r = foldl (md5_round (words_le m)) s [0..<64] in
      \<lparr>j_a = j_a s + j_a r, j_b = j_b s + j_b r, j_c = j_c s + j_c r, j_d = j_d s + j_d r\<rparr>)"

definition md5 :: "bytes \<Rightarrow> bytes" where
  "md5 m =
     (let len = (case length_words m of (hi, lo) \<Rightarrow> word_bytes_le lo @ word_bytes_le hi);
          s = fold_blocks md5_block md5_init (padded m len) in
      concat (map word_bytes_le [j_a s, j_b s, j_c s, j_d s]))"

section \<open>Hash functions and HMAC\<close>

datatype hash_alg = MD5 | SHA1 | SHA256

primrec hash_New :: "hash_alg \<Rightarrow> bytes \<Rightarrow> bytes" where
  "hash_New MD5 = md5"
| "hash_New SHA1 = sha1"
| "hash_New SHA256 = sha256"

primrec hash_Size :: "hash_alg \<Rightarrow> nat" where
  "hash_Size MD5 = 16"
| "hash_Size SHA1 = 20"
| "hash_Size SHA256 = 32"

definition xor_byte :: "char \<Rightarrow> char \<Rightarrow> char" where
  "xor_byte a b = char_of (byte a XOR byte b)"

text \<open>The block size of all three is 64; a longer key is hashed first.\<close>

definition hmac_key :: "hash_alg \<Rightarrow> bytes \<Rightarrow> bytes" where
  "hmac_key h key = (let k = (if length key > 64 then hash_New h key else key) in k @ replicate (64 - length k) NUL)"

definition hmac :: "hash_alg \<Rightarrow> bytes \<Rightarrow> bytes \<Rightarrow> bytes" where
  "hmac h key m =
     (let k = hmac_key h key in
      hash_New h (map (xor_byte (char_of (0x5c :: nat))) k @ hash_New h (map (xor_byte (char_of (0x36 :: nat))) k @ m)))"

lemma word_bytes_length [simp]: "length (word_bytes_be w) = 4" "length (word_bytes_le w) = 4"
  by (simp_all add: word_bytes_be_def word_bytes_le_def)

lemma hash_length [simp]: "length (hash_New h m) = hash_Size h"
  by (cases h) (simp_all add: md5_def sha1_def sha256_def Let_def)

lemma hmac_length [simp]: "length (hmac h key m) = hash_Size h"
  by (simp add: hmac_def Let_def)

lemma xor_byte_cancel [simp]: "xor_byte (xor_byte a b) b = a"
proof -
  have bound: "byte a XOR byte b < 256" for a b :: char
  proof -
    have "take_bit 8 (byte a XOR byte b) = byte a XOR byte b"
      using byte_less [of a] byte_less [of b] by (simp add: take_bit_xor take_bit_nat_eq_self)
    then show ?thesis using take_bit_nat_less_exp [of 8 "byte a XOR byte b"] by simp
  qed
  have "byte (char_of (byte a XOR byte b)) = byte a XOR byte b" using bound [of a b] by (simp add: of_char_of)
  then show ?thesis by (simp add: xor_byte_def xor.assoc)
qed

end
