(* ===== verification/Go_Base64.thy ===== *)
theory Go_Base64
  imports Go_Base
begin

text \<open>
  What the sources use of the Go package encoding/base64: encoding with the standard and the URL alphabet, with and
  without padding, and \<open>StdEncoding.DecodeString\<close>. The decoder skips CR and LF wherever they stand and does not check
  that the bits it drops are zero.
\<close>

section \<open>Encoding\<close>

definition std_alphabet :: bytes where
  "std_alphabet = ''ABCDEFGHIJKLMNOPQRSTUVWXYZabcdefghijklmnopqrstuvwxyz0123456789+/''"

definition url_alphabet :: bytes where
  "url_alphabet = ''ABCDEFGHIJKLMNOPQRSTUVWXYZabcdefghijklmnopqrstuvwxyz0123456789-_''"

fun b64_encode :: "bytes \<Rightarrow> bool \<Rightarrow> bytes \<Rightarrow> bytes" where
  "b64_encode al pad [] = []"
| "b64_encode al pad [a] =
     [al ! (byte a div 4), al ! (byte a mod 4 * 16)] @ (if pad then ''=='' else [])"
| "b64_encode al pad [a, b] =
     [al ! (byte a div 4), al ! (byte a mod 4 * 16 + byte b div 16), al ! (byte b mod 16 * 4)] @ (if pad then ''='' else [])"
| "b64_encode al pad (a # b # c # bs) =
     [al ! (byte a div 4), al ! (byte a mod 4 * 16 + byte b div 16), al ! (byte b mod 16 * 4 + byte c div 64),
      al ! (byte c mod 64)] @ b64_encode al pad bs"

definition StdEncoding_EncodeToString :: "bytes \<Rightarrow> bytes" where
  "StdEncoding_EncodeToString = b64_encode std_alphabet True"

definition RawStdEncoding_EncodeToString :: "bytes \<Rightarrow> bytes" where
  "RawStdEncoding_EncodeToString = b64_encode std_alphabet False"

definition RawURLEncoding_EncodeToString :: "bytes \<Rightarrow> bytes" where
  "RawURLEncoding_EncodeToString = b64_encode url_alphabet False"

section \<open>Decoding\<close>

definition b64_value :: "char \<Rightarrow> nat option" where
  "b64_value c =
     (if is_upper c then Some (byte c - 65)
      else if is_lower c then Some (byte c - 71)
      else if is_digit c then Some (byte c + 4)
      else if c = CHR ''+'' then Some 62
      else if c = CHR ''/'' then Some 63
      else None)"

fun b64_decode :: "bytes \<Rightarrow> bytes option" where
  "b64_decode [] = Some []"
| "b64_decode (a # b # c # d # s) =
     (case (b64_value a, b64_value b) of
        (Some x, Some y) \<Rightarrow>
          (let o1 = char_of (x * 4 + y div 16) in
           case b64_value c of
             None \<Rightarrow> if c = CHR ''='' \<and> d = CHR ''='' \<and> s = [] then Some [o1] else None
           | Some z \<Rightarrow>
               (let o2 = char_of (y mod 16 * 16 + z div 4) in
                case b64_value d of
                  None \<Rightarrow> if d = CHR ''='' \<and> s = [] then Some [o1, o2] else None
                | Some w \<Rightarrow> map_option (\<lambda>r. o1 # o2 # char_of (z mod 4 * 64 + w) # r) (b64_decode s)))
      | _ \<Rightarrow> None)"
| "b64_decode _ = None"

definition StdEncoding_DecodeString :: "bytes \<Rightarrow> bytes option" where
  "StdEncoding_DecodeString s = b64_decode (filter (\<lambda>c. c \<noteq> CR \<and> c \<noteq> LF) s)"

section \<open>Round trip\<close>

definition std_char :: "char \<Rightarrow> bool" where
  "std_char c \<longleftrightarrow> is_alnum c \<or> c = CHR ''+'' \<or> c = CHR ''/''"

lemma std_alphabet_values: "map b64_value std_alphabet = map Some [0..<64]"
  by (simp add: std_alphabet_def b64_value_def is_upper_def is_lower_def is_digit_def upt_rec)

lemma std_alphabet_length: "length std_alphabet = 64"
  by (simp add: std_alphabet_def)

lemma std_alphabet_value: "n < 64 \<Longrightarrow> b64_value (std_alphabet ! n) = Some n"
  using arg_cong [OF std_alphabet_values, of "\<lambda>xs. xs ! n"] by (simp add: std_alphabet_length)

lemma std_alphabet_char: "n < 64 \<Longrightarrow> std_char (std_alphabet ! n)"
  using std_alphabet_value [of n] by (auto simp: b64_value_def std_char_def is_alnum_def split: if_splits)

lemma octet_parts:
  "byte a div 4 < 64" "byte a div 16 < 16" "byte a div 64 < 4" "byte a mod 4 < 4" "byte a mod 16 < 16" "byte a mod 64 < 64"
proof -
  have "byte a < 256" using byte_less [of a] by linarith
  then show "byte a div 4 < 64" "byte a div 16 < 16" "byte a div 64 < 4" by (auto intro: less_mult_imp_div_less)
qed simp_all

lemma six_bits:
  "byte a div 4 < 64" "byte a mod 4 * 16 < 64" "byte a mod 4 * 16 + byte b div 16 < 64" "byte b mod 16 * 4 < 64"
  "byte b mod 16 * 4 + byte c div 64 < 64" "byte c mod 64 < 64"
  using octet_parts [of a] octet_parts [of b] octet_parts [of c] by linarith+

lemma three_octets:
  "byte a div 16 div 16 = 0" "byte a div 16 mod 16 = byte a div 16" "byte a div 64 div 4 = 0"
  "byte a div 64 mod 4 = byte a div 64"
  using octet_parts(2,3) [of a] by simp_all

lemma b64_decode_encode: "b64_decode (b64_encode std_alphabet True bs) = Some bs"
proof (induction std_alphabet True bs rule: b64_encode.induct)
  case (2 a)
  have "b64_value (CHR ''='') = None" by (simp add: b64_value_def is_upper_def is_lower_def is_digit_def)
  then show ?case by (simp add: six_bits std_alphabet_value three_octets Let_def)
next
  case (3 a b)
  have "b64_value (CHR ''='') = None" by (simp add: b64_value_def is_upper_def is_lower_def is_digit_def)
  then show ?case by (simp add: six_bits std_alphabet_value three_octets Let_def)
next
  case (4 a b c bs)
  then show ?case by (simp add: six_bits std_alphabet_value three_octets Let_def)
qed simp

lemma b64_encode_chars: "list_all (\<lambda>c. std_char c \<or> pad \<and> c = CHR ''='') (b64_encode std_alphabet pad bs)"
  by (induction std_alphabet pad bs rule: b64_encode.induct) (simp_all add: six_bits std_alphabet_char)

lemma std_char_plain: "std_char c \<Longrightarrow> c \<noteq> CR \<and> c \<noteq> LF \<and> c \<noteq> NUL \<and> c \<noteq> CHR '','' \<and> c \<noteq> CHR ''='' \<and> c \<noteq> SP \<and> is_ascii c"
  by (auto simp: std_char_def is_alnum_def is_upper_def is_lower_def is_digit_def is_ascii_def)

lemma StdEncoding_plain: "list_all (\<lambda>c. std_char c \<or> c = CHR ''='') (StdEncoding_EncodeToString bs)"
  using b64_encode_chars [of True bs] by (simp add: StdEncoding_EncodeToString_def)

lemma RawStdEncoding_plain: "list_all std_char (RawStdEncoding_EncodeToString bs)"
  using b64_encode_chars [of False bs] by (simp add: RawStdEncoding_EncodeToString_def)

lemma StdEncoding_roundtrip [simp]: "StdEncoding_DecodeString (StdEncoding_EncodeToString bs) = Some bs"
proof -
  have "list_all (\<lambda>c. c \<noteq> CR \<and> c \<noteq> LF) (StdEncoding_EncodeToString bs)"
    using StdEncoding_plain [of bs] std_char_plain by (auto simp: list_all_iff)
  then show ?thesis
    by (simp add: StdEncoding_DecodeString_def list_all_iff filter_True StdEncoding_EncodeToString_def b64_decode_encode)
qed

lemma StdEncoding_empty [simp]: "StdEncoding_EncodeToString bs = [] \<longleftrightarrow> bs = []"
  by (cases "(std_alphabet, True, bs)" rule: b64_encode.cases) (simp_all add: StdEncoding_EncodeToString_def)

lemma RawStdEncoding_empty [simp]: "RawStdEncoding_EncodeToString bs = [] \<longleftrightarrow> bs = []"
  by (cases "(std_alphabet, False, bs)" rule: b64_encode.cases) (simp_all add: RawStdEncoding_EncodeToString_def)

end
