(* ===== verification/Sasl_Responder.thy ===== *)
theory Sasl_Responder
  imports Go_Unicode Go_Crypto Go_Base64
begin

text \<open>
  The server half of the SASL mechanisms (internal/smtpsasl/responder.go): PLAIN, LOGIN, CRAM-MD5, EXTERNAL,
  OAUTHBEARER, XOAUTH2 and the SCRAM family, as one state machine with the operations \<open>Start\<close>, \<open>Next\<close> and
  \<open>Continue\<close>. An operation returns an error or a step together with the responder it leaves behind. What
  \<open>rand.Read\<close> delivers is the argument \<open>rnd\<close>: the octets, or \<open>None\<close> for an error. A slice that may be nil is an
  option where the code tells nil from empty.

  Two Go panics are possible in this code, the call of a nil hash and the use of nil keys; they are the error
  \<open>SaslPanic\<close>, and the lemmas show that no sequence of calls reaches it.
\<close>

section \<open>Types\<close>

datatype sasl_error =
  ErrResponderState | ErrResponderPayload | ErrResponderAborted | ErrUnsupportedMechanism | ErrBindingRequired
| ErrNoSCRAMKeys | ErrSCRAMMaterial | ErrRandom | SaslPanic

datatype VerificationKind = VerifyCredentials | VerifyChallengeResponse | VerifySCRAMKeys

record sasl_Credentials =
  sa_AuthenticationID :: bytes
  sa_AuthorizationID :: bytes
  sa_Password :: bytes
  sa_Token :: bytes

definition no_credentials :: sasl_Credentials where
  "no_credentials = \<lparr>sa_AuthenticationID = [], sa_AuthorizationID = [], sa_Password = [], sa_Token = []\<rparr>"

record VerificationRequest =
  vr_Kind :: VerificationKind
  vr_Mechanism :: bytes
  vr_Credentials :: sasl_Credentials
  vr_Challenge :: bytes
  vr_Response :: bytes

record sasl_SCRAMKeys =
  ss_Salt :: bytes
  ss_Iterations :: int
  ss_StoredKey :: bytes
  ss_ServerKey :: bytes

record Verification =
  vf_Accepted :: bool
  vf_FailureChallenge :: "bytes option"
  vf_Keys :: "sasl_SCRAMKeys option"

record ResponderStep =
  st_Challenge :: "bytes option"
  st_Verification :: "VerificationRequest option"
  st_Done :: bool
  st_Accepted :: bool

definition no_step :: ResponderStep where
  "no_step = \<lparr>st_Challenge = None, st_Verification = None, st_Done = False, st_Accepted = False\<rparr>"

record ResponderConfig =
  rc_Hostname :: bytes
  rc_CRAMChallenge :: "bytes option"
  rc_ChannelBinding :: bytes
  rc_testNonce :: bytes

datatype responderState =
  responderNew | responderPlain | responderLoginUser | responderLoginPassword | responderCRAM | responderExternal
| responderOAuth | responderOAuthDummy | responderSCRAMFirst | responderSCRAMProof | responderSCRAMEmpty
| responderVerify | responderDone

record Responder =
  re_name :: bytes
  re_cfg :: ResponderConfig
  re_state :: responderState
  re_request :: "VerificationRequest option"
  re_challenge :: bytes
  re_username :: bytes
  re_newHash :: "hash_alg option"
  re_plus :: bool
  re_gs2Header :: bytes
  re_clientFirst :: bytes
  re_serverFirst :: bytes
  re_combinedNonce :: bytes
  re_keys :: "sasl_SCRAMKeys option"

type_synonym 'a responding = "Responder \<Rightarrow> (sasl_error + 'a) \<times> Responder"

definition maxResponderPayload :: int where "maxResponderPayload = 16384"

definition maxSCRAMIterations :: int where "maxSCRAMIterations = 100000"

section \<open>Texts\<close>

definition TrimPrefix :: "bytes \<Rightarrow> bytes \<Rightarrow> bytes" where
  "TrimPrefix s p = (if HasPrefix s p then drop (length p) s else s)"

definition TrimSuffix :: "bytes \<Rightarrow> bytes \<Rightarrow> bytes" where
  "TrimSuffix s p = (if HasSuffix s p then take (length s - length p) s else s)"

definition LastIndex :: "bytes \<Rightarrow> bytes \<Rightarrow> nat option" where
  "LastIndex s p =
     (case filter (\<lambda>i. take (length p) (drop i s) = p) [0..<Suc (length s)] of [] \<Rightarrow> None | is \<Rightarrow> Some (last is))"

abbreviation SOH :: char where "SOH \<equiv> CHR 0x01"

fun decodeSASLName :: "bytes \<Rightarrow> sasl_error + bytes" where
  "decodeSASLName [] = Inr []"
| "decodeSASLName (c # s) =
     (if c \<noteq> CHR ''='' then bind_res (decodeSASLName s) (\<lambda>t. Inr (c # t))
      else
        case s of
          x # y # s' \<Rightarrow>
            (if x = CHR ''2'' \<and> y = CHR ''C'' then bind_res (decodeSASLName s') (\<lambda>t. Inr (CHR '','' # t))
             else if x = CHR ''3'' \<and> y = CHR ''D'' then bind_res (decodeSASLName s') (\<lambda>t. Inr (CHR ''='' # t))
             else Inl ErrResponderPayload)
        | _ \<Rightarrow> Inl ErrResponderPayload)"

type_synonym scram_fields = "char \<Rightarrow> bytes option"

fun scram_fields :: "bytes list \<Rightarrow> scram_fields \<Rightarrow> sasl_error + scram_fields" where
  "scram_fields [] m = Inr m"
| "scram_fields (f # fs) m =
     (if length f < 3 \<or> f ! 1 \<noteq> CHR ''='' then Inl ErrResponderPayload
      else if m (hd f) \<noteq> None then Inl ErrResponderPayload
      else scram_fields fs (m(hd f \<mapsto> drop 2 f)))"

definition parseSCRAMFields :: "bytes \<Rightarrow> sasl_error + scram_fields" where
  "parseSCRAMFields message = scram_fields (Split message (CHR '','')) Map.empty"

definition field :: "scram_fields \<Rightarrow> char \<Rightarrow> bytes" where
  "field m c = (case m c of None \<Rightarrow> [] | Some v \<Rightarrow> v)"

definition parseSCRAMClientFirst :: "bytes \<Rightarrow> bool \<Rightarrow> sasl_error + bytes \<times> bytes \<times> bytes" where
  "parseSCRAMClientFirst message pls =
     (case Cut message (CHR '','') of
        (flag, r1, f1) \<Rightarrow>
          if \<not> f1 then Inl ErrResponderPayload
          else
            case Cut r1 (CHR '','') of
              (authz, bare, f2) \<Rightarrow>
                if \<not> f2 then Inl ErrResponderPayload
                else if (if pls then flag \<noteq> ''p=tls-exporter'' else flag \<noteq> ''n'' \<and> flag \<noteq> ''y'') then Inl ErrResponderPayload
                else
                  bind_res
                    (if authz \<noteq> [] then
                       (if \<not> HasPrefix authz ''a='' then Inl ErrResponderPayload
                        else decodeSASLName (TrimPrefix authz ''a=''))
                     else Inr [])
                    (\<lambda>authzid. if bare = [] then Inl ErrResponderPayload
                       else Inr (flag @ '','' @ authz @ '','', bare, authzid)))"

definition parseOAuthGS2 :: "bytes \<Rightarrow> sasl_error + bytes" where
  "parseOAuthGS2 header =
     (if \<not> HasPrefix header ''n,'' \<or> \<not> HasSuffix header '','' then Inl ErrResponderPayload
      else
        let middle = TrimSuffix (TrimPrefix header ''n,'') '','' in
        if middle = [] then Inr []
        else if \<not> HasPrefix middle ''a='' then Inl ErrResponderPayload
        else decodeSASLName (TrimPrefix middle ''a=''))"

definition bearer_token :: "bytes \<Rightarrow> bytes \<Rightarrow> bytes" where
  "bearer_token token part =
     (if HasPrefix part ''auth=Bearer '' then TrimPrefix part ''auth=Bearer '' else token)"

definition parseOAuthBearer :: "bytes \<Rightarrow> sasl_error + sasl_Credentials" where
  "parseOAuthBearer payload =
     (let parts = Split payload SOH; n = length parts in
      if n < 3 \<or> parts ! (n - 1) \<noteq> [] \<or> parts ! (n - 2) \<noteq> [] then Inl ErrResponderPayload
      else
        bind_res (parseOAuthGS2 (parts ! 0))
          (\<lambda>authzid.
             let token = foldl bearer_token [] (drop 1 (take (n - 2) parts)) in
             if token = [] then Inl ErrResponderPayload
             else Inr (no_credentials\<lparr>sa_AuthorizationID := authzid, sa_Token := token\<rparr>)))"

definition xoauth2_part :: "bytes \<times> bytes \<Rightarrow> bytes \<Rightarrow> bytes \<times> bytes" where
  "xoauth2_part x part =
     (case x of
        (username, token) \<Rightarrow>
          if HasPrefix part ''user='' then (TrimPrefix part ''user='', token)
          else if HasPrefix part ''auth=Bearer '' then (username, TrimPrefix part ''auth=Bearer '')
          else (username, token))"

definition parseXOAuth2 :: "bytes \<Rightarrow> sasl_error + sasl_Credentials" where
  "parseXOAuth2 payload =
     (let parts = Split payload SOH; n = length parts in
      if n < 3 \<or> parts ! (n - 1) \<noteq> [] \<or> parts ! (n - 2) \<noteq> [] then Inl ErrResponderPayload
      else
        case foldl xoauth2_part ([], []) (take (n - 2) parts) of
          (username, token) \<Rightarrow>
            if username = [] \<or> token = [] then Inl ErrResponderPayload
            else Inr (no_credentials\<lparr>sa_AuthenticationID := username, sa_Token := token\<rparr>))"

section \<open>Keys\<close>

definition hmacSum :: "hash_alg \<Rightarrow> bytes \<Rightarrow> bytes \<Rightarrow> bytes" where
  "hmacSum h key inp = hmac h key inp"

definition hashSum :: "hash_alg \<Rightarrow> bytes \<Rightarrow> bytes" where
  "hashSum h inp = hash_New h inp"

text \<open>\<open>xor\<close> runs over its first argument and indexes the second; the callers pass slices of one length.\<close>

definition xor_bytes :: "bytes \<Rightarrow> bytes \<Rightarrow> bytes" where
  "xor_bytes a b = map2 xor_byte a b"

section \<open>Steps\<close>

definition verify :: "VerificationRequest \<Rightarrow> ResponderStep responding" where
  "verify request r = (Inr (no_step\<lparr>st_Verification := Some request\<rparr>), r\<lparr>re_request := Some request, re_state := responderVerify\<rparr>)"

definition finish :: "bool \<Rightarrow> ResponderStep responding" where
  "finish accepted r = (Inr (no_step\<lparr>st_Done := True, st_Accepted := accepted\<rparr>), r\<lparr>re_state := responderDone\<rparr>)"

definition challengeStep :: "bytes option \<Rightarrow> ResponderStep" where
  "challengeStep challenge = no_step\<lparr>st_Challenge := Some (case challenge of None \<Rightarrow> [] | Some c \<Rightarrow> c)\<rparr>"

text \<open>Ask for the next client response, in a new state.\<close>

definition await :: "responderState \<Rightarrow> bytes option \<Rightarrow> ResponderStep responding" where
  "await s challenge r = (Inr (challengeStep challenge), r\<lparr>re_state := s\<rparr>)"

definition refuse :: "sasl_error \<Rightarrow> 'a responding" where
  "refuse e r = (Inl e, r)"

definition credentials_request :: "bytes \<Rightarrow> sasl_Credentials \<Rightarrow> VerificationRequest" where
  "credentials_request mechanism c =
     \<lparr>vr_Kind = VerifyCredentials, vr_Mechanism = mechanism, vr_Credentials = c, vr_Challenge = [], vr_Response = []\<rparr>"

definition plain :: "bytes \<Rightarrow> ResponderStep responding" where
  "plain payload r =
     (case Split payload NUL of
        [authzid, authcid, password] \<Rightarrow>
          if authcid = [] then refuse ErrResponderPayload r
          else
            verify (credentials_request (re_name r)
              (no_credentials\<lparr>sa_AuthorizationID := authzid, sa_AuthenticationID := authcid, sa_Password := password\<rparr>)) r
      | _ \<Rightarrow> refuse ErrResponderPayload r)"

definition external :: "bytes \<Rightarrow> ResponderStep responding" where
  "external payload r = verify (credentials_request (re_name r) (no_credentials\<lparr>sa_AuthorizationID := payload\<rparr>)) r"

definition oauth :: "bytes \<Rightarrow> ResponderStep responding" where
  "oauth payload r =
     (case (if re_name r = ''OAUTHBEARER'' then parseOAuthBearer payload else parseXOAuth2 payload) of
        Inl e \<Rightarrow> refuse e r
      | Inr credentials \<Rightarrow> verify (credentials_request (re_name r) credentials) r)"

definition cramChallenge :: "bytes option \<Rightarrow> Responder \<Rightarrow> sasl_error + bytes" where
  "cramChallenge rnd r =
     (case rc_CRAMChallenge (re_cfg r) of
        Some c \<Rightarrow> Inr c
      | None \<Rightarrow>
          (case rnd of
             None \<Rightarrow> Inl ErrRandom
           | Some nonce \<Rightarrow>
               let hostname = (if rc_Hostname (re_cfg r) = [] then ''localhost'' else rc_Hostname (re_cfg r)) in
               Inr (''<'' @ RawURLEncoding_EncodeToString nonce @ ''@'' @ hostname @ ''>'')))"

definition scramFirst :: "bytes \<Rightarrow> ResponderStep responding" where
  "scramFirst payload r =
     (case parseSCRAMClientFirst payload (re_plus r) of
        Inl e \<Rightarrow> refuse e r
      | Inr (gs2, bare, authzid) \<Rightarrow>
          (case parseSCRAMFields bare of
             Inl _ \<Rightarrow> refuse ErrResponderPayload r
           | Inr fs \<Rightarrow>
               if field fs (CHR ''n'') = [] \<or> field fs (CHR ''r'') = [] \<or> field fs (CHR ''m'') \<noteq> []
               then refuse ErrResponderPayload r
               else
                 case decodeSASLName (field fs (CHR ''n'')) of
                   Inl e \<Rightarrow> refuse e r
                 | Inr username \<Rightarrow>
                     verify
                       \<lparr>vr_Kind = VerifySCRAMKeys, vr_Mechanism = re_name r,
                        vr_Credentials = no_credentials\<lparr>sa_AuthenticationID := username, sa_AuthorizationID := authzid\<rparr>,
                        vr_Challenge = [], vr_Response = []\<rparr>
                       (r\<lparr>re_gs2Header := gs2, re_clientFirst := bare, re_combinedNonce := field fs (CHR ''r'')\<rparr>)))"

definition scramServerFirst :: "bytes option \<Rightarrow> sasl_SCRAMKeys \<Rightarrow> ResponderStep responding" where
  "scramServerFirst rnd keys r =
     (case re_newHash r of
        None \<Rightarrow> refuse SaslPanic r
      | Some h \<Rightarrow>
          if ss_Iterations keys < 1 \<or> ss_Iterations keys > maxSCRAMIterations \<or> ss_Salt keys = [] \<or>
             length (ss_StoredKey keys) \<noteq> hash_Size h \<or> length (ss_ServerKey keys) \<noteq> hash_Size h
          then refuse ErrSCRAMMaterial r
          else
            case (if rc_testNonce (re_cfg r) = [] then map_option RawStdEncoding_EncodeToString rnd
                  else Some (rc_testNonce (re_cfg r))) of
              None \<Rightarrow> refuse ErrRandom r
            | Some nonce \<Rightarrow>
                let combined = re_combinedNonce r @ nonce;
                    server_first = ''r='' @ combined @ '',s='' @ StdEncoding_EncodeToString (ss_Salt keys) @ '',i='' @
                                   Itoa (ss_Iterations keys) in
                await responderSCRAMProof (Some server_first)
                  (r\<lparr>re_combinedNonce := combined, re_serverFirst := server_first, re_keys := Some keys\<rparr>))"

definition scramProof :: "bytes \<Rightarrow> ResponderStep responding" where
  "scramProof message r =
     (case LastIndex message '',p='' of
        None \<Rightarrow> refuse ErrResponderPayload r
      | Some at \<Rightarrow>
          if CHR '','' \<in> set (drop (at + 3) message) then refuse ErrResponderPayload r
          else
            let withoutProof = take at message in
            case parseSCRAMFields withoutProof of
              Inl _ \<Rightarrow> refuse ErrResponderPayload r
            | Inr fs \<Rightarrow>
                if field fs (CHR ''c'') = [] \<or> field fs (CHR ''r'') \<noteq> re_combinedNonce r then refuse ErrResponderPayload r
                else
                  case StdEncoding_DecodeString (field fs (CHR ''c'')) of
                    None \<Rightarrow> refuse ErrResponderPayload r
                  | Some channel \<Rightarrow>
                      if channel \<noteq> re_gs2Header r @ (if re_plus r then rc_ChannelBinding (re_cfg r) else [])
                      then finish False r
                      else
                        case (StdEncoding_DecodeString (drop (at + 3) message), re_newHash r) of
                          (None, _) \<Rightarrow> refuse ErrResponderPayload r
                        | (Some proof, None) \<Rightarrow> refuse SaslPanic r
                        | (Some proof, Some h) \<Rightarrow>
                            if length proof \<noteq> hash_Size h then refuse ErrResponderPayload r
                            else
                              case re_keys r of
                                None \<Rightarrow> refuse SaslPanic r
                              | Some keys \<Rightarrow>
                                  let authMessage = re_clientFirst r @ '','' @ re_serverFirst r @ '','' @ withoutProof;
                                      clientSignature = hmacSum h (ss_StoredKey keys) authMessage;
                                      clientKey = xor_bytes proof clientSignature in
                                  if hashSum h clientKey \<noteq> ss_StoredKey keys then finish False r
                                  else
                                    await responderSCRAMEmpty
                                      (Some (''v='' @ StdEncoding_EncodeToString (hmacSum h (ss_ServerKey keys) authMessage))) r)"

section \<open>The operations\<close>

text \<open>The hash of a mechanism that is supported: \<open>Some None\<close> for those without one.\<close>

definition mechanism_hash :: "bytes \<Rightarrow> hash_alg option option" where
  "mechanism_hash name =
     (if name \<in> set [''PLAIN'', ''LOGIN'', ''CRAM-MD5'', ''EXTERNAL'', ''OAUTHBEARER'', ''XOAUTH2''] then Some None
      else if name \<in> set [''SCRAM-SHA-1'', ''SCRAM-SHA-1-PLUS''] then Some (Some SHA1)
      else if name \<in> set [''SCRAM-SHA-256'', ''SCRAM-SHA-256-PLUS''] then Some (Some SHA256)
      else None)"

definition NewResponder :: "(nat \<Rightarrow> nat) \<Rightarrow> bytes \<Rightarrow> ResponderConfig \<Rightarrow> sasl_error + Responder" where
  "NewResponder upr name0 cfg =
     (let name = ToUpper upr name0 in
      case mechanism_hash name of
        None \<Rightarrow> Inl ErrUnsupportedMechanism
      | Some hash \<Rightarrow>
          let pls = (hash \<noteq> None \<and> HasSuffix name ''-PLUS'') in
          if pls \<and> rc_ChannelBinding cfg = [] then Inl ErrBindingRequired
          else
            Inr \<lparr>re_name = name, re_cfg = cfg, re_state = responderNew, re_request = None, re_challenge = [], re_username = [],
                 re_newHash = hash, re_plus = pls, re_gs2Header = [], re_clientFirst = [], re_serverFirst = [],
                 re_combinedNonce = [], re_keys = None\<rparr>)"

definition Start :: "bytes option \<Rightarrow> bytes option \<Rightarrow> ResponderStep responding" where
  "Start rnd initial r =
     (if re_state r \<noteq> responderNew then refuse ErrResponderState r
      else if (case initial of None \<Rightarrow> 0 | Some i \<Rightarrow> int (length i)) > maxResponderPayload then refuse ErrResponderPayload r
      else if initial = Some ''*'' then refuse ErrResponderAborted (r\<lparr>re_state := responderDone\<rparr>)
      else if re_name r = ''PLAIN'' then
        (case initial of None \<Rightarrow> await responderPlain None r | Some i \<Rightarrow> plain i r)
      else if re_name r = ''LOGIN'' then
        (case initial of
           None \<Rightarrow> await responderLoginUser (Some ''Username:'') r
         | Some i \<Rightarrow>
             if i = [] then refuse ErrResponderPayload (r\<lparr>re_username := i\<rparr>)
             else await responderLoginPassword (Some ''Password:'') (r\<lparr>re_username := i\<rparr>))
      else if re_name r = ''CRAM-MD5'' then
        (if initial \<noteq> None then refuse ErrResponderPayload r
         else
           case cramChallenge rnd r of
             Inl e \<Rightarrow> refuse e r
           | Inr challenge \<Rightarrow> await responderCRAM (Some challenge) (r\<lparr>re_challenge := challenge\<rparr>))
      else if re_name r = ''EXTERNAL'' then
        (case initial of None \<Rightarrow> await responderExternal None r | Some i \<Rightarrow> external i r)
      else if re_name r = ''OAUTHBEARER'' \<or> re_name r = ''XOAUTH2'' then
        (case initial of None \<Rightarrow> await responderOAuth None r | Some i \<Rightarrow> oauth i r)
      else
        (case initial of None \<Rightarrow> await responderSCRAMFirst None r | Some i \<Rightarrow> scramFirst i r))"

definition Next :: "bytes \<Rightarrow> ResponderStep responding" where
  "Next response r =
     (if response = ''*'' then refuse ErrResponderAborted (r\<lparr>re_state := responderDone\<rparr>)
      else if int (length response) > maxResponderPayload then refuse ErrResponderPayload r
      else
        case re_state r of
          responderPlain \<Rightarrow> plain response r
        | responderLoginUser \<Rightarrow>
            if response = [] then refuse ErrResponderPayload r
            else await responderLoginPassword (Some ''Password:'') (r\<lparr>re_username := response\<rparr>)
        | responderLoginPassword \<Rightarrow>
            verify (credentials_request (re_name r)
              (no_credentials\<lparr>sa_AuthenticationID := re_username r, sa_Password := response\<rparr>)) r
        | responderCRAM \<Rightarrow>
            if response = [] then refuse ErrResponderPayload r
            else
              verify \<lparr>vr_Kind = VerifyChallengeResponse, vr_Mechanism = re_name r, vr_Credentials = no_credentials,
                      vr_Challenge = re_challenge r, vr_Response = response\<rparr> r
        | responderExternal \<Rightarrow> external response r
        | responderOAuth \<Rightarrow> oauth response r
        | responderOAuthDummy \<Rightarrow> if response \<noteq> [SOH] then refuse ErrResponderPayload r else finish False r
        | responderSCRAMFirst \<Rightarrow> scramFirst response r
        | responderSCRAMProof \<Rightarrow> scramProof response r
        | responderSCRAMEmpty \<Rightarrow> if response \<noteq> [] then refuse ErrResponderPayload r else finish True r
        | _ \<Rightarrow> refuse ErrResponderState r)"

definition Continue :: "bytes option \<Rightarrow> Verification \<Rightarrow> ResponderStep responding" where
  "Continue rnd result r =
     (case (re_state r, re_request r) of
        (responderVerify, Some request) \<Rightarrow>
          (let r = r\<lparr>re_request := None\<rparr> in
           if vr_Kind request = VerifySCRAMKeys then
             (if \<not> vf_Accepted result then finish False r
              else
                case vf_Keys result of
                  None \<Rightarrow> refuse ErrNoSCRAMKeys r
                | Some keys \<Rightarrow> scramServerFirst rnd keys r)
           else if \<not> vf_Accepted result \<and> (re_name r = ''OAUTHBEARER'' \<or> re_name r = ''XOAUTH2'') \<and> vf_FailureChallenge result \<noteq> None
           then
             (if int (length (the (vf_FailureChallenge result))) > maxResponderPayload
              then refuse ErrResponderPayload (r\<lparr>re_state := responderDone\<rparr>)
              else await responderOAuthDummy (vf_FailureChallenge result) r)
           else finish (vf_Accepted result) r)
      | _ \<Rightarrow> refuse ErrResponderState r)"

section \<open>Histories of calls\<close>

datatype responder_call = CallStart "bytes option" "bytes option" | CallNext bytes | CallContinue "bytes option" Verification

primrec respond :: "responder_call \<Rightarrow> ResponderStep responding" where
  "respond (CallStart rnd initial) r = Start rnd initial r"
| "respond (CallNext response) r = Next response r"
| "respond (CallContinue rnd v) r = Continue rnd v r"

type_synonym history = "(responder_call \<times> (sasl_error + ResponderStep)) list"

inductive responder_run :: "Responder \<Rightarrow> history \<Rightarrow> Responder \<Rightarrow> bool" where
  rrun_Nil: "responder_run r [] r"
| rrun_snoc: "responder_run r0 hist r \<Longrightarrow> respond c r = (out, r') \<Longrightarrow> responder_run r0 (hist @ [(c, out)]) r'"

text \<open>The client's final message carries the nonce of this exchange, the channel it believes in is ours, and the proof
  belongs to the stored key.\<close>

definition proof_verified :: "hash_alg \<Rightarrow> sasl_SCRAMKeys \<Rightarrow> Responder \<Rightarrow> bytes \<Rightarrow> bool" where
  "proof_verified h keys r message \<longleftrightarrow>
     (\<exists>withoutProof proof64 fs proof.
        message = withoutProof @ '',p='' @ proof64 \<and> parseSCRAMFields withoutProof = Inr fs \<and>
        field fs (CHR ''r'') = re_combinedNonce r \<and>
        StdEncoding_DecodeString (field fs (CHR ''c'')) =
          Some (re_gs2Header r @ (if re_plus r then rc_ChannelBinding (re_cfg r) else [])) \<and>
        StdEncoding_DecodeString proof64 = Some proof \<and> length proof = hash_Size h \<and>
        hashSum h (xor_bytes proof (hmacSum h (ss_StoredKey keys)
          (re_clientFirst r @ '','' @ re_serverFirst r @ '','' @ withoutProof))) = ss_StoredKey keys)"

definition granted :: "history \<Rightarrow> sasl_SCRAMKeys \<Rightarrow> bool" where
  "granted hist keys \<longleftrightarrow> (\<exists>rnd v out. (CallContinue rnd v, out) \<in> set hist \<and> vf_Accepted v \<and> vf_Keys v = Some keys)"

definition proven :: "history \<Rightarrow> Responder \<Rightarrow> bool" where
  "proven hist r \<longleftrightarrow>
     (\<exists>h keys m out. re_newHash r = Some h \<and> re_keys r = Some keys \<and> granted hist keys \<and> (CallNext m, out) \<in> set hist \<and>
        proof_verified h keys r m)"

definition simple_mechanism :: "bytes \<Rightarrow> bool" where
  "simple_mechanism name \<longleftrightarrow> name \<in> set [''PLAIN'', ''LOGIN'', ''CRAM-MD5'', ''EXTERNAL'', ''OAUTHBEARER'', ''XOAUTH2'']"

definition responder_ok :: "history \<Rightarrow> Responder \<Rightarrow> bool" where
  "responder_ok hist r \<longleftrightarrow>
     (re_newHash r = None \<longleftrightarrow> simple_mechanism (re_name r)) \<and>
     (re_newHash r = None \<longrightarrow> re_state r \<notin> {responderSCRAMFirst, responderSCRAMProof, responderSCRAMEmpty}) \<and>
     (re_newHash r \<noteq> None \<longrightarrow> re_state r \<in> {responderNew, responderSCRAMFirst, responderSCRAMProof, responderSCRAMEmpty,
        responderVerify, responderDone}) \<and>
     (\<forall>q. re_request r = Some q \<longrightarrow> (vr_Kind q = VerifySCRAMKeys \<longleftrightarrow> re_newHash r \<noteq> None)) \<and>
     (re_state r = responderSCRAMProof \<longrightarrow> (\<exists>keys. re_keys r = Some keys \<and> granted hist keys)) \<and>
     (re_state r = responderSCRAMEmpty \<longrightarrow> proven hist r)"

definition accepted_ok :: "history \<Rightarrow> Responder \<Rightarrow> bool" where
  "accepted_ok hist r \<longleftrightarrow>
     (\<exists>rnd v out. (CallContinue rnd v, out) \<in> set hist \<and> vf_Accepted v) \<and> (re_newHash r \<noteq> None \<longrightarrow> proven hist r)"

definition good :: "history \<Rightarrow> (sasl_error + ResponderStep) \<times> Responder \<Rightarrow> bool" where
  "good hist x \<longleftrightarrow>
     responder_ok hist (snd x) \<and> fst x \<noteq> Inl SaslPanic \<and>
     (\<forall>s. fst x = Inr s \<longrightarrow> st_Accepted s \<longrightarrow> accepted_ok hist (snd x))"

named_theorems good_rules

lemma granted_mono: "granted hist keys \<Longrightarrow> set hist \<subseteq> set hist' \<Longrightarrow> granted hist' keys"
  unfolding granted_def by blast

lemma proven_mono: "proven hist r \<Longrightarrow> set hist \<subseteq> set hist' \<Longrightarrow> proven hist' r"
  unfolding proven_def using granted_mono by blast

lemma responder_ok_mono: "responder_ok hist r \<Longrightarrow> set hist \<subseteq> set hist' \<Longrightarrow> responder_ok hist' r"
  unfolding responder_ok_def using granted_mono [of hist _ hist'] proven_mono [of hist r hist'] by blast

lemma proven_update [simp]:
  "proven hist (r\<lparr>re_state := s\<rparr>) = proven hist r" "proven hist (r\<lparr>re_request := q\<rparr>) = proven hist r"
  by (simp_all add: proven_def proof_verified_def)

lemma refuse_good [good_rules]: "responder_ok hist r \<Longrightarrow> e \<noteq> SaslPanic \<Longrightarrow> good hist (refuse e r)"
  by (simp add: good_def refuse_def)

lemma verify_good [good_rules]:
  "responder_ok hist r \<Longrightarrow> vr_Kind q = VerifySCRAMKeys \<longleftrightarrow> re_newHash r \<noteq> None \<Longrightarrow> good hist (verify q r)"
  by (simp add: good_def verify_def responder_ok_def no_step_def)

lemma ok_done [good_rules]: "responder_ok hist r \<Longrightarrow> responder_ok hist (r\<lparr>re_state := responderDone\<rparr>)"
  by (auto simp: responder_ok_def)

lemma finish_good [good_rules]:
  assumes "responder_ok hist r" "b \<longrightarrow> accepted_ok hist r"
  shows "good hist (finish b r)"
proof -
  have "accepted_ok hist (r\<lparr>re_state := responderDone\<rparr>) = accepted_ok hist r" by (simp add: accepted_ok_def)
  with assms ok_done [OF assms(1)] show ?thesis by (simp add: good_def finish_def no_step_def)
qed

lemma await_good [good_rules]: "responder_ok hist (r\<lparr>re_state := s\<rparr>) \<Longrightarrow> good hist (await s c r)"
  by (simp add: good_def await_def challengeStep_def no_step_def)

lemma decodeSASLName_no_panic: "decodeSASLName s = Inl e \<Longrightarrow> e = ErrResponderPayload"
  by (induction s rule: decodeSASLName.induct) (auto simp: bind_res_Inl_iff split: if_splits list.splits)

lemma parse_no_panic:
  "parseSCRAMClientFirst m p = Inl e \<Longrightarrow> e = ErrResponderPayload" "parseOAuthGS2 s = Inl e \<Longrightarrow> e = ErrResponderPayload"
  "parseOAuthBearer s = Inl e \<Longrightarrow> e = ErrResponderPayload" "parseXOAuth2 s = Inl e \<Longrightarrow> e = ErrResponderPayload"
proof -
  show gs2: "parseOAuthGS2 s = Inl e \<Longrightarrow> e = ErrResponderPayload" for s e
    by (auto simp: parseOAuthGS2_def Let_def split: if_splits dest: decodeSASLName_no_panic)
  show "parseSCRAMClientFirst m p = Inl e \<Longrightarrow> e = ErrResponderPayload"
    by (auto simp: parseSCRAMClientFirst_def bind_res_Inl_iff split: if_splits prod.splits dest: decodeSASLName_no_panic)
  show "parseOAuthBearer s = Inl e \<Longrightarrow> e = ErrResponderPayload"
    by (auto simp: parseOAuthBearer_def Let_def bind_res_Inl_iff split: if_splits dest: gs2)
  show "parseXOAuth2 s = Inl e \<Longrightarrow> e = ErrResponderPayload"
    by (auto simp: parseXOAuth2_def Let_def split: if_splits prod.splits)
qed

lemma ok_state:
  assumes "responder_ok hist r" "s \<notin> {responderSCRAMProof, responderSCRAMEmpty}"
    "re_newHash r = None \<Longrightarrow> s \<noteq> responderSCRAMFirst" "re_newHash r \<noteq> None \<Longrightarrow> s \<in> {responderSCRAMFirst, responderVerify, responderDone}"
  shows "responder_ok hist (r\<lparr>re_state := s\<rparr>)"
  using assms unfolding responder_ok_def by auto

lemma ok_fields [simp]:
  "re_state r \<notin> {responderSCRAMEmpty} \<Longrightarrow> responder_ok hist (r\<lparr>re_gs2Header := a, re_clientFirst := b, re_combinedNonce := c\<rparr>) = responder_ok hist r"
  "responder_ok hist (r\<lparr>re_username := u\<rparr>) = responder_ok hist r" "responder_ok hist (r\<lparr>re_challenge := u\<rparr>) = responder_ok hist r"
  by (simp_all add: responder_ok_def proven_def proof_verified_def)

lemma ok_no_request [good_rules]: "responder_ok hist r \<Longrightarrow> responder_ok hist (r\<lparr>re_request := None\<rparr>)"
  by (auto simp: responder_ok_def)

lemma plain_good [good_rules]: "responder_ok hist r \<Longrightarrow> re_newHash r = None \<Longrightarrow> good hist (plain p r)"
  by (auto simp: plain_def credentials_request_def intro!: good_rules split: list.splits)

lemma external_good [good_rules]: "responder_ok hist r \<Longrightarrow> re_newHash r = None \<Longrightarrow> good hist (external p r)"
  by (auto simp: external_def credentials_request_def intro!: good_rules)

lemma oauth_good [good_rules]: "responder_ok hist r \<Longrightarrow> re_newHash r = None \<Longrightarrow> good hist (oauth p r)"
  by (auto simp: oauth_def credentials_request_def intro!: good_rules dest: parse_no_panic split: sum.splits if_splits)

lemma scramFirst_good [good_rules]:
  assumes "responder_ok hist r" "re_newHash r \<noteq> None" "re_state r \<in> {responderNew, responderSCRAMFirst}"
  shows "good hist (scramFirst p r)"
proof -
  have "re_state r \<noteq> responderSCRAMEmpty" using assms(3) by auto
  with assms show ?thesis
    by (auto simp: scramFirst_def intro!: good_rules dest: parse_no_panic decodeSASLName_no_panic split: sum.splits)
qed

lemma cramChallenge_no_panic: "cramChallenge rnd r = Inl e \<Longrightarrow> e \<noteq> SaslPanic"
  by (auto simp: cramChallenge_def Let_def split: option.splits)

lemma LastIndex_split: "LastIndex s p = Some i \<Longrightarrow> s = take i s @ p @ drop (i + length p) s"
proof -
  assume i: "LastIndex s p = Some i"
  define l where "l = filter (\<lambda>i. take (length p) (drop i s) = p) [0..<Suc (length s)]"
  have "l \<noteq> [] \<and> i = last l" using i unfolding LastIndex_def l_def [symmetric] by (cases l) simp_all
  then have "i \<in> set l" by simp
  then have "take (length p) (drop i s) = p" unfolding l_def set_filter by blast
  then have "drop i s = p @ drop (i + length p) s"
    by (metis append_take_drop_id drop_drop add.commute)
  then show ?thesis by (metis append_take_drop_id)
qed

lemma scramProof_good:
  assumes "responder_ok hist r" "re_state r = responderSCRAMProof" "(CallNext m, out) \<in> set hist"
  shows "good hist (scramProof m r)"
proof -
  obtain h keys where hk: "re_newHash r = Some h" "re_keys r = Some keys" "granted hist keys"
    using assms(1,2) by (auto simp: responder_ok_def)
  have empty: "good hist (await responderSCRAMEmpty c r)" if "proof_verified h keys r m" for c
  proof (rule await_good)
    have "proven hist r" unfolding proven_def using that hk assms(3) by blast
    with assms(1) hk(1) show "responder_ok hist (r\<lparr>re_state := responderSCRAMEmpty\<rparr>)" by (auto simp: responder_ok_def)
  qed
  show ?thesis
  proof (cases "LastIndex m '',p=''")
    case (Some i)
    have m: "m = take i m @ '',p='' @ drop (i + 3) m" using LastIndex_split [OF Some] by (simp add: eval_nat_numeral)
    have verified: "proof_verified h keys r m" if "parseSCRAMFields (take i m) = Inr fs"
      "field fs (CHR ''r'') = re_combinedNonce r" "StdEncoding_DecodeString (drop (i + 3) m) = Some pf" "length pf = hash_Size h"
      "StdEncoding_DecodeString (field fs (CHR ''c'')) = Some (re_gs2Header r @ (if re_plus r then rc_ChannelBinding (re_cfg r) else []))"
      "hashSum h (xor_bytes pf (hmacSum h (ss_StoredKey keys) (re_clientFirst r @ '','' @ re_serverFirst r @ '','' @ take i m))) = ss_StoredKey keys"
      for fs pf
      unfolding proof_verified_def
      by (rule exI [of _ "take i m"], rule exI [of _ "drop (i + 3) m"], rule exI [of _ fs], rule exI [of _ pf],
          intro conjI m that)
    show ?thesis
      unfolding scramProof_def Some
      by (auto simp: hk Let_def assms(1) intro!: good_rules empty verified split: sum.splits option.splits)
  qed (use assms(1) in \<open>simp add: scramProof_def good_rules\<close>)
qed

lemma scramServerFirst_good:
  assumes "responder_ok hist r" "re_newHash r \<noteq> None" "granted hist keys" "re_state r = responderVerify"
  shows "good hist (scramServerFirst rnd keys r)"
proof -
  obtain h where h: "re_newHash r = Some h" using assms(2) by blast
  have "responder_ok hist (r\<lparr>re_combinedNonce := a, re_serverFirst := b, re_keys := Some keys, re_state := responderSCRAMProof\<rparr>)" for a b
    using assms(1,3) h by (auto simp: responder_ok_def)
  with assms(1) show ?thesis
    by (auto simp: scramServerFirst_def h Let_def intro!: good_rules split: option.splits if_splits)
qed

lemma simple_names: "simple_mechanism ''PLAIN''" "simple_mechanism ''LOGIN''" "simple_mechanism ''CRAM-MD5''"
  "simple_mechanism ''EXTERNAL''" "simple_mechanism ''OAUTHBEARER''" "simple_mechanism ''XOAUTH2''"
  by (simp_all add: simple_mechanism_def)

lemma ok_simple: "responder_ok hist r \<Longrightarrow> re_newHash r = None \<longleftrightarrow> simple_mechanism (re_name r)"
  by (simp add: responder_ok_def)

lemma Start_good:
  assumes "responder_ok hist r"
  shows "good hist (Start rnd initial r)"
proof -
  consider "re_state r \<noteq> responderNew" | "re_state r = responderNew" "simple_mechanism (re_name r)"
    | "re_state r = responderNew" "\<not> simple_mechanism (re_name r)" by blast
  then show ?thesis
  proof cases
    case 1
    with assms show ?thesis by (simp add: Start_def good_rules)
  next
    case 2
    with ok_simple [OF assms] have "re_newHash r = None" by simp
    with assms 2 show ?thesis unfolding Start_def simple_mechanism_def
      by (auto intro!: good_rules ok_state split: option.splits sum.splits dest: cramChallenge_no_panic)
  next
    case 3
    with ok_simple [OF assms] have h: "re_newHash r \<noteq> None" by simp
    from 3 have "re_name r \<noteq> ''PLAIN''" "re_name r \<noteq> ''LOGIN''" "re_name r \<noteq> ''CRAM-MD5''" "re_name r \<noteq> ''EXTERNAL''"
      "re_name r \<noteq> ''OAUTHBEARER''" "re_name r \<noteq> ''XOAUTH2''" by (auto simp: simple_names)
    with assms 3(1) h show ?thesis unfolding Start_def
      by (auto intro!: good_rules ok_state split: option.splits)
  qed
qed

lemma ok_simple_state:
  "responder_ok hist r \<Longrightarrow> re_state r \<in> {responderPlain, responderLoginUser, responderLoginPassword, responderCRAM,
     responderExternal, responderOAuth, responderOAuthDummy} \<Longrightarrow> re_newHash r = None"
  "responder_ok hist r \<Longrightarrow> re_state r \<in> {responderSCRAMFirst, responderSCRAMProof, responderSCRAMEmpty} \<Longrightarrow> re_newHash r \<noteq> None"
  by (auto simp: responder_ok_def)

lemma Next_good:
  assumes "responder_ok hist r" "(CallNext m, out) \<in> set hist"
  shows "good hist (Next m r)"
proof -
  have accept: "accepted_ok hist r" if "re_state r = responderSCRAMEmpty"
    using assms(1) that by (auto simp: responder_ok_def accepted_ok_def proven_def granted_def)
  note simple = ok_simple_state [OF assms(1)]
  show ?thesis
  proof (cases "re_state r")
    case responderPlain
    with assms simple show ?thesis unfolding Next_def by (auto intro!: good_rules)
  next
    case responderLoginUser
    with assms simple show ?thesis unfolding Next_def by (auto intro!: good_rules ok_state)
  next
    case responderLoginPassword
    with assms simple show ?thesis unfolding Next_def by (auto simp: credentials_request_def intro!: good_rules)
  next
    case responderCRAM
    with assms simple show ?thesis unfolding Next_def by (auto intro!: good_rules)
  next
    case responderSCRAMProof
    with assms scramProof_good [OF assms(1) _ assms(2)] show ?thesis unfolding Next_def by (auto intro!: good_rules)
  next
    case responderSCRAMEmpty
    with assms accept show ?thesis unfolding Next_def by (auto intro!: good_rules)
  qed (use assms simple in \<open>auto simp: Next_def intro!: good_rules\<close>)
qed

lemma Continue_good:
  assumes "responder_ok hist r" "(CallContinue rnd v, out) \<in> set hist"
  shows "good hist (Continue rnd v r)"
proof (cases "re_state r = responderVerify \<and> re_request r \<noteq> None")
  case True
  then obtain q where q: "re_state r = responderVerify" "re_request r = Some q" by blast
  let ?r = "r\<lparr>re_request := None\<rparr>"
  have ok: "responder_ok hist ?r" by (rule ok_no_request [OF assms(1)])
  show ?thesis
  proof (cases "vr_Kind q = VerifySCRAMKeys")
    case True
    then have "re_newHash r \<noteq> None" using assms(1) q unfolding responder_ok_def by blast
    moreover have "granted hist keys" if "vf_Accepted v" "vf_Keys v = Some keys" for keys
      using assms(2) that unfolding granted_def by blast
    ultimately show ?thesis using True q ok
      by (auto simp: Continue_def Let_def intro!: good_rules scramServerFirst_good split: option.splits)
  next
    case False
    then have "re_newHash r = None" using assms(1) q unfolding responder_ok_def by blast
    then have "accepted_ok hist ?r" if "vf_Accepted v" using assms(2) that unfolding accepted_ok_def by auto
    with False q ok \<open>re_newHash r = None\<close> show ?thesis
      by (auto simp: Continue_def Let_def intro!: good_rules ok_state)
  qed
next
  case False
  then have "Continue rnd v r = refuse ErrResponderState r"
    by (auto simp: Continue_def split: responderState.splits option.splits)
  with assms(1) show ?thesis by (simp add: good_rules)
qed

lemma NewResponder_new:
  assumes "NewResponder upr name cfg = Inr r"
  shows "re_name r = ToUpper upr name" "mechanism_hash (ToUpper upr name) = Some (re_newHash r)" "re_state r = responderNew"
    "re_request r = None" "re_cfg r = cfg" "re_plus r \<longleftrightarrow> re_newHash r \<noteq> None \<and> HasSuffix (ToUpper upr name) ''-PLUS''"
  using assms unfolding NewResponder_def Let_def by (auto split: option.splits if_splits)

lemma mechanism_hash_simple: "mechanism_hash name = Some h \<Longrightarrow> h = None \<longleftrightarrow> simple_mechanism name"
  unfolding mechanism_hash_def simple_mechanism_def [symmetric] by (auto simp del: set_simps split: if_splits)

lemma NewResponder_ok:
  assumes "NewResponder upr name cfg = Inr r"
  shows "responder_ok [] r"
proof -
  note new = NewResponder_new [OF assms]
  have "re_newHash r = None \<longleftrightarrow> simple_mechanism (re_name r)" using mechanism_hash_simple [OF new(2)] new(1) by simp
  with new(3,4) show ?thesis by (simp add: responder_ok_def)
qed

lemma responder_run_good:
  assumes "responder_run r0 hist r" "responder_ok [] r0"
  shows "responder_ok hist r \<and> (hist \<noteq> [] \<longrightarrow> good hist (snd (last hist), r))"
  using assms
proof (induction rule: responder_run.induct)
  case (rrun_snoc r0 hist r c out r')
  let ?hist = "hist @ [(c, out)]"
  have "responder_ok ?hist r" using rrun_snoc.IH [OF rrun_snoc.prems] by (auto intro: responder_ok_mono)
  then have "good ?hist (respond c r)"
    by (cases c) (auto intro!: Start_good Next_good [where out = out] Continue_good [where out = out])
  with rrun_snoc.hyps(2) show ?case by (simp add: good_def)
qed simp

text \<open>C38: a SASL exchange is accepted only for a reason. Take any sequence of calls on a new responder, in any order and
  with any payloads. No call panics. If the last one reports acceptance, then the backend accepted a verification before,
  and for a SCRAM mechanism the keys of that very verification were used to check a client proof that carries the combined
  nonce of this exchange and the channel binding of this connection.\<close>

theorem responder_accepts_soundly:
  assumes "NewResponder upr name cfg = Inr r0" "responder_run r0 (hist @ [(c, out)]) r"
  shows "out \<noteq> Inl SaslPanic \<and>
    (\<forall>s. out = Inr s \<longrightarrow> st_Accepted s \<longrightarrow>
       (\<exists>rnd v out'. (CallContinue rnd v, out') \<in> set (hist @ [(c, out)]) \<and> vf_Accepted v) \<and>
       (re_newHash r \<noteq> None \<longrightarrow> proven (hist @ [(c, out)]) r))"
  using responder_run_good [OF assms(2) NewResponder_ok [OF assms(1)]] by (auto simp: good_def accepted_ok_def)

text \<open>The responder for PLAIN, a client that sends its credentials at once, and a backend that accepts them.\<close>

definition sample_config :: ResponderConfig where
  "sample_config = \<lparr>rc_Hostname = ''a'', rc_CRAMChallenge = None, rc_ChannelBinding = [], rc_testNonce = []\<rparr>"

definition sample_responder :: Responder where
  "sample_responder = projr (NewResponder id ''PLAIN'' sample_config)"

definition sample_calls :: "responder_call list" where
  "sample_calls = [CallStart None (Some [NUL, CHR ''u'', NUL, CHR ''p'']), CallContinue None \<lparr>vf_Accepted = True, vf_FailureChallenge = None, vf_Keys = None\<rparr>]"

primrec run_calls :: "responder_call list \<Rightarrow> Responder \<Rightarrow> history \<times> Responder" where
  "run_calls [] r = ([], r)"
| "run_calls (c # cs) r = (case respond c r of (out, r') \<Rightarrow> case run_calls cs r' of (hist, r'') \<Rightarrow> ((c, out) # hist, r''))"

lemma run_calls_run: "responder_run r0 hist r \<Longrightarrow> responder_run r0 (hist @ fst (run_calls cs r)) (snd (run_calls cs r))"
proof (induction cs arbitrary: hist r)
  case (Cons c cs)
  obtain out r' where out: "respond c r = (out, r')" by fastforce
  from Cons.IH [OF rrun_snoc [OF Cons.prems out]] out show ?case by (simp add: case_prod_unfold)
qed simp

theorem responder_accepts_soundly_witness:
  "\<exists>s. snd (last (fst (run_calls sample_calls sample_responder))) = Inr s \<and> st_Done s \<and> st_Accepted s \<and>
     (\<exists>rnd v out. (CallContinue rnd v, out) \<in> set (fst (run_calls sample_calls sample_responder)) \<and> vf_Accepted v)"
proof -
  have new: "NewResponder id ''PLAIN'' sample_config = Inr sample_responder" by code_simp
  obtain hist c out where h: "fst (run_calls sample_calls sample_responder) = hist @ [(c, out)]"
    by (cases "fst (run_calls sample_calls sample_responder)" rule: rev_cases) (auto simp: sample_calls_def split: prod.splits)
  have acc: "\<exists>s. snd (last (fst (run_calls sample_calls sample_responder))) = Inr s \<and> st_Done s \<and> st_Accepted s"
  proof -
    have "\<not> isl (snd (last (fst (run_calls sample_calls sample_responder)))) \<and> st_Done (projr (snd (last (fst (run_calls sample_calls sample_responder))))) \<and>
        st_Accepted (projr (snd (last (fst (run_calls sample_calls sample_responder)))))" by code_simp
    then show ?thesis by (cases "snd (last (fst (run_calls sample_calls sample_responder)))") auto
  qed
  have "responder_run sample_responder (hist @ [(c, out)]) (snd (run_calls sample_calls sample_responder))"
    using run_calls_run [OF rrun_Nil, of sample_responder sample_calls] h by simp
  from responder_accepts_soundly [OF new this] acc h show ?thesis by auto
qed

end
