(* ===== verification/Sasl_Client.thy ===== *)
theory Sasl_Client
  imports Sasl_Responder
begin

text \<open>
  The client half of the SASL mechanisms (internal/smtpsasl/sasl.go) and what it achieves together with the server half:
  for every mechanism, what the server asks its backend about is what the client was configured with, as long as the
  texts are free of the octets that separate them on the wire (\<open>separable\<close>), and a SCRAM exchange with the right
  password ends with both sides satisfied. The octets of \<open>rand.Read\<close> are an argument, as in the responder.
\<close>

section \<open>Configuration and texts\<close>

record sasl_Config =
  sf_Username :: bytes
  sf_Password :: bytes
  sf_AuthorizationID :: bytes
  sf_Token :: bytes
  sf_ChannelBinding :: bytes
  sf_testNonce :: bytes

datatype client_error =
  ErrUnsupportedClient | ErrClientBinding | ErrUnexpectedChallenge | ErrTooManyChallenges | ErrClientRandom
| ErrSignatureMismatch | ErrServerFirst | ErrIterationCount | ErrClientSalt

text \<open>\<open>strings.NewReplacer\<close> with two single octets: each octet is replaced on its own.\<close>

fun saslName :: "bytes \<Rightarrow> bytes" where
  "saslName [] = []"
| "saslName (c # s) =
     (if c = CHR ''='' then ''=3D'' else if c = CHR '','' then ''=2C'' else [c]) @ saslName s"

fun parse_fields :: "bytes list \<Rightarrow> scram_fields \<Rightarrow> scram_fields" where
  "parse_fields [] m = m"
| "parse_fields (x # xs) m =
     parse_fields xs (if length x \<ge> 3 \<and> x ! 1 = CHR ''='' then m(hd x \<mapsto> drop 2 x) else m)"

definition parseFields :: "bytes \<Rightarrow> scram_fields" where
  "parseFields v = parse_fields (Split v (CHR '','')) Map.empty"

text \<open>The loop of \<open>hi\<close>: \<open>n\<close> more rounds.\<close>

primrec hi_rounds :: "hash_alg \<Rightarrow> bytes \<Rightarrow> nat \<Rightarrow> bytes \<Rightarrow> bytes \<Rightarrow> bytes" where
  "hi_rounds h password 0 out previous = out"
| "hi_rounds h password (Suc n) out previous =
     (let p = hmac h password previous in hi_rounds h password n (xor_bytes out p) p)"

definition hi :: "hash_alg \<Rightarrow> bytes \<Rightarrow> bytes \<Rightarrow> int \<Rightarrow> bytes" where
  "hi h password salt iterations =
     (let out = hmac h password (salt @ [NUL, NUL, NUL, CHR 0x01]) in hi_rounds h password (nat (iterations - 1)) out out)"

section \<open>Mechanisms\<close>

record scram =
  sm_name :: bytes
  sm_cfg :: sasl_Config
  sm_newHash :: hash_alg
  sm_plus :: bool
  sm_nonce :: bytes
  sm_firstBare :: bytes
  sm_expected :: bytes
  sm_step :: nat

datatype mechanism =
  Plain sasl_Config
| Login sasl_Config nat
| CramMD5 sasl_Config
| External sasl_Config
| OauthBearer sasl_Config
| Xoauth2 sasl_Config
| Scram scram

definition newSCRAM :: "bytes \<Rightarrow> sasl_Config \<Rightarrow> hash_alg \<Rightarrow> client_error + mechanism" where
  "newSCRAM name cfg h =
     (if HasSuffix name ''-PLUS'' \<and> sf_ChannelBinding cfg = [] then Inl ErrClientBinding
      else
        Inr (Scram \<lparr>sm_name = name, sm_cfg = cfg, sm_newHash = h, sm_plus = HasSuffix name ''-PLUS'', sm_nonce = [],
                    sm_firstBare = [], sm_expected = [], sm_step = 0\<rparr>))"

definition New :: "(nat \<Rightarrow> nat) \<Rightarrow> bytes \<Rightarrow> sasl_Config \<Rightarrow> client_error + mechanism" where
  "New upr name cfg =
     (let u = ToUpper upr name in
      if u = ''PLAIN'' then Inr (Plain cfg)
      else if u = ''LOGIN'' then Inr (Login cfg 0)
      else if u = ''CRAM-MD5'' then Inr (CramMD5 cfg)
      else if u = ''EXTERNAL'' then Inr (External cfg)
      else if u = ''OAUTHBEARER'' then Inr (OauthBearer cfg)
      else if u = ''XOAUTH2'' then Inr (Xoauth2 cfg)
      else if u \<in> set [''SCRAM-SHA-1'', ''SCRAM-SHA-1-PLUS''] then newSCRAM u cfg SHA1
      else if u \<in> set [''SCRAM-SHA-256'', ''SCRAM-SHA-256-PLUS''] then newSCRAM u cfg SHA256
      else Inl ErrUnsupportedClient)"

primrec mechanism_Name :: "mechanism \<Rightarrow> bytes" where
  "mechanism_Name (Plain _) = ''PLAIN''"
| "mechanism_Name (Login _ _) = ''LOGIN''"
| "mechanism_Name (CramMD5 _) = ''CRAM-MD5''"
| "mechanism_Name (External _) = ''EXTERNAL''"
| "mechanism_Name (OauthBearer _) = ''OAUTHBEARER''"
| "mechanism_Name (Xoauth2 _) = ''XOAUTH2''"
| "mechanism_Name (Scram s) = sm_name s"

definition gs2_header :: "bool \<Rightarrow> bytes" where
  "gs2_header pls = (if pls then ''p=tls-exporter,,'' else ''n,,'')"

definition scram_Start :: "bytes option \<Rightarrow> scram \<Rightarrow> (client_error + bytes) \<times> scram" where
  "scram_Start rnd s =
     (case (if sf_testNonce (sm_cfg s) \<noteq> [] then Some (sf_testNonce (sm_cfg s)) else map_option RawStdEncoding_EncodeToString rnd) of
        None \<Rightarrow> (Inl ErrClientRandom, s)
      | Some nonce \<Rightarrow>
          let bare = ''n='' @ saslName (sf_Username (sm_cfg s)) @ '',r='' @ nonce in
          (Inr (gs2_header (sm_plus s) @ bare), s\<lparr>sm_nonce := nonce, sm_firstBare := bare\<rparr>))"

text \<open>The first response: \<open>None\<close> is a nil slice.\<close>

definition mechanism_Start :: "bytes option \<Rightarrow> mechanism \<Rightarrow> (client_error + bytes option) \<times> mechanism" where
  "mechanism_Start rnd m =
     (case m of
        Plain cfg \<Rightarrow> (Inr (Some (sf_AuthorizationID cfg @ [NUL] @ sf_Username cfg @ [NUL] @ sf_Password cfg)), m)
      | Login _ _ \<Rightarrow> (Inr None, m)
      | CramMD5 _ \<Rightarrow> (Inr None, m)
      | External cfg \<Rightarrow> (Inr (Some (sf_AuthorizationID cfg)), m)
      | OauthBearer cfg \<Rightarrow>
          (let a = (if sf_AuthorizationID cfg = [] then sf_Username cfg else sf_AuthorizationID cfg) in
           (Inr (Some (''n,a='' @ saslName a @ '','' @ [SOH] @ ''auth=Bearer '' @ sf_Token cfg @ [SOH, SOH])), m))
      | Xoauth2 cfg \<Rightarrow> (Inr (Some (''user='' @ sf_Username cfg @ [SOH] @ ''auth=Bearer '' @ sf_Token cfg @ [SOH, SOH])), m)
      | Scram s \<Rightarrow> (case scram_Start rnd s of (Inl e, s') \<Rightarrow> (Inl e, Scram s') | (Inr b, s') \<Rightarrow> (Inr (Some b), Scram s')))"

definition clientFinal :: "bytes \<Rightarrow> scram \<Rightarrow> (client_error + bytes) \<times> scram" where
  "clientFinal serverFirst s =
     (let f = parseFields serverFirst; nonce = field f (CHR ''r''); salt64 = field f (CHR ''s'') in
      if nonce = [] \<or> \<not> HasPrefix nonce (sm_nonce s) \<or> salt64 = [] then (Inl ErrServerFirst, s)
      else
        case ParseInt (field f (CHR ''i'')) of
          None \<Rightarrow> (Inl ErrIterationCount, s)
        | Some iter \<Rightarrow>
            if iter < 1 \<or> iter > maxSCRAMIterations then (Inl ErrIterationCount, s)
            else
              case StdEncoding_DecodeString salt64 of
                None \<Rightarrow> (Inl ErrClientSalt, s)
              | Some salt \<Rightarrow>
                  let h = sm_newHash s;
                      salted = hi h (sf_Password (sm_cfg s)) salt iter;
                      clientKey = hmacSum h salted ''Client Key'';
                      stored = hashSum h clientKey;
                      cbind = (if sm_plus s then StdEncoding_EncodeToString (''p=tls-exporter,,'' @ sf_ChannelBinding (sm_cfg s)) else ''biws'');
                      withoutProof = ''c='' @ cbind @ '',r='' @ nonce;
                      auth = sm_firstBare s @ '','' @ serverFirst @ '','' @ withoutProof;
                      clientSig = hmacSum h stored auth;
                      pf = xor_bytes clientKey clientSig;
                      serverKey = hmacSum h salted ''Server Key'' in
                  (Inr (withoutProof @ '',p='' @ StdEncoding_EncodeToString pf), s\<lparr>sm_expected := hmacSum h serverKey auth\<rparr>))"

definition scram_Next :: "bytes \<Rightarrow> scram \<Rightarrow> (client_error + bytes option \<times> bool) \<times> scram" where
  "scram_Next challenge s =
     (if sm_step s = 0 then
        (case clientFinal challenge (s\<lparr>sm_step := 1\<rparr>) of
           (Inl e, s') \<Rightarrow> (Inl e, s')
         | (Inr b, s') \<Rightarrow> (Inr (Some b, False), s'))
      else if sm_step s = 1 then
        (let s' = s\<lparr>sm_step := 2\<rparr> in
         if field (parseFields challenge) (CHR ''v'') \<noteq> StdEncoding_EncodeToString (sm_expected s) then (Inl ErrSignatureMismatch, s')
         else (Inr (None, True), s'))
      else (Inl ErrTooManyChallenges, s))"

definition hex_digit :: "nat \<Rightarrow> char" where
  "hex_digit n = (if n < 10 then char_of (48 + n) else char_of (87 + n))"

text \<open>\<open>fmt.Sprintf\<close> with the verb \<open>%x\<close>.\<close>

definition hex :: "bytes \<Rightarrow> bytes" where
  "hex s = concat (map (\<lambda>c. [hex_digit (byte c div 16), hex_digit (byte c mod 16)]) s)"

definition mechanism_Next :: "bytes \<Rightarrow> mechanism \<Rightarrow> (client_error + bytes option \<times> bool) \<times> mechanism" where
  "mechanism_Next challenge m =
     (case m of
        Plain _ \<Rightarrow> (Inl ErrUnexpectedChallenge, m)
      | Login cfg step \<Rightarrow>
          (if step = 0 then (Inr (Some (sf_Username cfg), False), Login cfg 1)
           else if step = 1 then (Inr (Some (sf_Password cfg), True), Login cfg 2)
           else (Inl ErrTooManyChallenges, Login cfg (Suc step)))
      | CramMD5 cfg \<Rightarrow> (Inr (Some (sf_Username cfg @ '' '' @ hex (hmac MD5 (sf_Password cfg) challenge)), True), m)
      | External _ \<Rightarrow> (Inl ErrUnexpectedChallenge, m)
      | OauthBearer _ \<Rightarrow> (Inr (Some [SOH], True), m)
      | Xoauth2 _ \<Rightarrow> (Inr (Some [SOH], True), m)
      | Scram s \<Rightarrow> (case scram_Next challenge s of (out, s') \<Rightarrow> (out, Scram s')))"

section \<open>Names\<close>

lemma decode_saslName [simp]: "decodeSASLName (saslName s) = Inr s"
  by (induction s) (simp_all split: list.splits)

lemma saslName_no_comma: "CHR '','' \<notin> set (saslName s)"
  by (induction s) auto

lemma saslName_empty [simp]: "saslName s = [] \<longleftrightarrow> s = []"
  by (cases s) auto

section \<open>Credentials arrive as they were sent\<close>

lemma b64_length: "length (b64_encode al pad bs) \<le> 2 * length bs + 4"
  by (induction al pad bs rule: b64_encode.induct) auto

lemma Split_fields:
  assumes "CHR '','' \<notin> set x" "CHR '','' \<notin> set y" "a \<noteq> CHR '',''" "b \<noteq> CHR '',''"
  shows "Split (a # CHR ''='' # x @ CHR '','' # b # CHR ''='' # y) (CHR '','') = [a # CHR ''='' # x, b # CHR ''='' # y]"
proof -
  have "Split ((a # CHR ''='' # x) @ CHR '','' # b # CHR ''='' # y) (CHR '','') = (a # CHR ''='' # x) # Split (b # CHR ''='' # y) (CHR '','')"
    by (rule Split_append) (use assms in simp)
  also have "Split (b # CHR ''='' # y) (CHR '','') = [b # CHR ''='' # y]" by (rule Split_single) (use assms in simp)
  finally show ?thesis by simp
qed

lemma RawStd_no_comma: "CHR '','' \<notin> set (RawStdEncoding_EncodeToString bs)"
  using RawStdEncoding_plain [of bs] std_char_plain by (auto simp: list_all_iff)

lemma Std_no_comma: "CHR '','' \<notin> set (StdEncoding_EncodeToString bs)"
  using StdEncoding_plain [of bs] std_char_plain by (auto simp: list_all_iff)

lemma parse_two_fields:
  assumes "CHR '','' \<notin> set x" "CHR '','' \<notin> set y" "a \<noteq> CHR '',''" "b \<noteq> CHR '',''" "x \<noteq> []" "y \<noteq> []" "a \<noteq> b"
  shows "parseSCRAMFields (a # CHR ''='' # x @ CHR '','' # b # CHR ''='' # y) = Inr [a \<mapsto> x, b \<mapsto> y]"
proof -
  have "3 \<le> length (a # CHR ''='' # x)" "3 \<le> length (b # CHR ''='' # y)" using assms(5,6) by (cases x; cases y; simp)+
  with assms(5-7) show ?thesis unfolding parseSCRAMFields_def Split_fields [OF assms(1-4)] by (simp add: not_less)
qed

text \<open>The two halves talking to each other, up to the server's question to its backend: the client answers each
  challenge with \<open>mechanism_Next\<close>, the server takes each answer with \<open>Next\<close>. The first argument bounds the number of
  steps of the server; no mechanism takes more than three before its first question.\<close>

primrec dialogue :: "nat \<Rightarrow> mechanism \<Rightarrow> (sasl_error + ResponderStep) \<times> Responder \<Rightarrow> VerificationRequest option" where
  "dialogue 0 m x = None"
| "dialogue (Suc n) m x =
     (case x of
        (Inl _, r) \<Rightarrow> None
      | (Inr st, r) \<Rightarrow>
          (case (st_Verification st, st_Challenge st) of
             (Some q, _) \<Rightarrow> Some q
           | (None, None) \<Rightarrow> None
           | (None, Some challenge) \<Rightarrow>
               (case mechanism_Next challenge m of
                  (Inr (Some response, _), m') \<Rightarrow> dialogue n m' (Next response r)
                | _ \<Rightarrow> None)))"

definition authenticate :: "bytes option \<Rightarrow> bytes option \<Rightarrow> mechanism \<Rightarrow> Responder \<Rightarrow> VerificationRequest option" where
  "authenticate crnd srnd m r =
     (case mechanism_Start crnd m of
        (Inl _, _) \<Rightarrow> None
      | (Inr initial, m') \<Rightarrow> dialogue 3 m' (Start srnd initial r))"

text \<open>What the server should ask: the credentials themselves, for CRAM-MD5 the keyed digest of the server's challenge,
  for SCRAM the keys of the user.\<close>

definition client_request :: "mechanism \<Rightarrow> bytes \<Rightarrow> VerificationRequest" where
  "client_request m challenge =
     (let ask = credentials_request (mechanism_Name m) in
      case m of
        Plain cfg \<Rightarrow> ask (no_credentials\<lparr>sa_AuthorizationID := sf_AuthorizationID cfg, sa_AuthenticationID := sf_Username cfg, sa_Password := sf_Password cfg\<rparr>)
      | Login cfg _ \<Rightarrow> ask (no_credentials\<lparr>sa_AuthenticationID := sf_Username cfg, sa_Password := sf_Password cfg\<rparr>)
      | CramMD5 cfg \<Rightarrow>
          \<lparr>vr_Kind = VerifyChallengeResponse, vr_Mechanism = mechanism_Name m, vr_Credentials = no_credentials, vr_Challenge = challenge,
           vr_Response = sf_Username cfg @ '' '' @ hex (hmac MD5 (sf_Password cfg) challenge)\<rparr>
      | External cfg \<Rightarrow> ask (no_credentials\<lparr>sa_AuthorizationID := sf_AuthorizationID cfg\<rparr>)
      | OauthBearer cfg \<Rightarrow>
          ask (no_credentials\<lparr>sa_AuthorizationID := (if sf_AuthorizationID cfg = [] then sf_Username cfg else sf_AuthorizationID cfg), sa_Token := sf_Token cfg\<rparr>)
      | Xoauth2 cfg \<Rightarrow> ask (no_credentials\<lparr>sa_AuthenticationID := sf_Username cfg, sa_Token := sf_Token cfg\<rparr>)
      | Scram s \<Rightarrow>
          \<lparr>vr_Kind = VerifySCRAMKeys, vr_Mechanism = mechanism_Name m,
           vr_Credentials = no_credentials\<lparr>sa_AuthenticationID := sf_Username (sm_cfg s)\<rparr>, vr_Challenge = [], vr_Response = []\<rparr>)"

text \<open>The texts that the encodings of a mechanism can carry: no separator inside, no empty text where the server wants
  one, and not the single asterisk that cancels an exchange.\<close>

definition separable :: "mechanism \<Rightarrow> bool" where
  "separable m =
     (case m of
        Plain cfg \<Rightarrow> NUL \<notin> set (sf_AuthorizationID cfg @ sf_Username cfg @ sf_Password cfg) \<and> sf_Username cfg \<noteq> []
      | Login cfg _ \<Rightarrow> sf_Username cfg \<noteq> [] \<and> sf_Username cfg \<noteq> ''*'' \<and> sf_Password cfg \<noteq> ''*''
      | CramMD5 cfg \<Rightarrow> True
      | External cfg \<Rightarrow> sf_AuthorizationID cfg \<noteq> ''*''
      | OauthBearer cfg \<Rightarrow> SOH \<notin> set (sf_AuthorizationID cfg @ sf_Username cfg @ sf_Token cfg) \<and> sf_Token cfg \<noteq> []
      | Xoauth2 cfg \<Rightarrow> SOH \<notin> set (sf_Username cfg @ sf_Token cfg) \<and> sf_Token cfg \<noteq> [] \<and> sf_Username cfg \<noteq> []
      | Scram s \<Rightarrow> sf_Username (sm_cfg s) \<noteq> [] \<and> sf_testNonce (sm_cfg s) = [])"

lemma plain_parts:
  assumes "NUL \<notin> set a" "NUL \<notin> set b" "NUL \<notin> set c"
  shows "Split (a @ NUL # b @ NUL # c) NUL = [a, b, c]"
  using assms by (simp add: Split_append Split_single)

lemma oauth_parts:
  assumes "SOH \<notin> set a" "SOH \<notin> set b"
  shows "Split (a @ SOH # b @ [SOH, SOH]) SOH = [a, b, [], []]"
  using assms by (simp add: Split_append Split_single)

lemma saslName_no_SOH: "SOH \<notin> set s \<Longrightarrow> SOH \<notin> set (saslName s)"
  by (induction s) auto

lemma bearer_roundtrip:
  assumes "SOH \<notin> set a" "SOH \<notin> set t" "t \<noteq> []"
  shows "parseOAuthBearer (''n,a='' @ saslName a @ '','' @ [SOH] @ ''auth=Bearer '' @ t @ [SOH, SOH]) =
    Inr (no_credentials\<lparr>sa_AuthorizationID := a, sa_Token := t\<rparr>)"
proof -
  have "SOH \<notin> set (''n,a='' @ saslName a @ '','')" "SOH \<notin> set (''auth=Bearer '' @ t)"
    using assms saslName_no_SOH [of a] by simp_all
  from oauth_parts [OF this] have parts: "Split (''n,a='' @ saslName a @ '','' @ [SOH] @ ''auth=Bearer '' @ t @ [SOH, SOH]) SOH =
      [''n,a='' @ saslName a @ '','', ''auth=Bearer '' @ t, [], []]" by simp
  have "parseOAuthGS2 (''n,a='' @ saslName a @ '','') = Inr a"
    by (simp add: parseOAuthGS2_def HasPrefix_def HasSuffix_def TrimPrefix_def TrimSuffix_def Let_def)
  with assms(3) show ?thesis
    unfolding parseOAuthBearer_def parts by (simp add: bearer_token_def HasPrefix_def TrimPrefix_def)
qed

lemma xoauth2_roundtrip:
  assumes "SOH \<notin> set u" "SOH \<notin> set t" "t \<noteq> []" "u \<noteq> []"
  shows "parseXOAuth2 (''user='' @ u @ [SOH] @ ''auth=Bearer '' @ t @ [SOH, SOH]) =
    Inr (no_credentials\<lparr>sa_AuthenticationID := u, sa_Token := t\<rparr>)"
proof -
  have "SOH \<notin> set (''user='' @ u)" "SOH \<notin> set (''auth=Bearer '' @ t)" using assms by simp_all
  from oauth_parts [OF this] have parts: "Split (''user='' @ u @ [SOH] @ ''auth=Bearer '' @ t @ [SOH, SOH]) SOH =
      [''user='' @ u, ''auth=Bearer '' @ t, [], []]" by simp
  with assms(3,4) show ?thesis
    unfolding parseXOAuth2_def parts by (simp add: xoauth2_part_def HasPrefix_def TrimPrefix_def)
qed

section \<open>An honest SCRAM exchange\<close>

text \<open>The verifier a server stores for a password (RFC 5802, section 3).\<close>

definition scram_keys :: "hash_alg \<Rightarrow> bytes \<Rightarrow> bytes \<Rightarrow> int \<Rightarrow> sasl_SCRAMKeys" where
  "scram_keys h password salt iterations =
     (let salted = hi h password salt iterations in
      \<lparr>ss_Salt = salt, ss_Iterations = iterations, ss_StoredKey = hashSum h (hmacSum h salted ''Client Key''),
       ss_ServerKey = hmacSum h salted ''Server Key''\<rparr>)"

lemma parse_client_first: "bare \<noteq> [] \<Longrightarrow> parseSCRAMClientFirst (gs2_header p @ bare) p = Inr (gs2_header p, bare, [])"
proof -
  have "Cut (''p=tls-exporter'' @ CHR '','' # CHR '','' # bare) (CHR '','') = (''p=tls-exporter'', CHR '','' # bare, True)"
    "Cut (''n'' @ CHR '','' # CHR '','' # bare) (CHR '','') = (''n'', CHR '','' # bare, True)"
    "Cut ([] @ CHR '','' # bare) (CHR '','') = ([], bare, True)"
    by (rule Cut_append, simp)+
  then show "bare \<noteq> [] \<Longrightarrow> ?thesis" by (simp add: parseSCRAMClientFirst_def gs2_header_def)
qed

lemma scramFirst_honest:
  assumes "u \<noteq> []" "nonce \<noteq> []" "CHR '','' \<notin> set nonce"
  shows "scramFirst (gs2_header (re_plus r) @ ''n='' @ saslName u @ '',r='' @ nonce) r =
    verify \<lparr>vr_Kind = VerifySCRAMKeys, vr_Mechanism = re_name r, vr_Credentials = no_credentials\<lparr>sa_AuthenticationID := u\<rparr>,
            vr_Challenge = [], vr_Response = []\<rparr>
      (r\<lparr>re_gs2Header := gs2_header (re_plus r), re_clientFirst := ''n='' @ saslName u @ '',r='' @ nonce, re_combinedNonce := nonce\<rparr>)"
proof -
  have "parseSCRAMFields (''n='' @ saslName u @ '',r='' @ nonce) = Inr [CHR ''n'' \<mapsto> saslName u, CHR ''r'' \<mapsto> nonce]"
    using assms parse_two_fields [of "saslName u" nonce "CHR ''n''" "CHR ''r''"] saslName_no_comma [of u] by simp
  then show ?thesis
    using assms parse_client_first [of "''n='' @ saslName u @ '',r='' @ nonce" "re_plus r"]
    by (simp add: scramFirst_def field_def no_credentials_def)
qed

lemma Split_three_fields:
  assumes "CHR '','' \<notin> set x" "CHR '','' \<notin> set y" "CHR '','' \<notin> set z"
  shows "Split (''r='' @ x @ '',s='' @ y @ '',i='' @ z) (CHR '','') = [''r='' @ x, ''s='' @ y, ''i='' @ z]"
proof -
  have "Split ((''r='' @ x) @ CHR '','' # ''s='' @ y @ '',i='' @ z) (CHR '','') = (''r='' @ x) # Split (''s='' @ y @ '',i='' @ z) (CHR '','')"
    by (rule Split_append) (use assms in simp)
  with Split_fields [of y z "CHR ''s''" "CHR ''i''"] assms show ?thesis by simp
qed

lemma parse_server_first:
  assumes "CHR '','' \<notin> set x" "CHR '','' \<notin> set y" "CHR '','' \<notin> set z" "x \<noteq> []" "y \<noteq> []" "z \<noteq> []"
  shows "parseFields (''r='' @ x @ '',s='' @ y @ '',i='' @ z) = [CHR ''r'' \<mapsto> x, CHR ''s'' \<mapsto> y, CHR ''i'' \<mapsto> z]"
proof -
  have "1 \<le> length x" "1 \<le> length y" "1 \<le> length z" using assms(4-6) by (cases x; cases y; cases z; simp)+
  then show ?thesis unfolding parseFields_def Split_three_fields [OF assms(1-3)] by simp
qed

lemma last_filter_upt:
  assumes "P k" "k < n" "\<And>i. k < i \<Longrightarrow> i < n \<Longrightarrow> \<not> P i"
  shows "filter P [0..<n] \<noteq> [] \<and> last (filter P [0..<n]) = k"
proof -
  have "[0..<n] = [0..<k] @ k # [Suc k..<n]" using assms(2) by (metis upt_conv_Cons upt_add_eq_append le_add_diff_inverse less_imp_le zero_le)
  moreover have "filter P [Suc k..<n] = []" using assms(3) by (simp add: filter_empty_conv)
  ultimately show ?thesis using assms(1) by simp
qed

lemma LastIndex_final:
  assumes "CHR '','' \<notin> set q"
  shows "LastIndex (w @ '',p='' @ q) '',p='' = Some (length w)"
proof -
  let ?s = "w @ '',p='' @ q"
  let ?P = "\<lambda>i. take (length '',p='') (drop i ?s) = '',p=''"
  have "\<not> ?P i" if "length w < i" "i < Suc (length ?s)" for i
  proof
    assume "?P i"
    then have "CHR '','' \<in> set (drop i ?s)" by (metis in_set_takeD list.set_intros(1))
    moreover have "set (drop i ?s) \<subseteq> set (''p='' @ q)"
    proof -
      have "drop i ?s = drop (i - Suc (length w)) (''p='' @ q)"
        using that by (simp add: drop_append drop_Cons' Suc_diff_Suc)
      then show ?thesis by (metis set_drop_subset)
    qed
    ultimately show False using assms by auto
  qed
  then have "filter ?P [0..<Suc (length ?s)] \<noteq> [] \<and> last (filter ?P [0..<Suc (length ?s)]) = length w"
    by (intro last_filter_upt) simp_all
  then show ?thesis unfolding LastIndex_def by (cases "filter ?P [0..<Suc (length ?s)]") simp_all
qed

definition cbind_text :: "bool \<Rightarrow> bytes \<Rightarrow> bytes" where
  "cbind_text p binding = StdEncoding_EncodeToString (gs2_header p @ (if p then binding else []))"

lemma biws: "StdEncoding_EncodeToString ''n,,'' = ''biws''"
  by (simp add: StdEncoding_EncodeToString_def std_alphabet_def)

lemma clientFinal_honest:
  assumes "sm_nonce s = n0" "CHR '','' \<notin> set n" "n \<noteq> []" "prefix n0 n" "salt \<noteq> []" "1 \<le> iter" "iter \<le> maxSCRAMIterations"
    "first = ''r='' @ n @ '',s='' @ StdEncoding_EncodeToString salt @ '',i='' @ Itoa iter"
    "w = ''c='' @ cbind_text (sm_plus s) (sf_ChannelBinding (sm_cfg s)) @ '',r='' @ n"
    "salted = hi (sm_newHash s) (sf_Password (sm_cfg s)) salt iter"
    "auth = sm_firstBare s @ '','' @ first @ '','' @ w"
  shows "clientFinal first s =
    (Inr (w @ '',p='' @ StdEncoding_EncodeToString (xor_bytes (hmacSum (sm_newHash s) salted ''Client Key'')
        (hmacSum (sm_newHash s) (hashSum (sm_newHash s) (hmacSum (sm_newHash s) salted ''Client Key'')) auth))),
     s\<lparr>sm_expected := hmacSum (sm_newHash s) (hmacSum (sm_newHash s) salted ''Server Key'') auth\<rparr>)"
proof -
  have it: "Itoa iter = FormatUint (nat iter)" using assms(6) by (simp add: Itoa_def)
  have "CHR '','' \<notin> set (Itoa iter)" "Itoa iter \<noteq> []"
    using FormatUint_digits [of "nat iter"] by (auto simp: it list_all_iff is_digit_def)
  then have f: "parseFields first = [CHR ''r'' \<mapsto> n, CHR ''s'' \<mapsto> StdEncoding_EncodeToString salt, CHR ''i'' \<mapsto> Itoa iter]"
    unfolding assms(8) using assms(2,3,5) Std_no_comma [of salt] by (intro parse_server_first) simp_all
  have "ParseInt (Itoa iter) = Some iter"
    unfolding it using assms(6,7) ParseInt_FormatUint [of "nat iter"] by (simp add: maxSCRAMIterations_def)
  with f assms(1,3-7) show ?thesis
    by (simp add: clientFinal_def Let_def field_def HasPrefix_iff assms(9-11) cbind_text_def gs2_header_def biws [simplified])
qed

lemma xor_bytes_cancel: "length a = length b \<Longrightarrow> xor_bytes (xor_bytes a b) b = a"
  unfolding xor_bytes_def by (induction a b rule: list_induct2) simp_all

lemma scramProof_honest:
  assumes "re_newHash r = Some h" "re_keys r = Some (scram_keys h pw salt iter)" "re_combinedNonce r = n" "n \<noteq> []" "CHR '','' \<notin> set n"
    "re_gs2Header r = gs2_header (re_plus r)"
    "w = ''c='' @ cbind_text (re_plus r) (rc_ChannelBinding (re_cfg r)) @ '',r='' @ n"
    "auth = re_clientFirst r @ '','' @ re_serverFirst r @ '','' @ w" "salted = hi h pw salt iter"
  shows "scramProof (w @ '',p='' @ StdEncoding_EncodeToString (xor_bytes (hmacSum h salted ''Client Key'')
        (hmacSum h (hashSum h (hmacSum h salted ''Client Key'')) auth))) r =
    await responderSCRAMEmpty (Some (''v='' @ StdEncoding_EncodeToString (hmacSum h (hmacSum h salted ''Server Key'') auth))) r"
proof -
  let ?ck = "hmacSum h salted ''Client Key''"
  let ?pf = "xor_bytes ?ck (hmacSum h (hashSum h ?ck) auth)"
  let ?p64 = "StdEncoding_EncodeToString ?pf"
  have no: "CHR '','' \<notin> set ?p64" by (rule Std_no_comma)
  have bind: "cbind_text (re_plus r) (rc_ChannelBinding (re_cfg r)) \<noteq> []" by (simp add: cbind_text_def gs2_header_def)
  have w: "parseSCRAMFields w = Inr [CHR ''c'' \<mapsto> cbind_text (re_plus r) (rc_ChannelBinding (re_cfg r)), CHR ''r'' \<mapsto> n]"
    unfolding assms(7) using parse_two_fields [of "cbind_text (re_plus r) (rc_ChannelBinding (re_cfg r))" n "CHR ''c''" "CHR ''r''"]
      assms(4,5) bind Std_no_comma by (simp add: cbind_text_def)
  have len: "length ?pf = hash_Size h" "length ?ck = length (hmacSum h (hashSum h ?ck) auth)"
    by (simp_all add: xor_bytes_def hmacSum_def)
  have key: "xor_bytes ?pf (hmacSum h (hashSum h ?ck) auth) = ?ck" by (rule xor_bytes_cancel [OF len(2)])
  have split: "take (length w) (w @ '',p='' @ ?p64) = w" "drop (length w + 3) (w @ '',p='' @ ?p64) = ?p64" by simp_all
  have ks: "ss_StoredKey (scram_keys h pw salt iter) = hashSum h ?ck" "ss_ServerKey (scram_keys h pw salt iter) = hmacSum h salted ''Server Key''"
    by (simp_all add: scram_keys_def Let_def assms(9))
  have chan: "field [CHR ''c'' \<mapsto> cbind_text (re_plus r) (rc_ChannelBinding (re_cfg r)), CHR ''r'' \<mapsto> n] (CHR ''c'') = cbind_text (re_plus r) (rc_ChannelBinding (re_cfg r))"
    "field [CHR ''c'' \<mapsto> cbind_text (re_plus r) (rc_ChannelBinding (re_cfg r)), CHR ''r'' \<mapsto> n] (CHR ''r'') = n"
    "StdEncoding_DecodeString (cbind_text (re_plus r) (rc_ChannelBinding (re_cfg r))) =
       Some (re_gs2Header r @ (if re_plus r then rc_ChannelBinding (re_cfg r) else []))"
    by (simp_all add: field_def cbind_text_def assms(6))
  show ?thesis
    unfolding scramProof_def LastIndex_final [OF no] option.case Let_def split w sum.case chan
    using no bind assms(1-3) len(1) key by (simp add: ks chan flip: assms(8) append.simps)
qed

definition scram_name :: "hash_alg \<Rightarrow> bool \<Rightarrow> bytes" where
  "scram_name h pls = (if h = SHA1 then ''SCRAM-SHA-1'' else ''SCRAM-SHA-256'') @ (if pls then ''-PLUS'' else [])"

lemma New_Scram:
  assumes "New upr name cfg = Inr (Scram s)"
  shows "\<exists>h pls. h \<in> {SHA1, SHA256} \<and> ToUpper upr name = scram_name h pls \<and> sm_newHash s = h \<and> sm_plus s = pls \<and> sm_cfg s = cfg \<and>
    sm_step s = 0"
proof -
  define u where "u = ToUpper upr name"
  have run: "New upr name cfg = (if u \<in> set [''SCRAM-SHA-1'', ''SCRAM-SHA-1-PLUS''] then newSCRAM u cfg SHA1
      else if u \<in> set [''SCRAM-SHA-256'', ''SCRAM-SHA-256-PLUS''] then newSCRAM u cfg SHA256 else New upr name cfg)"
    by (auto simp: New_def Let_def u_def)
  have "u \<in> set [''SCRAM-SHA-1'', ''SCRAM-SHA-1-PLUS'', ''SCRAM-SHA-256'', ''SCRAM-SHA-256-PLUS'']"
  proof (rule ccontr)
    assume "\<not> ?thesis"
    then show False using assms unfolding New_def Let_def u_def [symmetric] by (simp split: if_splits)
  qed
  then consider "u = scram_name SHA1 False" | "u = scram_name SHA1 True" | "u = scram_name SHA256 False" | "u = scram_name SHA256 True"
    by (auto simp: scram_name_def)
  then show ?thesis
    by cases (use assms run in \<open>fastforce simp: u_def [symmetric] scram_name_def newSCRAM_def HasSuffix_def split: if_splits\<close>)+
qed

lemma NewResponder_Scram:
  assumes "NewResponder upr name cfg = Inr r" "ToUpper upr name = scram_name h pls" "h \<in> {SHA1, SHA256}"
  shows "re_newHash r = Some h" "re_plus r = pls" "\<not> simple_mechanism (re_name r)" "re_state r = responderNew" "re_cfg r = cfg"
proof -
  note new = NewResponder_new [OF assms(1), unfolded assms(2)]
  have "mechanism_hash (scram_name h pls) = Some (Some h)" "HasSuffix (scram_name h pls) ''-PLUS'' = pls"
    using assms(3) by (cases pls; auto simp: mechanism_hash_def scram_name_def HasSuffix_def)+
  moreover from this have h: "re_newHash r = Some h" using new(2) by simp
  ultimately show "re_newHash r = Some h" "re_plus r = pls" "\<not> simple_mechanism (re_name r)" "re_state r = responderNew" "re_cfg r = cfg"
    using mechanism_hash_simple [OF new(2)] new by auto
qed

lemma saslName_length: "length (saslName s) \<le> 3 * length s"
  by (induction s) auto

lemma parse_verifier:
  assumes "CHR '','' \<notin> set x" "x \<noteq> []"
  shows "field (parseFields (''v='' @ x)) (CHR ''v'') = x"
proof -
  have "Split (''v='' @ x) (CHR '','') = [''v='' @ x]" by (rule Split_single) (use assms in simp)
  moreover have "1 \<le> length x" using assms(2) by (cases x) simp_all
  ultimately show ?thesis by (simp add: parseFields_def field_def del: Split.simps)
qed

lemma hash_Size_pos [simp]: "0 < hash_Size h"
  by (cases h) simp_all

lemma hmacSum_nonempty [simp]: "hmacSum h k m \<noteq> []"
  using hmac_length [of h k m] hash_Size_pos [of h] by (metis hmacSum_def length_greater_0_conv)

lemma raw_nonce: "CHR '','' \<notin> set (RawStdEncoding_EncodeToString bs)" "length (RawStdEncoding_EncodeToString bs) \<le> 2 * length bs + 4"
  using b64_length [of std_alphabet False bs] RawStd_no_comma by (auto simp: RawStdEncoding_EncodeToString_def)

text \<open>The three messages of the server's side, each on the fields it reads.\<close>

lemma scram_start:
  assumes "\<not> simple_mechanism (re_name r)" "re_state r = responderNew" "u \<noteq> []" "length u \<le> 5000" "nonce \<noteq> []" "CHR '','' \<notin> set nonce"
    "length nonce \<le> 40" "bare = ''n='' @ saslName u @ '',r='' @ nonce"
  shows "Start rnd (Some (gs2_header (re_plus r) @ bare)) r =
    verify \<lparr>vr_Kind = VerifySCRAMKeys, vr_Mechanism = re_name r, vr_Credentials = no_credentials\<lparr>sa_AuthenticationID := u\<rparr>,
            vr_Challenge = [], vr_Response = []\<rparr>
      (r\<lparr>re_gs2Header := gs2_header (re_plus r), re_clientFirst := bare, re_combinedNonce := nonce\<rparr>)"
proof -
  let ?m = "gs2_header (re_plus r) @ bare"
  have "\<not> maxResponderPayload < int (length ?m)" "?m \<noteq> ''*''"
    using assms(4,7,8) saslName_length [of u] by (auto simp: maxResponderPayload_def gs2_header_def)
  moreover have "re_name r \<noteq> ''PLAIN''" "re_name r \<noteq> ''LOGIN''" "re_name r \<noteq> ''CRAM-MD5''" "re_name r \<noteq> ''EXTERNAL''"
      "re_name r \<noteq> ''OAUTHBEARER''" "re_name r \<noteq> ''XOAUTH2''" using assms(1) by (auto simp: simple_names)
  ultimately show ?thesis
    using scramFirst_honest [OF assms(3,5,6), of r] assms(2) by (simp add: Start_def assms(8))
qed

lemma scram_lookup:
  assumes "re_newHash r = Some h" "rc_testNonce (re_cfg r) = []" "salt \<noteq> []" "1 \<le> iter" "iter \<le> maxSCRAMIterations"
    "n = re_combinedNonce r @ RawStdEncoding_EncodeToString rnd"
    "first = ''r='' @ n @ '',s='' @ StdEncoding_EncodeToString salt @ '',i='' @ Itoa iter" "vr_Kind q = VerifySCRAMKeys"
  shows "Continue (Some rnd) \<lparr>vf_Accepted = True, vf_FailureChallenge = None, vf_Keys = Some (scram_keys h pw salt iter)\<rparr> (snd (verify q r)) =
      (Inr (challengeStep (Some first)),
       r\<lparr>re_request := None, re_state := responderSCRAMProof, re_combinedNonce := n, re_serverFirst := first, re_keys := Some (scram_keys h pw salt iter)\<rparr>)"
  using assms
  by (simp add: Continue_def verify_def scramServerFirst_def scram_keys_def hashSum_def hmacSum_def await_def Let_def)

lemma scram_final_size:
  assumes "length binding \<le> 4000" "length n \<le> 80" "w = ''c='' @ cbind_text pls binding @ '',r='' @ n" "length pf = hash_Size h"
  shows "\<not> maxResponderPayload < int (length (w @ '',p='' @ StdEncoding_EncodeToString pf))" "w @ '',p='' @ StdEncoding_EncodeToString pf \<noteq> ''*''"
proof -
  have "length (cbind_text pls binding) \<le> 8100"
    using b64_length [of std_alphabet True "gs2_header pls @ (if pls then binding else [])"] assms(1)
    by (auto simp: cbind_text_def StdEncoding_EncodeToString_def gs2_header_def)
  moreover have "hash_Size h \<le> 32" by (cases h) simp_all
  ultimately show "\<not> maxResponderPayload < int (length (w @ '',p='' @ StdEncoding_EncodeToString pf))" "w @ '',p='' @ StdEncoding_EncodeToString pf \<noteq> ''*''"
    using assms(2-4) b64_length [of std_alphabet True pf] by (auto simp: maxResponderPayload_def StdEncoding_EncodeToString_def)
qed

section \<open>What the server asks about\<close>

lemma New_name:
  assumes "New upr name c = Inr m"
  shows "mechanism_Name m = ToUpper upr name"
  using assms unfolding New_def Let_def newSCRAM_def by (auto split: if_splits)

lemma New_config:
  assumes "New upr name c = Inr m"
  shows "m = Plain c' \<Longrightarrow> c' = c" "m = Login c' k \<Longrightarrow> c' = c \<and> k = 0" "m = CramMD5 c' \<Longrightarrow> c' = c" "m = External c' \<Longrightarrow> c' = c"
    "m = OauthBearer c' \<Longrightarrow> c' = c" "m = Xoauth2 c' \<Longrightarrow> c' = c"
  using assms unfolding New_def Let_def newSCRAM_def by (auto split: if_splits)

lemma hex_length: "length (hex s) = 2 * length s"
  by (induction s) (simp_all add: hex_def)

definition config_size :: "sasl_Config \<Rightarrow> nat" where
  "config_size c = length (sf_AuthorizationID c) + length (sf_Username c) + length (sf_Password c) + length (sf_Token c)"

lemma dialogue_verify: "dialogue (Suc n) m (Inr (no_step\<lparr>st_Verification := Some q\<rparr>), r) = Some q"
  by simp

lemma authenticate_initial:
  assumes "mechanism_Start crnd m = (Inr (Some initial), m')" "Start srnd (Some initial) r = verify q r0"
  shows "authenticate crnd srnd m r = Some q"
  using assms by (simp add: authenticate_def verify_def numeral_3_eq_3 dialogue_verify)

lemma authenticate_plain:
  assumes "separable (Plain c)" "re_name r = ''PLAIN''" "re_state r = responderNew" "config_size c \<le> 5000"
  shows "authenticate crnd srnd (Plain c) r = Some (client_request (Plain c) challenge)"
proof (rule authenticate_initial)
  let ?i = "sf_AuthorizationID c @ [NUL] @ sf_Username c @ [NUL] @ sf_Password c"
  show "mechanism_Start crnd (Plain c) = (Inr (Some ?i), Plain c)" by (simp add: mechanism_Start_def)
  have "Split ?i NUL = [sf_AuthorizationID c, sf_Username c, sf_Password c]" "sf_Username c \<noteq> []" "?i \<noteq> ''*''"
    using assms(1) plain_parts [of "sf_AuthorizationID c" "sf_Username c" "sf_Password c"]
    by (auto simp: separable_def append_eq_Cons_conv)
  then show "Start srnd (Some ?i) r = verify (client_request (Plain c) challenge) r"
    using assms(2-4) by (simp add: Start_def plain_def client_request_def maxResponderPayload_def config_size_def)
qed

lemma authenticate_login:
  assumes "separable (Login c 0)" "re_name r = ''LOGIN''" "re_state r = responderNew" "config_size c \<le> 5000"
  shows "authenticate crnd srnd (Login c 0) r = Some (client_request (Login c 0) challenge)"
  using assms
  by (simp add: authenticate_def mechanism_Start_def mechanism_Next_def Start_def Next_def await_def challengeStep_def verify_def
      numeral_3_eq_3 separable_def client_request_def maxResponderPayload_def config_size_def no_step_def)

lemma authenticate_cram:
  assumes "cramChallenge srnd r = Inr challenge" "re_name r = ''CRAM-MD5''" "re_state r = responderNew" "config_size c \<le> 5000"
  shows "authenticate crnd srnd (CramMD5 c) r = Some (client_request (CramMD5 c) challenge)"
proof -
  let ?a = "sf_Username c @ '' '' @ hex (hmac MD5 (sf_Password c) challenge)"
  have "length ?a = length (sf_Username c) + 33" by (simp add: hex_length hmac_length)
  then have "length ?a \<noteq> length ''*''" "\<not> maxResponderPayload < int (length ?a)" "length ?a \<noteq> length []"
    using assms(4) by (auto simp: maxResponderPayload_def config_size_def)
  then have "?a \<noteq> ''*''" "\<not> maxResponderPayload < int (length ?a)" "?a \<noteq> []" by metis+
  then show ?thesis
    using assms(1-3)
    by (simp add: authenticate_def mechanism_Start_def mechanism_Next_def Start_def Next_def await_def challengeStep_def verify_def
        numeral_3_eq_3 client_request_def maxResponderPayload_def no_step_def)
qed

lemma authenticate_external:
  assumes "separable (External c)" "re_name r = ''EXTERNAL''" "re_state r = responderNew" "config_size c \<le> 5000"
  shows "authenticate crnd srnd (External c) r = Some (client_request (External c) challenge)"
  by (rule authenticate_initial [where initial = "sf_AuthorizationID c" and m' = "External c" and ?r0.0 = r])
    (use assms in \<open>simp_all add: mechanism_Start_def separable_def Start_def external_def client_request_def maxResponderPayload_def config_size_def\<close>)

lemma authenticate_oauthbearer:
  assumes "separable (OauthBearer c)" "re_name r = ''OAUTHBEARER''" "re_state r = responderNew" "config_size c \<le> 5000"
  shows "authenticate crnd srnd (OauthBearer c) r = Some (client_request (OauthBearer c) challenge)"
proof (rule authenticate_initial)
  define a where "a = (if sf_AuthorizationID c = [] then sf_Username c else sf_AuthorizationID c)"
  let ?i = "''n,a='' @ saslName a @ '','' @ [SOH] @ ''auth=Bearer '' @ sf_Token c @ [SOH, SOH]"
  show "mechanism_Start crnd (OauthBearer c) = (Inr (Some ?i), OauthBearer c)"
    by (simp add: mechanism_Start_def a_def Let_def)
  have "parseOAuthBearer ?i = Inr (no_credentials\<lparr>sa_AuthorizationID := a, sa_Token := sf_Token c\<rparr>)"
    using assms(1) by (intro bearer_roundtrip) (auto simp: separable_def a_def)
  moreover have "\<not> maxResponderPayload < int (length ?i)" "?i \<noteq> ''*''"
    using assms(4) saslName_length [of a] by (auto simp: maxResponderPayload_def config_size_def a_def)
  ultimately show "Start srnd (Some ?i) r = verify (client_request (OauthBearer c) challenge) r"
    using assms(2,3) by (simp add: Start_def oauth_def client_request_def a_def)
qed

lemma authenticate_xoauth2:
  assumes "separable (Xoauth2 c)" "re_name r = ''XOAUTH2''" "re_state r = responderNew" "config_size c \<le> 5000"
  shows "authenticate crnd srnd (Xoauth2 c) r = Some (client_request (Xoauth2 c) challenge)"
proof (rule authenticate_initial)
  let ?i = "''user='' @ sf_Username c @ [SOH] @ ''auth=Bearer '' @ sf_Token c @ [SOH, SOH]"
  show "mechanism_Start crnd (Xoauth2 c) = (Inr (Some ?i), Xoauth2 c)" by (simp add: mechanism_Start_def)
  have "parseXOAuth2 ?i = Inr (no_credentials\<lparr>sa_AuthenticationID := sf_Username c, sa_Token := sf_Token c\<rparr>)"
    using assms(1) by (intro xoauth2_roundtrip) (auto simp: separable_def)
  moreover have "\<not> maxResponderPayload < int (length ?i)" "?i \<noteq> ''*''"
    using assms(4) by (auto simp: maxResponderPayload_def config_size_def)
  ultimately show "Start srnd (Some ?i) r = verify (client_request (Xoauth2 c) challenge) r"
    using assms(2,3) by (simp add: Start_def oauth_def client_request_def)
qed

lemma authenticate_scram:
  assumes "separable (Scram s)" "\<not> simple_mechanism (re_name r)" "re_state r = responderNew" "config_size (sm_cfg s) \<le> 5000"
    "re_name r = sm_name s" "re_plus r = sm_plus s" "crnd = Some bs" "length bs = 18"
  shows "authenticate crnd srnd (Scram s) r = Some (client_request (Scram s) challenge)"
proof (rule authenticate_initial)
  let ?n = "RawStdEncoding_EncodeToString bs"
  let ?b = "''n='' @ saslName (sf_Username (sm_cfg s)) @ '',r='' @ ?n"
  show "mechanism_Start crnd (Scram s) =
      (Inr (Some (gs2_header (re_plus r) @ ?b)), Scram (s\<lparr>sm_nonce := ?n, sm_firstBare := ?b\<rparr>))"
    using assms by (simp add: mechanism_Start_def scram_Start_def separable_def Let_def)
  have "bs \<noteq> []" using assms(8) by auto
  then have "?n \<noteq> []" "CHR '','' \<notin> set ?n" "length ?n \<le> 40" using assms(8) raw_nonce [of bs] by simp_all
  from scram_start [OF assms(2,3) _ _ this refl, of "sf_Username (sm_cfg s)" srnd]
  show "Start srnd (Some (gs2_header (re_plus r) @ ?b)) r = verify (client_request (Scram s) challenge)
      (r\<lparr>re_gs2Header := gs2_header (re_plus r), re_clientFirst := ?b, re_combinedNonce := ?n\<rparr>)"
    using assms(1,4,5) by (simp add: separable_def config_size_def client_request_def)
qed

text \<open>C39: what the server asks its backend about is what the client is configured with. For each of the mechanisms
  \<open>New\<close> offers, a fresh client and a fresh server of the same name (in any letter case) reach the server's question
  to its backend, and it holds the client's own texts, each in its place: identities and password for PLAIN and LOGIN,
  the authorization identity for EXTERNAL, identity and token for OAUTHBEARER and XOAUTH2, user and keyed digest of the
  server's challenge for CRAM-MD5, and the user whose keys are wanted for SCRAM. The texts have to be free of the
  octets that separate the fields (\<open>separable\<close>) and no longer than 5000 octets together, and the random octets have to
  be there; the rest of the SCRAM exchange is \<open>scram_exchange\<close>.\<close>

theorem client_credentials_arrive:
  assumes "New upr name c = Inr m" "NewResponder upr name cfg = Inr r" "separable m" "config_size c \<le> 5000"
    and "length bs = 18" "cramChallenge srnd r = Inr challenge"
  shows "authenticate (Some bs) srnd m r = Some (client_request m challenge)"
proof -
  have name: "re_name r = mechanism_Name m" "re_state r = responderNew"
    using NewResponder_new [OF assms(2)] New_name [OF assms(1)] by simp_all
  note new = New_config [OF assms(1)]
  show ?thesis
  proof (cases m)
    case (Plain c')
    show ?thesis using name assms(3,4) new(1) [OF Plain] authenticate_plain [of c r] unfolding Plain by simp
  next
    case (Login c' k)
    show ?thesis using name assms(3,4) new(2) [OF Login] authenticate_login [of c r] unfolding Login by simp
  next
    case (CramMD5 c')
    show ?thesis using name assms(4,6) new(3) [OF CramMD5] authenticate_cram [of srnd r challenge c] unfolding CramMD5 by simp
  next
    case (External c')
    show ?thesis using name assms(3,4) new(4) [OF External] authenticate_external [of c r] unfolding External by simp
  next
    case (OauthBearer c')
    show ?thesis using name assms(3,4) new(5) [OF OauthBearer] authenticate_oauthbearer [of c r] unfolding OauthBearer by simp
  next
    case (Xoauth2 c')
    show ?thesis using name assms(3,4) new(6) [OF Xoauth2] authenticate_xoauth2 [of c r] unfolding Xoauth2 by simp
  next
    case (Scram s)
    obtain h pls where h: "h \<in> {SHA1, SHA256}" "ToUpper upr name = scram_name h pls" and s: "sm_plus s = pls" "sm_cfg s = c"
      using New_Scram [OF assms(1) [unfolded Scram]] by blast
    note rs = NewResponder_Scram [OF assms(2) h(2,1)]
    show ?thesis unfolding Scram
      by (rule authenticate_scram) (use name assms(3-5) Scram rs s in simp_all)
  qed
qed

text \<open>C40: a client with the right password and a server with the verifier of that password complete every SCRAM mechanism,
  with or without channel binding, whatever the user name, the random nonces, the salt and the iteration count: the server
  asks for the keys of exactly this user, accepts the client's proof, and the client accepts the server's signature.\<close>

theorem scram_exchange:
  assumes "New upr name ccfg = Inr (Scram s)" "NewResponder upr name scfg = Inr r"
    "sf_ChannelBinding ccfg = rc_ChannelBinding scfg" "sf_testNonce ccfg = []" "rc_testNonce scfg = []"
    "sf_Username ccfg \<noteq> []" "length (sf_Username ccfg) \<le> 5000" "length (rc_ChannelBinding scfg) \<le> 4000"
    "length crnd = 18" "length srnd = 18" "salt \<noteq> []" "1 \<le> iter" "iter \<le> maxSCRAMIterations"
  shows "\<exists>m1 c1 q r1 ch1 r2 m2 c2 ch2 r3 c3 r4.
    mechanism_Start (Some crnd) (Scram s) = (Inr (Some m1), c1) \<and>
    Start None (Some m1) r = (Inr (no_step\<lparr>st_Verification := Some q\<rparr>), r1) \<and>
    vr_Kind q = VerifySCRAMKeys \<and> sa_AuthenticationID (vr_Credentials q) = sf_Username ccfg \<and>
    Continue (Some srnd) \<lparr>vf_Accepted = True, vf_FailureChallenge = None,
      vf_Keys = Some (scram_keys (sm_newHash s) (sf_Password ccfg) salt iter)\<rparr> r1 = (Inr (challengeStep (Some ch1)), r2) \<and>
    mechanism_Next ch1 c1 = (Inr (Some m2, False), c2) \<and> Next m2 r2 = (Inr (challengeStep (Some ch2)), r3) \<and>
    mechanism_Next ch2 c2 = (Inr (None, True), c3) \<and>
    Next [] r3 = (Inr (no_step\<lparr>st_Done := True, st_Accepted := True\<rparr>), r4)"
proof -
  obtain h0 p0 where cl: "h0 \<in> {SHA1, SHA256}" "ToUpper upr name = scram_name h0 p0" "sm_newHash s = h0" "sm_plus s = p0"
    "sm_cfg s = ccfg" "sm_step s = 0" using New_Scram [OF assms(1)] by blast
  note sv = NewResponder_Scram [OF assms(2) cl(2,1)]
  let ?h = "sm_newHash s" and ?u = "sf_Username ccfg"
  define cn where "cn = RawStdEncoding_EncodeToString crnd"
  define bare where "bare = ''n='' @ saslName ?u @ '',r='' @ cn"
  define q where "q = \<lparr>vr_Kind = VerifySCRAMKeys, vr_Mechanism = re_name r, vr_Credentials = no_credentials\<lparr>sa_AuthenticationID := ?u\<rparr>,
            vr_Challenge = [], vr_Response = []\<rparr>"
  define r0 where "r0 = r\<lparr>re_gs2Header := gs2_header (re_plus r), re_clientFirst := bare, re_combinedNonce := cn\<rparr>"
  define n where "n = cn @ RawStdEncoding_EncodeToString srnd"
  define first where "first = ''r='' @ n @ '',s='' @ StdEncoding_EncodeToString salt @ '',i='' @ Itoa iter"
  define r1 where "r1 = r0\<lparr>re_request := None, re_state := responderSCRAMProof, re_combinedNonce := n, re_serverFirst := first,
    re_keys := Some (scram_keys ?h (sf_Password ccfg) salt iter)\<rparr>"
  define w where "w = ''c='' @ cbind_text (sm_plus s) (sf_ChannelBinding ccfg) @ '',r='' @ n"
  define salted where "salted = hi ?h (sf_Password ccfg) salt iter"
  define auth where "auth = bare @ '','' @ first @ '','' @ w"
  define pf where "pf = xor_bytes (hmacSum ?h salted ''Client Key'') (hmacSum ?h (hashSum ?h (hmacSum ?h salted ''Client Key'')) auth)"
  define sig where "sig = hmacSum ?h (hmacSum ?h salted ''Server Key'') auth"
  define c1 where "c1 = s\<lparr>sm_nonce := cn, sm_firstBare := bare, sm_step := 1\<rparr>"
  have "crnd \<noteq> []" using assms(9) by auto
  then have nn: "cn \<noteq> []" "CHR '','' \<notin> set cn" "length cn \<le> 40" "n \<noteq> []" "CHR '','' \<notin> set n" "prefix cn n" "length n \<le> 80"
    using assms(9,10) raw_nonce [of crnd] raw_nonce [of srnd] by (simp_all add: cn_def n_def)
  have st1: "mechanism_Start (Some crnd) (Scram s) = (Inr (Some (gs2_header (re_plus r) @ bare)), Scram (s\<lparr>sm_nonce := cn, sm_firstBare := bare\<rparr>))"
    using assms(4) cl sv by (simp add: mechanism_Start_def scram_Start_def bare_def cn_def Let_def)
  have st2: "Start None (Some (gs2_header (re_plus r) @ bare)) r = (Inr (no_step\<lparr>st_Verification := Some q\<rparr>), snd (verify q r0))"
    using scram_start [OF sv(3,4) assms(6,7) nn(1-3) bare_def] by (simp add: q_def r0_def verify_def)
  have st3: "Continue (Some srnd) \<lparr>vf_Accepted = True, vf_FailureChallenge = None,
      vf_Keys = Some (scram_keys ?h (sf_Password ccfg) salt iter)\<rparr> (snd (verify q r0)) = (Inr (challengeStep (Some first)), r1)"
    unfolding r1_def using sv assms(5) cl by (intro scram_lookup assms(11-13)) (simp_all add: q_def r0_def n_def first_def)
  have "clientFinal first c1 = (Inr (w @ '',p='' @ StdEncoding_EncodeToString pf), c1\<lparr>sm_expected := sig\<rparr>)"
    unfolding pf_def sig_def using clientFinal_honest [of c1 cn n salt iter first w salted auth] nn assms(11-13)
    by (simp add: c1_def first_def w_def salted_def auth_def cl)
  then have st4: "mechanism_Next first (Scram (s\<lparr>sm_nonce := cn, sm_firstBare := bare\<rparr>)) =
      (Inr (Some (w @ '',p='' @ StdEncoding_EncodeToString pf), False), Scram (c1\<lparr>sm_expected := sig\<rparr>))"
    by (simp add: mechanism_Next_def scram_Next_def cl c1_def)
  have "scramProof (w @ '',p='' @ StdEncoding_EncodeToString pf) r1 = await responderSCRAMEmpty (Some (''v='' @ StdEncoding_EncodeToString sig)) r1"
    unfolding pf_def sig_def
    by (rule scramProof_honest [where pw = "sf_Password ccfg" and salt = salt and iter = iter and n = n])
      (use nn assms(3) cl sv in \<open>simp_all add: r1_def r0_def w_def auth_def salted_def\<close>)
  moreover have "length pf = hash_Size ?h" by (simp add: pf_def xor_bytes_def hmacSum_def)
  ultimately have st5: "Next (w @ '',p='' @ StdEncoding_EncodeToString pf) r1 =
      (Inr (challengeStep (Some (''v='' @ StdEncoding_EncodeToString sig))), r1\<lparr>re_state := responderSCRAMEmpty\<rparr>)"
    using scram_final_size [of "sf_ChannelBinding ccfg" n w "sm_plus s" pf ?h] nn(7) assms(3,8) w_def by (simp add: Next_def r1_def await_def)
  have st6: "mechanism_Next (''v='' @ StdEncoding_EncodeToString sig) (Scram (c1\<lparr>sm_expected := sig\<rparr>)) =
      (Inr (None, True), Scram (c1\<lparr>sm_expected := sig, sm_step := 2\<rparr>))"
    using parse_verifier [OF Std_no_comma, of sig] by (simp add: mechanism_Next_def scram_Next_def c1_def sig_def Let_def)
  have st7: "Next [] (r1\<lparr>re_state := responderSCRAMEmpty\<rparr>) = (Inr (no_step\<lparr>st_Done := True, st_Accepted := True\<rparr>), r1\<lparr>re_state := responderDone\<rparr>)"
    by (simp add: Next_def finish_def maxResponderPayload_def)
  show ?thesis
    by (intro exI conjI) (rule st1, rule st2, simp add: q_def, simp add: q_def, rule st3, rule st4, rule st5, rule st6, rule st7)
qed

definition sample_client :: sasl_Config where
  "sample_client =
     \<lparr>sf_Username = ''u'', sf_Password = ''p'', sf_AuthorizationID = [], sf_Token = [], sf_ChannelBinding = [], sf_testNonce = []\<rparr>"

theorem client_credentials_arrive_witness:
  "\<exists>r. NewResponder id ''LOGIN'' sample_config = Inr r \<and>
     authenticate (Some (replicate 18 NUL)) (Some []) (Login sample_client 0) r =
       Some (credentials_request ''LOGIN'' (no_credentials\<lparr>sa_AuthenticationID := ''u'', sa_Password := ''p''\<rparr>))"
proof -
  have "ToUpperASCII ''LOGIN'' = ''LOGIN''" by code_simp
  then have up: "ToUpper id ''LOGIN'' = ''LOGIN''" by (simp add: is_ascii_def)
  have m: "New id ''LOGIN'' sample_client = Inr (Login sample_client 0)" unfolding New_def up Let_def by simp
  obtain r where r: "NewResponder id ''LOGIN'' sample_config = Inr r" unfolding NewResponder_def up Let_def by (auto simp: mechanism_hash_def)
  obtain ch where ch: "cramChallenge (Some []) r = Inr ch" by (cases "rc_CRAMChallenge (re_cfg r)") (auto simp: cramChallenge_def Let_def)
  have "separable (Login sample_client 0)" "config_size sample_client \<le> 5000" "length (replicate 18 NUL) = 18"
    by (simp_all add: separable_def config_size_def sample_client_def)
  from client_credentials_arrive [OF m r this ch] r show ?thesis by (simp add: client_request_def sample_client_def)
qed

theorem scram_exchange_witness:
  "\<exists>s r q r1. New id ''SCRAM-SHA-256'' sample_client = Inr (Scram s) \<and> NewResponder id ''SCRAM-SHA-256'' sample_config = Inr r \<and>
     vr_Kind q = VerifySCRAMKeys \<and> sa_AuthenticationID (vr_Credentials q) = ''u'' \<and>
     (\<exists>m1. Start None (Some m1) r = (Inr (no_step\<lparr>st_Verification := Some q\<rparr>), r1))"
proof -
  have up: "ToUpper id ''SCRAM-SHA-256'' = ''SCRAM-SHA-256''"
  proof -
    have "ToUpperASCII ''SCRAM-SHA-256'' = ''SCRAM-SHA-256''" by code_simp
    then show ?thesis by (simp add: is_ascii_def)
  qed
  have new: "New id ''SCRAM-SHA-256'' sample_client = newSCRAM ''SCRAM-SHA-256'' sample_client SHA256"
    unfolding New_def up Let_def by simp
  obtain s where s: "New id ''SCRAM-SHA-256'' sample_client = Inr (Scram s)"
    unfolding new by (auto simp: newSCRAM_def HasSuffix_def)
  obtain r where r: "NewResponder id ''SCRAM-SHA-256'' sample_config = Inr r"
    unfolding NewResponder_def up Let_def by (auto simp: mechanism_hash_def HasSuffix_def)
  have "sf_ChannelBinding sample_client = rc_ChannelBinding sample_config" "sf_testNonce sample_client = []" "rc_testNonce sample_config = []"
    "sf_Username sample_client \<noteq> []" "length (sf_Username sample_client) \<le> 5000" "length (rc_ChannelBinding sample_config) \<le> 4000"
    "length (replicate 18 NUL) = 18" "[CHR ''s''] \<noteq> []" "1 \<le> (2 :: int)" "2 \<le> maxSCRAMIterations"
    by (simp_all add: sample_client_def sample_config_def maxSCRAMIterations_def)
  from scram_exchange [OF s r this(1-7) this(7-10)] show ?thesis using s r by (auto simp: sample_client_def)
qed

end
