(* ===== verification/Go_Effect.thy ===== *)
theory Go_Effect
  imports Go_Base
begin

text \<open>
  Go code with state, errors and panics, for the command session. A computation takes the state and gives an
  outcome together with the state it leaves behind: a returned error and a panic keep what was done before them, as the
  deferred calls of the caller see it.

  Two notions carry the proofs about such code. \<open>along F R m\<close>: every run of \<open>m\<close> leads along the relation \<open>R\<close>, for a
  reflexive and transitive \<open>R\<close>, and fails only as \<open>F\<close> allows. \<open>after m Q s\<close>: the outcome and the final state of \<open>m\<close> from
  \<open>s\<close> satisfy \<open>Q\<close>. The rules of the combinators are collected in \<open>path_rules\<close> and \<open>after_simps\<close>.
\<close>

section \<open>Computations\<close>

datatype ('e, 'a) outcome = Ok 'a | Err 'e | Panic

type_synonym ('s, 'e, 'a) go = "'s \<Rightarrow> ('e, 'a) outcome \<times> 's"

definition ret :: "'a \<Rightarrow> ('s, 'e, 'a) go" where
  "ret a s = (Ok a, s)"

definition fail :: "'e \<Rightarrow> ('s, 'e, 'a) go" where
  "fail e s = (Err e, s)"

definition panic :: "('s, 'e, 'a) go" where
  "panic s = (Panic, s)"

definition bind_go :: "('s, 'e, 'a) go \<Rightarrow> ('a \<Rightarrow> ('s, 'e, 'b) go) \<Rightarrow> ('s, 'e, 'b) go" where
  "bind_go m f s = (case m s of (Ok a, t) \<Rightarrow> f a t | (Err e, t) \<Rightarrow> (Err e, t) | (Panic, t) \<Rightarrow> (Panic, t))"

text \<open>\<open>m\<close> for its effect, then \<open>n\<close>.\<close>

definition seq :: "('s, 'e, unit) go \<Rightarrow> ('s, 'e, 'b) go \<Rightarrow> ('s, 'e, 'b) go" where
  "seq m n = bind_go m (\<lambda>_. n)"

text \<open>Read the state, and assign to it.\<close>

definition view :: "('s \<Rightarrow> ('s, 'e, 'a) go) \<Rightarrow> ('s, 'e, 'a) go" where
  "view f s = f s s"

definition assign :: "('s \<Rightarrow> 's) \<Rightarrow> ('s, 'e, unit) go" where
  "assign f s = (Ok (), f s)"

definition unless :: "bool \<Rightarrow> ('s, 'e, unit) go \<Rightarrow> ('s, 'e, unit) go" where
  "unless c m = (if c then ret () else m)"

text \<open>\<open>defer\<close>: run \<open>d\<close> after \<open>m\<close> on every path. An error of \<open>d\<close> replaces a normal outcome only.\<close>

definition deferring :: "('s, 'e, 'a) go \<Rightarrow> ('s, 'e, unit) go \<Rightarrow> ('s, 'e, 'a) go" where
  "deferring m d s =
     (case m s of
        (r, t) \<Rightarrow>
          (case d t of
             (Ok _, u) \<Rightarrow> (r, u)
           | (Err e, u) \<Rightarrow> (case r of Ok _ \<Rightarrow> (Err e, u) | _ \<Rightarrow> (r, u))
           | (Panic, u) \<Rightarrow> (Panic, u)))"

primrec each :: "('x \<Rightarrow> ('s, 'e, unit) go) \<Rightarrow> 'x list \<Rightarrow> ('s, 'e, unit) go" where
  "each f [] = ret ()"
| "each f (x # xs) = seq (f x) (each f xs)"

lemma bind_go_cong [fundef_cong]:
  assumes "m s = m' s'" and "\<And>a t. m' s' = (Ok a, t) \<Longrightarrow> f a t = f' a t"
  shows "bind_go m f s = bind_go m' f' s'"
  using assms by (auto simp: bind_go_def split: prod.splits outcome.splits)

lemma bind_go_eq:
  "bind_go m f s = (r, t) \<longleftrightarrow>
     (\<exists>a u. m s = (Ok a, u) \<and> f a u = (r, t)) \<or> (\<exists>e. m s = (Err e, t) \<and> r = Err e) \<or> (m s = (Panic, t) \<and> r = Panic)"
  by (cases "m s"; cases "fst (m s)") (auto simp: bind_go_def)

section \<open>Along a relation\<close>

text \<open>\<open>F\<close> says which ways to fail are possible: \<open>F None\<close> for a panic, \<open>F (Some e)\<close> for an error.\<close>

definition along :: "('e option \<Rightarrow> bool) \<Rightarrow> ('s \<Rightarrow> 's \<Rightarrow> bool) \<Rightarrow> ('s, 'e, 'a) go \<Rightarrow> bool" where
  "along F R m \<longleftrightarrow> (\<forall>s r t. m s = (r, t) \<longrightarrow> R s t \<and> (r = Panic \<longrightarrow> F None) \<and> (\<forall>e. r = Err e \<longrightarrow> F (Some e)))"

lemma alongD: "along F R m \<Longrightarrow> m s = (r, t) \<Longrightarrow> R s t"
  by (simp add: along_def)

lemma along_Panic: "along F R m \<Longrightarrow> m s = (Panic, t) \<Longrightarrow> F None"
  by (auto simp: along_def)

lemma along_Err: "along F R m \<Longrightarrow> m s = (Err e, t) \<Longrightarrow> F (Some e)"
  by (auto simp: along_def)

lemma along_intro:
  "(\<And>s r t. m s = (r, t) \<Longrightarrow> R s t \<and> (r = Panic \<longrightarrow> F None) \<and> (\<forall>e. r = Err e \<longrightarrow> F (Some e))) \<Longrightarrow> along F R m"
  by (simp add: along_def)

lemma along_weaken:
  "along F R m \<Longrightarrow> (\<And>x. F x \<Longrightarrow> G x) \<Longrightarrow> (\<And>s t. R s t \<Longrightarrow> S s t) \<Longrightarrow> along G S m"
  by (simp add: along_def)

locale path_relation =
  fixes R :: "'s \<Rightarrow> 's \<Rightarrow> bool"
  assumes refl: "R s s"
    and trans: "R s t \<Longrightarrow> R t u \<Longrightarrow> R s u"
begin

lemma ret_along: "along F R (ret a)"
  by (simp add: along_def ret_def refl)

lemma fail_along: "F (Some e) \<Longrightarrow> along F R (fail e)"
  by (simp add: along_def fail_def refl)

lemma panic_along: "F None \<Longrightarrow> along F R panic"
  by (simp add: along_def panic_def refl)

lemma bind_along:
  assumes m: "along F R m" and f: "\<And>a. along F R (f a)"
  shows "along F R (bind_go m f)"
proof (rule along_intro)
  fix s r t
  assume "bind_go m f s = (r, t)"
  then consider a u where "m s = (Ok a, u)" "f a u = (r, t)" | e where "m s = (Err e, t)" "r = Err e"
    | "m s = (Panic, t)" "r = Panic"
    by (auto simp: bind_go_eq)
  then show "R s t \<and> (r = Panic \<longrightarrow> F None) \<and> (\<forall>e. r = Err e \<longrightarrow> F (Some e))"
  proof cases
    case 1
    have "R s t" using trans [OF alongD [OF m 1(1)] alongD [OF f 1(2)]] .
    with 1(2) along_Panic [OF f] along_Err [OF f] show ?thesis by blast
  qed (use m in \<open>auto simp: along_def\<close>)
qed

lemma seq_along: "along F R m \<Longrightarrow> along F R n \<Longrightarrow> along F R (seq m n)"
  by (simp add: seq_def bind_along)

lemma view_along: "(\<And>s. along F R (f s)) \<Longrightarrow> along F R (view f)"
  by (simp add: along_def view_def)

lemma assign_along: "(\<And>s. R s (f s)) \<Longrightarrow> along F R (assign f)"
  by (simp add: along_def assign_def)

lemma unless_along: "(\<not> c \<Longrightarrow> along F R m) \<Longrightarrow> along F R (unless c m)"
  by (simp add: unless_def ret_along)

lemma each_along: "(\<And>x. along F R (f x)) \<Longrightarrow> along F R (each f xs)"
  by (induction xs) (simp_all add: ret_along seq_along)

lemma deferring_along:
  assumes m: "along F R m" and d: "along F R d"
  shows "along F R (deferring m d)"
proof (rule along_intro)
  fix s r t
  assume run: "deferring m d s = (r, t)"
  obtain r1 u r2 v where e: "m s = (r1, u)" "d u = (r2, v)" by (metis surj_pair)
  have "R s v" using trans [OF alongD [OF m e(1)] alongD [OF d e(2)]] .
  moreover have "(r = Panic \<longrightarrow> F None) \<and> (\<forall>x. r = Err x \<longrightarrow> F (Some x))" "t = v"
    using run e m d by (auto simp: deferring_def along_def split: outcome.splits)
  ultimately show "R s t \<and> (r = Panic \<longrightarrow> F None) \<and> (\<forall>e. r = Err e \<longrightarrow> F (Some e))" by simp
qed

lemmas path_rules = ret_along bind_along seq_along view_along unless_along each_along deferring_along

end

section \<open>After a run\<close>

definition after :: "('s, 'e, 'a) go \<Rightarrow> (('e, 'a) outcome \<Rightarrow> 's \<Rightarrow> bool) \<Rightarrow> 's \<Rightarrow> bool" where
  "after m Q s \<longleftrightarrow> Q (fst (m s)) (snd (m s))"

named_theorems after_simps

lemma afterD: "after m Q s \<Longrightarrow> m s = (r, t) \<Longrightarrow> Q r t"
  by (simp add: after_def)

lemma after_intro: "(\<And>r t. m s = (r, t) \<Longrightarrow> Q r t) \<Longrightarrow> after m Q s"
  unfolding after_def by (metis prod.collapse)

lemma after_mono: "after m P s \<Longrightarrow> (\<And>r t. P r t \<Longrightarrow> Q r t) \<Longrightarrow> after m Q s"
  by (simp add: after_def)

lemma after_ret [after_simps]: "after (ret a) Q s \<longleftrightarrow> Q (Ok a) s"
  by (simp add: after_def ret_def)

lemma after_fail [after_simps]: "after (fail e) Q s \<longleftrightarrow> Q (Err e) s"
  by (simp add: after_def fail_def)

lemma after_panic [after_simps]: "after panic Q s \<longleftrightarrow> Q Panic s"
  by (simp add: after_def panic_def)

text \<open>What must hold after \<open>m\<close> so that \<open>Q\<close> holds after going on with \<open>f\<close>.\<close>

definition onwards :: "('a \<Rightarrow> ('s, 'e, 'b) go) \<Rightarrow> (('e, 'b) outcome \<Rightarrow> 's \<Rightarrow> bool) \<Rightarrow> ('e, 'a) outcome \<Rightarrow> 's \<Rightarrow> bool" where
  "onwards f Q r t = (case r of Ok a \<Rightarrow> after (f a) Q t | Err e \<Rightarrow> Q (Err e) t | Panic \<Rightarrow> Q Panic t)"

lemma onwards_simps [simp]:
  "onwards f Q (Ok a) t \<longleftrightarrow> after (f a) Q t"
  "onwards f Q (Err e) t \<longleftrightarrow> Q (Err e) t"
  "onwards f Q Panic t \<longleftrightarrow> Q Panic t"
  by (simp_all add: onwards_def)

lemma after_bind [after_simps]: "after (bind_go m f) Q s \<longleftrightarrow> after m (onwards f Q) s"
  by (cases "m s"; cases "fst (m s)") (auto simp: after_def bind_go_def)

lemma after_seq [after_simps]: "after (seq m n) Q s \<longleftrightarrow> after m (onwards (\<lambda>_. n) Q) s"
  by (simp add: seq_def after_bind)

lemma after_view [after_simps]: "after (view f) Q s \<longleftrightarrow> after (f s) Q s"
  by (simp add: after_def view_def)

lemma after_assign [after_simps]: "after (assign f) Q s \<longleftrightarrow> Q (Ok ()) (f s)"
  by (simp add: after_def assign_def)

lemma after_unless [after_simps]: "after (unless c m) Q s \<longleftrightarrow> (if c then Q (Ok ()) s else after m Q s)"
  by (simp add: unless_def after_ret)

text \<open>Use what is known of a part.\<close>

lemma after_part: "after m P s \<Longrightarrow> (\<And>r t. P r t \<Longrightarrow> onwards f Q r t) \<Longrightarrow> after (bind_go m f) Q s"
  by (simp add: after_bind after_mono)

lemma after_each:
  assumes "\<And>x s. P s \<Longrightarrow> after (f x) (\<lambda>_. P) s"
  shows "P s \<Longrightarrow> after (each f xs) (\<lambda>_. P) s"
proof (induction xs arbitrary: s)
  case (Cons x xs)
  show ?case
    unfolding each.simps after_seq
  proof (rule after_mono [OF assms [OF Cons.prems]])
    show "onwards (\<lambda>_. each f xs) (\<lambda>_. P) r t" if "P t" for r t
      using that Cons.IH [OF that] by (cases r) simp_all
  qed
qed (simp add: after_ret)

end
