(* ===== verification/Srv_State.thy ===== *)
theory Srv_State
  imports Go_Unicode
begin

text \<open>
  The sequencing state of one connection (smtpserver/state.go, and the extra rule of
  smtpserver/ext_atrn.go): the phases of a session, the table of commands with the listener modes
  and phases they are legal in, and the table of phase transitions. Sets of modes and phases are
  the bit sets the code uses, kept at their width of 8 bits.

  The lemmas read the bit sets as sets, characterise the states from which every event is
  accepted, and show which histories lead to which phase.
\<close>

section \<open>Modes, phases and their sets\<close>

unbundle bit_operations_syntax

datatype listenerMode = modeSMTP | modeLMTP

datatype sessionPhase =
  phaseConnected | phaseReady | phaseMail | phaseRecipients | phaseFailedBDAT | phaseClosed

fun phase_num :: "sessionPhase \<Rightarrow> nat" where
  "phase_num phaseConnected = 0"
| "phase_num phaseReady = 1"
| "phase_num phaseMail = 2"
| "phase_num phaseRecipients = 3"
| "phase_num phaseFailedBDAT = 4"
| "phase_num phaseClosed = 5"

fun phase_String :: "sessionPhase \<Rightarrow> bytes" where
  "phase_String phaseConnected = ''connected''"
| "phase_String phaseReady = ''ready''"
| "phase_String phaseMail = ''mail''"
| "phase_String phaseRecipients = ''recipients''"
| "phase_String phaseFailedBDAT = ''failed BDAT''"
| "phase_String phaseClosed = ''closed''"

record protocolState =
  ps_mode :: listenerMode
  ps_phase :: sessionPhase
  ps_tls :: bool
  ps_authenticated :: bool
  ps_hello :: bytes

definition newProtocolState :: "listenerMode \<Rightarrow> protocolState" where
  "newProtocolState mode =
     \<lparr>ps_mode = mode, ps_phase = phaseConnected, ps_tls = False, ps_authenticated = False, ps_hello = []\<rparr>"

datatype commandLegality = commandUnknown | commandAllowed | commandWrongMode | commandWrongState

type_synonym modeSet = "8 word"

type_synonym phaseSet = "8 word"

definition modeSetSMTP :: modeSet where
  "modeSetSMTP = 1"

definition modeSetLMTP :: modeSet where
  "modeSetLMTP = 2"

definition modeSetBoth :: modeSet where
  "modeSetBoth = modeSetSMTP OR modeSetLMTP"

fun phases :: "sessionPhase list \<Rightarrow> phaseSet" where
  "phases [] = 0"
| "phases (v # vs) = push_bit (phase_num v) 1 OR phases vs"

definition phases_contain :: "phaseSet \<Rightarrow> sessionPhase \<Rightarrow> bool" where
  "phases_contain ps p \<longleftrightarrow> ps AND push_bit (phase_num p) 1 \<noteq> 0"

text \<open>The mode a listener contributes to a mode test (the first lines of \<open>legality\<close> and of
  \<open>computeCapabilities\<close>).\<close>

definition mode_bit :: "listenerMode \<Rightarrow> modeSet" where
  "mode_bit m = (if m = modeLMTP then modeSetLMTP else modeSetSMTP)"

section \<open>Legality of a command\<close>

record commandRule =
  cr_modes :: modeSet
  cr_phases :: phaseSet
  cr_requirePlaintext :: bool
  cr_requireUnauthenticated :: bool

definition rule :: "modeSet \<Rightarrow> sessionPhase list \<Rightarrow> commandRule" where
  "rule ms ps = \<lparr>cr_modes = ms, cr_phases = phases ps, cr_requirePlaintext = False,
     cr_requireUnauthenticated = False\<rparr>"

definition commandRules :: "(bytes \<times> commandRule) list" where
  "commandRules =
   [(''HELO'', rule modeSetSMTP [phaseConnected, phaseReady, phaseMail, phaseRecipients]),
    (''EHLO'', rule modeSetSMTP [phaseConnected, phaseReady, phaseMail, phaseRecipients]),
    (''LHLO'', rule modeSetLMTP [phaseConnected, phaseReady, phaseMail, phaseRecipients]),
    (''MAIL'', rule modeSetBoth [phaseReady, phaseMail, phaseRecipients]),
    (''RCPT'', rule modeSetBoth [phaseMail, phaseRecipients]),
    (''DATA'', rule modeSetBoth [phaseRecipients]),
    (''BDAT'', rule modeSetBoth [phaseReady, phaseMail, phaseRecipients, phaseFailedBDAT]),
    (''RSET'', rule modeSetBoth [phaseReady, phaseMail, phaseRecipients, phaseFailedBDAT]),
    (''NOOP'', rule modeSetBoth [phaseConnected, phaseReady, phaseMail, phaseRecipients, phaseFailedBDAT]),
    (''QUIT'', rule modeSetBoth [phaseConnected, phaseReady, phaseMail, phaseRecipients, phaseFailedBDAT]),
    (''VRFY'', rule modeSetBoth [phaseReady, phaseMail, phaseRecipients]),
    (''EXPN'', rule modeSetBoth [phaseReady, phaseMail, phaseRecipients]),
    (''HELP'', rule modeSetBoth [phaseReady, phaseMail, phaseRecipients]),
    (''ETRN'', rule modeSetSMTP [phaseReady]),
    (''STARTTLS'', (rule modeSetBoth [phaseReady])\<lparr>cr_requirePlaintext := True\<rparr>),
    (''AUTH'', (rule modeSetBoth [phaseReady])\<lparr>cr_requireUnauthenticated := True\<rparr>)]"

definition extensionCommandRule :: "bytes \<Rightarrow> commandRule option" where
  "extensionCommandRule verb = (if verb = ''ATRN'' then Some (rule modeSetSMTP [phaseReady]) else None)"

definition command_rule :: "bytes \<Rightarrow> commandRule option" where
  "command_rule verb =
     (case map_of commandRules verb of Some r \<Rightarrow> Some r | None \<Rightarrow> extensionCommandRule verb)"

definition legality :: "(nat \<Rightarrow> nat) \<Rightarrow> protocolState \<Rightarrow> bytes \<Rightarrow> commandLegality" where
  "legality upr s verb =
     (case command_rule (ToUpper upr verb) of
        None \<Rightarrow> commandUnknown
      | Some r \<Rightarrow>
          if cr_modes r AND mode_bit (ps_mode s) = 0 then commandWrongMode
          else if \<not> phases_contain (cr_phases r) (ps_phase s)
            \<or> cr_requirePlaintext r \<and> ps_tls s
            \<or> cr_requireUnauthenticated r \<and> ps_authenticated s then commandWrongState
          else commandAllowed)"

section \<open>Transitions\<close>

datatype stateEvent =
  eventHello | eventMailAccepted | eventRecipientAccepted | eventTransactionComplete
| eventTransactionFailed | eventBDATFailed | eventReset | eventStartTLS | eventAuthenticated
| eventClose

text \<open>The table \<open>phaseTransitions\<close>: every event has a row, so the lookup never misses.\<close>

fun phaseTransitions :: "stateEvent \<Rightarrow> phaseSet \<times> sessionPhase" where
  "phaseTransitions eventHello = (phases [phaseConnected, phaseReady, phaseMail, phaseRecipients], phaseReady)"
| "phaseTransitions eventMailAccepted = (phases [phaseReady, phaseMail, phaseRecipients], phaseMail)"
| "phaseTransitions eventRecipientAccepted = (phases [phaseMail, phaseRecipients], phaseRecipients)"
| "phaseTransitions eventTransactionComplete = (phases [phaseRecipients], phaseReady)"
| "phaseTransitions eventTransactionFailed = (phases [phaseMail, phaseRecipients], phaseReady)"
| "phaseTransitions eventBDATFailed = (phases [phaseRecipients], phaseFailedBDAT)"
| "phaseTransitions eventReset = (phases [phaseReady, phaseMail, phaseRecipients, phaseFailedBDAT], phaseReady)"
| "phaseTransitions eventStartTLS = (phases [phaseReady], phaseConnected)"
| "phaseTransitions eventAuthenticated = (phases [phaseReady], phaseReady)"
| "phaseTransitions eventClose =
     (phases [phaseConnected, phaseReady, phaseMail, phaseRecipients, phaseFailedBDAT], phaseClosed)"

fun applyEvent :: "stateEvent \<Rightarrow> protocolState \<Rightarrow> protocolState" where
  "applyEvent eventHello s = s\<lparr>ps_hello := []\<rparr>"
| "applyEvent eventStartTLS s = s\<lparr>ps_tls := True, ps_authenticated := False, ps_hello := []\<rparr>"
| "applyEvent eventAuthenticated s = s\<lparr>ps_authenticated := True\<rparr>"
| "applyEvent eventClose s = s\<lparr>ps_hello := []\<rparr>"
| "applyEvent _ s = s"

text \<open>\<open>transition\<close>: an event that is not valid in the current phase is an error that names both,
  and leaves the state as it was.\<close>

definition transition :: "stateEvent \<Rightarrow> protocolState \<Rightarrow> (stateEvent \<times> sessionPhase) option \<times> protocolState" where
  "transition ev s =
     (if phases_contain (fst (phaseTransitions ev)) (ps_phase s)
      then (None, applyEvent ev (s\<lparr>ps_phase := snd (phaseTransitions ev)\<rparr>))
      else (Some (ev, ps_phase s), s))"

section \<open>Bit sets as sets\<close>

lemma phase_num_less [simp]: "phase_num p < 8"
  by (cases p) simp_all

lemma phase_num_inject [simp]: "phase_num p = phase_num q \<longleftrightarrow> p = q"
  by (cases p; cases q) simp_all

lemma bit_phases: "bit (phases vs) (phase_num p) \<longleftrightarrow> p \<in> set vs"
  by (induction vs) (auto simp: bit_or_iff bit_exp_iff)

declare phases.simps [simp del]

lemma phases_contain_iff [simp]: "phases_contain (phases vs) p \<longleftrightarrow> p \<in> set vs"
proof -
  have "phases_contain ps p \<longleftrightarrow> bit ps (phase_num p)" for ps
  proof
    assume "phases_contain ps p"
    then obtain k where "bit (ps AND push_bit (phase_num p) 1) k"
      unfolding phases_contain_def by (metis bit_eq_iff bit_0_eq bot_apply bot_bool_def)
    then show "bit ps (phase_num p)"
      by (auto simp: bit_and_iff bit_exp_iff)
  next
    assume "bit ps (phase_num p)"
    then have "bit (ps AND push_bit (phase_num p) 1) (phase_num p)"
      by (simp add: bit_and_iff bit_exp_iff)
    then show "phases_contain ps p"
      unfolding phases_contain_def by (metis bit_0_eq bot_apply bot_bool_def)
  qed
  then show ?thesis by (simp add: bit_phases)
qed

lemma mode_tests [simp]:
  "modeSetBoth AND mode_bit m \<noteq> 0"
  "modeSetSMTP AND mode_bit m = 0 \<longleftrightarrow> m = modeLMTP"
  "modeSetLMTP AND mode_bit m = 0 \<longleftrightarrow> m = modeSMTP"
  by (cases m; simp add: modeSetBoth_def modeSetSMTP_def modeSetLMTP_def mode_bit_def)+

text \<open>The rows of the tables as rewrite rules.\<close>

lemma command_rule_simps:
  "command_rule ''DATA'' = Some (rule modeSetBoth [phaseRecipients])"
  "command_rule ''RCPT'' = Some (rule modeSetBoth [phaseMail, phaseRecipients])"
  "command_rule ''STARTTLS'' = Some ((rule modeSetBoth [phaseReady])\<lparr>cr_requirePlaintext := True\<rparr>)"
  "command_rule ''AUTH'' = Some ((rule modeSetBoth [phaseReady])\<lparr>cr_requireUnauthenticated := True\<rparr>)"
  by (simp_all add: command_rule_def commandRules_def)

lemma rule_simps [simp]:
  "cr_modes (rule ms ps) = ms" "cr_phases (rule ms ps) = phases ps"
  "\<not> cr_requirePlaintext (rule ms ps)" "\<not> cr_requireUnauthenticated (rule ms ps)"
  by (simp_all add: rule_def)

lemma legality_allowed_iff:
  "legality upr s verb = commandAllowed \<longleftrightarrow>
     (\<exists>r. command_rule (ToUpper upr verb) = Some r \<and> cr_modes r AND mode_bit (ps_mode s) \<noteq> 0 \<and>
        phases_contain (cr_phases r) (ps_phase s) \<and> \<not> (cr_requirePlaintext r \<and> ps_tls s) \<and>
        \<not> (cr_requireUnauthenticated r \<and> ps_authenticated s))"
  by (auto simp: legality_def split: option.splits)

section \<open>Histories of a session\<close>

text \<open>The state after a sequence of events, if every transition of it is accepted.\<close>

fun run_events :: "stateEvent list \<Rightarrow> protocolState \<Rightarrow> protocolState option" where
  "run_events [] s = Some s"
| "run_events (ev # evs) s =
     (case transition ev s of (None, s') \<Rightarrow> run_events evs s' | (Some _, _) \<Rightarrow> None)"

lemma run_events_append:
  "run_events (xs @ ys) s = Option.bind (run_events xs s) (run_events ys)"
  by (induction xs arbitrary: s) (auto split: prod.splits option.splits)

lemma run_events_snoc:
  "run_events (evs @ [ev]) s = Some t \<longleftrightarrow>
     (\<exists>u. run_events evs s = Some u \<and> transition ev u = (None, t))"
proof -
  have "run_events [ev] u = Some t \<longleftrightarrow> transition ev u = (None, t)" for u
    by (cases "transition ev u"; cases "fst (transition ev u)") auto
  then show ?thesis by (simp add: run_events_append bind_eq_Some_conv del: run_events.simps)
qed

lemma transition_None:
  "transition ev s = (None, t) \<longleftrightarrow>
     phases_contain (fst (phaseTransitions ev)) (ps_phase s) \<and>
     t = applyEvent ev (s\<lparr>ps_phase := snd (phaseTransitions ev)\<rparr>)"
  by (auto simp: transition_def)

lemma applyEvent_phase [simp]: "ps_phase (applyEvent ev s) = ps_phase s"
  by (cases ev) simp_all

lemma applyEvent_mode [simp]: "ps_mode (applyEvent ev s) = ps_mode s"
  by (cases ev) simp_all

lemma applyEvent_tls: "ps_tls (applyEvent ev s) \<longleftrightarrow> ps_tls s \<or> ev = eventStartTLS"
  by (cases ev) simp_all

lemma applyEvent_authenticated:
  "ps_authenticated (applyEvent ev s) \<longleftrightarrow>
     ev = eventAuthenticated \<or> ps_authenticated s \<and> ev \<noteq> eventStartTLS"
  by (cases ev) simp_all

text \<open>An event with no STARTTLS after it: what a session may still rely on.\<close>

definition since_tls :: "stateEvent \<Rightarrow> stateEvent list \<Rightarrow> bool" where
  "since_tls ev evs \<longleftrightarrow> List.member (takeWhile ((\<noteq>) eventStartTLS) (rev evs)) ev"

lemma since_tls_simps [simp]:
  "\<not> since_tls ev []"
  "since_tls ev (evs @ [eventStartTLS]) \<longleftrightarrow> False"
  "e \<noteq> eventStartTLS \<Longrightarrow> since_tls ev (evs @ [e]) \<longleftrightarrow> e = ev \<or> since_tls ev evs"
  by (auto simp: since_tls_def)

lemma tls_history:
  "run_events evs (newProtocolState m) = Some s \<Longrightarrow> ps_tls s \<longleftrightarrow> eventStartTLS \<in> set evs"
  by (induction evs arbitrary: s rule: rev_induct)
    (auto simp: newProtocolState_def run_events_snoc transition_None applyEvent_tls)

lemma authenticated_history:
  "run_events evs (newProtocolState m) = Some s \<Longrightarrow>
     ps_authenticated s \<longleftrightarrow> since_tls eventAuthenticated evs"
proof (induction evs arbitrary: s rule: rev_induct)
  case (snoc ev evs)
  then show ?case
    by (cases "ev = eventStartTLS")
      (auto simp: run_events_snoc transition_None applyEvent_authenticated)
qed (auto simp: newProtocolState_def)

lemma greeted_history:
  "run_events evs (newProtocolState m) = Some s \<Longrightarrow>
     ps_phase s \<notin> {phaseConnected, phaseClosed} \<Longrightarrow> since_tls eventHello evs"
proof (induction evs arbitrary: s rule: rev_induct)
  case (snoc ev evs)
  then show ?case
    by (cases ev) (auto simp: run_events_snoc transition_None)
qed (auto simp: newProtocolState_def)

lemma mail_history:
  "run_events evs (newProtocolState m) = Some s \<Longrightarrow> ps_phase s = phaseMail \<Longrightarrow>
     \<exists>pre. evs = pre @ [eventMailAccepted]"
proof (cases evs rule: rev_cases)
  case (snoc pre ev)
  moreover assume "run_events evs (newProtocolState m) = Some s" "ps_phase s = phaseMail"
  ultimately show ?thesis by (cases ev) (auto simp: run_events_snoc transition_None)
qed (auto simp: newProtocolState_def)

lemma recipients_history:
  "run_events evs (newProtocolState m) = Some s \<Longrightarrow> ps_phase s = phaseRecipients \<Longrightarrow>
     \<exists>pre n. evs = pre @ eventMailAccepted # replicate (Suc n) eventRecipientAccepted"
proof (induction evs arbitrary: s rule: rev_induct)
  case (snoc ev evs)
  from snoc.prems obtain u where u: "run_events evs (newProtocolState m) = Some u"
    and ev: "ev = eventRecipientAccepted" and ph: "ps_phase u \<in> {phaseMail, phaseRecipients}"
    by (cases ev) (auto simp: run_events_snoc transition_None)
  from ph show ?case
  proof (cases "ps_phase u = phaseMail")
    case True
    with u ev show ?thesis
      using mail_history by (metis append.assoc append_Cons append_Nil replicate_Suc replicate_0)
  next
    case False
    with ph snoc.IH [OF u] obtain pre n
      where "evs = pre @ eventMailAccepted # replicate (Suc n) eventRecipientAccepted" by auto
    with ev have "evs @ [ev] = pre @ eventMailAccepted # replicate (Suc (Suc n)) eventRecipientAccepted"
      by (simp flip: replicate_append_same)
    then show ?thesis by blast
  qed
qed (auto simp: newProtocolState_def)

lemma since_tls_append:
  assumes "eventStartTLS \<notin> set post"
  shows "since_tls ev (pre @ post) \<longleftrightarrow> ev \<in> set post \<or> since_tls ev pre"
proof -
  from assms have "takeWhile ((\<noteq>) eventStartTLS) (rev post @ rev pre)
      = rev post @ takeWhile ((\<noteq>) eventStartTLS) (rev pre)"
    by (intro takeWhile_append2) auto
  then show ?thesis by (simp add: since_tls_def)
qed

lemma command_rule_connected:
  assumes "command_rule verb = Some r" and "phases_contain (cr_phases r) phaseConnected"
  shows "verb \<in> {''HELO'', ''EHLO'', ''LHLO'', ''NOOP'', ''QUIT''}"
proof (cases "map_of commandRules verb")
  case None
  with assms show ?thesis
    by (auto simp: command_rule_def extensionCommandRule_def split: if_splits)
next
  case (Some r')
  with assms(1) have "(verb, r) \<in> set commandRules"
    by (simp add: command_rule_def map_of_SomeD)
  moreover let ?P = "\<lambda>(v, r). phases_contain (cr_phases r) phaseConnected \<longrightarrow>
      v \<in> {''HELO'', ''EHLO'', ''LHLO'', ''NOOP'', ''QUIT''}"
  have "list_all ?P commandRules"
    by (simp add: commandRules_def)
  ultimately have "?P (verb, r)" by (simp only: list_all_iff)
  with assms(2) show ?thesis by (simp only: prod.case)
qed

lemma recipients_phase:
  assumes "run_events (pre @ eventMailAccepted # replicate (Suc n) eventRecipientAccepted) s0 = Some s"
  shows "ps_phase s = phaseRecipients"
proof -
  have "pre @ eventMailAccepted # replicate (Suc n) eventRecipientAccepted =
      (pre @ eventMailAccepted # replicate n eventRecipientAccepted) @ [eventRecipientAccepted]"
    by (simp add: replicate_append_same)
  with assms show ?thesis by (auto simp only: run_events_snoc transition_None applyEvent_phase) simp
qed

text \<open>An envelope is accepted wherever a MAIL transaction may start.\<close>

lemma run_recipients: "ps_phase s \<in> {phaseMail, phaseRecipients} \<Longrightarrow> run_events (replicate n eventRecipientAccepted) s \<noteq> None"
  by (induction n arbitrary: s) (auto simp: transition_def)

lemma run_envelope:
  assumes "ps_phase s \<in> {phaseReady, phaseMail, phaseRecipients}"
  shows "run_events (eventMailAccepted # replicate n eventRecipientAccepted) s \<noteq> None"
  using assms run_recipients [of "s\<lparr>ps_phase := phaseMail\<rparr>" n] by (auto simp: transition_def)

section \<open>Properties\<close>

text \<open>C23: DATA is legal exactly after a greeting, one accepted MAIL and at least one accepted RCPT.
  For every history of accepted transitions from a fresh connection, \<open>legality\<close> lets a DATA command
  through (in any letter case) if and only if the history ends with one accepted MAIL followed by
  accepted recipients only, and a greeting was accepted before that MAIL and after the last STARTTLS.
  The session counts as authenticated exactly when an authentication succeeded after the last
  STARTTLS, and as encrypted exactly when there was a STARTTLS. And such histories exist: wherever the
  session is greeted, not closed and not in a failed BDAT, a MAIL and any number of recipients after
  it are accepted.\<close>

theorem data_legal_history:
  assumes "run_events evs (newProtocolState m) = Some s" and "ToUpper upr verb = ''DATA''"
  shows "(legality upr s verb = commandAllowed \<longleftrightarrow>
           (\<exists>pre n. evs = pre @ eventMailAccepted # replicate (Suc n) eventRecipientAccepted \<and> since_tls eventHello pre))
         \<and> (ps_authenticated s \<longleftrightarrow> since_tls eventAuthenticated evs)
         \<and> (ps_tls s \<longleftrightarrow> eventStartTLS \<in> set evs)
         \<and> (ps_phase s \<in> {phaseReady, phaseMail, phaseRecipients} \<longrightarrow>
             run_events (evs @ eventMailAccepted # replicate (Suc k) eventRecipientAccepted) (newProtocolState m) \<noteq> None)"
proof -
  have legal: "legality upr s verb = commandAllowed \<longleftrightarrow> ps_phase s = phaseRecipients"
    using assms(2) by (auto simp: legality_allowed_iff command_rule_simps)
  have "\<exists>pre n. evs = pre @ eventMailAccepted # replicate (Suc n) eventRecipientAccepted \<and> since_tls eventHello pre"
    if "ps_phase s = phaseRecipients"
  proof -
    from that recipients_history [OF assms(1)] greeted_history [OF assms(1)] obtain pre n
      where pre: "evs = pre @ eventMailAccepted # replicate (Suc n) eventRecipientAccepted"
        and "since_tls eventHello evs" by auto
    then have "since_tls eventHello pre" by (subst (asm) pre) (simp add: since_tls_append)
    with pre show ?thesis by blast
  qed
  with legal recipients_phase assms(1) authenticated_history [OF assms(1)] tls_history [OF assms(1)]
    run_envelope [of s "Suc k"] show ?thesis
    by (auto simp: run_events_append simp del: run_events.simps replicate.simps)
qed

theorem data_legal_history_witness:
  "legality id \<lparr>ps_mode = modeSMTP, ps_phase = phaseRecipients, ps_tls = False, ps_authenticated = True, ps_hello = []\<rparr> ''data''
     = commandAllowed \<and>
   legality id \<lparr>ps_mode = modeLMTP, ps_phase = phaseConnected, ps_tls = True, ps_authenticated = False, ps_hello = []\<rparr> ''data''
     \<noteq> commandAllowed"
proof -
  let ?pre = "[eventHello, eventAuthenticated]"
  let ?evs = "?pre @ eventMailAccepted # replicate (Suc 1) eventRecipientAccepted"
  let ?s = "\<lparr>ps_mode = modeSMTP, ps_phase = phaseRecipients, ps_tls = False, ps_authenticated = True, ps_hello = []\<rparr>"
  let ?t = "\<lparr>ps_mode = modeLMTP, ps_phase = phaseConnected, ps_tls = True, ps_authenticated = False, ps_hello = []\<rparr>"
  have run: "run_events ?evs (newProtocolState modeSMTP) = Some ?s"
    by (simp add: transition_def newProtocolState_def)
  have tls: "run_events [eventHello, eventStartTLS] (newProtocolState modeLMTP) = Some ?t"
    by (simp add: transition_def newProtocolState_def)
  have "ToUpperASCII ''data'' = ''DATA''"
    by code_simp
  then have up: "ToUpper id ''data'' = ''DATA''"
    by (simp add: ToUpper_def is_ascii_def)
  have "since_tls eventHello ?pre" by (simp add: since_tls_def)
  with data_legal_history [OF run up, of 0] have "legality id ?s ''data'' = commandAllowed" by blast
  moreover from data_legal_history [OF tls up, of 0] have "legality id ?t ''data'' \<noteq> commandAllowed"
    by (auto simp: Cons_eq_append_conv)
  ultimately show ?thesis by blast
qed

text \<open>C24: STARTTLS forgets. Right after an accepted STARTTLS the session has no greeting and no
  authentication, it counts as encrypted, and only a greeting, NOOP or QUIT is legal.\<close>

theorem starttls_forgets:
  assumes "transition eventStartTLS s = (None, t)"
  shows "ps_tls t \<and> \<not> ps_authenticated t \<and> ps_hello t = [] \<and>
    (legality upr t verb = commandAllowed \<longrightarrow>
       ToUpper upr verb \<in> {''HELO'', ''EHLO'', ''LHLO'', ''NOOP'', ''QUIT''})"
proof -
  from assms have t: "t = s\<lparr>ps_phase := phaseConnected, ps_tls := True, ps_authenticated := False, ps_hello := []\<rparr>"
    by (simp add: transition_None)
  then show ?thesis by (auto simp: legality_allowed_iff dest!: command_rule_connected)
qed

theorem starttls_forgets_witness:
  "\<exists>t. transition eventStartTLS
      ((newProtocolState modeLMTP)\<lparr>ps_phase := phaseReady, ps_authenticated := True, ps_hello := ''c.example''\<rparr>) = (None, t)
    \<and> \<not> ps_authenticated t \<and> ps_hello t = []"
proof -
  let ?s = "(newProtocolState modeLMTP)\<lparr>ps_phase := phaseReady, ps_authenticated := True, ps_hello := ''c.example''\<rparr>"
  have tr: "transition eventStartTLS ?s = (None, snd (transition eventStartTLS ?s))"
    by (simp add: transition_def)
  from starttls_forgets [OF tr, of id "[]"] show ?thesis
    by (intro exI [of _ "snd (transition eventStartTLS ?s)"] conjI tr) simp_all
qed

end
