(* ===== verification/Smtp_Types.thy ===== *)
theory Smtp_Types
  imports Go_Unicode Wire_Command
begin

text \<open>
  The vocabulary of the root package: enhanced status codes (enhanced_code.go), the protocol error
  (error.go), per-recipient results (result.go), the LIMITS parameters (limits.go), xtext
  (xtext.go) and the option structures of MAIL and RCPT (options.go, param.go). Pointers to
  optional structures are \<open>option\<close> values; string-backed types are octet strings.

  The lemmas show that an enhanced code survives printing and parsing, that the two readings of a
  result list agree, and that the second xtext encoder computes what the wire codec's does.
\<close>

section \<open>Enhanced status codes\<close>

record EnhancedCode =
  ec_Class :: int
  ec_Subject :: int
  ec_Detail :: int
  ec_Raw :: bytes

definition enhanced :: "int \<Rightarrow> int \<Rightarrow> int \<Rightarrow> EnhancedCode" where
  "enhanced c s d = \<lparr>ec_Class = c, ec_Subject = s, ec_Detail = d, ec_Raw = []\<rparr>"

abbreviation no_code :: EnhancedCode where
  "no_code \<equiv> enhanced 0 0 0"

definition parseDigits :: "bytes \<Rightarrow> int option" where
  "parseDigits s =
     (if s = [] then None
      else if \<not> list_all is_digit s then None
      else ParseInt s)"

definition ParseEnhancedCode :: "bytes \<Rightarrow> EnhancedCode" where
  "ParseEnhancedCode raw =
     (let c = no_code\<lparr>ec_Raw := raw\<rparr> in
      case Split raw (CHR ''.'') of
        [s1, s2, s3] \<Rightarrow>
          (case (parseDigits s1, parseDigits s2, parseDigits s3) of
             (Some class, Some subject, Some detail) \<Rightarrow>
               c\<lparr>ec_Class := class, ec_Subject := subject, ec_Detail := detail\<rparr>
           | _ \<Rightarrow> c)
      | _ \<Rightarrow> c)"

definition ec_Valid :: "EnhancedCode \<Rightarrow> bool" where
  "ec_Valid c \<longleftrightarrow> ec_Class c = 2 \<or> ec_Class c = 4 \<or> ec_Class c = 5"

definition ec_String :: "EnhancedCode \<Rightarrow> bytes" where
  "ec_String c =
     (if ec_Raw c \<noteq> [] then ec_Raw c
      else if ec_Class c = 0 \<and> ec_Subject c = 0 \<and> ec_Detail c = 0 then []
      else Itoa (ec_Class c) @ ''.'' @ Itoa (ec_Subject c) @ ''.'' @ Itoa (ec_Detail c))"

section \<open>Protocol errors\<close>

text \<open>The cause \<open>Err\<close> is an arbitrary Go error; only its text is used here.\<close>

record smtp_Error =
  se_Code :: int
  se_Enhanced :: EnhancedCode
  se_Text :: bytes
  se_Command :: bytes
  se_Err :: "bytes option"

text \<open>\<open>body.WriteString\<close> after a separator when the body is not empty.\<close>

definition after_sep :: "bytes \<Rightarrow> bytes \<Rightarrow> bytes \<Rightarrow> bytes" where
  "after_sep sep body t = (if body \<noteq> [] then body @ sep @ t else t)"

definition error_Error :: "smtp_Error \<Rightarrow> bytes" where
  "error_Error e =
     (let b0 = (if se_Code e \<noteq> 0 then Itoa (se_Code e) else []);
          b1 = (if ec_Raw (se_Enhanced e) \<noteq> [] then after_sep '' '' b0 (ec_Raw (se_Enhanced e))
                else if ec_Valid (se_Enhanced e) then after_sep '' '' b0 (ec_String (se_Enhanced e))
                else b0);
          b2 = (if se_Text e \<noteq> [] then after_sep '' '' b1 (se_Text e) else b1);
          b3 = (case se_Err e of None \<Rightarrow> b2 | Some t \<Rightarrow> after_sep '': '' b2 t) in
      if se_Command e = [] then (if b3 = [] then ''smtp: error'' else b3)
      else if b3 = [] then se_Command e @ '': smtp: error''
      else se_Command e @ '': '' @ b3)"

definition IsTransient :: "smtp_Error \<Rightarrow> bool" where
  "IsTransient e \<longleftrightarrow> se_Code e \<ge> 400 \<and> se_Code e < 500"

definition IsPermanent :: "smtp_Error \<Rightarrow> bool" where
  "IsPermanent e \<longleftrightarrow> se_Code e \<ge> 500 \<and> se_Code e < 600"

section \<open>Results\<close>

record RecipientResult =
  rr_Recipient :: bytes
  rr_Command :: bytes
  rr_Code :: int
  rr_Enhanced :: EnhancedCode
  rr_Text :: bytes

definition Accepted :: "RecipientResult \<Rightarrow> bool" where
  "Accepted r \<longleftrightarrow> rr_Code r \<ge> 200 \<and> rr_Code r < 300"

definition rr_Err :: "RecipientResult \<Rightarrow> smtp_Error option" where
  "rr_Err r =
     (if Accepted r then None
      else Some \<lparr>se_Code = rr_Code r, se_Enhanced = rr_Enhanced r, se_Text = rr_Text r,
                 se_Command = rr_Command r, se_Err = None\<rparr>)"

text \<open>\<open>RcptResult\<close> and \<open>DataResult\<close> are the same slice type with the same two methods.\<close>

definition AllAccepted :: "RecipientResult list \<Rightarrow> bool" where
  "AllAccepted d \<longleftrightarrow> d \<noteq> [] \<and> list_all Accepted d"

fun Errors :: "RecipientResult list \<Rightarrow> smtp_Error list" where
  "Errors [] = []"
| "Errors (r # rs) = (case rr_Err r of None \<Rightarrow> Errors rs | Some e \<Rightarrow> e # Errors rs)"

section \<open>LIMITS\<close>

record Limits =
  lm_MailMax :: "32 word"
  lm_RcptMax :: "32 word"
  lm_RcptDomainMax :: "32 word"
  lm_Extra :: bytes

definition limit_name_rune :: "nat \<Rightarrow> bool" where
  "limit_name_rune r \<longleftrightarrow> 65 \<le> r \<and> r \<le> 90 \<or> 97 \<le> r \<and> r \<le> 122 \<or> 48 \<le> r \<and> r \<le> 57 \<or> r = 45 \<or> r = 95"

definition validLimitName :: "bytes \<Rightarrow> bool" where
  "validLimitName name \<longleftrightarrow> name \<noteq> [] \<and> list_all (\<lambda>x. limit_name_rune (fst x)) (runes name)"

definition limit_value_rune :: "nat \<Rightarrow> bool" where
  "limit_value_rune r \<longleftrightarrow> 0x21 \<le> r \<and> r \<le> 0x3a \<or> 0x3c \<le> r \<and> r \<le> 0x7e"

definition validLimitValue :: "bytes \<Rightarrow> bool" where
  "validLimitValue v \<longleftrightarrow> v \<noteq> [] \<and> list_all (\<lambda>x. limit_value_rune (fst x)) (runes v)"

definition parseLimit :: "bytes \<Rightarrow> 32 word" where
  "parseLimit s =
     (if s = [] \<or> length s > 6 \<or> hd s = CHR ''0'' then 0
      else case ParseUint 32 s of None \<Rightarrow> 0 | Some n \<Rightarrow> of_nat n)"

text \<open>One iteration of the loop over the fields.\<close>

definition limitField :: "(nat \<Rightarrow> nat) \<Rightarrow> bytes \<Rightarrow> Limits \<Rightarrow> Limits option" where
  "limitField upr f l =
     (case Cut f (CHR ''='') of
        (name, val, hasValue) \<Rightarrow>
          if \<not> validLimitName name \<or> hasValue \<and> \<not> validLimitValue val then None
          else
            let n = (if hasValue then parseLimit val else 0); up = ToUpper upr name in
            if up = ''MAILMAX'' then Some (if n \<noteq> 0 then l\<lparr>lm_MailMax := n\<rparr> else l)
            else if up = ''RCPTMAX'' then Some (if n \<noteq> 0 then l\<lparr>lm_RcptMax := n\<rparr> else l)
            else if up = ''RCPTDOMAINMAX'' then Some (if n \<noteq> 0 then l\<lparr>lm_RcptDomainMax := n\<rparr> else l)
            else Some (l\<lparr>lm_Extra := (if lm_Extra l \<noteq> [] then lm_Extra l @ '' '' else []) @ f\<rparr>))"

fun limitFields :: "(nat \<Rightarrow> nat) \<Rightarrow> bytes list \<Rightarrow> Limits \<Rightarrow> Limits option" where
  "limitFields upr [] l = Some l"
| "limitFields upr (f # fs) l =
     (case limitField upr f l of None \<Rightarrow> None | Some l' \<Rightarrow> limitFields upr fs l')"

definition no_limits :: Limits where
  "no_limits = \<lparr>lm_MailMax = 0, lm_RcptMax = 0, lm_RcptDomainMax = 0, lm_Extra = []\<rparr>"

text \<open>\<open>None\<close> is the error "invalid LIMITS parameter".\<close>

definition ParseLimitsParam :: "(nat \<Rightarrow> nat) \<Rightarrow> bytes \<Rightarrow> Limits option" where
  "ParseLimitsParam upr params =
     (if params = [] then Some no_limits
      else if Join (Fields params) '' '' \<noteq> params then None
      else limitFields upr (Fields params) no_limits)"

section \<open>xtext\<close>

text \<open>The encoder of the root package works on the octet's two halves with a shift and a mask.\<close>

fun smtp_EncodeXtext :: "bytes \<Rightarrow> bytes" where
  "smtp_EncodeXtext [] = []"
| "smtp_EncodeXtext (c # raw) =
     (if c = CHR ''+'' \<or> c = CHR ''='' \<or> byte c < 33 \<or> byte c > 126
      then CHR ''+'' # ''0123456789ABCDEF'' ! drop_bit 4 (byte c)
             # ''0123456789ABCDEF'' ! take_bit 4 (byte c) # smtp_EncodeXtext raw
      else c # smtp_EncodeXtext raw)"

section \<open>MAIL and RCPT options\<close>

record TransportOptions =
  to_Size :: "int option"
  to_Body :: bytes
  to_SMTPUTF8 :: bool

record DSNMailOptions =
  dm_Return :: bytes
  dm_EnvelopeID :: bytes
  dm_EnvelopeIDOriginal :: "param option"

record DeliverByOptions =
  db_Seconds :: int
  db_Mode :: bytes
  db_Trace :: bool

record FutureReleaseOptions =
  fr_HoldForSeconds :: int
  fr_HoldUntil :: bytes

record DeliveryOptions =
  dv_DSN :: "DSNMailOptions option"
  dv_DeliverBy :: "DeliverByOptions option"
  dv_FutureRelease :: "FutureReleaseOptions option"
  dv_MTPriority :: bytes
  dv_RequireTLS :: bool

record LegacyOptions =
  lg_Solicit :: bytes
  lg_TransitID :: bytes
  lg_Submitter :: bytes
  lg_SubmitterOriginal :: "param option"
  lg_ConPerm :: bool

record MailOptions =
  mo_Transport :: "TransportOptions option"
  mo_Delivery :: "DeliveryOptions option"
  mo_Legacy :: "LegacyOptions option"
  mo_Auth :: bytes
  mo_AuthOriginal :: "param option"
  mo_Extra :: "param list"

record DSNRcptOptions =
  dn_Notify :: "bytes list"
  dn_OriginalType :: bytes
  dn_Original :: bytes
  dn_ORCPTOriginal :: "param option"

record RRVSOptions =
  rv_Timestamp :: bytes
  rv_Disposition :: bytes

record RecipientDeliveryOptions =
  rdv_DSN :: "DSNRcptOptions option"
  rdv_RRVS :: "RRVSOptions option"

record RecipientLegacyOptions =
  rlg_ConNeg :: bool

record RcptOptions =
  rco_Delivery :: "RecipientDeliveryOptions option"
  rco_Legacy :: "RecipientLegacyOptions option"
  rco_Extra :: "param list"

section \<open>Lemmas\<close>

lemma enhanced_simps [simp]:
  "ec_Class (enhanced c s d) = c" "ec_Subject (enhanced c s d) = s" "ec_Detail (enhanced c s d) = d"
  "ec_Raw (enhanced c s d) = []"
  by (simp_all add: enhanced_def)

lemma ec_String_enhanced:
  "ec_String (enhanced c s d) = [] \<longleftrightarrow> c = 0 \<and> s = 0 \<and> d = 0"
  by (simp add: ec_String_def)

lemma ParseEnhancedCode_Raw [simp]: "ec_Raw (ParseEnhancedCode raw) = raw"
  by (simp add: ParseEnhancedCode_def Let_def split: list.splits option.splits)

lemma ec_String_Parse: "ec_String (ParseEnhancedCode raw) = raw"
proof (cases "raw = []")
  case True
  then have "ParseEnhancedCode raw = no_code\<lparr>ec_Raw := []\<rparr>"
    by (simp add: ParseEnhancedCode_def)
  with True show ?thesis by (simp add: ec_String_def)
qed (simp add: ec_String_def)

lemma Itoa_nonneg:
  assumes "0 \<le> i" "i \<le> MaxInt64"
  shows "parseDigits (Itoa i) = Some i" and "CHR ''.'' \<notin> set (Itoa i)"
proof -
  from assms(1) have eq: "Itoa i = FormatUint (nat i)" by (simp add: Itoa_def)
  have d: "list_all is_digit (FormatUint (nat i))" by (rule FormatUint_digits)
  then show "CHR ''.'' \<notin> set (Itoa i)" unfolding eq by (auto simp: list_all_iff is_digit_def)
  show "parseDigits (Itoa i) = Some i"
    unfolding eq parseDigits_def using ParseInt_FormatUint [of "nat i"] assms d by (simp add: MaxInt64_def)
qed

lemma limit_runes:
  "validLimitName s \<longleftrightarrow> s \<noteq> [] \<and> list_all (\<lambda>c. limit_name_rune (byte c)) s"
  "validLimitValue s \<longleftrightarrow> s \<noteq> [] \<and> list_all (\<lambda>c. limit_value_rune (byte c)) s"
proof -
  have "limit_name_rune r \<Longrightarrow> r < 128" "limit_value_rune r \<Longrightarrow> r < 128" for r
    by (auto simp: limit_name_rune_def limit_value_rune_def)
  then show "validLimitName s \<longleftrightarrow> s \<noteq> [] \<and> list_all (\<lambda>c. limit_name_rune (byte c)) s"
    "validLimitValue s \<longleftrightarrow> s \<noteq> [] \<and> list_all (\<lambda>c. limit_value_rune (byte c)) s"
    by (simp_all add: validLimitName_def validLimitValue_def runes_all_ascii)
qed

lemma Errors_empty_iff: "Errors d = [] \<longleftrightarrow> list_all Accepted d"
  by (induction d) (auto simp: rr_Err_def)

lemma length_Errors: "length (Errors d) = length (filter (\<lambda>r. \<not> Accepted r) d)"
  by (induction d) (auto simp: rr_Err_def)

lemma EncodeXtext_agree: "smtp_EncodeXtext raw = EncodeXtext raw"
  by (induction raw)
    (simp_all add: xtext_escape_def xtextHexDigits_def drop_bit_eq_div take_bit_eq_mod)

section \<open>Properties\<close>

text \<open>Enhanced codes are never flattened. Printing a parsed code gives the text back, whatever
  it was; and a code built from three numbers is read back, with the same numbers, from what it
  prints.\<close>

theorem enhanced_code_roundtrip:
  "ec_String (ParseEnhancedCode raw) = raw \<and>
   (0 \<le> c \<and> c \<le> MaxInt64 \<and> 0 \<le> s \<and> s \<le> MaxInt64 \<and> 0 \<le> d \<and> d \<le> MaxInt64 \<and>
      (c, s, d) \<noteq> (0, 0, 0) \<longrightarrow>
    ParseEnhancedCode (ec_String (enhanced c s d)) =
      (enhanced c s d)\<lparr>ec_Raw := ec_String (enhanced c s d)\<rparr>)"
proof (intro conjI impI)
  show "ec_String (ParseEnhancedCode raw) = raw" by (rule ec_String_Parse)
next
  assume h: "0 \<le> c \<and> c \<le> MaxInt64 \<and> 0 \<le> s \<and> s \<le> MaxInt64 \<and> 0 \<le> d \<and> d \<le> MaxInt64 \<and>
      (c, s, d) \<noteq> (0, 0, 0)"
  then have "Split (ec_String (enhanced c s d)) (CHR ''.'') = [Itoa c, Itoa s, Itoa d]"
    by (auto simp: ec_String_def Itoa_nonneg(2) Split_append Split_single)
  with h show "ParseEnhancedCode (ec_String (enhanced c s d)) =
      (enhanced c s d)\<lparr>ec_Raw := ec_String (enhanced c s d)\<rparr>"
    by (simp add: ParseEnhancedCode_def Let_def Itoa_nonneg(1))
qed

theorem enhanced_code_roundtrip_witness:
  "ParseEnhancedCode ''5.7.1'' = (enhanced 5 7 1)\<lparr>ec_Raw := ''5.7.1''\<rparr>"
proof -
  have "ec_String (enhanced 5 7 1) = ''5.7.1''" by code_simp
  with enhanced_code_roundtrip [of "[]" 5 7 1] show ?thesis by (simp add: MaxInt64_def)
qed

text \<open>The two xtext encoders, of the root package and of the wire codec, compute the same
  function, so what either produces is read back by the decoder.\<close>

theorem xtext_encoders_agree:
  "smtp_EncodeXtext raw = EncodeXtext raw \<and> DecodeXtext (smtp_EncodeXtext raw) = Inr raw"
  by (simp add: EncodeXtext_agree DecodeXtext_EncodeXtext)

text \<open>A result list is wholly accepted exactly when it is not empty and yields no error; it
  yields one error for each recipient that was not accepted, and none with a 2yz code.\<close>

theorem results_partition:
  "(AllAccepted d \<longleftrightarrow> d \<noteq> [] \<and> Errors d = []) \<and>
   length (Errors d) + length (filter Accepted d) = length d \<and>
   list_all (\<lambda>e. \<not> (200 \<le> se_Code e \<and> se_Code e < 300)) (Errors d)"
proof (intro conjI)
  show "AllAccepted d \<longleftrightarrow> d \<noteq> [] \<and> Errors d = []"
    by (simp add: AllAccepted_def Errors_empty_iff)
  show "length (Errors d) + length (filter Accepted d) = length d"
    using sum_length_filter_compl [of Accepted d] by (simp add: length_Errors add.commute)
  show "list_all (\<lambda>e. \<not> (200 \<le> se_Code e \<and> se_Code e < 300)) (Errors d)"
    by (induction d) (auto simp: rr_Err_def Accepted_def)
qed

end
