(* ===== verification/Srv_Reply.thy ===== *)
theory Srv_Reply
  imports Smtp_Types Wire_Reply
begin

text \<open>
  The server's replies (smtpserver/reply.go and the functions of smtpserver/cmd_reply.go that do
  not touch the session): the repair of an enhanced code that disagrees with its reply code, the
  reply made of a backend's error, and the encoding of a reply.

  The lemmas show that a repaired code always agrees with the reply code, that a reply with a
  valid code and clean text is always encodable, and what a reader makes of it.
\<close>

section \<open>Enhanced codes that agree\<close>

text \<open>Go's \<open>code / 100\<close>, which truncates towards zero.\<close>

definition hundreds :: "int \<Rightarrow> int" where
  "hundreds code = (if 0 \<le> code then code div 100 else - ((- code) div 100))"

definition normalizeEnhancedCode :: "int \<Rightarrow> EnhancedCode \<Rightarrow> EnhancedCode \<times> bool" where
  "normalizeEnhancedCode code e =
     (if ec_String e = [] \<or> ec_Class e = hundreds code then (e, False)
      else if hundreds code = 2 \<or> hundreds code = 4 \<or> hundreds code = 5
      then (enhanced (hundreds code) 0 0, True)
      else (e, False))"

definition normalizeRecipientResult :: "RecipientResult \<Rightarrow> RecipientResult \<times> bool" where
  "normalizeRecipientResult r =
     (case normalizeEnhancedCode (rr_Code r) (rr_Enhanced r) of
        (e, repaired) \<Rightarrow> (r\<lparr>rr_Enhanced := e\<rparr>, repaired))"

definition genericEnhanced :: "int \<Rightarrow> EnhancedCode" where
  "genericEnhanced code =
     (if hundreds code = 2 \<or> hundreds code = 4 \<or> hundreds code = 5 then enhanced (hundreds code) 0 0
      else no_code)"

section \<open>Replies\<close>

record wireReply =
  wr_code :: int
  wr_enhanced :: EnhancedCode
  wr_text :: bytes
  wr_lines :: "bytes list"
  wr_context :: ReplyContext

text \<open>The literals \<open>wireReply{code: ..., enhanced: ..., text: ...}\<close> of the handlers.\<close>

definition text_reply :: "int \<Rightarrow> EnhancedCode \<Rightarrow> bytes \<Rightarrow> wireReply" where
  "text_reply code e t =
     \<lparr>wr_code = code, wr_enhanced = e, wr_text = t, wr_lines = [], wr_context = ReplyContextCommand\<rparr>"

definition encodeWireReply :: "wireReply \<Rightarrow> wire_error + bytes" where
  "encodeWireReply r =
     EncodeReply \<lparr>rep_Code = wr_code r, rep_Lines = wr_lines r, rep_Text = wr_text r\<rparr>
       \<lparr>ro_Enhanced = (if ec_String (wr_enhanced r) \<noteq> [] then
                         Some \<lparr>we_Class = ec_Class (wr_enhanced r), we_Subject = ec_Subject (wr_enhanced r),
                               we_Detail = ec_Detail (wr_enhanced r), we_Raw = []\<rparr>
                       else None),
        ro_Context = wr_context r\<rparr>"

text \<open>An error of a backend callback: one that is or wraps an \<open>*smtp.Error\<close>, which \<open>errors.As\<close>
  finds, or any other.\<close>

datatype backend_error = ProtocolError smtp_Error | OtherError nat

definition errorReply :: "backend_error \<Rightarrow> int \<Rightarrow> bytes \<Rightarrow> wireReply" where
  "errorReply err fallbackCode fallbackText =
     (case err of
        ProtocolError p \<Rightarrow>
          if se_Code p \<ge> 200
          then text_reply (se_Code p) (fst (normalizeEnhancedCode (se_Code p) (se_Enhanced p)))
                 (if se_Text p = [] then fallbackText else se_Text p)
          else text_reply fallbackCode (genericEnhanced fallbackCode) fallbackText
      | OtherError _ \<Rightarrow> text_reply fallbackCode (genericEnhanced fallbackCode) fallbackText)"

section \<open>Lemmas\<close>

lemma text_reply_simps [simp]:
  "wr_code (text_reply c e t) = c" "wr_enhanced (text_reply c e t) = e" "wr_text (text_reply c e t) = t"
  "wr_lines (text_reply c e t) = []" "wr_context (text_reply c e t) = ReplyContextCommand"
  by (simp_all add: text_reply_def)

lemma hundreds_valid: "validReplyCode code \<Longrightarrow> hundreds code = code div 100"
  by (simp add: validReplyCode_def hundreds_def)

lemma normalize_agrees:
  assumes "validReplyCode code"
  shows "ec_String (fst (normalizeEnhancedCode code e)) = [] \<or>
     ec_Class (fst (normalizeEnhancedCode code e)) = code div 100 \<or> code div 100 = 3"
proof -
  from assms have "hundreds code = code div 100" "code div 100 \<in> {2, 3, 4, 5}"
    by (auto simp: hundreds_valid validReplyCode_def)
  then show ?thesis by (auto simp: normalizeEnhancedCode_def)
qed

lemma normalize_enhanced:
  "c = hundreds code \<or> c = 0 \<and> s = 0 \<and> d = 0 \<Longrightarrow> normalizeEnhancedCode code (enhanced c s d) = (enhanced c s d, False)"
  by (auto simp: normalizeEnhancedCode_def ec_String_enhanced)

text \<open>A reply that can be put on the wire: its code is valid, its lines are clean, and a code in the
  three-part form is in range and agrees.\<close>

definition sendable :: "wireReply \<Rightarrow> bool" where
  "sendable r \<longleftrightarrow> validReplyCode (wr_code r) \<and> wire_text (wr_text r) \<and> list_all wire_text (wr_lines r) \<and>
     (ec_String (wr_enhanced r) = [] \<or> wr_context r \<noteq> ReplyContextCommand \<or>
       wr_code r div 100 \<in> {2, 4, 5} \<and> ec_Class (wr_enhanced r) = wr_code r div 100 \<and>
       ec_Subject (wr_enhanced r) \<in> {0..999} \<and> ec_Detail (wr_enhanced r) \<in> {0..999})"

lemma encodeWireReply_sendable:
  assumes "sendable r"
  shows "\<exists>bs. encodeWireReply r = Inr bs"
  using assms
  by (auto simp: sendable_def encodeWireReply_def EncodeReply_def Let_def formatEnhancedCode_def
      list_ex_iff list_all_iff wire_text_def)

lemma encodeWireReply_unclean:
  assumes "\<not> wire_text (wr_text r)" and "wr_lines r = []" and "validReplyCode (wr_code r)"
  shows "encodeWireReply r = Inl ErrReplyEncodeText"
  using assms by (simp add: encodeWireReply_def EncodeReply_def wire_text_def Let_def)

text \<open>C30: A backend error whose text holds a line break, the form \<open>smtp.Error\<close> documents for the text of a
  multi-line reply, has no wire form: encoding the reply fails, so that the handler ends the session instead of
  answering.\<close>

theorem errorReply_multiline:
  assumes "validReplyCode (se_Code e)" "LF \<in> set (se_Text e)"
  shows "encodeWireReply (errorReply (ProtocolError e) code t) = Inl ErrReplyEncodeText"
proof (rule encodeWireReply_unclean)
  from assms have "se_Code e \<ge> 200" "se_Text e \<noteq> []" by (auto simp: validReplyCode_def)
  then have "errorReply (ProtocolError e) code t =
      text_reply (se_Code e) (fst (normalizeEnhancedCode (se_Code e) (se_Enhanced e))) (se_Text e)"
    by (simp add: errorReply_def)
  with assms show "\<not> wire_text (wr_text (errorReply (ProtocolError e) code t))"
    "wr_lines (errorReply (ProtocolError e) code t) = []"
    "validReplyCode (wr_code (errorReply (ProtocolError e) code t))"
    by (auto simp: wire_text_iff)
qed

theorem errorReply_multiline_witness:
  "encodeWireReply (errorReply (ProtocolError \<lparr>se_Code = 550, se_Enhanced = enhanced 5 1 1,
     se_Text = ''No such'' @ [LF] @ ''user'', se_Command = ''RCPT'', se_Err = None\<rparr>) 451 ''Failure'') = Inl ErrReplyEncodeText"
  by (rule errorReply_multiline) (simp_all add: validReplyCode_def)

end
