(* ===== verification/Wire_Bdat.thy ===== *)
theory Wire_Bdat
  imports Wire_Command
begin

text \<open>
  BDAT framing, src/internal/smtpwire/bdat.go: the argument of the command, its size check, and the
  copy of exactly the announced octets between a buffered reader and a writer. The chunk size is the
  source's \<open>uint64\<close>, a \<open>64 word\<close>. The octet count that the copy also returns goes only into the text
  of its error and is left out. Shown here: command and chunk are read back as written, with what
  follows untouched; never an octet more than announced is consumed or written.
\<close>

section \<open>The command\<close>

record bdat_command =
  bdat_Size :: "64 word"
  bdat_Last :: bool

definition checkBDATSize :: "64 word \<Rightarrow> limits \<Rightarrow> wire_error option" where
  "checkBDATSize sz lim =
     (if int (unat sz) > MaxInt64 then Some ErrBDATSizeOverflow
      else if int (unat sz) > MaxBDATChunkSize (withDefaults lim) then Some ErrBDATChunkTooLarge
      else None)"

definition ParseBDATArgument :: "bytes \<Rightarrow> limits \<Rightarrow> wire_error + bdat_command" where
  "ParseBDATArgument argument lim =
     (if list_ex (\<lambda>c. c \<noteq> SP \<and> (byte c < 0x21 \<or> byte c > 0x7E)) argument then Inl ErrBDATCommandSyntax
      else
        let fields = Fields argument in
        if length fields < 1 \<or> length fields > 2 \<or> (length fields = 2 \<and> \<not> EqualFold (fields ! 1) ''LAST'')
        then Inl ErrBDATCommandSyntax
        else if fields ! 0 = [] \<or> HasPrefix (fields ! 0) ''+'' \<or> HasPrefix (fields ! 0) ''-''
        then Inl ErrBDATCommandSyntax
        else
          case ParseUint 64 (fields ! 0) of
            None \<Rightarrow> Inl ErrBDATCommandSyntax
          | Some n \<Rightarrow>
              let sz = of_nat n in
              case checkBDATSize sz lim of
                Some err \<Rightarrow> Inl err
              | None \<Rightarrow> Inr \<lparr>bdat_Size = sz, bdat_Last = (length fields = 2)\<rparr>)"

definition EncodeBDATCommand :: "64 word \<Rightarrow> bool \<Rightarrow> limits \<Rightarrow> wire_error + bytes" where
  "EncodeBDATCommand sz lst lim =
     (case checkBDATSize sz lim of
        Some err \<Rightarrow> Inl err
      | None \<Rightarrow> Inr (''BDAT '' @ FormatUint (unat sz) @ (if lst then '' LAST'' else []) @ CRLF))"

section \<open>The chunk\<close>

text \<open>\<open>bufio.Reader.Read\<close> into a buffer of \<open>k\<close> octets: what is prefetched, or one \<open>Read\<close> of the
  connection, directly into the caller's buffer when that is at least as large as the reader's own.\<close>

definition br_Read :: "nat \<Rightarrow> line_reader \<Rightarrow> (io_error + bytes) \<times> line_reader" where
  "br_Read k lr =
     (case lr_buf lr of
        _ # _ \<Rightarrow> (Inr (take k (lr_buf lr)), lr\<lparr>lr_buf := drop k (lr_buf lr)\<rparr>)
      | [] \<Rightarrow>
          (case dropWhile (\<lambda>ch. ch = []) (lr_src lr) of
             [] \<Rightarrow> (Inl (lr_fin lr), lr\<lparr>lr_src := []\<rparr>)
           | ch # chs \<Rightarrow>
               if k < 8192 then (Inr (take k ch), lr\<lparr>lr_buf := drop k ch, lr_src := chs\<rparr>)
               else (Inr (take k ch), lr\<lparr>lr_src := drop k ch # chs\<rparr>)))"

lemma br_Read_cases:
  assumes "0 < k"
  obtains (ended) lr' where "lr_stream lr = []" "br_Read k lr = (Inl (lr_fin lr), lr')" "lr_stream lr' = []"
    "lr_fin lr' = lr_fin lr"
  | (piece) bs lr' where "br_Read k lr = (Inr bs, lr')" "lr_stream lr = bs @ lr_stream lr'" "bs \<noteq> []"
    "length bs \<le> k" "lr_fin lr' = lr_fin lr"
proof (cases "lr_buf lr")
  case (Cons c cs)
  show ?thesis
    by (rule piece [of "take k (lr_buf lr)" "lr\<lparr>lr_buf := drop k (lr_buf lr)\<rparr>"])
      (use Cons assms in \<open>simp_all add: br_Read_def lr_stream_def\<close>)
next
  case Nil
  show ?thesis
  proof (cases "dropWhile (\<lambda>ch. ch = []) (lr_src lr)")
    case src: Nil
    then have "concat (lr_src lr) = []"
      using concat_dropWhile_Nil [of "lr_src lr"] by simp
    then show ?thesis
      by (intro ended [of "lr\<lparr>lr_src := []\<rparr>"]) (simp_all add: Nil src br_Read_def lr_stream_def)
  next
    case (Cons ch chs)
    have ne: "ch \<noteq> []" by (rule dropWhile_Nil_hd [OF Cons])
    have c: "concat (lr_src lr) = ch @ concat chs"
      using concat_dropWhile_Nil [of "lr_src lr"] Cons by simp
    show ?thesis
      by (rule piece [of "take k ch" "snd (br_Read k lr)"])
        (use Nil Cons ne c assms in \<open>auto simp: br_Read_def lr_stream_def\<close>)
  qed
qed

text \<open>\<open>io.CopyN\<close>: pieces of at most 32 KiB until \<open>n\<close> octets are copied.\<close>

function CopyN ::
  "(bytes \<Rightarrow> 'w \<Rightarrow> io_error option \<times> 'w) \<Rightarrow> nat \<Rightarrow> line_reader \<Rightarrow> 'w \<Rightarrow> io_error option \<times> line_reader \<times> 'w" where
  "CopyN wr n lr w =
     (if n = 0 then (None, lr, w)
      else
        case br_Read (min 32768 n) lr of
          (Inl err, lr') \<Rightarrow> (Some err, lr', w)
        | (Inr bs, lr') \<Rightarrow>
            (case wr bs w of
               (Some err, w') \<Rightarrow> (Some err, lr', w')
             | (None, w') \<Rightarrow> CopyN wr (n - length bs) lr' w'))"
  by pat_completeness auto
termination
proof (relation "measure (\<lambda>(wr, n, lr, w). n)", goal_cases)
  case (2 wr n lr w x r bs)
  then have "0 < min 32768 n" by simp
  then show ?case
    by (rule br_Read_cases [of _ lr]) (use 2 in auto)
qed simp

declare CopyN.simps [simp del]

definition CopyBDATChunk ::
  "(bytes \<Rightarrow> 'w \<Rightarrow> io_error option \<times> 'w) \<Rightarrow> 64 word \<Rightarrow> limits \<Rightarrow> line_reader \<Rightarrow> 'w \<Rightarrow>
   wire_error option \<times> line_reader \<times> 'w" where
  "CopyBDATChunk wr sz lim lr w =
     (case checkBDATSize sz lim of
        Some err \<Rightarrow> (Some err, lr, w)
      | None \<Rightarrow>
          (case CopyN wr (unat sz) lr w of
             (Some err, lr', w') \<Rightarrow> (Some (if err = EOF then ErrBDATShortSource else IO err), lr', w')
           | (None, lr', w') \<Rightarrow> (None, lr', w')))"

definition ReadBDATChunk ::
  "(bytes \<Rightarrow> 'w \<Rightarrow> io_error option \<times> 'w) \<Rightarrow> 64 word \<Rightarrow> io_error option \<Rightarrow> limits \<Rightarrow> line_reader \<Rightarrow> 'w \<Rightarrow>
   wire_error option \<times> line_reader \<times> 'w" where
  "ReadBDATChunk wr sz dl lim lr w =
     (case setDeadline dl of
        Some err \<Rightarrow> (Some err, lr, w)
      | None \<Rightarrow> CopyBDATChunk wr sz lim lr w)"

section \<open>Copying a chunk\<close>

locale bdat_sink = sink wr content
  for wr :: "bytes \<Rightarrow> 'w \<Rightarrow> io_error option \<times> 'w" and content :: "'w \<Rightarrow> bytes"
begin

text \<open>Whatever happens, what is consumed from the stream is at most \<open>n\<close> octets, and what reaches the
  writer is a beginning of it; without an error it is all of it and exactly \<open>n\<close> octets.\<close>

lemma CopyN_outcome:
  assumes "CopyN wr n lr w = (e, lr', w')"
  shows "\<exists>taken q. lr_stream lr = taken @ lr_stream lr' \<and> length taken \<le> n \<and> content w' = content w @ q \<and>
    prefix q taken \<and> lr_fin lr' = lr_fin lr \<and> (e = None \<longrightarrow> q = taken \<and> length taken = n)"
  using assms
proof (induction n arbitrary: lr w rule: less_induct)
  case (less n)
  show ?case
  proof (cases "n = 0")
    case True
    with less.prems show ?thesis by (auto simp: CopyN.simps [of wr 0])
  next
    case False
    then have pos: "0 < min 32768 n" by simp
    show ?thesis
    proof (cases rule: br_Read_cases [OF pos, of lr, case_names ended piece])
      case (ended lr1)
      with less.prems False show ?thesis by (auto simp: CopyN.simps [of wr n])
    next
      case (piece bs lr1)
      obtain e1 w1 where w1: "wr bs w = (e1, w1)" by (cases "wr bs w")
      show ?thesis
      proof (cases e1)
        case (Some x)
        with less.prems False piece w1 have "e = Some x" "lr' = lr1" "w' = w1" by (auto simp: CopyN.simps [of wr n])
        moreover obtain q where "content w1 = content w @ q" "prefix q bs"
          using wr_Some [of bs w x w1] w1 Some by blast
        ultimately show ?thesis
          using piece by (intro exI [of _ bs] exI [of _ q]) auto
      next
        case None
        with less.prems False piece w1 have "CopyN wr (n - length bs) lr1 w1 = (e, lr', w')"
          by (auto simp: CopyN.simps [of wr n])
        from less.IH [OF _ this] piece False
        obtain taken q where t: "lr_stream lr1 = taken @ lr_stream lr'" "length taken \<le> n - length bs"
          "content w' = content w1 @ q" "prefix q taken" "lr_fin lr' = lr_fin lr1"
          "e = None \<longrightarrow> q = taken \<and> length taken = n - length bs" by auto
        with piece wr_None [of bs w w1] w1 None show ?thesis
          by (intro exI [of _ "bs @ taken"] exI [of _ "bs @ q"]) auto
      qed
    qed
  qed
qed

text \<open>With a writer that does not fail, the copy succeeds when the stream holds the octets, and
  otherwise ends as the connection does after passing on what there was.\<close>

lemma CopyN_complete:
  assumes ok: "\<And>p w. fst (wr p w) = None" and "n \<le> length (lr_stream lr)"
  shows "\<exists>lr' w'. CopyN wr n lr w = (None, lr', w')"
  using assms(2)
proof (induction n arbitrary: lr w rule: less_induct)
  case (less n)
  show ?case
  proof (cases "n = 0")
    case True
    then show ?thesis by (simp add: CopyN.simps [of wr 0])
  next
    case False
    then have pos: "0 < min 32768 n" by simp
    show ?thesis
    proof (cases rule: br_Read_cases [OF pos, of lr, case_names ended piece])
      case (ended lr1)
      with less.prems False show ?thesis by simp
    next
      case (piece bs lr1)
      obtain w1 where w1: "wr bs w = (None, w1)" using ok [of bs w] by (cases "wr bs w") auto
      have "\<exists>lr' w'. CopyN wr (n - length bs) lr1 w1 = (None, lr', w')"
        by (rule less.IH) (use piece less.prems False in auto)
      with piece w1 False show ?thesis by (auto simp: CopyN.simps [of wr n])
    qed
  qed
qed

lemma CopyN_short:
  assumes ok: "\<And>p w. fst (wr p w) = None" and "length (lr_stream lr) < n"
  shows "\<exists>lr' w'. CopyN wr n lr w = (Some (lr_fin lr), lr', w') \<and> lr_stream lr' = [] \<and>
    content w' = content w @ lr_stream lr"
  using assms(2)
proof (induction n arbitrary: lr w rule: less_induct)
  case (less n)
  then have ne: "n \<noteq> 0" and pos: "0 < min 32768 n" by simp_all
  show ?case
  proof (cases rule: br_Read_cases [OF pos, of lr, case_names ended piece])
    case (ended lr1)
    with ne show ?thesis by (auto simp: CopyN.simps [of wr n])
  next
    case (piece bs lr1)
    obtain w1 where w1: "wr bs w = (None, w1)" using ok [of bs w] by (cases "wr bs w") auto
    have "\<exists>lr' w'. CopyN wr (n - length bs) lr1 w1 = (Some (lr_fin lr1), lr', w') \<and> lr_stream lr' = [] \<and>
        content w' = content w1 @ lr_stream lr1"
      by (rule less.IH) (use piece less.prems ne in auto)
    with piece w1 ne wr_None [OF w1] show ?thesis by (auto simp: CopyN.simps [of wr n])
  qed
qed

lemma ReadBDATChunk_ok:
  assumes "\<And>p w. fst (wr p w) = None" "checkBDATSize sz lim = None"
    and "lr_stream lr = body @ rest" "length body = unat sz"
  shows "\<exists>lr' w'. ReadBDATChunk wr sz None lim lr w = (None, lr', w') \<and> lr_stream lr' = rest \<and>
    content w' = content w @ body \<and> lr_fin lr' = lr_fin lr"
proof -
  obtain lr' w' where c: "CopyN wr (unat sz) lr w = (None, lr', w')"
    using CopyN_complete [OF assms(1), of "unat sz" lr w] assms(3,4) by auto
  from CopyN_outcome [OF c] assms(3,4) show ?thesis
    by (auto simp: ReadBDATChunk_def setDeadline_def CopyBDATChunk_def assms(2) c)
qed

end

interpretation buffer_bdat: bdat_sink Buffer_Write "\<lambda>b. b"
  by unfold_locales

section \<open>The argument written and read back\<close>

lemma EqualFold_LAST: "EqualFold ''LAST'' ''LAST''"
  by (simp add: EqualFold_ascii is_ascii_def)

lemma FormatUint_plain: "plain_word (FormatUint n)"
proof -
  have "is_ascii c \<and> \<not> IsSpace (byte c)" if "is_digit c" for c
    using that by (simp add: is_digit_def is_ascii_def IsSpace_def)
  then show ?thesis
    using FormatUint_digits [of n] by (auto simp: plain_word_def list_all_iff)
qed

lemma bdat_fields:
  "Fields (FormatUint n @ (if lst then '' LAST'' else [])) = FormatUint n # (if lst then [''LAST''] else [])"
proof -
  have "plain_word ''LAST''" by (simp add: plain_word_def is_ascii_def IsSpace_def)
  then show ?thesis
    using Fields_word [OF FormatUint_plain [of n]] Fields_word(1) [of "''LAST''"] by simp
qed

lemma FormatUint_no_sign: "\<not> HasPrefix (FormatUint n) ''+'' \<and> \<not> HasPrefix (FormatUint n) ''-''"
proof -
  have "is_digit (hd (FormatUint n))"
    by (rule FormatUint_digit [of _ n]) simp
  then show ?thesis
    by (cases "FormatUint n") (auto simp: HasPrefix_def is_digit_def)
qed

lemma ParseBDATArgument_encoded:
  assumes "checkBDATSize sz lim = None"
  shows "ParseBDATArgument (FormatUint (unat sz) @ (if lst then '' LAST'' else [])) lim =
    Inr \<lparr>bdat_Size = sz, bdat_Last = lst\<rparr>"
proof -
  let ?f = "FormatUint (unat sz)" and ?a = "FormatUint (unat sz) @ (if lst then '' LAST'' else [])"
  have "\<not> list_ex (\<lambda>c. c \<noteq> SP \<and> (byte c < 0x21 \<or> byte c > 0x7E)) ?a"
    by (auto simp: list_ex_iff is_digit_def dest!: FormatUint_digit)
  moreover have "ParseUint 64 ?f = Some (unat sz)"
    by (intro ParseUint_FormatUint order_less_le_trans [OF unsigned_less]) simp
  ultimately show ?thesis
    using assms FormatUint_no_sign [of "unat sz"]
    by (simp add: ParseBDATArgument_def bdat_fields EqualFold_LAST)
qed

section \<open>Chunks on the stream\<close>

text \<open>A chunk with its LAST flag, as the client frames it and as the server takes it off the stream:
  the command, its argument, then exactly the announced octets.\<close>

definition wire_chunk :: "limits \<Rightarrow> bool \<times> bytes \<Rightarrow> bytes" where
  "wire_chunk lim ch =
     (case EncodeBDATCommand (of_nat (length (snd ch))) (fst ch) lim of Inr w \<Rightarrow> w @ snd ch | Inl _ \<Rightarrow> [])"

definition read_chunk :: "limits \<Rightarrow> line_reader \<Rightarrow> (wire_error + bool \<times> bytes) \<times> line_reader" where
  "read_chunk lim lr =
     (case ReadCommand None lim lr of
        (Inl err, lr1) \<Rightarrow> (Inl err, lr1)
      | (Inr c, lr1) \<Rightarrow>
          (case ParseBDATArgument (cmd_Argument c) lim of
             Inl err \<Rightarrow> (Inl err, lr1)
           | Inr b \<Rightarrow>
               (case ReadBDATChunk Buffer_Write (bdat_Size b) None lim lr1 [] of
                  (Some err, lr2, _) \<Rightarrow> (Inl err, lr2)
                | (None, lr2, body) \<Rightarrow> (Inr (bdat_Last b, body), lr2))))"

definition chunk_ok :: "limits \<Rightarrow> bool \<times> bytes \<Rightarrow> bool" where
  "chunk_ok lim ch \<longleftrightarrow>
     int (length (snd ch)) \<le> MaxInt64 \<and> int (length (snd ch)) \<le> MaxBDATChunkSize (withDefaults lim) \<and>
     32 \<le> MaxCommandLineLength (withDefaults lim)"

lemma unat_length: "int (length b) \<le> MaxInt64 \<Longrightarrow> unat (of_nat (length b) :: 64 word) = length b"
  by (simp add: unsigned_of_nat MaxInt64_def take_bit_nat_eq_self_iff)

lemma read_chunk_wire_chunk:
  assumes "chunk_ok lim ch" "lr_stream lr = wire_chunk lim ch @ rest"
  shows "\<exists>lr'. read_chunk lim lr = (Inr ch, lr') \<and> lr_stream lr' = rest"
proof -
  obtain lst body where ch: "ch = (lst, body)" by (cases ch)
  let ?sz = "of_nat (length body) :: 64 word"
  let ?arg = "FormatUint (unat ?sz) @ (if lst then '' LAST'' else [])"
  let ?line = "''BDAT '' @ ?arg @ CRLF"
  have u: "unat ?sz = length body" using assms(1) ch by (simp add: chunk_ok_def unat_length)
  have chk: "checkBDATSize ?sz lim = None" using assms(1) ch u by (simp add: chunk_ok_def checkBDATSize_def)
  have st: "lr_stream lr = ?line @ body @ rest"
    using assms(2) ch chk by (simp add: wire_chunk_def EncodeBDATCommand_def)
  have ctl: "\<not> list_ex is_control ?arg"
    by (auto simp: list_ex_iff is_control_def is_digit_def dest!: FormatUint_digit)
  have enc: "EncodeCommand ''BDAT'' [?arg] = Inr ?line"
    using ctl by (simp add: EncodeCommand_Inr) (simp add: is_control_def)
  have verb: "validateCommandVerb ''BDAT'' = None" by code_simp
  have "(of_nat (length body) :: nat) < 10 ^ 20" using assms(1) ch by (simp add: chunk_ok_def MaxInt64_def)
  then have "length (FormatUint (length body)) \<le> 20" by (intro FormatUint_length) simp_all
  then have len: "int (length ?line) \<le> MaxCommandLineLength (withDefaults lim)"
    using assms(1) u by (simp add: chunk_ok_def)
  have hd: "FormatUint n = [] \<or> hd (FormatUint n) \<noteq> SP" for n
    using FormatUint_digit [of "hd (FormatUint n)" n] by (auto simp: is_digit_def)
  have trim: "TrimLeftSP (Join [?arg] [SP]) = ?arg"
    unfolding Join.simps by (rule TrimLeftSP_id) (use hd [of "unat ?sz"] in \<open>simp add: hd_append\<close>)
  obtain lr1 where r1: "ReadCommand None lim lr = (Inr \<lparr>cmd_Verb = ''BDAT'', cmd_Argument = ?arg\<rparr>, lr1)"
    "lr_stream lr1 = body @ rest"
    using ReadCommand_EncodeCommand [OF enc verb st len] unfolding trim by blast
  obtain lr2 where "ReadBDATChunk Buffer_Write ?sz None lim lr1 [] = (None, lr2, body)" "lr_stream lr2 = rest"
    using buffer_bdat.ReadBDATChunk_ok [OF _ chk r1(2), of "[]"] u by (auto simp: Buffer_Write_def)
  with r1 ParseBDATArgument_encoded [OF chk, of lst] ch show ?thesis
    by (simp add: read_chunk_def)
qed

interpretation chunk_framing: framing "wire_chunk lim" "read_chunk lim" lr_stream "chunk_ok lim" for lim
proof unfold_locales
  show "chunk_ok lim x \<Longrightarrow> lr_stream s = wire_chunk lim x @ rest \<Longrightarrow> \<exists>s'. read_chunk lim s = (Inr x, s') \<and> lr_stream s' = rest"
    for x s rest by (rule read_chunk_wire_chunk)
  show "\<exists>s. lr_stream s = bs" for bs
    by (rule exI [of _ "\<lparr>lr_buf = bs, lr_src = [], lr_fin = EOF\<rparr>"]) (simp add: lr_stream_def)
qed

section \<open>Properties\<close>

text \<open>C13: Pipelined BDAT chunks stay in step. A run of chunks framed by \<open>EncodeBDATCommand\<close> and sent
  back to back is taken apart into the same chunks with the same LAST flags, octet for octet (dots,
  CR and LF included), however the stream is segmented, and the next command is left unread.\<close>

theorem bdat_chunks_pipelined:
  assumes "list_all (chunk_ok lim) chs" "lr_stream lr = concat (map (wire_chunk lim) chs) @ rest"
  shows "\<exists>lr'. read_n (read_chunk lim) (length chs) lr = (Inr chs, lr') \<and> lr_stream lr' = rest"
  by (rule chunk_framing.rd_sequence [OF assms])

theorem bdat_chunks_pipelined_witness:
  "\<exists>lr'. read_n (read_chunk DefaultLimits) 2
      (NewLineReader [''BDAT 5'' @ CRLF @ ''.'' @ CRLF, ''ab'' @ ''BDAT 0 LAST'' @ CRLF @ ''QUIT''] EOF) =
    (Inr [(False, ''.'' @ CRLF @ ''ab''), (True, [])], lr') \<and> lr_stream lr' = ''QUIT''"
proof -
  let ?chs = "[(False, ''.'' @ CRLF @ ''ab''), (True, [])]"
  let ?lr = "NewLineReader [''BDAT 5'' @ CRLF @ ''.'' @ CRLF, ''ab'' @ ''BDAT 0 LAST'' @ CRLF @ ''QUIT''] EOF"
  have ok: "list_all (chunk_ok DefaultLimits) ?chs" by code_simp
  have st: "lr_stream ?lr = concat (map (wire_chunk DefaultLimits) ?chs) @ ''QUIT''" by code_simp
  have "length ?chs = 2" by simp
  with bdat_chunks_pipelined [OF ok st] show ?thesis by (simp only:)
qed

text \<open>C14: A chunk never takes more than it announced. Whatever the writer and the connection do,
  \<open>ReadBDATChunk\<close> consumes at most the announced number of octets and passes on nothing but a
  beginning of them; without an error it consumes and passes on exactly the announced number.\<close>

theorem bdat_chunk_exact:
  assumes "sink wr content" "ReadBDATChunk wr sz dl lim lr w = (e, lr', w')"
  shows "\<exists>taken q. lr_stream lr = taken @ lr_stream lr' \<and> length taken \<le> unat sz \<and>
    content w' = content w @ q \<and> prefix q taken \<and> (e = None \<longrightarrow> q = taken \<and> length taken = unat sz)"
proof (cases "setDeadline dl = None \<and> checkBDATSize sz lim = None")
  case True
  obtain e1 where c: "CopyN wr (unat sz) lr w = (e1, lr', w')" "e = None \<longrightarrow> e1 = None"
    using assms(2) True by (auto simp: ReadBDATChunk_def CopyBDATChunk_def split: prod.splits option.splits)
  from bdat_sink.CopyN_outcome [OF bdat_sink.intro [OF assms(1)] c(1)] c(2) show ?thesis by blast
next
  case False
  then obtain x where "setDeadline dl = Some x \<or> setDeadline dl = None \<and> checkBDATSize sz lim = Some x"
    by (cases "setDeadline dl") auto
  with assms(2) have "e = Some x" "lr' = lr" "w' = w"
    by (auto simp: ReadBDATChunk_def CopyBDATChunk_def)
  then show ?thesis by auto
qed

theorem bdat_chunk_exact_witness:
  "\<exists>lr' w' taken q. ReadBDATChunk Buffer_Write 3 None DefaultLimits (NewLineReader [''ab'', ''cQUIT''] EOF) [] = (None, lr', w') \<and>
    ''abcQUIT'' = taken @ lr_stream lr' \<and> w' = [] @ q \<and> q = taken \<and> length taken = unat (3 :: 64 word)"
proof -
  let ?lr = "NewLineReader [''ab'', ''cQUIT''] EOF"
  have st: "lr_stream ?lr = ''abc'' @ ''QUIT''" and all: "''abc'' @ ''QUIT'' = ''abcQUIT''" by code_simp+
  have "checkBDATSize 3 DefaultLimits = None"
    by (simp add: checkBDATSize_def MaxInt64_def withDefaults_def DefaultLimits_def)
  then obtain lr' w' where run: "ReadBDATChunk Buffer_Write 3 None DefaultLimits ?lr [] = (None, lr', w')"
    using buffer_bdat.ReadBDATChunk_ok [OF _ _ st, of 3 DefaultLimits "[]"] by (auto simp: Buffer_Write_def)
  from bdat_chunk_exact [OF buffer_sink.sink_axioms run] run show ?thesis
    unfolding st all by fastforce
qed

text \<open>C22: A chunk size beyond 64 bits is reported as bad syntax. For an argument that is such a decimal, without LAST,
  \<open>ParseBDATArgument\<close> returns \<open>ErrBDATCommandSyntax\<close> and not \<open>ErrBDATSizeOverflow\<close>, the error a size
  between 2^63 and 2^64 gets.\<close>

theorem bdat_size_beyond_uint64:
  assumes "2 ^ 64 \<le> n"
  shows "ParseBDATArgument (FormatUint n) lim = Inl ErrBDATCommandSyntax"
proof -
  have "ParseUint 64 (FormatUint n) = None"
    using assms by (simp add: ParseUint_def)
  then show ?thesis
    using FormatUint_no_sign [of n] bdat_fields [of n False] by (simp add: ParseBDATArgument_def)
qed

theorem bdat_size_beyond_uint64_witness:
  "ParseBDATArgument (FormatUint (2 ^ 64)) DefaultLimits = Inl ErrBDATCommandSyntax \<and>
   ParseBDATArgument (FormatUint (2 ^ 63)) DefaultLimits = Inl ErrBDATSizeOverflow"
proof
  show "ParseBDATArgument (FormatUint (2 ^ 64)) DefaultLimits = Inl ErrBDATCommandSyntax"
    by (rule bdat_size_beyond_uint64) simp
  have "ParseUint 64 (FormatUint (2 ^ 63)) = Some (2 ^ 63)"
    by (rule ParseUint_FormatUint) simp
  then show "ParseBDATArgument (FormatUint (2 ^ 63)) DefaultLimits = Inl ErrBDATSizeOverflow"
    using FormatUint_no_sign [of "2 ^ 63"] bdat_fields [of "2 ^ 63" False]
    by (auto simp: ParseBDATArgument_def checkBDATSize_def MaxInt64_def list_ex_iff is_digit_def unsigned_of_nat
        dest!: FormatUint_digit)
qed

end
