(* ===== verification/Srv_Spool.thy ===== *)
theory Srv_Spool
  imports Wire_Bdat
begin

text \<open>
  The CHUNKING store (smtpserver/spool.go): a server-wide manager with byte, memory and count
  budgets, and spools that keep a prefix in memory and spill to an unlinked file. The operating
  system's answers (\<open>os.CreateTemp\<close>, \<open>os.Remove\<close>, the file's \<open>Write\<close>, \<open>Read\<close>, \<open>Seek\<close> and \<open>Close\<close>) are an
  argument \<open>fs\<close>, functions of the call; \<open>fs_ok\<close> states what Go documents of a file's \<open>Write\<close>. One \<open>Write\<close> or
  \<open>Close\<close> of a spool is one step here. In the code it holds the mutex of its spool throughout and takes that of the
  manager for each reservation and release, so operations on other spools may come in between.

  The lemmas show that the store returns what was written into it whether or not it spilled, that
  the budgets hold and are given back for any interleaving of operations on any number of spools,
  and that the chunk writer takes every octet whatever the store does.
\<close>

section \<open>Options and manager\<close>

datatype spool_error =
    errSpoolMessageTooLarge
  | errSpoolTotalExhausted
  | errSpoolMemoryExhausted
  | errSpoolConcurrentExhausted
  | SpoolWriteClosed
  | SpoolReadClosed
  | SpoolCreate io_error
  | SpoolSpill io_error
  | SpoolWrite io_error
  | SpoolRewind io_error
  | SpoolShortWrite

record spoolOptions =
  so_MaxBytes :: int
  so_MaxMemoryBytes :: int
  so_MaxTotalBytes :: int
  so_MaxTotalMemoryBytes :: int
  so_MaxConcurrent :: int
  so_Dir :: bytes

record spoolManager =
  sm_opts :: spoolOptions
  sm_total :: int
  sm_totalMemory :: int
  sm_concurrent :: int

fun joinProblems :: "bytes list \<Rightarrow> bytes" where
  "joinProblems [] = []"
| "joinProblems [p] = p"
| "joinProblems (p # q # ps) = p @ ''; '' @ joinProblems (q # ps)"

definition spool_problems :: "spoolOptions \<Rightarrow> bytes list" where
  "spool_problems opts =
     (if so_MaxBytes opts \<le> 0 then [''MaxBytes must be positive''] else [])
   @ (if so_MaxMemoryBytes opts \<le> 0 then [''MaxMemoryBytes must be positive''] else [])
   @ (if so_MaxTotalBytes opts \<le> 0 then [''MaxTotalBytes must be positive''] else [])
   @ (if so_MaxTotalMemoryBytes opts \<le> 0 then [''MaxTotalMemoryBytes must be positive''] else [])
   @ (if so_MaxConcurrent opts \<le> 0 then [''MaxConcurrent must be positive''] else [])"

text \<open>\<open>tmp\<close> is the answer of \<open>os.TempDir\<close>.\<close>

definition newSpoolManager :: "bytes \<Rightarrow> spoolOptions \<Rightarrow> bytes + spoolManager" where
  "newSpoolManager tmp opts =
     (if spool_problems opts \<noteq> []
      then Inl (''smtpserver: invalid spool options: '' @ joinProblems (spool_problems opts))
      else Inr \<lparr>sm_opts = (if so_Dir opts = [] then opts\<lparr>so_Dir := tmp\<rparr> else opts),
                sm_total = 0, sm_totalMemory = 0, sm_concurrent = 0\<rparr>)"

definition sm_reserve :: "int \<Rightarrow> int \<Rightarrow> spoolManager \<Rightarrow> spool_error option \<times> spoolManager" where
  "sm_reserve tot memory m =
     (if tot > so_MaxTotalBytes (sm_opts m) - sm_total m then (Some errSpoolTotalExhausted, m)
      else if memory > so_MaxTotalMemoryBytes (sm_opts m) - sm_totalMemory m
      then (Some errSpoolMemoryExhausted, m)
      else (None, m\<lparr>sm_total := sm_total m + tot, sm_totalMemory := sm_totalMemory m + memory\<rparr>))"

definition sm_release :: "int \<Rightarrow> int \<Rightarrow> spoolManager \<Rightarrow> spoolManager" where
  "sm_release tot memory m =
     m\<lparr>sm_total := sm_total m - tot, sm_totalMemory := sm_totalMemory m - memory\<rparr>"

definition sm_releaseSpool :: "int \<Rightarrow> int \<Rightarrow> spoolManager \<Rightarrow> spoolManager" where
  "sm_releaseSpool tot memory m =
     m\<lparr>sm_total := sm_total m - tot, sm_totalMemory := sm_totalMemory m - memory,
       sm_concurrent := sm_concurrent m - 1\<rparr>"

definition sm_usage :: "spoolManager \<Rightarrow> int \<times> int \<times> int" where
  "sm_usage m = (sm_total m, sm_totalMemory m, sm_concurrent m)"

section \<open>Files\<close>

text \<open>An open file is its octets and its offset. A write goes to the offset.\<close>

record os_file =
  fl_data :: bytes
  fl_pos :: nat

record fs_ops =
  fs_windows :: bool
  fs_create :: "bytes \<Rightarrow> io_error + bytes"
  fs_remove :: "bytes \<Rightarrow> io_error option"
  fs_not_exist :: "io_error \<Rightarrow> bool"
  fs_write :: "os_file \<Rightarrow> bytes \<Rightarrow> nat \<times> io_error option"
  fs_read :: "os_file \<Rightarrow> nat \<Rightarrow> io_error option"
  fs_seek :: "os_file \<Rightarrow> io_error option"
  fs_close :: "os_file \<Rightarrow> io_error option"

definition fs_ok :: "fs_ops \<Rightarrow> bool" where
  "fs_ok fs \<longleftrightarrow> (\<forall>f p. fst (fs_write fs f p) \<le> length p \<and>
     (snd (fs_write fs f p) = None \<longrightarrow> fst (fs_write fs f p) = length p))"

definition put_at :: "nat \<Rightarrow> bytes \<Rightarrow> bytes \<Rightarrow> bytes" where
  "put_at k p d = take k d @ p @ drop (k + length p) d"

definition file_Write :: "fs_ops \<Rightarrow> bytes \<Rightarrow> os_file \<Rightarrow> (nat \<times> io_error option) \<times> os_file" where
  "file_Write fs p f =
     (let n = min (fst (fs_write fs f p)) (length p) in
      ((n, snd (fs_write fs f p)),
       f\<lparr>fl_data := put_at (fl_pos f) (take n p) (fl_data f), fl_pos := fl_pos f + n\<rparr>))"

text \<open>The new file and, on Windows only, the path to remove later.\<close>

definition createUnlinkedSpoolFile :: "fs_ops \<Rightarrow> bytes \<Rightarrow> io_error + (os_file \<times> bytes)" where
  "createUnlinkedSpoolFile fs dir =
     (case fs_create fs dir of
        Inl e \<Rightarrow> Inl e
      | Inr path \<Rightarrow>
          if \<not> fs_windows fs then
            (case fs_remove fs path of
               Some e \<Rightarrow> Inl e
             | None \<Rightarrow> Inr (\<lparr>fl_data = [], fl_pos = 0\<rparr>, []))
          else Inr (\<lparr>fl_data = [], fl_pos = 0\<rparr>, path))"

section \<open>Spools\<close>

record spool =
  sp_memory :: bytes
  sp_file :: "os_file option"
  sp_path :: bytes
  sp_size :: int
  sp_reserved :: int
  sp_reservedMemory :: int
  sp_closed :: bool

definition empty_spool :: spool where
  "empty_spool = \<lparr>sp_memory = [], sp_file = None, sp_path = [], sp_size = 0, sp_reserved = 0,
     sp_reservedMemory = 0, sp_closed = False\<rparr>"

definition newSpool :: "spoolManager \<Rightarrow> (spool_error + spool) \<times> spoolManager" where
  "newSpool m =
     (if sm_concurrent m \<ge> so_MaxConcurrent (sm_opts m) then (Inl errSpoolConcurrentExhausted, m)
      else (Inr empty_spool, m\<lparr>sm_concurrent := sm_concurrent m + 1\<rparr>))"

definition boolBytes :: "bool \<Rightarrow> int \<Rightarrow> int" where
  "boolBytes memory n = (if memory then n else 0)"

definition spillLocked :: "fs_ops \<Rightarrow> spoolManager \<times> spool \<Rightarrow> spool_error option \<times> (spoolManager \<times> spool)" where
  "spillLocked fs = (\<lambda>(m, s).
     if sp_file s \<noteq> None then (None, (m, s))
     else case createUnlinkedSpoolFile fs (so_Dir (sm_opts m)) of
       Inl e \<Rightarrow> (Some (SpoolCreate e), (m, s))
     | Inr (f, path) \<Rightarrow>
         if sp_memory s \<noteq> [] then
           (case file_Write fs (sp_memory s) f of
              ((_, Some e), _) \<Rightarrow> (Some (SpoolSpill e), (m, s))
            | ((_, None), f') \<Rightarrow>
                (None, (sm_release 0 (sp_reservedMemory s) m,
                        s\<lparr>sp_reservedMemory := 0, sp_memory := [], sp_file := Some f', sp_path := path\<rparr>)))
         else (None, (m, s\<lparr>sp_memory := [], sp_file := Some f, sp_path := path\<rparr>)))"

text \<open>The tail of \<open>Write\<close>, after the octets are reserved: store them, account for what was
  stored, and give the rest of the reservation back.\<close>

definition storeReserved ::
  "fs_ops \<Rightarrow> bool \<Rightarrow> bytes \<Rightarrow> spoolManager \<times> spool \<Rightarrow> (nat \<times> spool_error option) \<times> (spoolManager \<times> spool)" where
  "storeReserved fs memory p = (\<lambda>(m, s).
     let (n, err, s1) =
           (case sp_file s of
              None \<Rightarrow> (length p, None, s\<lparr>sp_memory := sp_memory s @ p\<rparr>)
            | Some f \<Rightarrow> (case file_Write fs p f of ((n, e), f') \<Rightarrow> (n, e, s\<lparr>sp_file := Some f'\<rparr>)));
         s2 = (if n > 0 then
                 s1\<lparr>sp_size := sp_size s1 + int n, sp_reserved := sp_reserved s1 + int n,
                    sp_reservedMemory := sp_reservedMemory s1 + (if memory then int n else 0)\<rparr>
               else s1);
         unused = int (length p) - int n;
         m1 = (if unused > 0 then sm_release unused (boolBytes memory unused) m else m)
     in case err of
          Some e \<Rightarrow> ((n, Some (SpoolWrite e)), (m1, s2))
        | None \<Rightarrow> ((n, if n \<noteq> length p then Some SpoolShortWrite else None), (m1, s2)))"

definition spool_Write ::
  "fs_ops \<Rightarrow> bytes \<Rightarrow> spoolManager \<times> spool \<Rightarrow> (nat \<times> spool_error option) \<times> (spoolManager \<times> spool)" where
  "spool_Write fs p = (\<lambda>(m, s).
     if sp_closed s then ((0, Some SpoolWriteClosed), (m, s))
     else if p = [] then ((0, None), (m, s))
     else if int (length p) > so_MaxBytes (sm_opts m) - sp_size s
     then ((0, Some errSpoolMessageTooLarge), (m, s))
     else
       case (if sp_file s = None \<and> sp_size s + int (length p) > so_MaxMemoryBytes (sm_opts m)
             then spillLocked fs (m, s) else (None, (m, s))) of
         (Some e, ms) \<Rightarrow> ((0, Some e), ms)
       | (None, (m1, s1)) \<Rightarrow>
           let memory = (sp_file s1 = None) in
           case sm_reserve (int (length p)) (boolBytes memory (int (length p))) m1 of
             (None, m2) \<Rightarrow> storeReserved fs memory p (m2, s1)
           | (Some e, m2) \<Rightarrow>
               if memory \<and> e = errSpoolMemoryExhausted then
                 (case spillLocked fs (m2, s1) of
                    (Some e', ms) \<Rightarrow> ((0, Some e'), ms)
                  | (None, (m3, s3)) \<Rightarrow>
                      (case sm_reserve (int (length p)) 0 m3 of
                         (Some e', m4) \<Rightarrow> ((0, Some e'), (m4, s3))
                       | (None, m4) \<Rightarrow> storeReserved fs False p (m4, s3)))
               else ((0, Some e), (m2, s1)))"

text \<open>What the reader returned by \<open>Reader\<close> reads: the memory octets, or the rewound file.\<close>

datatype spool_reader = MemReader bytes | FileReader os_file

definition spool_Reader :: "fs_ops \<Rightarrow> spool \<Rightarrow> (spool_error + spool_reader) \<times> spool" where
  "spool_Reader fs s =
     (if sp_closed s then (Inl SpoolReadClosed, s)
      else case sp_file s of
        None \<Rightarrow> (Inr (MemReader (sp_memory s)), s)
      | Some f \<Rightarrow>
          (case fs_seek fs f of
             Some e \<Rightarrow> (Inl (SpoolRewind e), s)
           | None \<Rightarrow> (Inr (FileReader (f\<lparr>fl_pos := 0\<rparr>)), s\<lparr>sp_file := Some (f\<lparr>fl_pos := 0\<rparr>)\<rparr>)))"

definition spool_Size :: "spool \<Rightarrow> int" where
  "spool_Size s = sp_size s"

definition spool_Close :: "fs_ops \<Rightarrow> spoolManager \<times> spool \<Rightarrow> io_error option \<times> (spoolManager \<times> spool)" where
  "spool_Close fs = (\<lambda>(m, s).
     if sp_closed s then (None, (m, s))
     else
       let e1 = (case sp_file s of None \<Rightarrow> None | Some f \<Rightarrow> fs_close fs f);
           e2 = (if sp_path s \<noteq> [] then
                   (case fs_remove fs (sp_path s) of
                      None \<Rightarrow> e1
                    | Some e \<Rightarrow> if \<not> fs_not_exist fs e \<and> e1 = None then Some e else e1)
                 else e1)
       in (e2, (sm_releaseSpool (sp_reserved s) (sp_reservedMemory s) m,
                s\<lparr>sp_closed := True, sp_reserved := 0, sp_reservedMemory := 0\<rparr>)))"

text \<open>The writer \<open>handleBDAT\<close> gives to the framer, over the store and the first failure.\<close>

record chunk_writer =
  cw_manager :: spoolManager
  cw_spool :: spool
  cw_err :: "spool_error option"

definition cw_Write :: "fs_ops \<Rightarrow> bytes \<Rightarrow> chunk_writer \<Rightarrow> io_error option \<times> chunk_writer" where
  "cw_Write fs p w =
     (if cw_err w = None then
        (case spool_Write fs p (cw_manager w, cw_spool w) of
           ((_, e), (m, s)) \<Rightarrow> (None, \<lparr>cw_manager = m, cw_spool = s, cw_err = e\<rparr>))
      else (None, w))"

section \<open>Writers that take everything\<close>

text \<open>The framer reads an announced chunk through a writer that never reports a failure: it then
  consumes exactly the chunk and hands it over in pieces.\<close>

locale total_writer =
  fixes wr :: "bytes \<Rightarrow> 'w \<Rightarrow> io_error option \<times> 'w"
  assumes never_fails: "fst (wr p w) = None"
begin

lemma CopyN_pieces:
  "\<exists>ps lr' w' e. CopyN wr n lr w = (e, lr', w') \<and> write_all wr ps w = (None, w') \<and>
     lr_stream lr = concat ps @ lr_stream lr' \<and> lr_fin lr' = lr_fin lr \<and>
     (if n \<le> length (lr_stream lr) then e = None \<and> length (concat ps) = n
      else e = Some (lr_fin lr) \<and> lr_stream lr' = [])"
proof (induction n arbitrary: lr w rule: less_induct)
  case (less n)
  show ?case
  proof (cases "n = 0")
    case True
    then show ?thesis by (intro exI [of _ "[]"]) (simp add: CopyN.simps [of wr 0])
  next
    case False
    then have pos: "0 < min 32768 n" by simp
    show ?thesis
    proof (cases rule: br_Read_cases [OF pos, of lr, case_names ended piece])
      case (ended lr1)
      with False show ?thesis by (intro exI [of _ "[]"]) (simp add: CopyN.simps [of wr n])
    next
      case (piece bs lr1)
      obtain w1 where w1: "wr bs w = (None, w1)" using never_fails [of bs w] by (cases "wr bs w") auto
      have "n - length bs < n" using piece False by (cases bs) auto
      from less.IH [OF this, of lr1 w1] obtain ps lr' w' e where
        c: "CopyN wr (n - length bs) lr1 w1 = (e, lr', w')" "write_all wr ps w1 = (None, w')"
          "lr_stream lr1 = concat ps @ lr_stream lr'" "lr_fin lr' = lr_fin lr1"
        and e: "if n - length bs \<le> length (lr_stream lr1) then e = None \<and> length (concat ps) = n - length bs
          else e = Some (lr_fin lr1) \<and> lr_stream lr' = []" by blast
      have "CopyN wr n lr w = (e, lr', w')"
        using piece(1) w1 False c(1) by (simp add: CopyN.simps [of wr n])
      moreover have "write_all wr (bs # ps) w = (None, w')" using w1 c(2) by simp
      moreover have "lr_stream lr = concat (bs # ps) @ lr_stream lr'" "lr_fin lr' = lr_fin lr"
        using piece c by simp_all
      moreover have "n \<le> length (lr_stream lr) \<longleftrightarrow> n - length bs \<le> length (lr_stream lr1)"
        using piece by auto
      moreover have "length (concat (bs # ps)) = n" if "length (concat ps) = n - length bs"
        using piece that by auto
      ultimately show ?thesis 
        by (intro exI [of _ "bs # ps"] exI [of _ lr'] exI [of _ w'] exI [of _ e] conjI)
          (use e piece(5) in \<open>simp_all split: if_splits\<close>)
    qed
  qed
qed

lemma ReadBDATChunk_pieces:
  assumes "ReadBDATChunk wr sz dl lim lr w = (e, lr', w')"
  obtains ps where "write_all wr ps w = (None, w')" "lr_stream lr = concat ps @ lr_stream lr'"
    "lr_fin lr' = lr_fin lr" "e = None \<longrightarrow> length (concat ps) = unat sz"
proof (cases "setDeadline dl = None \<and> checkBDATSize sz lim = None")
  case True
  obtain ps lr1 w1 e1 where c: "CopyN wr (unat sz) lr w = (e1, lr1, w1)" "write_all wr ps w = (None, w1)"
    "lr_stream lr = concat ps @ lr_stream lr1" "lr_fin lr1 = lr_fin lr"
    "if unat sz \<le> length (lr_stream lr) then e1 = None \<and> length (concat ps) = unat sz
      else e1 = Some (lr_fin lr) \<and> lr_stream lr1 = []"
    using CopyN_pieces [of "unat sz" lr w] by blast
  have "(e, lr', w') = (case e1 of None \<Rightarrow> (None, lr1, w1)
      | Some x \<Rightarrow> (Some (if x = EOF then ErrBDATShortSource else IO x), lr1, w1))"
    unfolding assms [symmetric] ReadBDATChunk_def CopyBDATChunk_def
    by (simp only: True option.case c(1) prod.case)
  then have "lr' = lr1" "w' = w1" "e = None \<Longrightarrow> e1 = None" by (cases e1; simp)+
  moreover have "e1 = None \<Longrightarrow> length (concat ps) = unat sz"
    using c(5) by (metis option.distinct(1))
  ultimately show ?thesis using c(2,3,4) that [of ps] by blast
next
  case False
  then obtain x where "(e, lr', w') = (Some x, lr, w)"
    unfolding assms [symmetric] ReadBDATChunk_def CopyBDATChunk_def
    by (cases "setDeadline dl"; cases "checkBDATSize sz lim") simp_all
  then show ?thesis by (intro that [of "[]"]) simp_all
qed

end

text \<open>\<open>io.Discard\<close>.\<close>

definition Discard_Write :: "bytes \<Rightarrow> 'w \<Rightarrow> io_error option \<times> 'w" where
  "Discard_Write p w = (None, w)"

interpretation discard: total_writer Discard_Write
  by unfold_locales (simp add: Discard_Write_def)

interpretation chunk: total_writer "cw_Write fs" for fs
  by unfold_locales (simp add: cw_Write_def split: prod.splits)

lemma write_all_Discard: "write_all Discard_Write ps w = (None, w)"
  by (induction ps) (simp_all add: Discard_Write_def)

section \<open>The invariant of a spool and its accounts\<close>

definition sp_content :: "spool \<Rightarrow> bytes" where
  "sp_content s = (case sp_file s of None \<Rightarrow> sp_memory s | Some f \<Rightarrow> fl_data f)"

definition spool_ok :: "spoolOptions \<Rightarrow> spool \<Rightarrow> bool" where
  "spool_ok opts s \<longleftrightarrow> 0 \<le> sp_size s \<and> sp_size s \<le> so_MaxBytes opts \<and>
     (if sp_closed s then sp_reserved s = 0 \<and> sp_reservedMemory s = 0
      else sp_reserved s = sp_size s \<and>
        (case sp_file s of
           None \<Rightarrow> sp_reservedMemory s = sp_size s \<and> sp_size s = int (length (sp_memory s)) \<and>
                   sp_size s \<le> so_MaxMemoryBytes opts
         | Some f \<Rightarrow> sp_reservedMemory s = 0 \<and> sp_memory s = []))"

text \<open>Writing at the end of the content: until \<open>Reader\<close> rewinds it, the file's offset is its end.\<close>

definition at_end :: "spool \<Rightarrow> bool" where
  "at_end s \<longleftrightarrow> (case sp_file s of None \<Rightarrow> True
     | Some f \<Rightarrow> fl_pos f = length (fl_data f) \<and> sp_size s = int (length (fl_data f)))"

text \<open>What an operation on one spool does to the manager: it moves the totals by what the spool's
  reservations move.\<close>

definition balanced :: "spoolManager \<times> spool \<Rightarrow> spoolManager \<times> spool \<Rightarrow> bool" where
  "balanced = (\<lambda>(m, s) (m', s').
     sm_opts m' = sm_opts m \<and> sm_concurrent m' = sm_concurrent m \<and> sp_closed s' = sp_closed s \<and>
     sm_total m' - sp_reserved s' = sm_total m - sp_reserved s \<and>
     sm_totalMemory m' - sp_reservedMemory s' = sm_totalMemory m - sp_reservedMemory s)"

definition within_budget :: "spoolManager \<Rightarrow> bool" where
  "within_budget m \<longleftrightarrow> spool_problems (sm_opts m) = [] \<and> sm_total m \<le> so_MaxTotalBytes (sm_opts m) \<and>
     sm_totalMemory m \<le> so_MaxTotalMemoryBytes (sm_opts m) \<and>
     sm_concurrent m \<le> so_MaxConcurrent (sm_opts m)"

lemma balanced_refl [simp]: "balanced x x"
  by (cases x) (simp add: balanced_def)

lemma balanced_trans: "balanced x y \<Longrightarrow> balanced y z \<Longrightarrow> balanced x z"
  by (cases x; cases y; cases z) (simp add: balanced_def)

named_theorems spool_defs \<open>definitions of the spool operations and of the invariant\<close>

lemmas [spool_defs] = spool_ok_def at_end_def balanced_def within_budget_def sp_content_def
  sm_reserve_def sm_release_def sm_releaseSpool_def boolBytes_def

lemma file_Write_end:
  assumes "file_Write fs p f = ((n, e), f')"
  shows "n \<le> length p"
    and "fl_pos f = length (fl_data f) \<Longrightarrow> fl_data f' = fl_data f @ take n p \<and> fl_pos f' = length (fl_data f')"
    and "fs_ok fs \<Longrightarrow> e = None \<Longrightarrow> n = length p"
proof -
  have f: "n = min (fst (fs_write fs f p)) (length p)" "e = snd (fs_write fs f p)"
    "fl_data f' = put_at (fl_pos f) (take n p) (fl_data f)" "fl_pos f' = fl_pos f + n"
    using assms by (auto simp: file_Write_def Let_def)
  then show "n \<le> length p" by simp
  with f show "fl_pos f = length (fl_data f) \<Longrightarrow>
      fl_data f' = fl_data f @ take n p \<and> fl_pos f' = length (fl_data f')"
    by (simp add: put_at_def)
  show "fs_ok fs \<Longrightarrow> e = None \<Longrightarrow> n = length p"
    using f(1,2) by (simp add: fs_ok_def)
qed

lemma createUnlinked_empty:
  "createUnlinkedSpoolFile fs dir = Inr (f, path) \<Longrightarrow> f = \<lparr>fl_data = [], fl_pos = 0\<rparr>"
  by (auto simp: createUnlinkedSpoolFile_def split: sum.splits if_splits option.splits)

lemma spillLocked_cases:
  assumes "spillLocked fs (m, s) = (e, (m', s'))"
  obtains (same) "m' = m" "s' = s" "e \<noteq> None \<or> sp_file s \<noteq> None"
  | (spilled) f path n where "e = None" "sp_file s = None" "m' = sm_release 0 (sp_reservedMemory s) m"
      "s' = s\<lparr>sp_reservedMemory := 0, sp_memory := [], sp_file := Some f, sp_path := path\<rparr>"
      "fl_data f = take n (sp_memory s)" "fl_pos f = length (fl_data f)" "fs_ok fs \<longrightarrow> n = length (sp_memory s)"
      "sp_memory s \<noteq> []"
  | (fresh) path where "e = None" "sp_file s = None" "sp_memory s = []" "m' = m"
      "s' = s\<lparr>sp_memory := [], sp_file := Some \<lparr>fl_data = [], fl_pos = 0\<rparr>, sp_path := path\<rparr>"
proof (cases "sp_file s = None")
  case False
  then show ?thesis using assms by (intro same) (auto simp: spillLocked_def)
next
  case None: True
  show ?thesis
  proof (cases "createUnlinkedSpoolFile fs (so_Dir (sm_opts m))")
    case (Inl x)
    then show ?thesis using assms None by (intro same) (auto simp: spillLocked_def)
  next
    case (Inr y)
    then obtain path where c: "createUnlinkedSpoolFile fs (so_Dir (sm_opts m)) = Inr (\<lparr>fl_data = [], fl_pos = 0\<rparr>, path)"
      using createUnlinked_empty by (cases y) blast
    show ?thesis
    proof (cases "sp_memory s = []")
      case True
      then show ?thesis using assms None c by (intro fresh [of path]) (auto simp: spillLocked_def)
    next
      case False
      obtain n x f where w: "file_Write fs (sp_memory s) \<lparr>fl_data = [], fl_pos = 0\<rparr> = ((n, x), f)"
        by (metis surj_pair)
      note facts = file_Write_end [OF w]
      show ?thesis
      proof (cases x)
        case (Some y)
        then show ?thesis using assms None c False w by (intro same) (auto simp: spillLocked_def)
      next
        case no_err: None
        then show ?thesis using assms None c False w facts
          by (intro spilled [of path f n]) (auto simp: spillLocked_def)
      qed
    qed
  qed
qed

lemma spillLocked_effect:
  assumes sp: "spillLocked fs (m, s) = (e, (m', s'))" and ok: "spool_ok (sm_opts m) s" "\<not> sp_closed s"
  shows "balanced (m, s) (m', s')" and "spool_ok (sm_opts m) s'" and "sm_total m' = sm_total m"
    and "sm_totalMemory m' \<le> sm_totalMemory m" and "sp_size s' = sp_size s" and "e = None \<Longrightarrow> sp_file s' \<noteq> None"
    and "e \<noteq> None \<Longrightarrow> m' = m \<and> s' = s"
    and "fs_ok fs \<Longrightarrow> at_end s \<Longrightarrow> sp_content s' = sp_content s \<and> at_end s'"
  using sp by (cases rule: spillLocked_cases; use ok in \<open>simp_all add: spool_defs split: option.splits\<close>)+

lemma storeReserved_effect:
  assumes st: "storeReserved fs memory p (m, s) = ((n, e), (m', s'))"
    and mem: "memory \<longleftrightarrow> sp_file s = None" and ok: "spool_ok (sm_opts m) s" "\<not> sp_closed s"
    and room: "sp_size s + int (length p) \<le> so_MaxBytes (sm_opts m)"
      "memory \<Longrightarrow> sp_size s + int (length p) \<le> so_MaxMemoryBytes (sm_opts m)"
  shows "balanced (m\<lparr>sm_total := sm_total m - int (length p),
           sm_totalMemory := sm_totalMemory m - boolBytes memory (int (length p))\<rparr>, s) (m', s')"
    and "spool_ok (sm_opts m) s'" and "sm_total m' \<le> sm_total m" and "sm_totalMemory m' \<le> sm_totalMemory m"
    and "n \<le> length p" and "e = None \<Longrightarrow> n = length p"
    and "at_end s \<Longrightarrow> sp_content s' = sp_content s @ take n p \<and> at_end s'"
    and "sp_size s' = sp_size s + int n"
proof -
  obtain n1 e1 s1 where st1: "(case sp_file s of
              None \<Rightarrow> (length p, None, s\<lparr>sp_memory := sp_memory s @ p\<rparr>)
            | Some f \<Rightarrow> (case file_Write fs p f of ((n, e), f') \<Rightarrow> (n, e, s\<lparr>sp_file := Some f'\<rparr>))) = (n1, e1, s1)"
    by (metis surj_pair)
  have n: "n = n1" "n \<le> length p" "e = None \<Longrightarrow> n = length p"
    using st st1 by (auto simp: storeReserved_def Let_def split: option.splits prod.splits if_splits
        dest: file_Write_end)
  have m': "m' = m\<lparr>sm_total := sm_total m - (int (length p) - int n),
      sm_totalMemory := sm_totalMemory m - boolBytes memory (int (length p) - int n)\<rparr>"
    using st st1 n by (cases e1) (auto simp: storeReserved_def Let_def sm_release_def boolBytes_def split: if_splits)
  have s': "s' = s1\<lparr>sp_size := sp_size s1 + int n, sp_reserved := sp_reserved s1 + int n,
      sp_reservedMemory := sp_reservedMemory s1 + (if memory then int n else 0)\<rparr>"
    using st st1 n by (cases e1) (auto simp: storeReserved_def Let_def split: if_splits)
  have s1: "sp_size s1 = sp_size s" "sp_reserved s1 = sp_reserved s" "sp_reservedMemory s1 = sp_reservedMemory s"
    "sp_closed s1 = sp_closed s" "memory \<Longrightarrow> sp_file s1 = None \<and> sp_memory s1 = sp_memory s @ p \<and> n = length p"
    "\<not> memory \<Longrightarrow> sp_file s1 \<noteq> None \<and> sp_memory s1 = sp_memory s"
    using st1 mem n(1) by (auto split: option.splits prod.splits)
  show "balanced (m\<lparr>sm_total := sm_total m - int (length p),
           sm_totalMemory := sm_totalMemory m - boolBytes memory (int (length p))\<rparr>, s) (m', s')"
    "sm_total m' \<le> sm_total m" "sm_totalMemory m' \<le> sm_totalMemory m"
    using n(2) by (simp_all add: m' s' s1 balanced_def boolBytes_def)
  show "spool_ok (sm_opts m) s'" using ok room s1 n(2) mem by (auto simp: spool_ok_def s' split: option.splits)
  show "n \<le> length p" "e = None \<Longrightarrow> n = length p" by fact+
  show "sp_size s' = sp_size s + int n" by (simp add: s' s1)
  show "at_end s \<Longrightarrow> sp_content s' = sp_content s @ take n p \<and> at_end s'"
    using st1 n s1 by (auto simp: s' at_end_def sp_content_def split: option.splits prod.splits dest: file_Write_end(2))
qed

text \<open>What every call of \<open>Write\<close> guarantees, from a spool and a manager in order.\<close>

definition write_post ::
  "fs_ops \<Rightarrow> bytes \<Rightarrow> spoolManager \<times> spool \<Rightarrow> (nat \<times> spool_error option) \<times> (spoolManager \<times> spool) \<Rightarrow> bool" where
  "write_post fs p = (\<lambda>(m, s) ((n, e), (m', s')).
     balanced (m, s) (m', s') \<and> spool_ok (sm_opts m) s' \<and> within_budget m' \<and>
     n \<le> length p \<and> (e = None \<longrightarrow> n = length p) \<and> sp_size s' = sp_size s + int n \<and>
     (fs_ok fs \<and> at_end s \<longrightarrow> sp_content s' = sp_content s @ take n p \<and> at_end s'))"

lemma write_post_refused:
  assumes "balanced (m, s) (m', s')" "spool_ok (sm_opts m) s'" "within_budget m'" "sp_size s' = sp_size s"
    and "fs_ok fs \<Longrightarrow> at_end s \<Longrightarrow> sp_content s' = sp_content s \<and> at_end s'"
  shows "write_post fs p (m, s) ((0, Some e), (m', s'))"
  using assms by (simp add: write_post_def)

lemma reserve_store:
  assumes r: "sm_reserve (int (length p)) (boolBytes memory (int (length p))) m1 = (None, m2)"
    and mem: "memory \<longleftrightarrow> sp_file s1 = None" and ok: "spool_ok (sm_opts m1) s1" "\<not> sp_closed s1"
    and room: "sp_size s1 + int (length p) \<le> so_MaxBytes (sm_opts m1)"
      "memory \<Longrightarrow> sp_size s1 + int (length p) \<le> so_MaxMemoryBytes (sm_opts m1)"
    and b: "balanced (m, s) (m1, s1)" "within_budget m1" "sp_size s1 = sp_size s"
    and c: "fs_ok fs \<Longrightarrow> at_end s \<Longrightarrow> sp_content s1 = sp_content s \<and> at_end s1"
  shows "write_post fs p (m, s) (storeReserved fs memory p (m2, s1))"
proof -
  obtain n e m' s' where st: "storeReserved fs memory p (m2, s1) = ((n, e), (m', s'))" by (metis surj_pair)
  from r have m2: "m2 = m1\<lparr>sm_total := sm_total m1 + int (length p),
      sm_totalMemory := sm_totalMemory m1 + boolBytes memory (int (length p))\<rparr>"
    and fits: "int (length p) \<le> so_MaxTotalBytes (sm_opts m1) - sm_total m1"
      "boolBytes memory (int (length p)) \<le> so_MaxTotalMemoryBytes (sm_opts m1) - sm_totalMemory m1"
    by (auto simp: sm_reserve_def split: if_splits)
  have ok2: "spool_ok (sm_opts m2) s1" "sp_size s1 + int (length p) \<le> so_MaxBytes (sm_opts m2)"
    "memory \<Longrightarrow> sp_size s1 + int (length p) \<le> so_MaxMemoryBytes (sm_opts m2)"
    using ok room by (simp_all add: m2)
  note eff = storeReserved_effect [OF st mem ok2(1) ok(2) ok2(2,3)]
  have "balanced (m1, s1) (m', s')" using eff(1) by (simp add: m2)
  moreover have "sm_opts m1 = sm_opts m" using b(1) by (simp add: balanced_def)
  moreover have "within_budget m'"
    using eff(1,3,4) fits b(2) by (auto simp: within_budget_def balanced_def m2)
  ultimately show ?thesis
    using eff(2,5,6,7,8) balanced_trans [OF b(1)] b(3) c st by (auto simp: write_post_def m2)
qed

lemma reserve_refused: "sm_reserve a b m = (Some e, m') \<Longrightarrow> m' = m"
  by (auto simp: sm_reserve_def split: if_splits)

lemma spill_after:
  assumes sp: "spillLocked fs (m1, s1) = (e, (m', s'))" and ok: "spool_ok (sm_opts m1) s1" "\<not> sp_closed s1"
    and b: "balanced (m, s) (m1, s1)" "within_budget m1"
    and c: "fs_ok fs \<Longrightarrow> at_end s \<Longrightarrow> sp_content s1 = sp_content s \<and> at_end s1"
  shows "balanced (m, s) (m', s')" and "spool_ok (sm_opts m') s'" and "within_budget m'" and "\<not> sp_closed s'"
    and "sm_opts m' = sm_opts m" and "sp_size s' = sp_size s1" and "e = None \<Longrightarrow> sp_file s' \<noteq> None"
    and "fs_ok fs \<Longrightarrow> at_end s \<Longrightarrow> sp_content s' = sp_content s \<and> at_end s'"
proof -
  note eff = spillLocked_effect [OF sp ok]
  show bal: "balanced (m, s) (m', s')" by (rule balanced_trans [OF b(1) eff(1)])
  show "sm_opts m' = sm_opts m" using bal by (simp add: balanced_def)
  show "spool_ok (sm_opts m') s'" using eff(1,2) by (simp add: balanced_def)
  show "within_budget m'" using eff(1,3,4) b(2) by (auto simp: within_budget_def balanced_def)
  show "\<not> sp_closed s'" using eff(1) ok(2) by (simp add: balanced_def)
  show "sp_size s' = sp_size s1" "e = None \<Longrightarrow> sp_file s' \<noteq> None" by (fact eff(5), fact eff(6))
  show "fs_ok fs \<Longrightarrow> at_end s \<Longrightarrow> sp_content s' = sp_content s \<and> at_end s'" using eff(8) c by auto
qed

lemma first_spill:
  assumes ok: "spool_ok (sm_opts m) s" "\<not> sp_closed s" and budget: "within_budget m"
    and s1: "(if sp_file s = None \<and> sp_size s + int (length p) > so_MaxMemoryBytes (sm_opts m)
      then spillLocked fs (m, s) else (None, (m, s))) = (e1, (m1, s1))"
  shows "balanced (m, s) (m1, s1)" "spool_ok (sm_opts m1) s1" "within_budget m1" "\<not> sp_closed s1"
    "sm_opts m1 = sm_opts m" "sp_size s1 = sp_size s"
    and "fs_ok fs \<Longrightarrow> at_end s \<Longrightarrow> sp_content s1 = sp_content s \<and> at_end s1"
    and "sp_file s1 = None \<Longrightarrow> e1 = None \<Longrightarrow> sp_size s1 + int (length p) \<le> so_MaxMemoryBytes (sm_opts m1)"
proof -
  consider (sp) "spillLocked fs (m, s) = (e1, (m1, s1))"
    | (same) "m1 = m" "s1 = s" "sp_file s = None \<longrightarrow> sp_size s + int (length p) \<le> so_MaxMemoryBytes (sm_opts m)"
    using s1 by (cases "sp_file s = None \<and> sp_size s + int (length p) > so_MaxMemoryBytes (sm_opts m)") auto
  then have "balanced (m, s) (m1, s1) \<and> spool_ok (sm_opts m1) s1 \<and> within_budget m1 \<and> \<not> sp_closed s1 \<and>
    sm_opts m1 = sm_opts m \<and> sp_size s1 = sp_size s \<and>
    (fs_ok fs \<longrightarrow> at_end s \<longrightarrow> sp_content s1 = sp_content s \<and> at_end s1) \<and>
    (sp_file s1 = None \<longrightarrow> e1 = None \<longrightarrow> sp_size s1 + int (length p) \<le> so_MaxMemoryBytes (sm_opts m1))"
  proof cases
    case sp
    note g = spill_after [OF sp ok balanced_refl budget]
    then show ?thesis by blast
  next
    case same
    with ok budget show ?thesis by simp
  qed
  then show "balanced (m, s) (m1, s1)" "spool_ok (sm_opts m1) s1" "within_budget m1" "\<not> sp_closed s1"
    "sm_opts m1 = sm_opts m" "sp_size s1 = sp_size s"
    "fs_ok fs \<Longrightarrow> at_end s \<Longrightarrow> sp_content s1 = sp_content s \<and> at_end s1"
    "sp_file s1 = None \<Longrightarrow> e1 = None \<Longrightarrow> sp_size s1 + int (length p) \<le> so_MaxMemoryBytes (sm_opts m1)"
    by blast+
qed

lemma second_spill:
  assumes ok: "spool_ok (sm_opts m1) s1" "\<not> sp_closed s1"
    and b: "balanced (m, s) (m1, s1)" "within_budget m1" "sp_size s1 = sp_size s"
    and c: "fs_ok fs \<Longrightarrow> at_end s \<Longrightarrow> sp_content s1 = sp_content s \<and> at_end s1"
    and room: "sp_size s1 + int (length p) \<le> so_MaxBytes (sm_opts m1)"
  shows "write_post fs p (m, s)
    (case spillLocked fs (m1, s1) of
       (Some e', ms) \<Rightarrow> ((0, Some e'), ms)
     | (None, (m3, s3)) \<Rightarrow>
         (case sm_reserve (int (length p)) 0 m3 of
            (Some e', m4) \<Rightarrow> ((0, Some e'), (m4, s3))
          | (None, m4) \<Rightarrow> storeReserved fs False p (m4, s3)))"
proof -
  obtain e3 m3 s3 where sp: "spillLocked fs (m1, s1) = (e3, (m3, s3))" by (metis surj_pair)
  note g = spill_after [OF sp ok b(1,2) c] b(3)
  obtain e4 m4 where r4: "sm_reserve (int (length p)) 0 m3 = (e4, m4)" by (metis surj_pair)
  have "m4 = m3" if "e4 \<noteq> None" using r4 reserve_refused that by blast
  moreover have "sm_opts m1 = sm_opts m" using b(1) by (simp add: balanced_def)
  ultimately show ?thesis
    unfolding sp prod.case using g r4 room
    by (cases e3; cases e4)
      (auto intro!: write_post_refused reserve_store [of p False m3 m4 s3 m s fs] simp: boolBytes_def)
qed

lemma spool_Write_unfold:
  assumes "\<not> sp_closed s" "p \<noteq> []" "sp_size s + int (length p) \<le> so_MaxBytes (sm_opts m)"
    and "(if sp_file s = None \<and> sp_size s + int (length p) > so_MaxMemoryBytes (sm_opts m)
      then spillLocked fs (m, s) else (None, (m, s))) = (e1, (m1, s1))"
    and "sm_reserve (int (length p)) (boolBytes (sp_file s1 = None) (int (length p))) m1 = (e2, m2)"
  shows "spool_Write fs p (m, s) = (case e1 of Some e \<Rightarrow> ((0, Some e), (m1, s1)) | None \<Rightarrow>
      (case e2 of None \<Rightarrow> storeReserved fs (sp_file s1 = None) p (m2, s1)
       | Some e \<Rightarrow>
           if sp_file s1 = None \<and> e = errSpoolMemoryExhausted then
             (case spillLocked fs (m2, s1) of
                (Some e', ms) \<Rightarrow> ((0, Some e'), ms)
              | (None, (m3, s3)) \<Rightarrow>
                  (case sm_reserve (int (length p)) 0 m3 of
                     (Some e', m4) \<Rightarrow> ((0, Some e'), (m4, s3))
                   | (None, m4) \<Rightarrow> storeReserved fs False p (m4, s3)))
           else ((0, Some e), (m2, s1))))"
proof -
  from assms(3) have "\<not> int (length p) > so_MaxBytes (sm_opts m) - sp_size s" by simp
  with assms show ?thesis
    unfolding spool_Write_def prod.case by (cases e1; cases e2; simp add: Let_def del: split_paired_All)
qed

lemma spool_Write_post:
  assumes ok: "spool_ok (sm_opts m) s" and budget: "within_budget m"
  shows "write_post fs p (m, s) (spool_Write fs p (m, s))"
proof (cases "sp_closed s \<or> p = [] \<or> int (length p) > so_MaxBytes (sm_opts m) - sp_size s")
  case True
  then have "\<exists>e. spool_Write fs p (m, s) = ((0, e), (m, s)) \<and> (e = None \<longrightarrow> p = [])"
    unfolding spool_Write_def prod.case by (simp only: if_split_eq1 disj_imp) auto
  then show ?thesis using assms by (auto simp: write_post_def)
next
  case False
  then have open_s: "\<not> sp_closed s" "p \<noteq> []" and room: "sp_size s + int (length p) \<le> so_MaxBytes (sm_opts m)" by auto
  obtain e1 m1 s1 where s1: "(if sp_file s = None \<and> sp_size s + int (length p) > so_MaxMemoryBytes (sm_opts m)
      then spillLocked fs (m, s) else (None, (m, s))) = (e1, (m1, s1))" by (rule prod_cases3) (rule that)
  note f = first_spill(1-7) [OF ok open_s(1) budget s1] and mem = first_spill(8) [OF ok open_s(1) budget s1]
  let ?mem = "sp_file s1 = None"
  obtain e2 m2 where r: "sm_reserve (int (length p)) (boolBytes ?mem (int (length p))) m1 = (e2, m2)"
    by (metis surj_pair)
  note W = spool_Write_unfold [OF open_s room s1 r]
  show ?thesis
  proof (cases e1)
    case (Some e)
    with W f show ?thesis by (auto intro!: write_post_refused)
  next
    case e1: None
    show ?thesis
    proof (cases e2)
      case None
      with W e1 r f mem room show ?thesis by (auto intro!: reserve_store [of p ?mem m1 m2 s1 m s fs])
    next
      case (Some e)
      then have m2: "m2 = m1" using r reserve_refused by blast
      show ?thesis
      proof (cases "?mem \<and> e = errSpoolMemoryExhausted")
        case False
        with W e1 Some m2 f show ?thesis by (auto intro!: write_post_refused)
      next
        case True
        with W e1 Some m2 f room show ?thesis
          by (simp only: option.case simp_thms if_True) (rule second_spill; simp)
      qed
    qed
  qed
qed

section \<open>Any number of spools\<close>

lemma spool_Reader_ok:
  "spool_Reader fs s = (r, s') \<Longrightarrow> spool_ok opts s \<Longrightarrow>
     spool_ok opts s' \<and> sp_reserved s' = sp_reserved s \<and> sp_reservedMemory s' = sp_reservedMemory s \<and>
     sp_closed s' = sp_closed s"
  by (auto simp: spool_Reader_def spool_ok_def split: if_splits option.splits)

text \<open>The server's store: the manager and every spool it ever handed out, and one operation on one
  spool at a time, in any order.\<close>

inductive spool_step :: "fs_ops \<Rightarrow> spoolManager \<times> spool list \<Rightarrow> spoolManager \<times> spool list \<Rightarrow> bool" for fs where
  do_new: "newSpool m = (Inr s, m') \<Longrightarrow> spool_step fs (m, ss) (m', ss @ [s])"
| do_write: "i < length ss \<Longrightarrow> spool_Write fs p (m, ss ! i) = (r, (m', s')) \<Longrightarrow>
    spool_step fs (m, ss) (m', ss[i := s'])"
| do_reader: "i < length ss \<Longrightarrow> spool_Reader fs (ss ! i) = (r, s') \<Longrightarrow> spool_step fs (m, ss) (m, ss[i := s'])"
| do_close: "i < length ss \<Longrightarrow> spool_Close fs (m, ss ! i) = (r, (m', s')) \<Longrightarrow>
    spool_step fs (m, ss) (m', ss[i := s'])"

inductive_cases spool_stepE: "spool_step fs ms ms'"

definition open_count :: "spool list \<Rightarrow> int" where
  "open_count ss = (\<Sum>s\<leftarrow>ss. if sp_closed s then 0 else 1)"

definition spools_inv :: "spoolManager \<times> spool list \<Rightarrow> bool" where
  "spools_inv = (\<lambda>(m, ss).
     within_budget m \<and> list_all (spool_ok (sm_opts m)) ss \<and>
     sm_total m = (\<Sum>s\<leftarrow>ss. sp_reserved s) \<and> sm_totalMemory m = (\<Sum>s\<leftarrow>ss. sp_reservedMemory s) \<and>
     sm_concurrent m = open_count ss)"

lemma sum_list_map_update:
  fixes f :: "'a \<Rightarrow> int"
  assumes "i < length xs"
  shows "(\<Sum>x\<leftarrow>xs[i := y]. f x) = (\<Sum>x\<leftarrow>xs. f x) - f (xs ! i) + f y"
  using assms
proof (induction xs arbitrary: i)
  case (Cons x xs)
  then show ?case by (cases i) auto
qed simp

lemma spools_inv_update:
  assumes inv: "spools_inv (m, ss)" and i: "i < length ss"
    and ok: "spool_ok (sm_opts m) s'" and budget: "within_budget m'" and opts: "sm_opts m' = sm_opts m"
    and tot: "sm_total m' - sp_reserved s' = sm_total m - sp_reserved (ss ! i)"
      "sm_totalMemory m' - sp_reservedMemory s' = sm_totalMemory m - sp_reservedMemory (ss ! i)"
      "sm_concurrent m' - (if sp_closed s' then 0 else 1) = sm_concurrent m - (if sp_closed (ss ! i) then 0 else 1)"
  shows "spools_inv (m', ss[i := s'])"
proof -
  have "spool_ok (sm_opts m) x" if "x \<in> set (ss[i := s'])" for x
    using set_update_subset_insert [of ss i s'] that ok inv by (auto simp: spools_inv_def list_all_iff)
  then show ?thesis
    using inv budget opts tot sum_list_map_update [OF i]
    by (auto simp: spools_inv_def open_count_def list_all_iff)
qed

lemma spools_inv_nth:
  "spools_inv (m, ss) \<Longrightarrow> i < length ss \<Longrightarrow> spool_ok (sm_opts m) (ss ! i) \<and> within_budget m"
  by (simp add: spools_inv_def list_all_length)

lemma spool_Close_effect:
  assumes "spool_Close fs (m, s) = (r, (m', s'))" and "spool_ok (sm_opts m) s" and "within_budget m"
  shows "sp_closed s'" and "spool_ok (sm_opts m) s'" and "within_budget m'" and "sm_opts m' = sm_opts m"
    and "sm_total m' - sp_reserved s' = sm_total m - sp_reserved s"
    and "sm_totalMemory m' - sp_reservedMemory s' = sm_totalMemory m - sp_reservedMemory s"
    and "sm_concurrent m' = sm_concurrent m - (if sp_closed s then 0 else 1)"
proof -
  have "m' = (if sp_closed s then m else sm_releaseSpool (sp_reserved s) (sp_reservedMemory s) m)"
    "s' = (if sp_closed s then s else s\<lparr>sp_closed := True, sp_reserved := 0, sp_reservedMemory := 0\<rparr>)"
    using assms(1) by (simp_all add: spool_Close_def Let_def split: if_splits)
  moreover have "0 \<le> sp_reserved s" "0 \<le> sp_reservedMemory s"
    using assms(2) by (auto simp: spool_ok_def split: if_splits option.splits)
  ultimately show "sp_closed s'" "spool_ok (sm_opts m) s'" "within_budget m'" "sm_opts m' = sm_opts m"
    "sm_total m' - sp_reserved s' = sm_total m - sp_reserved s"
    "sm_totalMemory m' - sp_reservedMemory s' = sm_totalMemory m - sp_reservedMemory s"
    "sm_concurrent m' = sm_concurrent m - (if sp_closed s then 0 else 1)"
    using assms(2,3) by (simp_all add: sm_releaseSpool_def within_budget_def spool_ok_def split: if_splits)
qed

lemma empty_spool_ok: "within_budget m \<Longrightarrow> spool_ok (sm_opts m) empty_spool"
  by (auto simp: within_budget_def spool_problems_def spool_ok_def empty_spool_def split: if_splits)

lemma spools_inv_step:
  assumes "spool_step fs ms ms'" and "spools_inv ms"
  shows "spools_inv ms'"
  using assms
proof cases
  case (do_new m s m' ss)
  then have "s = empty_spool" "m' = m\<lparr>sm_concurrent := sm_concurrent m + 1\<rparr>"
    "sm_concurrent m < so_MaxConcurrent (sm_opts m)"
    by (auto simp: newSpool_def split: if_splits)
  moreover have "spool_ok (sm_opts m) empty_spool"
    using do_new(1) assms(2) by (simp add: spools_inv_def empty_spool_ok)
  ultimately show ?thesis using do_new(1,2) assms(2)
    by (simp add: spools_inv_def within_budget_def open_count_def empty_spool_def)
next
  case (do_write i ss p m r m' s')
  then have "spool_ok (sm_opts m) (ss ! i)" "within_budget m" using assms(2) spools_inv_nth by blast+
  from spool_Write_post [OF this, of fs p] do_write(4) have "balanced (m, ss ! i) (m', s')"
    "spool_ok (sm_opts m) s'" "within_budget m'" by (auto simp: write_post_def split: prod.splits)
  with do_write assms(2) show ?thesis
    by (auto intro!: spools_inv_update simp: balanced_def)
next
  case (do_reader i ss r s' m)
  then have "spool_ok (sm_opts m) (ss ! i)" "within_budget m" using assms(2) spools_inv_nth by blast+
  with do_reader assms(2) spool_Reader_ok [OF do_reader(4)] show ?thesis
    by (auto intro!: spools_inv_update)
next
  case (do_close i ss m r m' s')
  then have "spool_ok (sm_opts m) (ss ! i)" "within_budget m" using assms(2) spools_inv_nth by blast+
  with do_close assms(2) spool_Close_effect [OF do_close(4)] show ?thesis
    by (auto intro!: spools_inv_update)
qed

text \<open>The states of the store from its construction on.\<close>

inductive spools_reach :: "fs_ops \<Rightarrow> bytes \<Rightarrow> spoolOptions \<Rightarrow> spoolManager \<times> spool list \<Rightarrow> bool" for fs tmp opts where
  start: "newSpoolManager tmp opts = Inr m \<Longrightarrow> spools_reach fs tmp opts (m, [])"
| more: "spools_reach fs tmp opts ms \<Longrightarrow> spool_step fs ms ms' \<Longrightarrow> spools_reach fs tmp opts ms'"

lemma newSpoolManager_inv:
  assumes "newSpoolManager tmp opts = Inr m"
  shows "spools_inv (m, [])" and "so_MaxBytes (sm_opts m) = so_MaxBytes opts"
    and "so_MaxMemoryBytes (sm_opts m) = so_MaxMemoryBytes opts"
    and "so_MaxTotalBytes (sm_opts m) = so_MaxTotalBytes opts"
    and "so_MaxTotalMemoryBytes (sm_opts m) = so_MaxTotalMemoryBytes opts"
    and "so_MaxConcurrent (sm_opts m) = so_MaxConcurrent opts"
  using assms
  by (auto simp: newSpoolManager_def spools_inv_def within_budget_def open_count_def spool_problems_def
      split: if_splits)

lemma spool_step_opts: "spool_step fs ms ms' \<Longrightarrow> spools_inv ms \<Longrightarrow> sm_opts (fst ms') = sm_opts (fst ms)"
proof (induction rule: spool_step.induct)
  case (do_new m s m' ss)
  then show ?case by (auto simp: newSpool_def split: if_splits)
next
  case (do_write i ss p m r m' s')
  then have "spool_ok (sm_opts m) (ss ! i)" "within_budget m" using spools_inv_nth by blast+
  from spool_Write_post [OF this, of fs p] do_write(2) show ?case
    by (simp add: write_post_def balanced_def split: prod.splits)
next
  case (do_close i ss m r m' s')
  then show ?case using spools_inv_nth spool_Close_effect(4) by fastforce
qed simp

lemma spools_reach_inv:
  "spools_reach fs tmp opts ms \<Longrightarrow> spools_inv ms \<and>
     so_MaxBytes (sm_opts (fst ms)) = so_MaxBytes opts \<and>
     so_MaxMemoryBytes (sm_opts (fst ms)) = so_MaxMemoryBytes opts \<and>
     so_MaxTotalBytes (sm_opts (fst ms)) = so_MaxTotalBytes opts \<and>
     so_MaxTotalMemoryBytes (sm_opts (fst ms)) = so_MaxTotalMemoryBytes opts \<and>
     so_MaxConcurrent (sm_opts (fst ms)) = so_MaxConcurrent opts"
proof (induction rule: spools_reach.induct)
  case (start m)
  then show ?case using newSpoolManager_inv [of tmp opts m] by simp
next
  case (more ms ms')
  then show ?case using spools_inv_step spool_step_opts by simp
qed

section \<open>The chunk writer\<close>

definition cw_ok :: "chunk_writer \<Rightarrow> bool" where
  "cw_ok w \<longleftrightarrow> within_budget (cw_manager w) \<and> spool_ok (sm_opts (cw_manager w)) (cw_spool w)"

lemma cw_Write_effect:
  assumes "cw_Write fs p w = (e, w')" and "cw_ok w"
  shows "cw_ok w' \<and> balanced (cw_manager w, cw_spool w) (cw_manager w', cw_spool w') \<and>
    (fs_ok fs \<and> at_end (cw_spool w) \<longrightarrow> at_end (cw_spool w')) \<and>
    (fs_ok fs \<and> at_end (cw_spool w) \<and> cw_err w' = None \<longrightarrow>
       sp_content (cw_spool w') = sp_content (cw_spool w) @ p \<and> cw_err w = None)"
proof (cases "cw_err w = None")
  case False
  with assms have "w' = w" by (simp add: cw_Write_def)
  with assms(2) False show ?thesis by auto
next
  case True
  obtain n e' m' s' where W: "spool_Write fs p (cw_manager w, cw_spool w) = ((n, e'), (m', s'))"
    by (metis surj_pair)
  with True assms(1) have w': "w' = \<lparr>cw_manager = m', cw_spool = s', cw_err = e'\<rparr>"
    by (simp add: cw_Write_def)
  have "write_post fs p (cw_manager w, cw_spool w) ((n, e'), (m', s'))"
    using spool_Write_post [of "cw_manager w" "cw_spool w" fs p] assms(2) W by (simp add: cw_ok_def)
  then have post: "balanced (cw_manager w, cw_spool w) (m', s')" "spool_ok (sm_opts (cw_manager w)) s'"
    "within_budget m'" "e' = None \<Longrightarrow> n = length p"
    "fs_ok fs \<Longrightarrow> at_end (cw_spool w) \<Longrightarrow> sp_content s' = sp_content (cw_spool w) @ take n p \<and> at_end s'"
    by (simp_all add: write_post_def)
  from post(1) have "sm_opts m' = sm_opts (cw_manager w)" by (simp add: balanced_def)
  with post True show ?thesis by (simp add: w' cw_ok_def)
qed

lemma cw_write_all:
  assumes "write_all (cw_Write fs) ps w = (e, w')" and "cw_ok w"
  shows "cw_ok w' \<and> balanced (cw_manager w, cw_spool w) (cw_manager w', cw_spool w') \<and>
    (fs_ok fs \<and> at_end (cw_spool w) \<longrightarrow> at_end (cw_spool w')) \<and>
    (fs_ok fs \<and> at_end (cw_spool w) \<and> cw_err w' = None \<longrightarrow>
       sp_content (cw_spool w') = sp_content (cw_spool w) @ concat ps \<and> cw_err w = None)"
  using assms
proof (induction ps arbitrary: w)
  case (Cons p ps)
  obtain w1 where w1: "cw_Write fs p w = (None, w1)"
    using chunk.never_fails [of fs p w] by (cases "cw_Write fs p w") auto
  from Cons.IH [of w1] Cons.prems(1) w1 cw_Write_effect [OF w1 Cons.prems(2)] show ?case
    using balanced_trans by simp blast
qed simp

lemma spool_ok_reserved:
  assumes "spool_ok opts s"
  shows "sp_reserved s = (if sp_closed s then 0 else sp_size s)"
    and "sp_reservedMemory s = (if sp_closed s then 0 else int (length (sp_memory s)))"
    and "sp_size s \<le> so_MaxBytes opts" and "0 \<le> sp_size s"
    and "0 \<le> so_MaxMemoryBytes opts \<Longrightarrow> \<not> sp_closed s \<Longrightarrow> int (length (sp_memory s)) \<le> so_MaxMemoryBytes opts"
  using assms by (auto simp: spool_ok_def split: if_splits option.splits)

text \<open>When the file system works, only the octet limits refuse a write: a shortage of memory
  spills instead.\<close>

definition fs_works :: "fs_ops \<Rightarrow> bool" where
  "fs_works fs \<longleftrightarrow> fs_ok fs \<and> (\<forall>d. is_ok (fs_create fs d)) \<and> (\<forall>p. fs_remove fs p = None) \<and>
     (\<forall>f p. snd (fs_write fs f p) = None)"

lemma file_Write_works: "fs_works fs \<Longrightarrow> snd (fst (file_Write fs p f)) = None"
  by (simp add: fs_works_def file_Write_def Let_def)

lemma spillLocked_works:
  assumes w: "fs_works fs"
  shows "fst (spillLocked fs (m, s)) = None"
proof -
  obtain x where x: "fs_create fs (so_Dir (sm_opts m)) = Inr x"
    using w by (meson fs_works_def is_ok_iff)
  have "fs_remove fs x = None" using w by (simp add: fs_works_def)
  with x obtain f path where "createUnlinkedSpoolFile fs (so_Dir (sm_opts m)) = Inr (f, path)"
    by (cases "fs_windows fs") (simp_all add: createUnlinkedSpoolFile_def)
  moreover obtain n f' where "file_Write fs (sp_memory s) f = ((n, None), f')"
    using file_Write_works [OF w, of "sp_memory s" f] by (metis prod.collapse)
  ultimately show ?thesis by (simp add: spillLocked_def)
qed

lemma storeReserved_works:
  assumes "fs_works fs"
  shows "snd (fst (storeReserved fs memory p (m, s))) = None"
proof (cases "sp_file s")
  case None
  then show ?thesis by (simp add: storeReserved_def)
next
  case (Some f)
  obtain n e f' where w: "file_Write fs p f = ((n, e), f')" by (metis surj_pair)
  with file_Write_works [OF assms, of p f] file_Write_end(3) [OF w] assms have "e = None" "n = length p"
    by (simp_all add: fs_works_def)
  with Some w show ?thesis by (simp add: storeReserved_def)
qed

lemma reserve_fits:
  assumes "sm_total m + n \<le> so_MaxTotalBytes (sm_opts m)" and "sm_reserve n k m = (Some e, m')"
  shows "e = errSpoolMemoryExhausted" and "k \<le> 0 \<Longrightarrow> \<not> within_budget m"
  using assms by (auto simp: sm_reserve_def within_budget_def split: if_splits)

lemma spool_Write_works:
  assumes fs: "fs_works fs" and ok: "spool_ok (sm_opts m) s" "\<not> sp_closed s" and budget: "within_budget m"
    and room: "sp_size s + int (length p) \<le> so_MaxBytes (sm_opts m)"
      "sm_total m + int (length p) \<le> so_MaxTotalBytes (sm_opts m)"
  shows "snd (fst (spool_Write fs p (m, s))) = None"
proof (cases "p = []")
  case True
  with ok show ?thesis by (simp add: spool_Write_def)
next
  case False
  obtain e1 m1 s1 where s1: "(if sp_file s = None \<and> sp_size s + int (length p) > so_MaxMemoryBytes (sm_opts m)
      then spillLocked fs (m, s) else (None, (m, s))) = (e1, (m1, s1))" by (rule prod_cases3) (rule that)
  have e1: "e1 = None" using s1 spillLocked_works [OF fs, of m s] by (auto split: if_splits)
  note f = first_spill [OF ok budget s1]
  obtain e2 m2 where r: "sm_reserve (int (length p)) (boolBytes (sp_file s1 = None) (int (length p))) m1 = (e2, m2)"
    by (metis surj_pair)
  obtain m3 s3 where sp: "spillLocked fs (m1, s1) = (None, (m3, s3))"
    using spillLocked_works [OF fs, of m1 s1] by (metis prod.collapse)
  obtain e4 m4 where r4: "sm_reserve (int (length p)) 0 m3 = (e4, m4)" by (metis surj_pair)
  have "sp_reserved s1 = sp_reserved s"
    using f(2,4,6) ok spool_ok_reserved(1) by simp
  then have tot: "sm_total m1 + int (length p) \<le> so_MaxTotalBytes (sm_opts m1)"
    using f(1,5) room(2) by (simp add: balanced_def)
  then have e2: "e2 = None \<or> e2 = Some errSpoolMemoryExhausted \<and> sp_file s1 = None \<and> m2 = m1"
    using reserve_fits [of m1 _ _ _ m2] r f(3) reserve_refused by (cases e2) (fastforce simp: boolBytes_def split: if_splits)+
  have "sm_total m3 + int (length p) \<le> so_MaxTotalBytes (sm_opts m3)"
    using tot spillLocked_effect(3) [OF sp f(2,4)] spill_after(5) [OF sp f(2,4,1,3,7)] f(5) by simp
  moreover have "within_budget m3" by (rule spill_after(3) [OF sp f(2,4,1,3,7)])
  ultimately have "e4 = None" using r4 reserve_fits(2) by (cases e4) fastforce+
  with e1 e2 sp r4 show ?thesis
    unfolding spool_Write_unfold [OF ok(2) False room(1) s1 r] using storeReserved_works [OF fs] by auto
qed

lemma cw_works:
  assumes "fs_works fs" and "cw_ok w" and "\<not> sp_closed (cw_spool w)" and "cw_err w = None"
    and "sp_size (cw_spool w) + int (length (concat ps)) \<le> so_MaxBytes (sm_opts (cw_manager w))"
    and "sm_total (cw_manager w) + int (length (concat ps)) \<le> so_MaxTotalBytes (sm_opts (cw_manager w))"
  shows "cw_err (snd (write_all (cw_Write fs) ps w)) = None"
  using assms(2-6)
proof (induction ps arbitrary: w)
  case (Cons p ps)
  obtain n e m' s' where W: "spool_Write fs p (cw_manager w, cw_spool w) = ((n, e), (m', s'))"
    by (metis surj_pair)
  have ok: "spool_ok (sm_opts (cw_manager w)) (cw_spool w)" "within_budget (cw_manager w)"
    using Cons.prems(1) by (simp_all add: cw_ok_def)
  then have e: "e = None"
    using spool_Write_works [OF assms(1) ok(1) Cons.prems(2) ok(2), of p] Cons.prems(4,5) W by simp
  from spool_Write_post [OF ok, of fs p] W e
  have post: "balanced (cw_manager w, cw_spool w) (m', s')" "spool_ok (sm_opts (cw_manager w)) s'"
    "within_budget m'" "sp_size s' = sp_size (cw_spool w) + int (length p)"
    by (simp_all add: write_post_def)
  have bal: "sm_opts m' = sm_opts (cw_manager w)" "\<not> sp_closed s'"
    "sm_total m' - sp_reserved s' = sm_total (cw_manager w) - sp_reserved (cw_spool w)"
    using post(1) Cons.prems(2) by (simp_all add: balanced_def)
  then have tot: "sm_total m' = sm_total (cw_manager w) + int (length p)"
    using post(4) Cons.prems(2) spool_ok_reserved(1) [OF ok(1)] spool_ok_reserved(1) [OF post(2)] by simp
  define w1 where "w1 = \<lparr>cw_manager = m', cw_spool = s', cw_err = None :: spool_error option\<rparr>"
  have "cw_err (snd (write_all (cw_Write fs) ps w1)) = None"
    by (rule Cons.IH) (use post bal tot Cons.prems in \<open>simp_all add: w1_def cw_ok_def\<close>)
  moreover have "cw_Write fs p w = (None, w1)"
    using W e Cons.prems(3) by (simp add: cw_Write_def w1_def)
  ultimately show ?case by simp
qed simp

text \<open>What a reader of the store will deliver.\<close>

fun reader_content :: "spool_reader \<Rightarrow> bytes" where
  "reader_content (MemReader d) = d"
| "reader_content (FileReader f) = drop (fl_pos f) (fl_data f)"

lemma spool_Reader_content:
  "spool_Reader fs s = (Inr rd, s') \<Longrightarrow> reader_content rd = sp_content s"
  by (auto simp: spool_Reader_def sp_content_def split: if_splits option.splits)

section \<open>Properties\<close>

text \<open>C25: The store's budgets hold for every interleaving. In every state reachable by creating,
  writing, rewinding and closing any spools in any order, whatever the file system answers, the
  manager's totals are exactly what the open spools hold, they are within the configured limits,
  and so is every single spool; in particular the totals are zero again once every spool is closed.\<close>

theorem spool_budgets:
  assumes "spools_reach fs tmp opts (m, ss)"
  shows "sm_usage m = ((\<Sum>s\<leftarrow>ss. if sp_closed s then 0 else sp_size s),
           (\<Sum>s\<leftarrow>ss. if sp_closed s then 0 else int (length (sp_memory s))), open_count ss)
     \<and> sm_total m \<le> so_MaxTotalBytes opts \<and> sm_totalMemory m \<le> so_MaxTotalMemoryBytes opts
     \<and> sm_concurrent m \<le> so_MaxConcurrent opts
     \<and> list_all (\<lambda>s. 0 \<le> sp_size s \<and> sp_size s \<le> so_MaxBytes opts) ss
     \<and> list_all (\<lambda>s. sp_closed s \<or> int (length (sp_memory s)) \<le> so_MaxMemoryBytes opts) ss"
proof -
  from spools_reach_inv [OF assms] have inv: "spools_inv (m, ss)"
    and o: "so_MaxBytes (sm_opts m) = so_MaxBytes opts" "so_MaxMemoryBytes (sm_opts m) = so_MaxMemoryBytes opts"
      "so_MaxTotalBytes (sm_opts m) = so_MaxTotalBytes opts"
      "so_MaxTotalMemoryBytes (sm_opts m) = so_MaxTotalMemoryBytes opts"
      "so_MaxConcurrent (sm_opts m) = so_MaxConcurrent opts" by auto
  from inv have ok: "spool_ok (sm_opts m) s" if "s \<in> set ss" for s
    using that by (simp add: spools_inv_def list_all_iff)
  from inv have pos: "0 \<le> so_MaxMemoryBytes opts"
    by (auto simp: spools_inv_def within_budget_def spool_problems_def o split: if_splits)
  have "map sp_reserved ss = map (\<lambda>s. if sp_closed s then 0 else sp_size s) ss"
    "map sp_reservedMemory ss = map (\<lambda>s. if sp_closed s then 0 else int (length (sp_memory s))) ss"
    using spool_ok_reserved(1,2) [OF ok] by (auto intro: map_cong)
  with inv have "sm_usage m = ((\<Sum>s\<leftarrow>ss. if sp_closed s then 0 else sp_size s),
           (\<Sum>s\<leftarrow>ss. if sp_closed s then 0 else int (length (sp_memory s))), open_count ss)"
    by (simp add: sm_usage_def spools_inv_def)
  moreover have "within_budget m" using inv by (simp add: spools_inv_def)
  ultimately show ?thesis
    using spool_ok_reserved(3-5) [OF ok] pos by (auto simp: within_budget_def o list_all_iff)
qed

text \<open>A file system that always succeeds, and small limits: the third octet spills.\<close>

definition plain_fs :: fs_ops where
  "plain_fs = \<lparr>fs_windows = False, fs_create = (\<lambda>_. Inr ''spool''), fs_remove = (\<lambda>_. None),
     fs_not_exist = (\<lambda>_. False), fs_write = (\<lambda>_ p. (length p, None)), fs_read = (\<lambda>_ _. None),
     fs_seek = (\<lambda>_. None), fs_close = (\<lambda>_. None)\<rparr>"

lemma plain_fs_ok: "fs_ok plain_fs"
  by (simp add: fs_ok_def plain_fs_def)

definition small_limits :: spoolOptions where
  "small_limits = \<lparr>so_MaxBytes = 6, so_MaxMemoryBytes = 2, so_MaxTotalBytes = 8,
     so_MaxTotalMemoryBytes = 3, so_MaxConcurrent = 2, so_Dir = ''/var''\<rparr>"

definition small_manager :: spoolManager where
  "small_manager = \<lparr>sm_opts = small_limits, sm_total = 0, sm_totalMemory = 0, sm_concurrent = 0\<rparr>"

lemma small_manager_new: "newSpoolManager [] small_limits = Inr small_manager"
  by code_simp

lemma small_manager_budget: "within_budget small_manager"
  using newSpoolManager_inv(1) [OF small_manager_new] by (simp add: spools_inv_def)

theorem spool_budgets_witness:
  "\<exists>m ss. spools_reach plain_fs [] small_limits (m, ss) \<and> length ss = 2 \<and> sm_usage m = (7, 2, 2) \<and>
     sm_total m \<le> so_MaxTotalBytes small_limits"
proof -
  define m1 where "m1 = small_manager\<lparr>sm_concurrent := 1\<rparr>"
  define m2 where "m2 = small_manager\<lparr>sm_concurrent := 2\<rparr>"
  define r3 where "r3 = spool_Write plain_fs ''hello'' (m2, empty_spool)"
  define r4 where "r4 = spool_Write plain_fs ''ok'' (fst (snd r3), empty_spool)"
  have 1: "newSpool small_manager = (Inr empty_spool, m1)" "newSpool m1 = (Inr empty_spool, m2)"
    unfolding m1_def m2_def by code_simp+
  have "spools_reach plain_fs [] small_limits (m2, [empty_spool, empty_spool])"
    using spools_reach.more [OF spools_reach.more [OF spools_reach.start [OF small_manager_new]
          spool_step.do_new [OF 1(1)]] spool_step.do_new [OF 1(2)]] by simp
  moreover have "spool_step plain_fs (m2, [empty_spool, empty_spool]) (fst (snd r3), [empty_spool, snd (snd r3)])"
    using spool_step.do_write [of 1 "[empty_spool, empty_spool]" plain_fs "''hello''" m2 "fst r3" "fst (snd r3)" "snd (snd r3)"]
    by (simp add: r3_def)
  moreover have "spool_step plain_fs (fst (snd r3), [empty_spool, snd (snd r3)]) (fst (snd r4), [snd (snd r4), snd (snd r3)])"
    using spool_step.do_write [of 0 "[empty_spool, snd (snd r3)]" plain_fs "''ok''" "fst (snd r3)" "fst r4" "fst (snd r4)" "snd (snd r4)"]
    by (simp add: r4_def)
  ultimately have reach: "spools_reach plain_fs [] small_limits (fst (snd r4), [snd (snd r4), snd (snd r3)])"
    using spools_reach.more by blast
  have "sm_usage (fst (snd r4)) = (7, 2, 2)"
    unfolding r4_def r3_def m2_def by code_simp
  with reach spool_budgets [OF reach] show ?thesis
    by (intro exI [of _ "fst (snd r4)"] exI [of _ "[snd (snd r4), snd (snd r3)]"]) simp
qed

text \<open>C26: The store gives back what was put into it. Any sequence of writes through the chunk writer
  into a new spool, of any sizes, spilled or not, is either reported as failed or read back as
  exactly the concatenation of what was written, and its size is the number of octets. It is not
  reported as failed when the file system works and the octets fit the message limit and what is
  left of the server's total: a shortage of memory alone never fails a message.\<close>

theorem spool_roundtrip:
  assumes "fs_ok fs" and "within_budget m" and "newSpool m = (Inr s, m1)"
    and "write_all (cw_Write fs) ps \<lparr>cw_manager = m1, cw_spool = s, cw_err = None\<rparr> = (e, w)"
    and "spool_Reader fs (cw_spool w) = (Inr rd, s')"
  shows "(cw_err w = None \<longrightarrow>
      reader_content rd = concat ps \<and> spool_Size (cw_spool w) = int (length (concat ps))) \<and>
    (fs_works fs \<and> int (length (concat ps)) \<le> so_MaxBytes (sm_opts m) \<and>
      sm_total m + int (length (concat ps)) \<le> so_MaxTotalBytes (sm_opts m) \<longrightarrow> cw_err w = None)"
proof -
  from assms(3) have s: "s = empty_spool" and m1: "m1 = m\<lparr>sm_concurrent := sm_concurrent m + 1\<rparr>"
    "sm_concurrent m < so_MaxConcurrent (sm_opts m)"
    by (auto simp: newSpool_def split: if_splits)
  have ok: "cw_ok \<lparr>cw_manager = m1, cw_spool = s, cw_err = None\<rparr>"
    using empty_spool_ok [OF assms(2)] assms(2) m1 s by (simp add: cw_ok_def within_budget_def)
  from cw_write_all [OF assms(4) this] assms(1)
  have w: "cw_ok w" "balanced (m1, s) (cw_manager w, cw_spool w)" "at_end (cw_spool w)"
    "cw_err w = None \<longrightarrow> sp_content (cw_spool w) = concat ps"
    by (simp_all add: s at_end_def sp_content_def empty_spool_def)
  from w(2) have "\<not> sp_closed (cw_spool w)" by (simp add: balanced_def s empty_spool_def)
  with w(1,3) have "sp_size (cw_spool w) = int (length (sp_content (cw_spool w)))"
    by (auto simp: cw_ok_def spool_ok_def at_end_def sp_content_def split: option.splits)
  with w(4) spool_Reader_content [OF assms(5)] have "cw_err w = None \<longrightarrow>
      reader_content rd = concat ps \<and> spool_Size (cw_spool w) = int (length (concat ps))"
    by (simp add: spool_Size_def)
  moreover have "cw_err w = None" if "fs_works fs" "int (length (concat ps)) \<le> so_MaxBytes (sm_opts m)"
    "sm_total m + int (length (concat ps)) \<le> so_MaxTotalBytes (sm_opts m)"
    using cw_works [OF that(1) ok, of ps] that(2,3) assms(4) m1 s by (simp add: empty_spool_def)
  ultimately show ?thesis by blast
qed

theorem spool_roundtrip_witness:
  "\<exists>w rd s'. write_all (cw_Write plain_fs) [''a'', ''bcd'', ''e'']
      \<lparr>cw_manager = small_manager\<lparr>sm_concurrent := 1\<rparr>, cw_spool = empty_spool, cw_err = None\<rparr> = (None, w) \<and>
     cw_err w = None \<and> sp_file (cw_spool w) \<noteq> None \<and> spool_Reader plain_fs (cw_spool w) = (Inr rd, s') \<and>
     reader_content rd = ''abcde''"
proof -
  let ?w = "\<lparr>cw_manager = small_manager\<lparr>sm_concurrent := 1\<rparr>, cw_spool = empty_spool, cw_err = None\<rparr>"
  define r where "r = write_all (cw_Write plain_fs) [''a'', ''bcd'', ''e''] ?w"
  define rr where "rr = spool_Reader plain_fs (cw_spool (snd r))"
  have r: "write_all (cw_Write plain_fs) [''a'', ''bcd'', ''e''] ?w = (None, snd r)"
    "cw_err (snd r) = None" "sp_file (cw_spool (snd r)) \<noteq> None"
    unfolding r_def by code_simp+
  have rd: "spool_Reader plain_fs (cw_spool (snd r)) = (Inr (projr (fst rr)), snd rr)"
    unfolding rr_def r_def by code_simp
  have "newSpool small_manager = (Inr empty_spool, small_manager\<lparr>sm_concurrent := 1\<rparr>)" by code_simp
  from spool_roundtrip [OF plain_fs_ok small_manager_budget this r(1) rd] r(2)
  have "reader_content (projr (fst rr)) = ''abcde''" by simp
  with r rd show ?thesis by blast
qed

end
