(* ===== verification/Wire_DotStuff.thy ===== *)
theory Wire_DotStuff
  imports Wire_Reader
begin

text \<open>
  Dot-stuffing transparency, src/internal/smtpwire/dotstuff.go: \<open>DotStuffWriter\<close>, which normalises
  line endings and stuffs leading dots over an \<open>io.Writer\<close>, and \<open>DotUnstuffReader\<close>, which takes the
  content back out of a connection up to the terminator. Both carry state across calls. The writer's
  \<open>io.Writer\<close> is the parameter \<open>wr\<close>, with its state in the record; the laws of locale \<open>sink\<close> are what
  is relied on. Shown here: the writer's output and the reader's content are functions of the octets
  alone (\<open>dot_output\<close>, \<open>undot\<close>), whatever the sizes of the calls; the reader undoes the writer; a strict and a
  lenient receiver end a message where the writer meant to; and at which octet receivers of different
  leniency end what the reader ends.
\<close>

section \<open>DotStuffWriter\<close>

datatype dot_error = DotClosed | DotWrite io_error

record 'w dot_writer =
  dw_w :: 'w
  dw_pendingCR :: bool
  dw_atLineStart :: bool
  dw_wroteAny :: bool
  dw_lastByte :: char
  dw_closed :: bool

definition dotDot :: bytes where
  "dotDot = ''..''"

definition terminator :: bytes where
  "terminator = ''.'' @ CRLF"

definition NewDotStuffWriter :: "'w \<Rightarrow> 'w dot_writer" where
  "NewDotStuffWriter w =
     \<lparr>dw_w = w, dw_pendingCR = False, dw_atLineStart = True, dw_wroteAny = False, dw_lastByte = NUL,
      dw_closed = False\<rparr>"

text \<open>The last write of \<open>emitLiteral\<close>, of a run that is not empty.\<close>

definition writeRun ::
  "(bytes \<Rightarrow> 'w \<Rightarrow> io_error option \<times> 'w) \<Rightarrow> bytes \<Rightarrow> 'w dot_writer \<Rightarrow> io_error option \<times> 'w dot_writer" where
  "writeRun wr chunk d =
     (case wr chunk (dw_w d) of
        (Some err, w') \<Rightarrow> (Some err, d\<lparr>dw_w := w'\<rparr>)
      | (None, w') \<Rightarrow>
          (None, d\<lparr>dw_w := w', dw_atLineStart := False, dw_wroteAny := True, dw_lastByte := last chunk\<rparr>))"

definition emitLiteral ::
  "(bytes \<Rightarrow> 'w \<Rightarrow> io_error option \<times> 'w) \<Rightarrow> bytes \<Rightarrow> 'w dot_writer \<Rightarrow> io_error option \<times> 'w dot_writer" where
  "emitLiteral wr chunk d =
     (if chunk = [] then (None, d)
      else if dw_atLineStart d \<and> hd chunk = CHR ''.'' then
        (case wr dotDot (dw_w d) of
           (Some err, w') \<Rightarrow> (Some err, d\<lparr>dw_w := w'\<rparr>)
         | (None, w') \<Rightarrow>
             let d1 = d\<lparr>dw_w := w', dw_atLineStart := False, dw_wroteAny := True, dw_lastByte := CHR ''.''\<rparr> in
             if tl chunk = [] then (None, d1) else writeRun wr (tl chunk) d1)
      else writeRun wr chunk d)"

definition emitCRLF ::
  "(bytes \<Rightarrow> 'w \<Rightarrow> io_error option \<times> 'w) \<Rightarrow> 'w dot_writer \<Rightarrow> io_error option \<times> 'w dot_writer" where
  "emitCRLF wr d =
     (case wr CRLF (dw_w d) of
        (Some err, w') \<Rightarrow> (Some err, d\<lparr>dw_w := w'\<rparr>)
      | (None, w') \<Rightarrow> (None, d\<lparr>dw_w := w', dw_atLineStart := True, dw_wroteAny := True, dw_lastByte := LF\<rparr>))"

text \<open>\<open>bytes.IndexByte\<close>, with \<open>None\<close> for -1.\<close>

definition IndexByte :: "bytes \<Rightarrow> char \<Rightarrow> nat option" where
  "IndexByte p c = (if c \<in> set p then Some (length (takeWhile ((\<noteq>) c) p)) else None)"

definition indexCROrLF :: "bytes \<Rightarrow> nat option" where
  "indexCROrLF p =
     (case (IndexByte p CR, IndexByte p LF) of
        (None, lf) \<Rightarrow> lf
      | (cr, None) \<Rightarrow> cr
      | (Some cr, Some lf) \<Rightarrow> if cr < lf then Some cr else Some lf)"

lemma emitCRLF_pendingCR [simp]: "dw_pendingCR (snd (emitCRLF wr d)) = dw_pendingCR d"
  by (simp add: emitCRLF_def split: prod.splits option.splits)

lemma emitCRLF_pending: "emitCRLF wr d = (e, d') \<Longrightarrow> dw_pendingCR d' = dw_pendingCR d"
  using emitCRLF_pendingCR [of wr d] by simp

text \<open>The loop of \<open>Write\<close>: the count of consumed octets and the error, and the new state.\<close>

function writeLoop ::
  "(bytes \<Rightarrow> 'w \<Rightarrow> io_error option \<times> 'w) \<Rightarrow> nat \<Rightarrow> bytes \<Rightarrow> 'w dot_writer \<Rightarrow>
   (nat \<times> dot_error option) \<times> 'w dot_writer" where
  "writeLoop wr consumed p d =
     (if p = [] then ((consumed, None), d)
      else if dw_pendingCR d then
        (case emitCRLF wr (d\<lparr>dw_pendingCR := False\<rparr>) of
           (Some err, d') \<Rightarrow> ((consumed, Some (DotWrite err)), d')
         | (None, d') \<Rightarrow>
             if hd p = LF then writeLoop wr (consumed + 1) (tl p) d' else writeLoop wr consumed p d')
      else
        case indexCROrLF p of
          None \<Rightarrow>
            (case emitLiteral wr p d of
               (Some err, d') \<Rightarrow> ((consumed, Some (DotWrite err)), d')
             | (None, d') \<Rightarrow> ((consumed + length p, None), d'))
        | Some i \<Rightarrow>
            (case (if i > 0 then emitLiteral wr (take i p) d else (None, d)) of
               (Some err, d') \<Rightarrow> ((consumed, Some (DotWrite err)), d')
             | (None, d1) \<Rightarrow>
                 if hd (drop i p) = LF then
                   (case emitCRLF wr d1 of
                      (Some err, d') \<Rightarrow> ((consumed + i, Some (DotWrite err)), d')
                    | (None, d') \<Rightarrow> writeLoop wr (consumed + i + 1) (tl (drop i p)) d')
                 else writeLoop wr (consumed + i + 1) (tl (drop i p)) (d1\<lparr>dw_pendingCR := True\<rparr>)))"
  by pat_completeness auto
termination
proof (relation "measure (\<lambda>(wr, c, p, d). 2 * length p + (if dw_pendingCR d then 1 else 0))", goal_cases)
  case 1
  show ?case by simp
next
  case (2 wr consumed p d x x2)
  then show ?case using emitCRLF_pending [of wr "d\<lparr>dw_pendingCR := False\<rparr>" None x2]
    by (cases p) auto
next
  case (3 wr consumed p d x x2)
  then show ?case using emitCRLF_pending [of wr "d\<lparr>dw_pendingCR := False\<rparr>" None x2]
    by auto
qed (auto simp: neq_Nil_conv)

declare writeLoop.simps [simp del]

definition dot_Write ::
  "(bytes \<Rightarrow> 'w \<Rightarrow> io_error option \<times> 'w) \<Rightarrow> bytes \<Rightarrow> 'w dot_writer \<Rightarrow>
   (nat \<times> dot_error option) \<times> 'w dot_writer" where
  "dot_Write wr p d = (if dw_closed d then ((0, Some DotClosed), d) else writeLoop wr 0 p d)"

definition dot_Close ::
  "(bytes \<Rightarrow> 'w \<Rightarrow> io_error option \<times> 'w) \<Rightarrow> 'w dot_writer \<Rightarrow> dot_error option \<times> 'w dot_writer" where
  "dot_Close wr d =
     (if dw_closed d then (Some DotClosed, d)
      else
        let d0 = d\<lparr>dw_closed := True\<rparr>;
            (err1, d1) = (if dw_pendingCR d0 then emitCRLF wr (d0\<lparr>dw_pendingCR := False\<rparr>) else (None, d0)) in
        case err1 of
          Some err \<Rightarrow> (Some (DotWrite err), d1)
        | None \<Rightarrow>
            let (err2, w2) = (if dw_wroteAny d1 \<and> dw_lastByte d1 \<noteq> LF then wr CRLF (dw_w d1) else (None, dw_w d1)) in
            case err2 of
              Some err \<Rightarrow> (Some (DotWrite err), d1\<lparr>dw_w := w2\<rparr>)
            | None \<Rightarrow>
                let (err3, w3) = wr terminator w2 in
                (map_option DotWrite err3, d1\<lparr>dw_w := w3\<rparr>))"

section \<open>DotUnstuffReader\<close>

record dot_reader =
  du_lr :: line_reader
  du_atLineStart :: bool
  du_previousCR :: bool
  du_done :: bool
  du_err :: "wire_error option"

definition NewDotUnstuffReader :: "line_reader \<Rightarrow> dot_reader" where
  "NewDotUnstuffReader lr =
     \<lparr>du_lr = lr, du_atLineStart = True, du_previousCR = False, du_done = False, du_err = None\<rparr>"

definition dot_SetDeadline :: "io_error option \<Rightarrow> dot_reader \<Rightarrow> wire_error option" where
  "dot_SetDeadline dl d = setDeadline dl"

definition dot_fail :: "bytes \<Rightarrow> wire_error \<Rightarrow> dot_reader \<Rightarrow> (bytes \<times> wire_error option) \<times> dot_reader" where
  "dot_fail got err d =
     ((got, if got \<noteq> [] then None else Some err), d\<lparr>du_done := True, du_err := Some err\<rparr>)"

definition consumeTerminatorTail :: "line_reader \<Rightarrow> wire_error option \<times> line_reader" where
  "consumeTerminatorTail lr =
     (case ReadByte lr of
        (Inl err, lr') \<Rightarrow> (Some (IO (normalizeReadErr err)), lr')
      | (Inr _, lr') \<Rightarrow>
          (case ReadByte lr' of
             (Inl err, lr'') \<Rightarrow> (Some (IO (normalizeReadErr err)), lr'')
           | (Inr b, lr'') \<Rightarrow> (if b \<noteq> LF then Some ErrMalformedTerminator else None, lr'')))"

text \<open>What the look-ahead after a bare CR and a dot decides: an error, or that the dot is content.\<close>

definition bareCRDot :: "line_reader \<Rightarrow> wire_error option \<times> line_reader" where
  "bareCRDot lr =
     (case Peek 1 lr of
        (Inl err, lr') \<Rightarrow> (Some (ErrTruncatedDot (normalizeReadErr err)), lr')
      | (Inr peek, lr') \<Rightarrow>
          if hd peek = LF then (Some ErrMalformedTerminator, lr')
          else if hd peek = CR then
            (case Peek 2 lr' of
               (Inl err, lr'') \<Rightarrow> (Some (ErrTruncatedDot (normalizeReadErr err)), lr'')
             | (Inr tail, lr'') \<Rightarrow>
                 (if tail ! 1 = LF then Some ErrMalformedTerminator else None, lr''))
          else (None, lr'))"

lemma Peek_length: "Peek n lr = (r, lr') \<Longrightarrow> lr_stream lr' = lr_stream lr \<and> lr_fin lr' = lr_fin lr"
  using Peek_stream [of n lr] by fastforce

lemma bareCRDot_stream: "bareCRDot lr = (e, lr') \<Longrightarrow> lr_stream lr' = lr_stream lr \<and> lr_fin lr' = lr_fin lr"
  by (auto simp: bareCRDot_def dest!: Peek_length split: prod.splits sum.splits if_splits)

text \<open>The loop of \<open>Read\<close> with a buffer of \<open>k\<close> octets, of which \<open>got\<close> are filled.\<close>

function dotReadLoop :: "nat \<Rightarrow> bytes \<Rightarrow> dot_reader \<Rightarrow> (bytes \<times> wire_error option) \<times> dot_reader" where
  "dotReadLoop k got d =
     (if k \<le> length got then ((got, None), d)
      else
        case ReadByte (du_lr d) of
          (Inl err, lr1) \<Rightarrow> dot_fail got (IO (normalizeReadErr err)) (d\<lparr>du_lr := lr1\<rparr>)
        | (Inr b, lr1) \<Rightarrow>
            if du_atLineStart d \<and> b = CHR ''.'' then
              (case Peek 1 lr1 of
                 (Inl err, lr2) \<Rightarrow> dot_fail got (ErrTruncatedDot (normalizeReadErr err)) (d\<lparr>du_lr := lr2\<rparr>)
               | (Inr peek, lr2) \<Rightarrow>
                   if hd peek = CR then
                     (case consumeTerminatorTail lr2 of
                        (Some tailErr, lr3) \<Rightarrow> dot_fail got tailErr (d\<lparr>du_lr := lr3\<rparr>)
                      | (None, lr3) \<Rightarrow> dot_fail got (IO EOF) (d\<lparr>du_lr := lr3\<rparr>))
                   else if hd peek = LF then dot_fail got ErrBareLFTerminator (d\<lparr>du_lr := lr2\<rparr>)
                   else dotReadLoop k got (d\<lparr>du_lr := lr2, du_atLineStart := False\<rparr>))
            else
              (case (if \<not> du_atLineStart d \<and> du_previousCR d \<and> b = CHR ''.'' then bareCRDot lr1 else (None, lr1)) of
                 (Some err, lr2) \<Rightarrow> dot_fail got err (d\<lparr>du_lr := lr2\<rparr>)
               | (None, lr2) \<Rightarrow>
                   dotReadLoop k (got @ [b])
                     (d\<lparr>du_lr := lr2, du_atLineStart := (b = LF), du_previousCR := (b = CR)\<rparr>)))"
  by pat_completeness auto
termination
  by (relation "measure (\<lambda>(k, got, d). length (lr_stream (du_lr d)))")
    (auto dest!: Peek_length bareCRDot_stream ReadByte_shorter dest: sym split: if_splits)

declare dotReadLoop.simps [simp del]

definition dot_Read :: "nat \<Rightarrow> dot_reader \<Rightarrow> (bytes \<times> wire_error option) \<times> dot_reader" where
  "dot_Read k d =
     (if du_done d then
        (([], case du_err d of Some err \<Rightarrow> Some err | None \<Rightarrow> Some (IO EOF)), d)
      else if k = 0 then (([], None), d)
      else dotReadLoop k [] d)"

section \<open>What the writer puts out\<close>

text \<open>
  The reference transformation, on whole strings. \<open>norm_from\<close> rewrites every line ending (CR LF, bare
  CR, bare LF) to CR LF; its flag says that a CR came just before. \<open>stuff\<close> doubles each dot at the
  start of a line. \<open>dot_output\<close> is what a message becomes, the terminator included.
\<close>

fun norm_from :: "bool \<Rightarrow> bytes \<Rightarrow> bytes" where
  "norm_from pend [] = (if pend then CRLF else [])"
| "norm_from pend (c # s) =
     (if pend then
        CRLF @ (if c = LF then norm_from False s else if c = CR then norm_from True s else c # norm_from False s)
      else if c = LF then CRLF @ norm_from False s
      else if c = CR then norm_from True s
      else c # norm_from False s)"

fun stuff :: "bool \<Rightarrow> bytes \<Rightarrow> bytes" where
  "stuff ls [] = []"
| "stuff ls (c # s) = (if ls \<and> c = CHR ''.'' then dotDot else [c]) @ stuff (c = LF) s"

definition line_end :: "bytes \<Rightarrow> bytes" where
  "line_end n = (if n \<noteq> [] \<and> last n \<noteq> LF then CRLF else [])"

definition dot_output :: "bytes \<Rightarrow> bytes" where
  "dot_output s = stuff True (norm_from False s) @ line_end (norm_from False s) @ terminator"

definition at_start :: "bool \<Rightarrow> bytes \<Rightarrow> bool" where
  "at_start ls n = (if n = [] then ls else last n = LF)"

lemma at_start_simps [simp]:
  "at_start ls [] = ls" "at_start ls (c # n) = at_start (c = LF) n"
  "at_start (at_start ls m) n = at_start ls (m @ n)"
  by (auto simp: at_start_def)

lemma stuff_append: "stuff ls (m @ n) = stuff ls m @ stuff (at_start ls m) n"
  by (induction ls m rule: stuff.induct) simp_all

lemma stuff_plain: "LF \<notin> set p \<Longrightarrow> stuff False p = p"
proof (induction p)
  case (Cons c p)
  then show ?case by (cases p) auto
qed simp

lemma stuff_literal:
  assumes "p \<noteq> []" "LF \<notin> set p"
  shows "stuff ls p = (if ls \<and> hd p = CHR ''.'' then dotDot @ tl p else p)"
  using assms by (cases p) (auto simp: stuff_plain)

lemma stuff_CRLF [simp]: "stuff ls CRLF = CRLF"
  by simp

lemma norm_from_literal:
  assumes "CR \<notin> set p" "LF \<notin> set p"
  shows "norm_from False (p @ s) = p @ norm_from False s"
  using assms by (induction p) auto

text \<open>The state change of the writer when it has put out \<open>n\<close>, a piece of normalised content.\<close>

definition dot_emits :: "('w \<Rightarrow> bytes) \<Rightarrow> 'w dot_writer \<Rightarrow> bytes \<Rightarrow> 'w dot_writer \<Rightarrow> bool" where
  "dot_emits content d n d' \<longleftrightarrow>
     content (dw_w d') = content (dw_w d) @ stuff (dw_atLineStart d) n \<and>
     dw_atLineStart d' = at_start (dw_atLineStart d) n \<and>
     dw_wroteAny d' = (dw_wroteAny d \<or> n \<noteq> []) \<and>
     dw_lastByte d' = (if n = [] then dw_lastByte d else last n) \<and>
     dw_closed d' = dw_closed d"

lemma dot_emits_refl [simp]: "dot_emits content d [] d"
  by (simp add: dot_emits_def)

lemma dot_emits_trans: "dot_emits content d m d1 \<Longrightarrow> dot_emits content d1 n d2 \<Longrightarrow> dot_emits content d (m @ n) d2"
  by (auto simp: dot_emits_def stuff_append)

lemma dot_emits_pending [simp]:
  "dot_emits content (d\<lparr>dw_pendingCR := b\<rparr>) n d' = dot_emits content d n d'"
  "dot_emits content d n (d'\<lparr>dw_pendingCR := b\<rparr>) = dot_emits content d n d'"
  by (simp_all add: dot_emits_def)

lemma indexCROrLF_None: "indexCROrLF p = None \<longleftrightarrow> CR \<notin> set p \<and> LF \<notin> set p"
  by (auto simp: indexCROrLF_def IndexByte_def split: option.splits if_splits)

lemma takeWhile_less:
  assumes "length (takeWhile P p) \<le> length (takeWhile Q p)" "x \<in> set (take (length (takeWhile P p)) p)"
  shows "P x \<and> Q x"
proof -
  have "x \<in> set (takeWhile P p)"
    using assms(2) by (metis takeWhile_eq_take)
  moreover have "set (take (length (takeWhile P p)) p) \<subseteq> set (take (length (takeWhile Q p)) p)"
    by (rule set_take_subset_set_take [OF assms(1)])
  ultimately show ?thesis
    using assms(2) by (metis in_mono set_takeWhileD takeWhile_eq_take)
qed

lemma takeWhile_all_length: "c \<notin> set p \<Longrightarrow> length (takeWhile ((\<noteq>) c) p) = length p"
  by (induction p) auto

lemma indexCROrLF_Some:
  assumes "indexCROrLF p = Some i"
  shows "\<exists>c r. p = take i p @ c # r \<and> (c = CR \<or> c = LF) \<and> CR \<notin> set (take i p) \<and> LF \<notin> set (take i p) \<and> i < length p"
proof -
  have first: "\<exists>r. p = take i p @ c # r \<and> i < length p" if h: "c \<in> set p" "i = length (takeWhile ((\<noteq>) c) p)" for c
  proof -
    obtain a r where "p = a @ c # r" "c \<notin> set a"
      using split_list_first [OF h(1)] by blast
    with h(2) show ?thesis by (auto simp: takeWhile_append)
  qed
  let ?ic = "length (takeWhile ((\<noteq>) CR) p)" and ?il = "length (takeWhile ((\<noteq>) LF) p)"
  consider (cr) "CR \<in> set p" "i = ?ic" "?ic \<le> ?il" | (lf) "LF \<in> set p" "i = ?il" "?il \<le> ?ic"
    using assms length_takeWhile_le [of "(\<noteq>) CR" p] length_takeWhile_le [of "(\<noteq>) LF" p]
      takeWhile_all_length [of CR p] takeWhile_all_length [of LF p]
    by (cases "CR \<in> set p"; cases "LF \<in> set p"; cases "?ic < ?il")
      (simp_all add: indexCROrLF_def IndexByte_def)
  then show ?thesis
  proof cases
    case cr
    then have "CR \<notin> set (take i p) \<and> LF \<notin> set (take i p)"
      using takeWhile_less [of "(\<noteq>) CR" p "(\<noteq>) LF"] by blast
    with first [OF cr(1,2)] show ?thesis by auto
  next
    case lf
    then have "CR \<notin> set (take i p) \<and> LF \<notin> set (take i p)"
      using takeWhile_less [of "(\<noteq>) LF" p "(\<noteq>) CR"] by blast
    with first [OF lf(1,2)] show ?thesis by auto
  qed
qed

text \<open>A call of \<open>Write\<close> seen on the normalised content: on success it has put out a piece \<open>n\<close> of it,
  whatever follows; on failure it has put out the beginning of such a piece.\<close>

definition write_outcome ::
  "('w \<Rightarrow> bytes) \<Rightarrow> 'w dot_writer \<Rightarrow> bytes \<Rightarrow> dot_error option \<Rightarrow> 'w dot_writer \<Rightarrow> bool" where
  "write_outcome content d p e d' \<longleftrightarrow>
     (case e of
        None \<Rightarrow> (\<exists>n. (\<forall>s. norm_from (dw_pendingCR d) (p @ s) = n @ norm_from (dw_pendingCR d') s) \<and>
                  dot_emits content d n d')
      | Some _ \<Rightarrow> (\<exists>n q. (\<forall>s. prefix n (norm_from (dw_pendingCR d) (p @ s))) \<and>
                    content (dw_w d') = content (dw_w d) @ q \<and> prefix q (stuff (dw_atLineStart d) n)))"

lemma write_outcome_refl: "write_outcome content d [] None d"
  by (auto simp: write_outcome_def intro: exI [of _ "[]"])

lemma write_outcome_step:
  assumes "dot_emits content d n d1"
    and "\<And>s. norm_from (dw_pendingCR d) (p @ s) = n @ norm_from (dw_pendingCR d1) (p1 @ s)"
    and "write_outcome content d1 p1 e d'"
  shows "write_outcome content d p e d'"
proof (cases e)
  case None
  with assms(3) obtain n1 where "\<And>s. norm_from (dw_pendingCR d1) (p1 @ s) = n1 @ norm_from (dw_pendingCR d') s"
    "dot_emits content d1 n1 d'" by (auto simp: write_outcome_def)
  with assms None dot_emits_trans [OF assms(1)] show ?thesis
    by (auto simp: write_outcome_def intro!: exI [of _ "n @ n1"])
next
  case (Some x)
  with assms(3) obtain n1 q where "\<And>s. prefix n1 (norm_from (dw_pendingCR d1) (p1 @ s))"
    "content (dw_w d') = content (dw_w d1) @ q" "prefix q (stuff (dw_atLineStart d1) n1)"
    by (auto simp: write_outcome_def)
  with assms Some show ?thesis
    by (auto simp: write_outcome_def dot_emits_def stuff_append intro!: exI [of _ "n @ n1"])
qed

text \<open>The measure under which the loop of \<open>Write\<close> ends: a held CR counts as half an octet.\<close>

definition dot_measure :: "bytes \<Rightarrow> 'w dot_writer \<Rightarrow> nat" where
  "dot_measure p d = 2 * length p + (if dw_pendingCR d then 1 else 0)"

text \<open>A whole message: successive \<open>Write\<close> calls, as a copy loop makes them, then \<open>Close\<close>.\<close>

definition dot_write1 ::
  "(bytes \<Rightarrow> 'w \<Rightarrow> io_error option \<times> 'w) \<Rightarrow> bytes \<Rightarrow> 'w dot_writer \<Rightarrow> dot_error option \<times> 'w dot_writer" where
  "dot_write1 wr p d = (snd (fst (dot_Write wr p d)), snd (dot_Write wr p d))"

definition dot_send ::
  "(bytes \<Rightarrow> 'w \<Rightarrow> io_error option \<times> 'w) \<Rightarrow> bytes list \<Rightarrow> 'w \<Rightarrow> dot_error option \<times> 'w dot_writer" where
  "dot_send wr ps w =
     (case write_all (dot_write1 wr) ps (NewDotStuffWriter w) of
        (Some e, d) \<Rightarrow> (Some e, d)
      | (None, d) \<Rightarrow> dot_Close wr d)"

lemma write_outcome_more:
  "write_outcome content d p (Some e) d' \<Longrightarrow> write_outcome content d (p @ s) (Some e) d'"
  by (auto simp: write_outcome_def)

lemma dot_Close_writes:
  "\<not> dw_closed d \<Longrightarrow> dot_Close wr d = (e, d') \<Longrightarrow>
    \<exists>e'. e = map_option DotWrite e' \<and>
      write_all wr ((if dw_pendingCR d \<or> (dw_wroteAny d \<and> dw_lastByte d \<noteq> LF) then [CRLF] else []) @ [terminator]) (dw_w d) =
        (e', dw_w d')"
  by (auto simp: dot_Close_def emitCRLF_def Let_def split: if_splits prod.splits option.splits)

text \<open>The writer over an \<open>io.Writer\<close> whose errors are those of the connection.\<close>

locale dot_sink = sink wr content
  for wr :: "bytes \<Rightarrow> 'w \<Rightarrow> io_error option \<times> 'w" and content :: "'w \<Rightarrow> bytes"
begin

lemma emitCRLF_ok:
  "emitCRLF wr d = (None, d') \<Longrightarrow> dot_emits content d CRLF d' \<and> dw_pendingCR d' = dw_pendingCR d"
  by (auto simp: emitCRLF_def dot_emits_def dest!: wr_None split: prod.splits option.splits)

lemma emitCRLF_err:
  "emitCRLF wr d = (Some e, d') \<Longrightarrow> \<exists>q. content (dw_w d') = content (dw_w d) @ q \<and> prefix q CRLF"
  by (auto simp: emitCRLF_def dest!: wr_Some split: prod.splits option.splits)

lemma writeRun_ok:
  assumes "writeRun wr p d = (None, d')" "p \<noteq> []" "LF \<notin> set p" "\<not> (dw_atLineStart d \<and> hd p = CHR ''.'')"
  shows "dot_emits content d p d' \<and> dw_pendingCR d' = dw_pendingCR d"
proof -
  have "last p \<noteq> LF" using assms(2,3) last_in_set by fastforce
  with assms stuff_literal [OF assms(2,3), of "dw_atLineStart d"] show ?thesis
    by (auto simp: writeRun_def dot_emits_def at_start_def dest!: wr_None split: prod.splits option.splits)
qed

lemma writeRun_err:
  "writeRun wr p d = (Some e, d') \<Longrightarrow> \<exists>q. content (dw_w d') = content (dw_w d) @ q \<and> prefix q p"
  by (auto simp: writeRun_def dest!: wr_Some split: prod.splits option.splits)

lemma emitLiteral_ok:
  assumes "emitLiteral wr p d = (None, d')" "LF \<notin> set p"
  shows "dot_emits content d p d' \<and> dw_pendingCR d' = dw_pendingCR d"
proof (cases "p \<noteq> [] \<and> dw_atLineStart d \<and> hd p = CHR ''.''")
  case True
  then obtain r where p: "p = CHR ''.'' # r" by (cases p) auto
  with assms(1) True obtain w1 where w1: "wr dotDot (dw_w d) = (None, w1)"
    by (auto simp: emitLiteral_def split: prod.splits option.splits)
  let ?d1 = "d\<lparr>dw_w := w1, dw_atLineStart := False, dw_wroteAny := True, dw_lastByte := CHR ''.''\<rparr>"
  have d1: "dot_emits content d ''.'' ?d1"
    using True wr_None [OF w1] by (simp add: dot_emits_def)
  show ?thesis
  proof (cases "r = []")
    case True
    with assms(1) p w1 \<open>p \<noteq> [] \<and> _\<close> d1 show ?thesis by (auto simp: emitLiteral_def)
  next
    case False
    with assms(1) p w1 True have run: "writeRun wr r ?d1 = (None, d')" by (auto simp: emitLiteral_def)
    from writeRun_ok [OF run False] assms(2) p
    have "dot_emits content ?d1 r d' \<and> dw_pendingCR d' = dw_pendingCR d" by simp
    with dot_emits_trans [OF d1] p show ?thesis by fastforce
  qed
next
  case False
  with assms writeRun_ok [of p d d'] show ?thesis
    by (cases "p = []") (auto simp: emitLiteral_def)
qed

lemma emitLiteral_err:
  assumes "emitLiteral wr p d = (Some e, d')" "LF \<notin> set p"
  shows "\<exists>q. content (dw_w d') = content (dw_w d) @ q \<and> prefix q (stuff (dw_atLineStart d) p)"
proof -
  have ne: "p \<noteq> []" using assms(1) by (auto simp: emitLiteral_def)
  note lit = stuff_literal [OF ne assms(2), of "dw_atLineStart d"]
  show ?thesis
  proof (cases "dw_atLineStart d \<and> hd p = CHR ''.''")
    case False
    with assms(1) ne lit writeRun_err [of p d e d'] show ?thesis by (auto simp: emitLiteral_def)
  next
    case True
    obtain e1 w1 where w1: "wr dotDot (dw_w d) = (e1, w1)" by (cases "wr dotDot (dw_w d)")
    let ?d1 = "d\<lparr>dw_w := w1, dw_atLineStart := False, dw_wroteAny := True, dw_lastByte := CHR ''.''\<rparr>"
    show ?thesis
    proof (cases e1)
      case None
      with assms(1) ne True w1 have "writeRun wr (tl p) ?d1 = (Some e, d')"
        by (auto simp: emitLiteral_def Let_def split: if_splits)
      from writeRun_err [OF this] wr_None [of dotDot "dw_w d" w1] w1 None True lit show ?thesis by auto
    next
      case (Some x)
      with assms(1) ne True w1 have "d' = d\<lparr>dw_w := w1\<rparr>" by (auto simp: emitLiteral_def)
      with wr_Some [of dotDot "dw_w d" x w1] w1 Some True lit show ?thesis
        by (auto intro: prefix_order.trans)
    qed
  qed
qed

lemma write_outcome_fail_CRLF:
  assumes "emitCRLF wr d1 = (Some e, d')" "dot_emits content d n d1"
    and "\<And>s. prefix (n @ CRLF) (norm_from (dw_pendingCR d) (p @ s))"
  shows "write_outcome content d p (Some e1) d'"
proof -
  obtain q where "content (dw_w d') = content (dw_w d1) @ q" "prefix q CRLF"
    using emitCRLF_err [OF assms(1)] by blast
  with assms(2,3) show ?thesis
    by (auto simp: write_outcome_def dot_emits_def stuff_append intro!: exI [of _ "n @ CRLF"])
qed

lemma write_outcome_fail_literal:
  assumes "emitLiteral wr n d = (Some e, d')" "LF \<notin> set n"
    and "\<And>s. prefix n (norm_from (dw_pendingCR d) (p @ s))"
  shows "write_outcome content d p (Some e1) d'"
  using emitLiteral_err [OF assms(1,2)] assms(3) by (auto simp: write_outcome_def)

lemma writeLoop_pending:
  assumes IH: "\<And>k1 p1 d1. dot_measure p1 d1 < dot_measure p d \<Longrightarrow> writeLoop wr k1 p1 d1 = ((m, e), d') \<Longrightarrow>
      write_outcome content d1 p1 e d' \<and> (e = None \<longrightarrow> m = k1 + length p1)"
    and eq: "writeLoop wr k p d = ((m, e), d')" and ne: "p \<noteq> []" and pend: "dw_pendingCR d"
  shows "write_outcome content d p e d' \<and> (e = None \<longrightarrow> m = k + length p)"
proof -
  let ?d0 = "d\<lparr>dw_pendingCR := False\<rparr>" and ?p = "if hd p = LF then tl p else p" and ?k = "if hd p = LF then k + 1 else k"
  obtain e1 d1 where d1: "emitCRLF wr ?d0 = (e1, d1)" by (cases "emitCRLF wr ?d0")
  have norm: "norm_from True (p @ s) = CRLF @ norm_from False (?p @ s)" for s
    using ne by (cases p) auto
  note eq = eq [unfolded writeLoop.simps [of wr k p d]]
  show ?thesis
  proof (cases e1)
    case (Some x)
    with d1 eq ne pend have "e = Some (DotWrite x)" "d' = d1" by auto
    moreover have "write_outcome content d p (Some (DotWrite x)) d1"
      by (rule write_outcome_fail_CRLF [of ?d0 x d1 d "[]"]) (use d1 Some norm pend in auto)
    ultimately show ?thesis by simp
  next
    case None
    from emitCRLF_ok [OF d1 [unfolded None]]
    have em: "dot_emits content d CRLF d1" and np: "\<not> dw_pendingCR d1" by simp_all
    have "writeLoop wr ?k ?p d1 = ((m, e), d')"
      using eq ne pend d1 None by (auto split: if_splits)
    moreover have "dot_measure ?p d1 < dot_measure p d"
      using ne np pend by (cases p) (auto simp: dot_measure_def)
    ultimately have "write_outcome content d1 ?p e d' \<and> (e = None \<longrightarrow> m = ?k + length ?p)"
      by (rule IH [rotated])
    with write_outcome_step [OF em, of p ?p e d'] norm pend np ne show ?thesis
      by (cases p) auto
  qed
qed

lemma writeLoop_plain:
  assumes "writeLoop wr k p d = ((m, e), d')" "p \<noteq> []" "\<not> dw_pendingCR d" "indexCROrLF p = None"
  shows "write_outcome content d p e d' \<and> (e = None \<longrightarrow> m = k + length p)"
proof -
  have plain: "CR \<notin> set p" "LF \<notin> set p" using assms(4) by (simp_all add: indexCROrLF_None)
  obtain e1 d1 where d1: "emitLiteral wr p d = (e1, d1)" by (cases "emitLiteral wr p d")
  note norm = norm_from_literal [OF plain] and eq = assms(1) [unfolded writeLoop.simps [of wr k p d]]
  show ?thesis
  proof (cases e1)
    case (Some x)
    with d1 eq assms(2-) have "e = Some (DotWrite x)" "d' = d1" by auto
    moreover have "write_outcome content d p (Some (DotWrite x)) d1"
      by (rule write_outcome_fail_literal [of p d x]) (use d1 Some plain norm assms(3) in auto)
    ultimately show ?thesis by simp
  next
    case None
    with d1 eq assms(2-) have "e = None" "d' = d1" "m = k + length p" by auto
    with emitLiteral_ok [OF d1 [unfolded None] plain(2)] norm assms(3) show ?thesis
      by (auto simp: write_outcome_def)
  qed
qed

lemma writeLoop_line:
  assumes IH: "\<And>k1 p1 d1. dot_measure p1 d1 < dot_measure p d \<Longrightarrow> writeLoop wr k1 p1 d1 = ((m, e), d') \<Longrightarrow>
      write_outcome content d1 p1 e d' \<and> (e = None \<longrightarrow> m = k1 + length p1)"
    and eq: "writeLoop wr k p d = ((m, e), d')" and ne: "p \<noteq> []" and nopend: "\<not> dw_pendingCR d"
    and i: "indexCROrLF p = Some i"
  shows "write_outcome content d p e d' \<and> (e = None \<longrightarrow> m = k + length p)"
proof -
  obtain c r where p: "p = take i p @ c # r" "c = CR \<or> c = LF" "CR \<notin> set (take i p)" "LF \<notin> set (take i p)" "i < length p"
    using indexCROrLF_Some [OF i] by blast
  have cr: "drop i p = c # r" "length p = i + 1 + length r"
    using p(1,5) by (metis append_take_drop_id same_append_eq, metis Suc_eq_plus1 add.assoc length_Cons length_append length_take min.absorb4 plus_1_eq_Suc)
  have norm: "norm_from False (p @ s) = take i p @ norm_from False (c # r @ s)" for s
    using norm_from_literal [OF p(3,4), of "c # r @ s"] p(1) by (metis append.assoc append_Cons)
  let ?lit = "if i > 0 then emitLiteral wr (take i p) d else (None, d)"
  obtain e1 d1 where d1: "?lit = (e1, d1)" by (cases ?lit)
  note eq = eq [unfolded writeLoop.simps [of wr k p d]]
  show ?thesis
  proof (cases e1)
    case (Some x)
    with d1 eq ne nopend i have "e = Some (DotWrite x)" "d' = d1" by auto
    moreover have "write_outcome content d p (Some (DotWrite x)) d1"
      by (rule write_outcome_fail_literal [of "take i p" d x]) (use d1 Some p(4) norm nopend in \<open>auto split: if_splits\<close>)
    ultimately show ?thesis by simp
  next
    case None
    have em: "dot_emits content d (take i p) d1" and np: "\<not> dw_pendingCR d1"
      using d1 None emitLiteral_ok [of "take i p" d d1] p(4) nopend by (auto split: if_splits)
    show ?thesis
    proof (cases "c = LF")
      case False
      with p(2) have c: "c = CR" by simp
      let ?d2 = "d1\<lparr>dw_pendingCR := True\<rparr>"
      have "writeLoop wr (k + i + 1) r ?d2 = ((m, e), d')"
        using eq ne nopend i d1 None cr False by simp
      then have "write_outcome content ?d2 r e d' \<and> (e = None \<longrightarrow> m = k + i + 1 + length r)"
        by (rule IH [rotated]) (simp add: dot_measure_def cr)
      with write_outcome_step [of content d "take i p" ?d2 p r e d'] em norm nopend c cr show ?thesis by simp
    next
      case True
      obtain e2 d2 where d2: "emitCRLF wr d1 = (e2, d2)" by (cases "emitCRLF wr d1")
      show ?thesis
      proof (cases e2)
        case (Some x)
        with d2 eq ne nopend i d1 None cr True have "e = Some (DotWrite x)" "d' = d2" by auto
        moreover have "write_outcome content d p (Some (DotWrite x)) d2"
          by (rule write_outcome_fail_CRLF [of d1 x d2 d "take i p"]) (use d2 Some em norm nopend True in auto)
        ultimately show ?thesis by simp
      next
        case e2: None
        from emitCRLF_ok [OF d2 [unfolded e2]] em np
        have em2: "dot_emits content d (take i p @ CRLF) d2" and np2: "\<not> dw_pendingCR d2"
          using dot_emits_trans by blast+
        have "writeLoop wr (k + i + 1) r d2 = ((m, e), d')"
          using eq ne nopend i d1 None cr True d2 e2 by simp
        then have "write_outcome content d2 r e d' \<and> (e = None \<longrightarrow> m = k + i + 1 + length r)"
          by (rule IH [rotated]) (simp add: dot_measure_def cr np2)
        with write_outcome_step [OF em2, of p r e d'] norm nopend np2 True cr show ?thesis by simp
      qed
    qed
  qed
qed

lemma writeLoop_outcome:
  assumes "writeLoop wr k p d = ((m, e), d')"
  shows "write_outcome content d p e d' \<and> (e = None \<longrightarrow> m = k + length p)"
  using assms
proof (induction "dot_measure p d" arbitrary: k p d rule: less_induct)
  case less
  show ?case
  proof (cases "p = []")
    case True
    with less.prems write_outcome_refl show ?thesis by (auto simp: writeLoop.simps [of wr k "[]" d])
  next
    case ne: False
    show ?thesis
    proof (cases "dw_pendingCR d")
      case True
      show ?thesis by (rule writeLoop_pending [OF less.hyps less.prems ne True])
    next
      case nopend: False
      show ?thesis
      proof (cases "indexCROrLF p")
        case None
        show ?thesis by (rule writeLoop_plain [OF less.prems ne nopend None])
      next
        case (Some i)
        show ?thesis by (rule writeLoop_line [OF less.hyps less.prems ne nopend Some])
      qed
    qed
  qed
qed

lemma dot_write1_outcome:
  "dot_write1 wr p d = (e, d') \<Longrightarrow> \<not> dw_closed d \<Longrightarrow> write_outcome content d p e d'"
  using writeLoop_outcome [of 0 p d "fst (fst (dot_Write wr p d))" e d']
  by (auto simp: dot_write1_def dot_Write_def split: prod.splits)

lemma dot_writes_outcome:
  "write_all (dot_write1 wr) ps d = (e, d') \<Longrightarrow> \<not> dw_closed d \<Longrightarrow> write_outcome content d (concat ps) e d'"
proof (induction ps arbitrary: d)
  case Nil
  then show ?case by (auto simp: write_outcome_refl)
next
  case (Cons p ps)
  obtain e1 d1 where d1: "dot_write1 wr p d = (e1, d1)" by (cases "dot_write1 wr p d")
  note out = dot_write1_outcome [OF d1 Cons.prems(2)]
  show ?case
  proof (cases e1)
    case (Some x)
    with d1 Cons.prems(1) out write_outcome_more show ?thesis by auto
  next
    case None
    with out obtain n where n: "\<And>s. norm_from (dw_pendingCR d) (p @ s) = n @ norm_from (dw_pendingCR d1) s"
      "dot_emits content d n d1" by (auto simp: write_outcome_def)
    then have "\<not> dw_closed d1" using Cons.prems(2) by (simp add: dot_emits_def)
    with Cons d1 None have "write_outcome content d1 (concat ps) e d'" by auto
    with write_outcome_step [OF n(2)] n(1) show ?thesis by simp
  qed
qed

lemma dot_send_outcome:
  assumes "dot_send wr ps w = (e, d')"
  shows "\<exists>q. content (dw_w d') = content w @ q \<and> prefix q (dot_output (concat ps)) \<and>
    (e = None \<longrightarrow> q = dot_output (concat ps))"
proof -
  let ?d0 = "NewDotStuffWriter w" and ?N = "norm_from False (concat ps)"
  have d0: "\<not> dw_closed ?d0" "\<not> dw_pendingCR ?d0" "dw_atLineStart ?d0" "dw_w ?d0 = w" "\<not> dw_wroteAny ?d0"
    by (simp_all add: NewDotStuffWriter_def)
  obtain e1 d1 where d1: "write_all (dot_write1 wr) ps ?d0 = (e1, d1)" by (cases "write_all (dot_write1 wr) ps ?d0")
  note out = dot_writes_outcome [OF d1 d0(1)]
  show ?thesis
  proof (cases e1)
    case (Some x)
    with out d0 obtain n q where nq: "\<forall>s. prefix n (norm_from False (concat ps @ s))"
      "content (dw_w d1) = content w @ q" "prefix q (stuff True n)"
      by (auto simp: write_outcome_def)
    from nq(1) [rule_format, of "[]"] have "prefix n ?N" by simp
    then have "prefix (stuff True n) (dot_output (concat ps))"
      by (auto simp: prefix_def dot_output_def stuff_append)
    with nq assms d1 Some show ?thesis by (auto simp: dot_send_def intro: prefix_order.trans)
  next
    case None
    with out d0 obtain n where n: "\<forall>s. norm_from False (concat ps @ s) = n @ norm_from (dw_pendingCR d1) s"
      and em: "dot_emits content ?d0 n d1" by (auto simp: write_outcome_def)
    from n [rule_format, of "[]"] have N: "?N = n @ (if dw_pendingCR d1 then CRLF else [])" by simp
    let ?tail = "if dw_pendingCR d1 \<or> (dw_wroteAny d1 \<and> dw_lastByte d1 \<noteq> LF) then [CRLF] else []"
    have out: "dot_output (concat ps) = stuff True n @ concat (?tail @ [terminator])"
      using em d0 by (auto simp: dot_output_def N stuff_append line_end_def dot_emits_def)
    from em d0 have cl: "\<not> dw_closed d1" and c: "content (dw_w d1) = content w @ stuff True n"
      by (simp_all add: dot_emits_def)
    have "dot_Close wr d1 = (e, d')" using assms d1 None by (simp add: dot_send_def)
    from dot_Close_writes [OF cl this] obtain e' where "e = map_option DotWrite e'"
      "write_all wr (?tail @ [terminator]) (dw_w d1) = (e', dw_w d')" by blast
    with write_all_grows [of "?tail @ [terminator]" "dw_w d1" e' "dw_w d'"] c out show ?thesis by auto
  qed
qed

end

section \<open>What the reader takes in\<close>

text \<open>
  The reference reader, on whole streams: the content, the error with which it ends (\<open>IO EOF\<close> at the
  terminator) and what is left of the stream. \<open>ls\<close> and \<open>pc\<close> are the reader's two flags, \<open>fin\<close> how the
  connection ends.
\<close>

definition cons_out :: "char \<Rightarrow> bytes \<times> wire_error \<times> bytes \<Rightarrow> bytes \<times> wire_error \<times> bytes" where
  "cons_out c r = (c # fst r, snd r)"

definition dot_line :: "io_error \<Rightarrow> bytes \<Rightarrow> (wire_error \<times> bytes) option" where
  "dot_line fin s =
     (case s of
        [] \<Rightarrow> Some (ErrTruncatedDot (normalizeReadErr fin), [])
      | c # r \<Rightarrow>
          if c = CR then
            Some (case r of
                    [] \<Rightarrow> (IO (normalizeReadErr fin), [])
                  | c2 # r2 \<Rightarrow> (if c2 = LF then IO EOF else ErrMalformedTerminator, r2))
          else if c = LF then Some (ErrBareLFTerminator, s)
          else None)"

definition cr_dot :: "io_error \<Rightarrow> bytes \<Rightarrow> wire_error option" where
  "cr_dot fin s =
     (case s of
        [] \<Rightarrow> Some (ErrTruncatedDot (normalizeReadErr fin))
      | c # r \<Rightarrow>
          if c = LF then Some ErrMalformedTerminator
          else if c = CR then
            (case r of
               [] \<Rightarrow> Some (ErrTruncatedDot (normalizeReadErr fin))
             | c2 # _ \<Rightarrow> if c2 = LF then Some ErrMalformedTerminator else None)
          else None)"

fun undot :: "io_error \<Rightarrow> bool \<Rightarrow> bool \<Rightarrow> bytes \<Rightarrow> bytes \<times> wire_error \<times> bytes" where
  "undot fin ls pc [] = ([], IO (normalizeReadErr fin), [])"
| "undot fin ls pc (b # s) =
     (if ls \<and> b = CHR ''.'' then
        (case dot_line fin s of Some (err, rest) \<Rightarrow> ([], err, rest) | None \<Rightarrow> undot fin False pc s)
      else if \<not> ls \<and> pc \<and> b = CHR ''.'' then
        (case cr_dot fin s of
           Some err \<Rightarrow> ([], err, s)
         | None \<Rightarrow> cons_out b (undot fin (b = LF) (b = CR) s))
      else cons_out b (undot fin (b = LF) (b = CR) s))"

text \<open>The reader's state \<open>d\<close> has content \<open>c\<close> to deliver, then ends with \<open>err\<close> and leaves \<open>rest\<close>.\<close>

definition du_future :: "dot_reader \<Rightarrow> bytes \<times> wire_error \<times> bytes" where
  "du_future d = undot (lr_fin (du_lr d)) (du_atLineStart d) (du_previousCR d) (lr_stream (du_lr d))"

definition du_ended :: "wire_error \<Rightarrow> bytes \<Rightarrow> dot_reader \<Rightarrow> bool" where
  "du_ended err rest d \<longleftrightarrow> du_done d \<and> (case du_err d of Some e \<Rightarrow> e | None \<Rightarrow> IO EOF) = err \<and> lr_stream (du_lr d) = rest"

lemma consumeTerminatorTail_stream:
  assumes "lr_stream lr = CR # r"
  obtains lr' where
    "consumeTerminatorTail lr =
       (case r of [] \<Rightarrow> Some (IO (normalizeReadErr (lr_fin lr)))
        | c # _ \<Rightarrow> if c = LF then None else Some ErrMalformedTerminator, lr')"
    "lr_stream lr' = tl r" "lr_fin lr' = lr_fin lr"
proof -
  obtain lr1 where l1: "ReadByte lr = (Inr CR, lr1)" "lr_stream lr1 = r" "lr_fin lr1 = lr_fin lr"
    using assms by (rule ReadByte_stream_Cons)
  show ?thesis
  proof (cases rule: ReadByte_cases [of lr1])
    case (ended lr2)
    show ?thesis
      by (rule that [of lr2]) (use l1 ended in \<open>auto simp: consumeTerminatorTail_def\<close>)
  next
    case (octet c lr2)
    show ?thesis
      by (rule that [of lr2]) (use l1 octet in \<open>auto simp: consumeTerminatorTail_def\<close>)
  qed
qed

lemma bareCRDot_cr_dot:
  obtains lr' where "bareCRDot lr = (cr_dot (lr_fin lr) (lr_stream lr), lr')"
    "lr_stream lr' = lr_stream lr" "lr_fin lr' = lr_fin lr"
proof -
  obtain lr1 where p1: "Peek 1 lr = (if 1 \<le> length (lr_stream lr) then Inr (take 1 (lr_stream lr)) else Inl (lr_fin lr), lr1)"
    "lr_stream lr1 = lr_stream lr" "lr_fin lr1 = lr_fin lr"
    by (rule Peek_stream)
  obtain lr2 where p2: "Peek 2 lr1 = (if 2 \<le> length (lr_stream lr1) then Inr (take 2 (lr_stream lr1)) else Inl (lr_fin lr1), lr2)"
    "lr_stream lr2 = lr_stream lr1" "lr_fin lr2 = lr_fin lr1"
    by (rule Peek_stream)
  have "fst (bareCRDot lr) = cr_dot (lr_fin lr) (lr_stream lr)"
  proof (cases "lr_stream lr")
    case Nil
    with p1 show ?thesis by (simp add: bareCRDot_def cr_dot_def)
  next
    case (Cons c r)
    with p1 p2 show ?thesis by (cases r) (simp_all add: bareCRDot_def cr_dot_def)
  qed
  with bareCRDot_stream [of lr] that show ?thesis
    by (cases "bareCRDot lr") auto
qed

text \<open>The loop of \<open>Read\<close> against the reference: it delivers what the buffer holds of the content, and
  ends when the content does.\<close>

definition read_outcome ::
  "nat \<Rightarrow> bytes \<Rightarrow> bytes \<times> wire_error \<times> bytes \<Rightarrow> (bytes \<times> wire_error option) \<times> dot_reader \<Rightarrow> bool" where
  "read_outcome k got fut res \<longleftrightarrow>
     (case (fut, res) of ((c, err, rest), ((bs, e), d')) \<Rightarrow>
        if length got + length c < k
        then bs = got @ c \<and> e = (if got @ c = [] then Some err else None) \<and> du_ended err rest d'
        else bs = got @ take (k - length got) c \<and> e = None \<and> \<not> du_done d' \<and>
             du_future d' = (drop (k - length got) c, err, rest))"

lemma read_outcome_fail:
  "length got < k \<Longrightarrow> lr_stream lr = rest \<Longrightarrow>
   read_outcome k got ([], err, rest) (dot_fail got err (d\<lparr>du_lr := lr\<rparr>))"
  by (simp add: read_outcome_def dot_fail_def du_ended_def)

lemma read_outcome_cons:
  "length got < k \<Longrightarrow> read_outcome k (got @ [b]) fut res \<Longrightarrow> read_outcome k got (cons_out b fut) res"
  by (cases fut; cases res) (auto simp: read_outcome_def cons_out_def split: if_splits,
      (metis Suc_diff_Suc drop_Suc_Cons take_Suc_Cons)+)

lemma dotReadLoop_dot:
  assumes k: "length got < k" and b: "du_atLineStart d" "ReadByte (du_lr d) = (Inr (CHR ''.''), lr1)"
    and st: "lr_stream (du_lr d) = CHR ''.'' # lr_stream lr1" "lr_fin lr1 = lr_fin (du_lr d)"
    and IH: "\<And>lr2. lr_stream lr2 = lr_stream lr1 \<Longrightarrow> lr_fin lr2 = lr_fin lr1 \<Longrightarrow>
      read_outcome k got (du_future (d\<lparr>du_lr := lr2, du_atLineStart := False\<rparr>))
        (dotReadLoop k got (d\<lparr>du_lr := lr2, du_atLineStart := False\<rparr>))"
  shows "read_outcome k got (du_future d) (dotReadLoop k got d)"
proof -
  let ?fin = "lr_fin (du_lr d)"
  obtain lr2 where p: "Peek 1 lr1 = (if 1 \<le> length (lr_stream lr1) then Inr (take 1 (lr_stream lr1)) else Inl (lr_fin lr1), lr2)"
    "lr_stream lr2 = lr_stream lr1" "lr_fin lr2 = lr_fin lr1"
    by (rule Peek_stream)
  note loop = dotReadLoop.simps [of k got d]
  show ?thesis
  proof (cases "lr_stream lr1")
    case Nil
    with p b st k read_outcome_fail [OF k, of lr2] show ?thesis
      by (simp add: loop du_future_def dot_line_def)
  next
    case (Cons c r)
    consider (cr) "c = CR" | (lf) "c = LF" | (other) "c \<noteq> CR" "c \<noteq> LF" by blast
    then show ?thesis
    proof cases
      case cr
      with p Cons have "lr_stream lr2 = CR # r" by simp
      then obtain lr3 where t: "consumeTerminatorTail lr2 =
         (case r of [] \<Rightarrow> Some (IO (normalizeReadErr (lr_fin lr2)))
          | c # _ \<Rightarrow> if c = LF then None else Some ErrMalformedTerminator, lr3)" "lr_stream lr3 = tl r"
        by (rule consumeTerminatorTail_stream)
      with p b st k Cons cr read_outcome_fail [OF k, of lr3] show ?thesis
        by (cases r) (simp_all add: loop du_future_def dot_line_def)
    next
      case lf
      with p b st k Cons read_outcome_fail [OF k, of lr2] show ?thesis
        by (simp add: loop du_future_def dot_line_def)
    next
      case other
      with p b st k Cons IH [of lr2] show ?thesis
        by (simp add: loop du_future_def dot_line_def)
    qed
  qed
qed

lemma dotReadLoop_content:
  assumes k: "length got < k" and b: "\<not> (du_atLineStart d \<and> b = CHR ''.'')" "ReadByte (du_lr d) = (Inr b, lr1)"
    and st: "lr_stream (du_lr d) = b # lr_stream lr1" "lr_fin lr1 = lr_fin (du_lr d)"
    and IH: "\<And>lr2. lr_stream lr2 = lr_stream lr1 \<Longrightarrow> lr_fin lr2 = lr_fin lr1 \<Longrightarrow>
      read_outcome k (got @ [b]) (du_future (d\<lparr>du_lr := lr2, du_atLineStart := (b = LF), du_previousCR := (b = CR)\<rparr>))
        (dotReadLoop k (got @ [b]) (d\<lparr>du_lr := lr2, du_atLineStart := (b = LF), du_previousCR := (b = CR)\<rparr>))"
  shows "read_outcome k got (du_future d) (dotReadLoop k got d)"
proof -
  obtain lr2 where q: "bareCRDot lr1 = (cr_dot (lr_fin lr1) (lr_stream lr1), lr2)"
    "lr_stream lr2 = lr_stream lr1" "lr_fin lr2 = lr_fin lr1"
    by (rule bareCRDot_cr_dot)
  note loop = dotReadLoop.simps [of k got d]
  have step: "read_outcome k got
      (cons_out b (undot (lr_fin (du_lr d)) (b = LF) (b = CR) (lr_stream lr1)))
      (dotReadLoop k (got @ [b]) (d\<lparr>du_lr := lr3, du_atLineStart := (b = LF), du_previousCR := (b = CR)\<rparr>))"
    if "lr_stream lr3 = lr_stream lr1" "lr_fin lr3 = lr_fin lr1" for lr3
    using read_outcome_cons [OF k IH [OF that]] that st(2) by (simp add: du_future_def)
  show ?thesis
  proof (cases "\<not> du_atLineStart d \<and> du_previousCR d \<and> b = CHR ''.''")
    case True
    then show ?thesis
      using q b st k step [of lr2] read_outcome_fail [OF k, of lr2]
      by (cases "cr_dot (lr_fin lr1) (lr_stream lr1)") (simp_all add: loop du_future_def)
  next
    case False
    then show ?thesis
      using b st k step [of lr1] by (auto simp: loop du_future_def)
  qed
qed

lemma dotReadLoop_outcome:
  assumes "\<not> du_done d" "length got \<le> k"
  shows "read_outcome k got (du_future d) (dotReadLoop k got d)"
  using assms
proof (induction "length (lr_stream (du_lr d))" arbitrary: got d rule: less_induct)
  case less
  show ?case
  proof (cases "length got = k")
    case True
    with less.prems show ?thesis
      by (cases "du_future d") (simp add: dotReadLoop.simps [of k got d] read_outcome_def)
  next
    case False
    with less.prems have k: "length got < k" by simp
    show ?thesis
    proof (cases rule: ReadByte_cases [of "du_lr d"])
      case (ended lr1)
      with k read_outcome_fail [OF k, of lr1] show ?thesis
        by (simp add: dotReadLoop.simps [of k got d] du_future_def)
    next
      case (octet b lr1)
      show ?thesis
      proof (cases "du_atLineStart d \<and> b = CHR ''.''")
        case True
        then have b: "du_atLineStart d" "ReadByte (du_lr d) = (Inr (CHR ''.''), lr1)"
          "lr_stream (du_lr d) = CHR ''.'' # lr_stream lr1" using octet by auto
        show ?thesis
          by (rule dotReadLoop_dot [OF k b octet(3)]) (rule less.hyps, use b less.prems in auto)
      next
        case False
        show ?thesis
          by (rule dotReadLoop_content [OF k False octet(2,1,3)]) (rule less.hyps, use octet k less.prems in auto)
      qed
    qed
  qed
qed

lemma dot_Read_outcome:
  "\<not> du_done d \<Longrightarrow> 0 < k \<Longrightarrow> read_outcome k [] (du_future d) (dot_Read k d)"
  by (simp add: dot_Read_def dotReadLoop_outcome)

text \<open>A reader that is done reports the error it recorded; \<open>fail\<close> always records one.\<close>

definition du_all :: "dot_reader \<Rightarrow> bytes \<times> wire_error \<times> bytes" where
  "du_all d =
     (if du_done d then ([], case du_err d of Some err \<Rightarrow> err | None \<Rightarrow> IO EOF, lr_stream (du_lr d))
      else du_future d)"

lemma du_all_ended: "du_ended err rest d \<Longrightarrow> du_all d = ([], err, rest)"
  by (simp add: du_ended_def du_all_def)

interpretation dot_source: source dot_Read du_all fst "\<lambda>z. du_ended (fst z) (snd z)"
proof unfold_locales
  fix k :: nat and d c z
  assume k: "0 < k" and fut: "du_all d = (c, z)" and ne: "c \<noteq> []"
  obtain err rest where z: "z = (err, rest)" by (cases z)
  from fut ne have nd: "\<not> du_done d" and fd: "du_future d = (c, err, rest)"
    by (auto simp: du_all_def z split: if_splits)
  obtain bs e d' where r: "dot_Read k d = ((bs, e), d')" by (cases "dot_Read k d") auto
  from dot_Read_outcome [OF nd k] fd r
  have o: "if length c < k then bs = c \<and> e = (if c = [] then Some err else None) \<and> du_ended err rest d'
    else bs = take k c \<and> e = None \<and> \<not> du_done d' \<and> du_future d' = (drop k c, err, rest)"
    by (simp add: read_outcome_def)
  show "\<exists>bs c' s'. dot_Read k d = ((bs, None), s') \<and> bs \<noteq> [] \<and> c = bs @ c' \<and> du_all s' = (c', z)"
  proof (cases "length c < k")
    case True
    with o r ne z du_all_ended show ?thesis by (intro exI [of _ c] exI [of _ "[]"] exI [of _ d']) auto
  next
    case False
    with o r ne z k show ?thesis
      by (intro exI [of _ "take k c"] exI [of _ "drop k c"] exI [of _ d']) (auto simp: du_all_def)
  qed
next
  fix k :: nat and d z
  assume k: "0 < k" and fut: "du_all d = ([], z)"
  obtain err rest where z: "z = (err, rest)" by (cases z)
  show "\<exists>s'. dot_Read k d = (([], Some (fst z)), s') \<and> du_all s' = ([], z) \<and> du_ended (fst z) (snd z) s'"
  proof (cases "du_done d")
    case True
    with fut z show ?thesis by (auto simp: dot_Read_def du_all_def du_ended_def split: option.splits)
  next
    case False
    with fut z have fd: "du_future d = ([], err, rest)" by (simp add: du_all_def)
    obtain bs e d' where r: "dot_Read k d = ((bs, e), d')" by (cases "dot_Read k d") auto
    from dot_Read_outcome [OF False k] fd r k show ?thesis
      by (simp add: read_outcome_def z du_all_ended)
  qed
qed

section \<open>The reader undoes the writer\<close>

text \<open>Strings whose CR and LF occur only as CR LF; the flag says that a CR is still open.\<close>

fun crlf_only :: "bool \<Rightarrow> bytes \<Rightarrow> bool" where
  "crlf_only p [] = (\<not> p)"
| "crlf_only p (c # s) = (if p then c = LF \<and> crlf_only False s else c \<noteq> LF \<and> crlf_only (c = CR) s)"

lemma crlf_only_append: "crlf_only p a \<Longrightarrow> crlf_only False b \<Longrightarrow> crlf_only p (a @ b)"
  by (induction p a rule: crlf_only.induct) (auto split: if_splits)

lemma crlf_only_norm: "crlf_only False (norm_from pend s)"
  by (induction pend s rule: norm_from.induct) auto

lemma crlf_only_stuff: "crlf_only p n \<Longrightarrow> crlf_only p (stuff ls n)"
  by (induction ls n arbitrary: p rule: stuff.induct) (auto simp: dotDot_def split: if_splits)

lemma crlf_only_line_end: "crlf_only False (line_end n)"
  by (simp add: line_end_def)

lemma crlf_only_dot_output: "crlf_only False (dot_output s)"
  by (simp add: dot_output_def terminator_def crlf_only_append crlf_only_stuff crlf_only_norm crlf_only_line_end)

lemma norm_from_id: "crlf_only p n \<Longrightarrow> norm_from p n = (if p then CR # n else n)"
  by (induction p n rule: crlf_only.induct) (auto split: if_splits)

definition prepend_out :: "bytes \<Rightarrow> bytes \<times> wire_error \<times> bytes \<Rightarrow> bytes \<times> wire_error \<times> bytes" where
  "prepend_out n r = (n @ fst r, snd r)"

lemma prepend_out_simps [simp]: "prepend_out [] r = r" "cons_out c (prepend_out n r) = prepend_out (c # n) r"
  by (simp_all add: prepend_out_def cons_out_def)

lemma undot_stuff:
  assumes "crlf_only pc n" "\<not> (ls \<and> pc)"
  shows "undot fin ls pc (stuff ls n @ s) = prepend_out n (undot fin (at_start ls n) False s)"
  using assms
proof (induction n arbitrary: ls pc)
  case (Cons c n)
  show ?case
  proof (cases "ls \<and> c = CHR ''.''")
    case True
    with Cons Cons.IH [of False False] show ?thesis
      by (simp add: dotDot_def dot_line_def)
  next
    case False
    with Cons.prems Cons.IH [of "c = CR" "c = LF"] show ?thesis
      by (auto split: if_splits)
  qed
qed simp

lemma line_end_start: "at_start True (n @ line_end n)"
  by (auto simp: line_end_def at_start_def)

lemma stuff_line_end: "stuff True n @ line_end n = stuff True (n @ line_end n)"
  by (simp add: line_end_def stuff_append)

text \<open>What arrives: the normalised content, with its last line ended.\<close>

definition dot_arrived :: "bytes \<Rightarrow> bytes" where
  "dot_arrived s = norm_from False s @ line_end (norm_from False s)"

lemma undot_dot_output: "undot fin True False (dot_output s @ rest) = (dot_arrived s, IO EOF, rest)"
proof -
  let ?n = "norm_from False s @ line_end (norm_from False s)"
  have "crlf_only False ?n" by (simp add: crlf_only_append crlf_only_norm crlf_only_line_end)
  from undot_stuff [OF this, of True fin "terminator @ rest"] line_end_start [of "norm_from False s"] show ?thesis
    by (simp add: dot_output_def dot_arrived_def stuff_line_end [symmetric] prepend_out_def terminator_def dot_line_def)
qed

section \<open>Where receivers end a message\<close>

text \<open>
  Three receivers that look for the end of the data; each yields what follows it, and each starts at the
  beginning of a line. The strict one wants CR LF, a dot and CR LF. The lenient one takes CR, LF and CR LF
  alike for the end of the line before the dot, and LF or CR LF for the end of the line of the dot. The
  most permissive one takes a bare CR for the end of the line of the dot as well.
\<close>

fun lenient_end :: "bool \<Rightarrow> bytes \<Rightarrow> bytes option" where
  "lenient_end f [] = None"
| "lenient_end f (c # s) =
     (if f \<and> c = CHR ''.'' \<and> take 1 s = [LF] then Some (drop 1 s)
      else if f \<and> c = CHR ''.'' \<and> take 2 s = CRLF then Some (drop 2 s)
      else lenient_end (c = CR \<or> c = LF) s)"

fun any_end :: "bool \<Rightarrow> bytes \<Rightarrow> bytes option" where
  "any_end f [] = None"
| "any_end f (c # s) =
     (if f \<and> c = CHR ''.'' \<and> take 1 s = [LF] then Some (drop 1 s)
      else if f \<and> c = CHR ''.'' \<and> take 2 s = CRLF then Some (drop 2 s)
      else if f \<and> c = CHR ''.'' \<and> take 1 s = [CR] then Some (drop 1 s)
      else any_end (c = CR \<or> c = LF) s)"

fun strict_end :: "bool \<Rightarrow> bool \<Rightarrow> bytes \<Rightarrow> bytes option" where
  "strict_end f cr [] = None"
| "strict_end f cr (c # s) =
     (if f \<and> c = CHR ''.'' \<and> take 2 s = CRLF then Some (drop 2 s)
      else strict_end (cr \<and> c = LF) (c = CR) s)"

lemma lenient_end_stuff:
  assumes "crlf_only pc n"
  shows "lenient_end (ls \<or> pc) (stuff ls n @ s) = lenient_end (at_start ls n) s"
  using assms
proof (induction n arbitrary: ls pc)
  case (Cons c n)
  consider (dot) "ls" "c = CHR ''.''" "\<not> pc" | (lf) "pc" "c = LF" | (other) "\<not> pc" "\<not> (ls \<and> c = CHR ''.'')" "c \<noteq> LF"
    using Cons.prems by (auto split: if_splits)
  then show ?case
  proof cases
    case dot
    with Cons.prems Cons.IH [of False False] show ?thesis by (simp add: dotDot_def)
  next
    case lf
    with Cons.prems Cons.IH [of False True] show ?thesis by simp
  next
    case other
    with Cons.prems Cons.IH [of "c = CR" False] show ?thesis by auto
  qed
qed simp

lemma strict_end_stuff:
  assumes "crlf_only pc n" "\<not> (ls \<and> pc)"
  shows "strict_end ls pc (stuff ls n @ s) = strict_end (at_start ls n) False s"
  using assms
proof (induction n arbitrary: ls pc)
  case (Cons c n)
  consider (dot) "ls" "c = CHR ''.''" "\<not> pc" | (lf) "pc" "c = LF" "\<not> ls" | (other) "\<not> pc" "\<not> (ls \<and> c = CHR ''.'')" "c \<noteq> LF"
    using Cons.prems by (auto split: if_splits)
  then show ?case
  proof cases
    case dot
    with Cons.prems Cons.IH [of False False] show ?thesis by (simp add: dotDot_def)
  next
    case lf
    with Cons.prems Cons.IH [of False True] show ?thesis by simp
  next
    case other
    with Cons.prems Cons.IH [of "c = CR" False] show ?thesis by auto
  qed
qed simp

lemma ends_dot_output:
  "lenient_end True (dot_output s @ rest) = Some rest" "strict_end True False (dot_output s @ rest) = Some rest"
proof -
  let ?n = "norm_from False s @ line_end (norm_from False s)"
  have c: "crlf_only False ?n" by (simp add: crlf_only_append crlf_only_norm crlf_only_line_end)
  have o: "dot_output s @ rest = stuff True ?n @ terminator @ rest"
    by (simp add: dot_output_def stuff_line_end [symmetric])
  show "lenient_end True (dot_output s @ rest) = Some rest"
    unfolding o using lenient_end_stuff [OF c, of True "terminator @ rest"] line_end_start [of "norm_from False s"]
    by (simp add: terminator_def)
  show "strict_end True False (dot_output s @ rest) = Some rest"
    unfolding o using strict_end_stuff [OF c, of True "terminator @ rest"] line_end_start [of "norm_from False s"]
    by (simp add: terminator_def)
qed

text \<open>A message the reader ends cleanly is ended there by the lenient receiver too.\<close>

lemma dot_line_None: "dot_line fin s = None \<Longrightarrow> take 1 s \<noteq> [LF] \<and> take 2 s \<noteq> CRLF"
  by (cases s) (auto simp: dot_line_def split: if_splits)

lemma dot_line_EOF:
  "dot_line fin s = Some (IO EOF, rest) \<Longrightarrow> s = CR # LF # rest"
  by (auto simp: dot_line_def normalizeReadErr_def split: list.splits if_splits)

lemma cr_dot_None: "cr_dot fin s = None \<Longrightarrow> take 1 s \<noteq> [LF] \<and> take 2 s \<noteq> CRLF"
  by (auto simp: cr_dot_def split: list.splits if_splits)

lemma cr_dot_EOF: "cr_dot fin s \<noteq> Some (IO EOF)"
  by (auto simp: cr_dot_def split: list.splits if_splits)

lemma undot_lenient:
  assumes "undot fin ls pc s = (c, IO EOF, rest)" "\<not> (ls \<and> pc)"
  shows "lenient_end (ls \<or> pc) s = Some rest"
  using assms
proof (induction fin ls pc s arbitrary: c rule: undot.induct)
  case (1 fin ls pc)
  then show ?case by (auto simp: normalizeReadErr_def split: if_splits)
next
  case (2 fin ls pc b s)
  have rec: "lenient_end (b = LF \<or> b = CR) s = Some rest"
    if "\<exists>c1. undot fin (b = LF) (b = CR) s = (c1, IO EOF, rest)" "\<not> (ls \<and> b = CHR ''.'')"
      "\<not> ls \<and> pc \<and> b = CHR ''.'' \<Longrightarrow> cr_dot fin s = None"
    using 2(2,3) that by (cases "pc \<and> b = CHR ''.''") (auto simp: disj_commute)
  consider (dot) "ls" "b = CHR ''.''" | (crdot) "\<not> ls" "pc" "b = CHR ''.''"
    | (other) "\<not> (ls \<and> b = CHR ''.'')" "\<not> (pc \<and> b = CHR ''.'')" by blast
  then show ?case
  proof cases
    case dot
    show ?thesis
    proof (cases "dot_line fin s")
      case None
      with dot 2 have "lenient_end (False \<or> pc) s = Some rest" by auto
      with dot "2.prems"(2) dot_line_None [OF None] show ?thesis by auto
    next
      case (Some r)
      with dot 2 have "r = (IO EOF, rest)" by (cases r) auto
      with Some dot dot_line_EOF show ?thesis by fastforce
    qed
  next
    case crdot
    with "2.prems"(1) cr_dot_EOF have n: "cr_dot fin s = None" by (auto split: option.splits)
    with crdot "2.prems"(1) have "\<exists>c1. undot fin (b = LF) (b = CR) s = (c1, IO EOF, rest)"
      by (cases "undot fin (b = LF) (b = CR) s") (auto simp: cons_out_def)
    from rec [OF this] n crdot cr_dot_None [OF n] show ?thesis by simp
  next
    case other
    with "2.prems"(1) have "\<exists>c1. undot fin (b = LF) (b = CR) s = (c1, IO EOF, rest)"
      by (cases "undot fin (b = LF) (b = CR) s") (auto simp: cons_out_def)
    from rec [OF this] other show ?thesis by (auto simp: disj_commute)
  qed
qed

text \<open>The most permissive receiver ends it there exactly when the content holds no CR, dot and CR in a row.\<close>

abbreviation cr_dot_cr :: bytes where
  "cr_dot_cr \<equiv> [CR, CHR ''.'', CR]"

lemma lenient_end_shorter: "lenient_end f s = Some rest \<Longrightarrow> length rest < length s"
  by (induction f s rule: lenient_end.induct) (auto split: if_splits)

lemma cr_dot_cr_Cons:
  "sublist cr_dot_cr (b # s) \<longleftrightarrow> b = CR \<and> prefix [CHR ''.'', CR] s \<or> sublist cr_dot_cr s"
  by (auto simp: sublist_Cons_right)

lemma cr_dot_None_next: "cr_dot fin s = None \<Longrightarrow> s \<noteq> []"
  by (auto simp: cr_dot_def split: list.splits if_splits)

lemma undot_any:
  assumes "undot fin ls pc s = (c, IO EOF, rest)" "\<not> (ls \<and> pc)"
  shows "any_end (ls \<or> pc) s = Some rest \<longleftrightarrow> \<not> sublist cr_dot_cr ((if pc then [CR] else []) @ c)"
  using assms
proof (induction fin ls pc s arbitrary: c rule: undot.induct)
  case (1 fin ls pc)
  then show ?case by (auto simp: normalizeReadErr_def split: if_splits)
next
  case (2 fin ls pc b s)
  have rec: "any_end (b = LF \<or> b = CR) s = Some rest \<longleftrightarrow> \<not> sublist cr_dot_cr ((if b = CR then [CR] else []) @ c1)"
    if "undot fin (b = LF) (b = CR) s = (c1, IO EOF, rest)" "\<not> (ls \<and> b = CHR ''.'')"
      "\<not> ls \<and> pc \<and> b = CHR ''.'' \<Longrightarrow> cr_dot fin s = None" for c1
    using 2(2,3) [of c1] that by (cases "pc \<and> b = CHR ''.''") auto
  consider (dot) "ls" "b = CHR ''.''" | (crdot) "\<not> ls" "pc" "b = CHR ''.''"
    | (other) "\<not> (ls \<and> b = CHR ''.'')" "\<not> (pc \<and> b = CHR ''.'')" by blast
  then show ?case
  proof cases
    case dot
    show ?thesis
    proof (cases "dot_line fin s")
      case None
      then have "take 1 s \<noteq> [CR]" by (cases s) (auto simp: dot_line_def split: list.splits if_splits)
      with None dot 2 dot_line_None [OF None] show ?thesis by auto
    next
      case (Some r)
      with dot 2 have "r = (IO EOF, rest)" "c = []" by (cases r; auto)+
      with Some dot "2.prems"(2) dot_line_EOF show ?thesis by fastforce
    qed
  next
    case crdot
    with "2.prems"(1) cr_dot_EOF have n: "cr_dot fin s = None" by (auto split: option.splits)
    with crdot "2.prems"(1) obtain c1 where c1: "undot fin False False s = (c1, IO EOF, rest)" "c = CHR ''.'' # c1"
      by (cases "undot fin False False s") (auto simp: cons_out_def)
    obtain d s' where s: "s = d # s'" using cr_dot_None_next [OF n] by (cases s) auto
    with c1(1) obtain c2 where c2: "undot fin (d = LF) (d = CR) s' = (c2, IO EOF, rest)" "c1 = d # c2"
      by (cases "undot fin (d = LF) (d = CR) s'") (auto simp: cons_out_def)
    have "rest \<noteq> s'" using lenient_end_shorter [OF undot_lenient [OF c2(1)]] by auto
    with rec [of c1] c1 c2 crdot n cr_dot_None [OF n] s show ?thesis
      by (auto simp: cr_dot_cr_Cons)
  next
    case other
    with "2.prems"(1) obtain c1 where c1: "undot fin (b = LF) (b = CR) s = (c1, IO EOF, rest)" "c = b # c1"
      by (cases "undot fin (b = LF) (b = CR) s") (auto simp: cons_out_def)
    from rec [OF c1(1)] other c1(2) show ?thesis by (auto simp: cr_dot_cr_Cons disj_commute)
  qed
qed

section \<open>Whole messages over the two filters\<close>

lemma lenient_end_mono: "lenient_end f q = Some r \<Longrightarrow> lenient_end f (q @ t) = Some (r @ t)"
proof (induction f q rule: lenient_end.induct)
  case (2 f c s)
  consider (lf) "f \<and> c = CHR ''.'' \<and> take 1 s = [LF]" | (crlf) "f \<and> c = CHR ''.'' \<and> take 2 s = CRLF" "take 1 s \<noteq> [LF]"
    | (more) "\<not> (f \<and> c = CHR ''.'' \<and> take 1 s = [LF])" "\<not> (f \<and> c = CHR ''.'' \<and> take 2 s = CRLF)"
      "lenient_end (c = CR \<or> c = LF) s = Some r"
    using "2.prems" by (auto split: if_splits)
  then show ?case
  proof cases
    case lf
    with 2 show ?thesis by (cases s) auto
  next
    case crlf
    with 2 show ?thesis by (cases s; cases "tl s") auto
  next
    case more
    then obtain c1 s1 where s: "s = c1 # s1" by (cases s) auto
    with more obtain c2 s2 where "s1 = c2 # s2 \<or> c1 \<noteq> CR" by (cases s1) auto
    with s more 2 show ?thesis by (cases "c1 = CR") auto
  qed
qed simp

lemma proper_prefix_no_end:
  assumes "prefix q (dot_output s)" "q \<noteq> dot_output s"
  shows "lenient_end True q = None"
proof (rule ccontr)
  assume "lenient_end True q \<noteq> None"
  then obtain r where r: "lenient_end True q = Some r" by auto
  from assms obtain t where "dot_output s = q @ t" "t \<noteq> []" by (auto simp: prefix_def)
  with lenient_end_mono [OF r, of t] ends_dot_output(1) [of s "[]"] show False by simp
qed

lemma read_message:
  assumes "list_all (\<lambda>k. 0 < k) ks" "undot (lr_fin lr) True False (lr_stream lr) = (c, err, rest)" "length c < length ks"
  shows "\<exists>d'. read_sizes dot_Read ks (NewDotUnstuffReader lr) = ((c, Some err), d') \<and> lr_stream (du_lr d') = rest"
proof -
  let ?d = "NewDotUnstuffReader lr"
  have fut: "du_all ?d = (c, err, rest)"
    using assms(2) by (simp add: NewDotUnstuffReader_def du_all_def du_future_def)
  obtain d' where d': "read_sizes dot_Read ks ?d = ((c, Some err), d')" "du_ended err rest d'"
    using dot_source.read_sizes_all [OF assms(1) fut assms(3)] by auto
  then show ?thesis by (auto simp: du_ended_def)
qed

lemma clean_end:
  assumes "list_all (\<lambda>k. 0 < k) ks" "read_sizes dot_Read ks (NewDotUnstuffReader lr) = ((c, Some (IO EOF)), d')"
  shows "undot (lr_fin lr) True False (lr_stream lr) = (c, IO EOF, lr_stream (du_lr d'))"
proof -
  let ?d = "NewDotUnstuffReader lr"
  obtain c0 err rest where fut: "du_all ?d = (c0, err, rest)" by (cases "du_all ?d")
  from dot_source.read_sizes_piece [OF assms(1) fut assms(2)] have "c0 = c" "err = IO EOF" "lr_stream (du_lr d') = rest"
    by (auto simp: du_ended_def)
  with fut show ?thesis by (simp add: NewDotUnstuffReader_def du_all_def du_future_def)
qed

text \<open>A body in which no line, whatever ends the line before it, starts with a dot.\<close>

fun no_dot_line :: "bool \<Rightarrow> bytes \<Rightarrow> bool" where
  "no_dot_line f [] = True"
| "no_dot_line f (c # s) = (\<not> (f \<and> c = CHR ''.'') \<and> no_dot_line (c = CR \<or> c = LF) s)"

lemma undot_no_dot_line:
  assumes "no_dot_line (ls \<or> pc) body" "\<not> (ls \<and> pc)"
  shows "undot fin ls pc (body @ LF # s) = prepend_out (body @ [LF]) (undot fin True False s)"
  using assms
proof (induction body arbitrary: ls pc)
  case (Cons c body)
  from Cons.IH [of "c = LF" "c = CR"] Cons.prems show ?case by (auto simp: disj_commute)
qed (simp add: prepend_out_def cons_out_def)

lemma strict_end_no_dot_line:
  assumes "no_dot_line f body" "if body = [] then \<not> cr else last body \<noteq> CR"
  shows "strict_end f cr (body @ LF # s) = strict_end False False s"
  using assms
proof (induction body arbitrary: f cr)
  case (Cons c body)
  have "no_dot_line (cr \<and> c = LF) body" using Cons.prems(1) by (cases body) auto
  from Cons.IH [OF this, of "c = CR"] Cons.prems show ?case by (auto split: if_splits)
qed simp

interpretation buffer_dot: dot_sink Buffer_Write "\<lambda>b. b"
  by unfold_locales

section \<open>Properties\<close>

text \<open>C4: Message content survives the wire. Whatever sizes the sender's \<open>Write\<close> calls have, however
  the network cuts the stream and whatever buffers the receiver reads into, the receiver gets the
  content with its line endings normalised (and its last line ended), then a clean end, and the
  octets after the terminator are left for the next command.\<close>

theorem dot_roundtrip:
  assumes "sink wr content" "content w = []" "dot_send wr ps w = (None, d)"
    and "lr_stream lr = content (dw_w d) @ rest" "list_all (\<lambda>k. 0 < k) ks" "length (dot_arrived (concat ps)) < length ks"
  shows "\<exists>d'. read_sizes dot_Read ks (NewDotUnstuffReader lr) = ((dot_arrived (concat ps), Some (IO EOF)), d') \<and>
    lr_stream (du_lr d') = rest"
proof -
  have "content (dw_w d) = dot_output (concat ps)"
    using dot_sink.dot_send_outcome [OF dot_sink.intro [OF assms(1)] assms(3)] assms(2) by auto
  with assms(4) undot_dot_output have "undot (lr_fin lr) True False (lr_stream lr) = (dot_arrived (concat ps), IO EOF, rest)"
    by simp
  from read_message [OF assms(5) this assms(6)] show ?thesis .
qed

theorem dot_roundtrip_witness:
  "\<exists>d'. read_sizes dot_Read (replicate 12 3)
      (NewDotUnstuffReader (NewLineReader [''..a'' @ [CR], [LF] @ ''b'' @ CRLF @ ''.'', CRLF @ ''QUIT''] EOF)) =
    ((''.a'' @ CRLF @ ''b'' @ CRLF, Some (IO EOF)), d') \<and> lr_stream (du_lr d') = ''QUIT''"
proof -
  let ?ps = "[''.'', ''a'' @ [LF], ''b'']"
  let ?lr = "NewLineReader [''..a'' @ [CR], [LF] @ ''b'' @ CRLF @ ''.'', CRLF @ ''QUIT''] EOF"
  let ?d = "snd (dot_send Buffer_Write ?ps [])"
  have send: "dot_send Buffer_Write ?ps [] = (None, ?d)" by code_simp
  have st: "lr_stream ?lr = dw_w ?d @ ''QUIT''" by code_simp
  have arr: "dot_arrived (concat ?ps) = ''.a'' @ CRLF @ ''b'' @ CRLF" by code_simp
  have pos: "list_all (\<lambda>k. 0 < k) (replicate 12 (3 :: nat))" and len: "length (dot_arrived (concat ?ps)) < length (replicate 12 (3 :: nat))"
    by code_simp+
  show ?thesis
    using dot_roundtrip [OF buffer_sink.sink_axioms refl send st pos len] unfolding arr .
qed

text \<open>C5: A sent message ends once. The octets written carry CR and LF only as CR LF, and a receiver,
  whether it insists on CR LF or is the lenient one, which takes CR, LF or CR LF before the dot and LF or
  CR LF behind it, finds the end of the data at the terminator and nowhere before; when the connection
  fails first, what was written is the beginning of that output and the lenient one finds no end in it.\<close>

theorem dot_writer_ends_once:
  assumes "sink wr content" "content w = []" "dot_send wr ps w = (e, d)"
  shows "prefix (content (dw_w d)) (dot_output (concat ps)) \<and> crlf_only False (dot_output (concat ps)) \<and>
    (e = None \<longrightarrow> content (dw_w d) = dot_output (concat ps)) \<and>
    (content (dw_w d) = dot_output (concat ps) \<longrightarrow>
       (\<forall>rest. lenient_end True (content (dw_w d) @ rest) = Some rest \<and>
               strict_end True False (content (dw_w d) @ rest) = Some rest)) \<and>
    (content (dw_w d) \<noteq> dot_output (concat ps) \<longrightarrow> lenient_end True (content (dw_w d)) = None)"
  using dot_sink.dot_send_outcome [OF dot_sink.intro [OF assms(1)] assms(3)] assms(2)
  by (auto simp: crlf_only_dot_output ends_dot_output proper_prefix_no_end)

theorem dot_writer_ends_once_witness:
  "\<forall>rest. lenient_end True (dw_w (snd (dot_send Buffer_Write [''x'' @ [LF], ''.'' @ [CR], ''y''] [])) @ rest) = Some rest"
proof -
  let ?ps = "[''x'' @ [LF], ''.'' @ [CR], ''y'']"
  have send: "dot_send Buffer_Write ?ps [] = (None, snd (dot_send Buffer_Write ?ps []))" by code_simp
  show ?thesis
    using dot_writer_ends_once [OF buffer_sink.sink_axioms refl send] by simp
qed

text \<open>C6: \<open>DotUnstuffReader\<close> implements the reference reader. For any sizes of the reads and any
  segmentation of the stream, the content delivered, the final error and the unread rest are those of
  \<open>undot\<close> on the octets of the stream.\<close>

theorem dot_reader_refines:
  assumes "list_all (\<lambda>k. 0 < k) ks" "undot (lr_fin lr) True False (lr_stream lr) = (c, err, rest)" "length c < length ks"
  shows "\<exists>d'. read_sizes dot_Read ks (NewDotUnstuffReader lr) = ((c, Some err), d') \<and> lr_stream (du_lr d') = rest"
  by (rule read_message [OF assms])

theorem dot_reader_refines_witness:
  "\<exists>d'. read_sizes dot_Read [1, 2, 1, 5, 1] (NewDotUnstuffReader (NewLineReader [''a'', [CR] @ ''.'' @ CRLF] EOF)) =
    ((''a'' @ [CR], Some ErrMalformedTerminator), d') \<and> lr_stream (du_lr d') = CRLF"
proof -
  let ?lr = "NewLineReader [''a'', [CR] @ ''.'' @ CRLF] EOF"
  have "undot (lr_fin ?lr) True False (lr_stream ?lr) = (''a'' @ [CR], ErrMalformedTerminator, CRLF)"
    by code_simp
  moreover have "list_all (\<lambda>k. 0 < k) [1, 2, 1, 5, 1 :: nat]" "length (''a'' @ [CR]) < length [1, 2, 1, 5, 1 :: nat]"
    by simp_all
  ultimately show ?thesis by (intro dot_reader_refines)
qed

text \<open>C7: Where the reader ends a message cleanly, other receivers end it at the same octet. A receiver that
  takes CR, LF or CR LF for the end of the line before the dot and LF or CR LF for the end of the dot line
  always does, so no earlier end is hidden from it in the content. A receiver that takes a bare CR for the
  end of the dot line too does so exactly when the content delivered holds no CR, dot and CR in a row:
  this is the one sequence the reader passes on as content although such a receiver ends there.\<close>

theorem dot_reader_no_smuggled_end:
  assumes "list_all (\<lambda>k. 0 < k) ks" "read_sizes dot_Read ks (NewDotUnstuffReader lr) = ((c, Some (IO EOF)), d')"
  shows "lenient_end True (lr_stream lr) = Some (lr_stream (du_lr d')) \<and>
    (any_end True (lr_stream lr) = Some (lr_stream (du_lr d')) \<longleftrightarrow> \<not> sublist [CR, CHR ''.'', CR] c)"
  using undot_lenient [OF clean_end [OF assms]] undot_any [OF clean_end [OF assms]] by simp

theorem dot_reader_no_smuggled_end_witness:
  "lenient_end True (''a'' @ [CR] @ ''.'' @ [CR] @ ''b'' @ CRLF @ ''.'' @ CRLF @ ''QUIT'') = Some ''QUIT'' \<and>
   any_end True (''a'' @ [CR] @ ''.'' @ [CR] @ ''b'' @ CRLF @ ''.'' @ CRLF @ ''QUIT'') \<noteq> Some ''QUIT''"
proof -
  let ?s = "''a'' @ [CR] @ ''.'' @ [CR] @ ''b'' @ CRLF @ ''.'' @ CRLF @ ''QUIT''"
  let ?lr = "NewLineReader [''a'' @ [CR] @ ''.'', [CR] @ ''b'' @ CRLF @ ''.'' @ CRLF @ ''QUIT''] EOF"
  let ?run = "read_sizes dot_Read [9, 9] (NewDotUnstuffReader ?lr)"
  have run: "?run = ((''a'' @ [CR] @ ''.'' @ [CR] @ ''b'' @ CRLF, Some (IO EOF)), snd ?run)"
    by code_simp
  have st: "lr_stream ?lr = ?s" "lr_stream (du_lr (snd ?run)) = ''QUIT''"
    by code_simp+
  have sub: "sublist [CR, CHR ''.'', CR] (''a'' @ [CR] @ ''.'' @ [CR] @ ''b'' @ CRLF)"
    by (simp add: sublist_Cons_right)
  show ?thesis
    using dot_reader_no_smuggled_end [OF _ run] sub unfolding st by simp
qed

text \<open>C21: A bare LF before the dot line still ends the message. After any body in which no line starts with a
  dot, on a line that a bare LF ends, a dot and CR LF make the reader end the message cleanly and hand
  what follows to the command loop, although a receiver that wants CR LF before the dot reads on
  into it.\<close>

theorem dot_reader_bare_LF_end:
  assumes "lr_stream lr = body @ [LF] @ ''.'' @ CRLF @ rest" "no_dot_line True body" "body = [] \<or> last body \<noteq> CR"
    and "list_all (\<lambda>k. 0 < k) ks" "length body + 1 < length ks"
  shows "(\<exists>d'. read_sizes dot_Read ks (NewDotUnstuffReader lr) = ((body @ [LF], Some (IO EOF)), d') \<and>
      lr_stream (du_lr d') = rest) \<and>
    strict_end True False (lr_stream lr) = strict_end True False rest"
proof -
  let ?t = "''.'' @ CRLF @ rest"
  have s: "lr_stream lr = body @ LF # ?t" using assms(1) by simp
  have "undot (lr_fin lr) True False (lr_stream lr) = (body @ [LF], IO EOF, rest)"
    unfolding s using undot_no_dot_line [of True False body "lr_fin lr" ?t] assms(2)
    by (simp add: prepend_out_def dot_line_def)
  from read_message [OF assms(4) this] assms(5)
  have "\<exists>d'. read_sizes dot_Read ks (NewDotUnstuffReader lr) = ((body @ [LF], Some (IO EOF)), d') \<and>
    lr_stream (du_lr d') = rest" by simp
  moreover have "strict_end True False (lr_stream lr) = strict_end True False rest"
    unfolding s using strict_end_no_dot_line [of True body False ?t] assms(2,3) by auto
  ultimately show ?thesis by blast
qed

theorem dot_reader_bare_LF_end_witness:
  "\<exists>d'. read_sizes dot_Read (replicate 9 2)
       (NewDotUnstuffReader (NewLineReader [''a'' @ CRLF @ ''b.c'', [LF] @ ''.'' @ CRLF @ ''RSET'' @ CRLF] EOF)) =
     ((''a'' @ CRLF @ ''b.c'' @ [LF], Some (IO EOF)), d') \<and> lr_stream (du_lr d') = ''RSET'' @ CRLF"
proof -
  let ?lr = "NewLineReader [''a'' @ CRLF @ ''b.c'', [LF] @ ''.'' @ CRLF @ ''RSET'' @ CRLF] EOF"
  have st: "lr_stream ?lr = (''a'' @ CRLF @ ''b.c'') @ [LF] @ ''.'' @ CRLF @ (''RSET'' @ CRLF)" by code_simp
  have "no_dot_line True (''a'' @ CRLF @ ''b.c'')" "list_all (\<lambda>k. 0 < k) (replicate 9 (2 :: nat))" by code_simp+
  from dot_reader_bare_LF_end [OF st this(1) _ this(2)] show ?thesis by simp
qed

end
