(* ===== verification/Srv_Data.thy ===== *)
theory Srv_Data
  imports Srv_State Srv_Reply Srv_Spool Wire_DotStuff
begin

text \<open>
  Message content on its way to the backend: the size-enforcing reader (smtpserver/cmd_data.go), the
  reader with the trace header in front, the tracking reader and \<open>evaluateDataCall\<close>
  (smtpserver/data.go).

  The backend's \<open>Data\<close> callback is a program that reads and then returns: a datatype that branches
  on what each read gave. Every total callback is such a program, whatever it reads, so the theorems
  hold for all of them. A Go panic is the result \<open>None\<close>.

  The lemmas show that the content reader obeys the reader interface, that draining ends, and that
  when \<open>evaluateDataCall\<close> lets the session continue, the framing reader stands at its real end.
\<close>

section \<open>The size limit\<close>

datatype content_error = CWire wire_error | CTooLarge

abbreviation CEOF :: content_error where
  "CEOF \<equiv> CWire (IO EOF)"

record size_reader =
  sr_dot :: dot_reader
  sr_remain :: "64 word"
  sr_exceeded :: bool
  sr_reported :: bool

definition sr_Read :: "nat \<Rightarrow> size_reader \<Rightarrow> ((bytes \<times> content_error option) \<times> size_reader) option" where
  "sr_Read k r =
     (if sr_exceeded r then
        (case dot_Read k (sr_dot r) of
           ((bs, e), d) \<Rightarrow> Some ((bs, map_option CWire e), r\<lparr>sr_dot := d\<rparr>))
      else
        let limit = (if int k > sint (sr_remain r + 1) then sint (sr_remain r + 1) else int k) in
        if limit < 0 then None
        else
          case dot_Read (nat limit) (sr_dot r) of
            ((bs, e), d) \<Rightarrow>
              if int (length bs) \<le> sint (sr_remain r)
              then Some ((bs, map_option CWire e), r\<lparr>sr_dot := d, sr_remain := sr_remain r - of_nat (length bs)\<rparr>)
              else
                let allowed = nat (sint (sr_remain r));
                    r' = r\<lparr>sr_dot := d, sr_remain := 0, sr_exceeded := True\<rparr> in
                if \<not> sr_reported r then Some ((take allowed bs, Some CTooLarge), r'\<lparr>sr_reported := True\<rparr>)
                else Some (([], map_option CWire e), r'))"

text \<open>Slicing a buffer with a negative bound panics: that is the first \<open>None\<close>.\<close>

section \<open>Readers in a row\<close>

text \<open>\<open>bytes.Reader\<close> and \<open>strings.Reader\<close>, and \<open>os.File\<close>: what is left, then \<open>io.EOF\<close>.\<close>

definition mem_Read :: "nat \<Rightarrow> bytes \<Rightarrow> (bytes \<times> content_error option) \<times> bytes" where
  "mem_Read k d = (if d = [] then (([], Some CEOF), []) else ((take k d, None), drop k d))"

definition file_Read :: "fs_ops \<Rightarrow> nat \<Rightarrow> os_file \<Rightarrow> (bytes \<times> content_error option) \<times> os_file" where
  "file_Read fs k f =
     (if k = 0 then (([], None), f)
      else case fs_read fs f k of
        Some e \<Rightarrow> (([], Some (CWire (IO e))), f)
      | None \<Rightarrow>
          (let bs = take k (drop (fl_pos f) (fl_data f)) in
           if bs = [] then (([], Some CEOF), f) else ((bs, None), f\<lparr>fl_pos := fl_pos f + length bs\<rparr>)))"

datatype content_src = SrcDot size_reader | SrcSpool spool_reader

fun src_Read :: "fs_ops \<Rightarrow> nat \<Rightarrow> content_src \<Rightarrow> ((bytes \<times> content_error option) \<times> content_src) option" where
  "src_Read fs k (SrcDot r) = map_option (map_prod id SrcDot) (sr_Read k r)"
| "src_Read fs k (SrcSpool (MemReader d)) = Some (map_prod id (SrcSpool \<circ> MemReader) (mem_Read k d))"
| "src_Read fs k (SrcSpool (FileReader f)) = Some (map_prod id (SrcSpool \<circ> FileReader) (file_Read fs k f))"

text \<open>\<open>io.MultiReader\<close> over the header and the content: the header while it is there, then the
  content until it reports EOF. \<open>mr_header = None\<close> and \<open>mr_gone\<close> are readers already dropped from
  the list.\<close>

record multi_reader =
  mr_header :: "bytes option"
  mr_src :: content_src
  mr_gone :: bool

definition multi_Read :: "fs_ops \<Rightarrow> nat \<Rightarrow> multi_reader \<Rightarrow> ((bytes \<times> content_error option) \<times> multi_reader) option" where
  "multi_Read fs k m =
     (case mr_header m of
        Some (c # h) \<Rightarrow> Some ((take k (c # h), None), m\<lparr>mr_header := Some (drop k (c # h))\<rparr>)
      | _ \<Rightarrow>
          if mr_gone m then Some (([], Some CEOF), m\<lparr>mr_header := None\<rparr>)
          else
            (case src_Read fs k (mr_src m) of
               None \<Rightarrow> None
             | Some ((bs, e), c) \<Rightarrow>
                 Some ((bs, e), m\<lparr>mr_header := None, mr_src := c, mr_gone := (e = Some CEOF)\<rparr>)))"

record tracked_reader =
  td_reader :: multi_reader
  td_exhausted :: bool

definition tracked_Read :: "fs_ops \<Rightarrow> nat \<Rightarrow> tracked_reader \<Rightarrow> ((bytes \<times> content_error option) \<times> tracked_reader) option" where
  "tracked_Read fs k t =
     (case multi_Read fs k (td_reader t) of
        None \<Rightarrow> None
      | Some ((bs, e), m) \<Rightarrow>
          Some ((bs, e), \<lparr>td_reader = m, td_exhausted = (td_exhausted t \<or> e = Some CEOF)\<rparr>))"

section \<open>The callback\<close>

datatype 'b data_prog =
    DReturn "RecipientResult list" "backend_error option" 'b
  | DRead nat "bytes \<times> content_error option \<Rightarrow> 'b data_prog"

primrec run_prog ::
  "fs_ops \<Rightarrow> 'b data_prog \<Rightarrow> tracked_reader \<Rightarrow>
   ((RecipientResult list \<times> backend_error option \<times> 'b) \<times> tracked_reader) option" where
  "run_prog fs (DReturn rs e b) = (\<lambda>t. Some ((rs, e, b), t))"
| "run_prog fs (DRead k f) =
     (\<lambda>t. case tracked_Read fs k t of None \<Rightarrow> None | Some (x, t') \<Rightarrow> run_prog fs (f x) t')"

section \<open>Draining\<close>

text \<open>What a reader still holds, and the number of reads of a drain that may come back empty.\<close>

fun src_left :: "content_src \<Rightarrow> nat" where
  "src_left (SrcDot r) = 2 * length (fst (du_all (sr_dot r))) + (if sr_exceeded r then 0 else 1)"
| "src_left (SrcSpool (MemReader d)) = length d"
| "src_left (SrcSpool (FileReader f)) = length (fl_data f) - fl_pos f"

definition multi_left :: "multi_reader \<Rightarrow> nat" where
  "multi_left m = (case mr_header m of None \<Rightarrow> 0 | Some h \<Rightarrow> length h) + src_left (mr_src m)"

text \<open>One read of the dot reader: a non-empty piece of the content, or its end.\<close>

lemma dot_Read_cases:
  assumes "0 < k" "dot_Read k d = ((bs, e), d')" "du_all d = (c, err, rest)"
  obtains (more) c' where "e = None" "bs \<noteq> []" "length bs \<le> k" "c = bs @ c'" "du_all d' = (c', err, rest)"
  | (ended) "c = []" "bs = []" "e = Some err" "du_all d' = ([], err, rest)" "lr_stream (du_lr d') = rest"
proof (cases "c = []")
  case True
  with assms dot_source.rd_end [of k d "(err, rest)"] have "bs = []" "e = Some err" "du_all d' = ([], err, rest)"
    "lr_stream (du_lr d') = rest" by (auto simp: du_ended_def)
  with True show thesis by (intro ended)
next
  case False
  then have nd: "\<not> du_done d" and fut: "du_future d = (c, err, rest)"
    using assms(3) by (auto simp: du_all_def split: if_splits)
  have "if length c < k then bs = c \<and> e = None \<and> du_ended err rest d'
    else bs = take k c \<and> e = None \<and> \<not> du_done d' \<and> du_future d' = (drop k c, err, rest)"
    using dot_Read_outcome [OF nd assms(1)] assms(2) fut False by (simp add: read_outcome_def split: if_splits)
  then show thesis
    using False assms(1) by (intro more [of "drop k c"]) (auto simp: du_all_ended split: if_splits, simp_all add: du_all_def)
qed

lemma dot_Read_0: "dot_Read 0 d = ((bs, e), d') \<Longrightarrow> bs = [] \<and> d' = d"
  by (auto simp: dot_Read_def split: if_splits)

lemma dot_Read_left:
  assumes "dot_Read k d = ((bs, e), d')"
  shows "0 < k \<Longrightarrow> e = None \<Longrightarrow> length (fst (du_all d')) < length (fst (du_all d)) \<and> bs \<noteq> []"
    and "length (fst (du_all d')) \<le> length (fst (du_all d))" and "length bs \<le> k"
proof -
  obtain c err rest where f: "du_all d = (c, err, rest)" by (metis surj_pair)
  have k: "0 < k \<Longrightarrow> (e = None \<longrightarrow> length (fst (du_all d')) < length (fst (du_all d)) \<and> bs \<noteq> []) \<and>
      length (fst (du_all d')) \<le> length (fst (du_all d)) \<and> length bs \<le> k"
    by (erule dot_Read_cases [OF _ assms f]) (use f in auto)
  then show "0 < k \<Longrightarrow> e = None \<Longrightarrow> length (fst (du_all d')) < length (fst (du_all d)) \<and> bs \<noteq> []"
    by simp
  show "length (fst (du_all d')) \<le> length (fst (du_all d))" "length bs \<le> k"
    using k dot_Read_0 assms by (cases "0 < k"; fastforce)+
qed

lemma sint_plus_one:
  fixes w :: "64 word"
  assumes "0 \<le> sint w"
  shows "sint (w + 1) = (if sint w = 2 ^ 63 - 1 then - (2 ^ 63) else sint w + 1)"
proof -
  have "sint w < 2 ^ 63" using sint_lt [of w] by simp
  then show ?thesis
    using assms by (auto simp: sint_word_ariths signed_take_bit_int_eq_self)
qed

lemma sint_minus_nat:
  fixes w :: "64 word"
  assumes "int n \<le> sint w"
  shows "sint (w - of_nat n) = sint w - int n"
proof -
  have "sint w < 2 ^ 63" using sint_lt [of w] by simp
  with assms have "sint (of_nat n :: 64 word) = int n"
    by (simp add: signed_of_nat signed_take_bit_int_eq_self)
  with assms \<open>sint w < 2 ^ 63\<close> show ?thesis
    by (simp add: sint_word_ariths signed_take_bit_int_eq_self)
qed

text \<open>A read of the size reader before the limit is crossed.\<close>

lemma sr_Read_open:
  assumes "\<not> sr_exceeded r"
    and "dot_Read (nat (min (int k) (sint (sr_remain r + 1)))) (sr_dot r) = ((bs, e), d)"
  shows "sr_Read k r =
    (if sint (sr_remain r + 1) < 0 then None
     else if int (length bs) \<le> sint (sr_remain r)
     then Some ((bs, map_option CWire e), r\<lparr>sr_dot := d, sr_remain := sr_remain r - of_nat (length bs)\<rparr>)
     else if \<not> sr_reported r then Some ((take (nat (sint (sr_remain r))) bs, Some CTooLarge),
       r\<lparr>sr_dot := d, sr_remain := 0, sr_exceeded := True, sr_reported := True\<rparr>)
     else Some (([], map_option CWire e), r\<lparr>sr_dot := d, sr_remain := 0, sr_exceeded := True\<rparr>))"
proof -
  have "(if int k > sint (sr_remain r + 1) then sint (sr_remain r + 1) else int k) = min (int k) (sint (sr_remain r + 1))"
    by simp
  moreover have "min (int k) (sint (sr_remain r + 1)) < 0 \<longleftrightarrow> sint (sr_remain r + 1) < 0" by auto
  ultimately show ?thesis using assms by (simp add: sr_Read_def Let_def)
qed

lemma sr_Read_left:
  assumes "sr_Read k r = Some ((bs, None), r')" "0 < k"
  shows "src_left (SrcDot r') < src_left (SrcDot r)"
proof (cases "sr_exceeded r")
  case True
  with assms(1) obtain d where "dot_Read k (sr_dot r) = ((bs, None), d)" "r' = r\<lparr>sr_dot := d\<rparr>"
    by (auto simp: sr_Read_def split: prod.splits)
  with dot_Read_left(1) [of k "sr_dot r" bs None d] True assms(2) show ?thesis by simp
next
  case False
  obtain bs1 e1 d where d: "dot_Read (nat (min (int k) (sint (sr_remain r + 1)))) (sr_dot r) = ((bs1, e1), d)"
    by (metis surj_pair)
  note left = dot_Read_left [OF d] and R = sr_Read_open [OF False d]
  show ?thesis
  proof (cases "int (length bs1) \<le> sint (sr_remain r)")
    case True
    with R assms(1) have r': "r' = r\<lparr>sr_dot := d, sr_remain := sr_remain r - of_nat (length bs1)\<rparr>" "e1 = None"
      "0 \<le> sint (sr_remain r + 1)"
      by (auto split: if_splits)
    with True sint_plus_one [of "sr_remain r"] have "0 < sint (sr_remain r + 1)" by (auto split: if_splits)
    with left(1) r' False assms(2) show ?thesis by simp
  next
    case gr: False
    with R assms(1) False left(2) show ?thesis by (auto split: if_splits)
  qed
qed

lemma src_Read_left:
  assumes "src_Read fs k c = Some ((bs, None), c')" "0 < k"
  shows "src_left c' < src_left c"
proof (cases c)
  case (SrcDot r)
  with assms show ?thesis by (auto simp del: src_left.simps dest!: sr_Read_left)
next
  case (SrcSpool rd)
  with assms show ?thesis
    by (cases rd) (auto simp: mem_Read_def file_Read_def Let_def split: if_splits option.splits)
qed

lemma multi_Read_header:
  "mr_header m = Some (c # h) \<Longrightarrow>
     multi_Read fs k m = Some ((take k (c # h), None), m\<lparr>mr_header := Some (drop k (c # h))\<rparr>)"
  by (simp add: multi_Read_def)

lemma multi_Read_src:
  "mr_header m = None \<or> mr_header m = Some [] \<Longrightarrow>
     multi_Read fs k m =
       (if mr_gone m then Some (([], Some CEOF), m\<lparr>mr_header := None\<rparr>)
        else map_option (\<lambda>((bs, e), c). ((bs, e),
          m\<lparr>mr_header := None, mr_src := c, mr_gone := (e = Some CEOF)\<rparr>)) (src_Read fs k (mr_src m)))"
  by (auto simp: multi_Read_def split: option.splits)

lemma header_cases:
  obtains (header) c h where "mr_header m = Some (c # h)" | (src) "mr_header m = None \<or> mr_header m = Some []"
  by (cases "mr_header m") (auto intro: list.exhaust)

lemma tracked_Read_left:
  assumes "tracked_Read fs k t = Some ((bs, None), t')" "0 < k"
  shows "multi_left (td_reader t') < multi_left (td_reader t)"
proof -
  obtain m where m: "multi_Read fs k (td_reader t) = Some ((bs, None), m)" "td_reader t' = m"
    using assms(1) by (auto simp: tracked_Read_def split: option.splits)
  show ?thesis
  proof (cases rule: header_cases [of "td_reader t", case_names header src])
    case (header c h)
    with m assms(2) have "m = (td_reader t)\<lparr>mr_header := Some (drop k (c # h))\<rparr>" by (simp add: multi_Read_header)
    with header m(2) assms(2) show ?thesis by (simp add: multi_left_def)
  next
    case src
    with m(1) obtain c where c: "src_Read fs k (mr_src (td_reader t)) = Some ((bs, None), c)"
      "m = (td_reader t)\<lparr>mr_header := None, mr_src := c, mr_gone := False\<rparr>"
      by (auto simp: multi_Read_src split: if_splits)
    with src_Read_left [OF c(1) assms(2)] m(2) show ?thesis
      by (simp add: multi_left_def split: option.splits)
  qed
qed

text \<open>\<open>io.Copy(io.Discard, r)\<close> reads 8 KiB at a time until a read reports an error; EOF is success.\<close>

function drain :: "fs_ops \<Rightarrow> tracked_reader \<Rightarrow> (content_error option \<times> tracked_reader) option" where
  "drain fs t =
     (case tracked_Read fs 8192 t of
        None \<Rightarrow> None
      | Some ((bs, Some e), t') \<Rightarrow> Some (if e = CEOF then None else Some e, t')
      | Some ((bs, None), t') \<Rightarrow> drain fs t')"
  by pat_completeness auto
termination
  by (relation "measure (\<lambda>(fs, t). multi_left (td_reader t))") (auto intro: tracked_Read_left)

declare drain.simps [simp del]

section \<open>Evaluating the call\<close>

datatype data_defect =
    DefectNoRecipients
  | DefectResultAndError
  | DefectResultCount nat nat
  | DefectResultName nat
  | DefectEnhancedClass nat
  | DefectEarlySuccess

datatype data_cause = DrainFailed content_error | CallFailed backend_error

record dataEvaluation =
  de_result :: "RecipientResult list"
  de_completed :: bool
  de_closeConnection :: bool
  de_defect :: "data_defect list"
  de_cause :: "data_cause option"

definition data_count :: "listenerMode \<Rightarrow> bytes list \<Rightarrow> nat" where
  "data_count mode recipients = (if mode = modeLMTP then length recipients else 1)"

definition temporaryDataResult :: "listenerMode \<Rightarrow> bytes list \<Rightarrow> bytes \<Rightarrow> RecipientResult list" where
  "temporaryDataResult mode recipients command =
     map (\<lambda>i. \<lparr>rr_Recipient = (if mode = modeLMTP \<and> i < length recipients then recipients ! i else []),
               rr_Command = command, rr_Code = 451, rr_Enhanced = enhanced 4 3 0,
               rr_Text = ''Temporary server failure''\<rparr>)
       [0..<data_count mode recipients]"

definition invalidDataOutcome ::
  "listenerMode \<Rightarrow> bytes list \<Rightarrow> bytes \<Rightarrow> data_cause option \<Rightarrow> data_defect \<Rightarrow> dataEvaluation" where
  "invalidDataOutcome mode recipients command cause detail =
     \<lparr>de_result = temporaryDataResult mode recipients command, de_completed = False,
      de_closeConnection = False, de_defect = [detail], de_cause = cause\<rparr>"

fun wrong_name :: "nat \<Rightarrow> RecipientResult list \<Rightarrow> bytes list \<Rightarrow> nat option" where
  "wrong_name i (r # rs) (n # ns) = (if rr_Recipient r \<noteq> n then Some i else wrong_name (Suc i) rs ns)"
| "wrong_name i _ _ = None"

fun normalizeResults :: "nat \<Rightarrow> RecipientResult list \<Rightarrow> RecipientResult list \<times> data_defect list" where
  "normalizeResults i [] = ([], [])"
| "normalizeResults i (r # rs) =
     (case normalizeRecipientResult r of
        (r', repaired) \<Rightarrow>
          (case normalizeResults (Suc i) rs of
             (rs', ds) \<Rightarrow> (r' # rs', if repaired then DefectEnhancedClass i # ds else ds)))"

definition validateDataOutcome ::
  "listenerMode \<Rightarrow> bytes list \<Rightarrow> bytes \<Rightarrow> RecipientResult list \<Rightarrow> backend_error option \<Rightarrow> dataEvaluation" where
  "validateDataOutcome mode recipients command result callErr =
     (if recipients = [] then
        invalidDataOutcome mode recipients command (map_option CallFailed callErr) DefectNoRecipients
      else
        case callErr of
          Some e \<Rightarrow>
            if result \<noteq> [] then
              invalidDataOutcome mode recipients command (Some (CallFailed e)) DefectResultAndError
            else \<lparr>de_result = temporaryDataResult mode recipients command, de_completed = False,
                  de_closeConnection = False, de_defect = [], de_cause = Some (CallFailed e)\<rparr>
        | None \<Rightarrow>
            let want = data_count mode recipients in
            if length result \<noteq> want then
              invalidDataOutcome mode recipients command None (DefectResultCount (length result) want)
            else
              case (if mode = modeLMTP then wrong_name 0 result recipients else None) of
                Some i \<Rightarrow> invalidDataOutcome mode recipients command None (DefectResultName i)
              | None \<Rightarrow>
                  \<lparr>de_result = fst (normalizeResults 0 result), de_completed = True,
                   de_closeConnection = False, de_defect = snd (normalizeResults 0 result), de_cause = None\<rparr>)"

definition replaceAccepted :: "RecipientResult \<Rightarrow> RecipientResult" where
  "replaceAccepted r =
     (if Accepted r then r\<lparr>rr_Code := 451, rr_Enhanced := enhanced 4 3 0, rr_Text := ''Temporary server failure''\<rparr>
      else r)"

text \<open>What becomes of an outcome whose callback returned before the content was consumed: no success.\<close>

definition withholdSuccess :: "dataEvaluation \<Rightarrow> dataEvaluation" where
  "withholdSuccess ev =
     (if list_ex Accepted (de_result ev) then
        ev\<lparr>de_result := map replaceAccepted (de_result ev), de_completed := False,
           de_defect := de_defect ev @ [DefectEarlySuccess]\<rparr>
      else ev)"

definition drainFailed :: "content_error \<Rightarrow> dataEvaluation" where
  "drainFailed e = \<lparr>de_result = [], de_completed = False, de_closeConnection = True, de_defect = [],
     de_cause = Some (DrainFailed e)\<rparr>"

text \<open>The drain of an incomplete call: a first attempt, and a second one past the size limit.\<close>

definition drainRest :: "fs_ops \<Rightarrow> tracked_reader \<Rightarrow> (content_error option \<times> tracked_reader) option" where
  "drainRest fs t =
     (case drain fs t of
        Some (Some CTooLarge, t') \<Rightarrow> drain fs t'
      | r \<Rightarrow> r)"

definition evaluateDataCall ::
  "fs_ops \<Rightarrow> listenerMode \<Rightarrow> bytes list \<Rightarrow> bytes \<Rightarrow> multi_reader \<Rightarrow> 'b data_prog \<Rightarrow>
   (dataEvaluation \<times> multi_reader \<times> 'b) option" where
  "evaluateDataCall fs mode recipients command reader handler =
     (case run_prog fs handler \<lparr>td_reader = reader, td_exhausted = False\<rparr> of
        None \<Rightarrow> None
      | Some ((result, callErr, b), t) \<Rightarrow>
          let returnedEarly = \<not> td_exhausted t in
          case (if returnedEarly then drainRest fs t else Some (None, t)) of
            None \<Rightarrow> None
          | Some (Some e, t') \<Rightarrow> Some (drainFailed e, td_reader t', b)
          | Some (None, t') \<Rightarrow>
              let ev = validateDataOutcome mode recipients command result callErr in
              Some (if \<not> returnedEarly \<or> de_closeConnection ev then ev else withholdSuccess ev, td_reader t', b))"

section \<open>The framing reader's end\<close>

lemma dot_Read_end:
  assumes "dot_Read k d = ((bs, e), d')"
  shows "snd (du_all d') = snd (du_all d)" and "fst (du_all d) = bs @ fst (du_all d')"
    and "e = Some x \<Longrightarrow> bs = [] \<and> du_all d' = ([], x, lr_stream (du_lr d'))"
proof -
  obtain c err rest where f: "du_all d = (c, err, rest)" by (metis surj_pair)
  have pos: "snd (du_all d') = snd (du_all d) \<and> fst (du_all d) = bs @ fst (du_all d') \<and>
      (e = Some x \<longrightarrow> bs = [] \<and> du_all d' = ([], x, lr_stream (du_lr d')))" if "0 < k"
    by (rule dot_Read_cases [OF that assms f]) (use f in auto)
  have "snd (du_all d') = snd (du_all d) \<and> fst (du_all d) = bs @ fst (du_all d') \<and>
      (e = Some x \<longrightarrow> bs = [] \<and> du_all d' = ([], x, lr_stream (du_lr d')))" if "k = 0"
    using assms that by (auto simp: dot_Read_def du_all_def split: if_splits option.splits)
  with pos show "snd (du_all d') = snd (du_all d)" "fst (du_all d) = bs @ fst (du_all d')"
    "e = Some x \<Longrightarrow> bs = [] \<and> du_all d' = ([], x, lr_stream (du_lr d'))" by auto
qed

text \<open>The size reader over a message \<open>c\<close> that ends with \<open>err\<close> and leaves \<open>rest\<close>, under the limit \<open>mx\<close>:
  what it has delivered and what it has left add up, and the limit is crossed only by a message
  that is too long.\<close>

definition sr_inv :: "int \<Rightarrow> bytes \<times> wire_error \<times> bytes \<Rightarrow> size_reader \<Rightarrow> bool" where
  "sr_inv mx f r \<longleftrightarrow> mx < MaxInt64 \<and> snd (du_all (sr_dot r)) = snd f \<and>
     length (fst (du_all (sr_dot r))) \<le> length (fst f) \<and>
     (if sr_exceeded r then mx < int (length (fst f)) \<and> sr_reported r
      else 0 \<le> sint (sr_remain r) \<and> \<not> sr_reported r \<and>
        sint (sr_remain r) + int (length (fst f)) = mx + int (length (fst (du_all (sr_dot r)))))"

definition sr_ended :: "size_reader \<Rightarrow> bytes \<times> wire_error \<times> bytes \<Rightarrow> bool" where
  "sr_ended r f \<longleftrightarrow> fst (snd f) = IO EOF \<and> fst (du_all (sr_dot r)) = [] \<and>
     lr_stream (du_lr (sr_dot r)) = snd (snd f)"

lemma dot_Read_last:
  assumes "dot_Read k d = ((bs, e), d')" and "snd (du_all d) = z" and "e = Some x"
  shows "x = fst z" and "lr_stream (du_lr d') = snd z" and "fst (du_all d') = []"
  using dot_Read_end [OF assms(1)] assms(2,3) by (metis fst_conv snd_conv)+

lemma sr_Read_inv:
  assumes inv: "sr_inv mx f r"
  shows "\<exists>bs e r'. sr_Read k r = Some ((bs, e), r') \<and> sr_inv mx f r' \<and>
    (e = Some CEOF \<longrightarrow> sr_ended r' f) \<and> (e = Some CTooLarge \<longrightarrow> \<not> sr_exceeded r \<and> sr_exceeded r') \<and>
    (\<forall>x. e = Some (CWire x) \<longrightarrow> x = fst (snd f)) \<and> (sr_exceeded r \<longrightarrow> sr_exceeded r')"
proof (cases "sr_exceeded r")
  case True
  obtain bs e d where d: "dot_Read k (sr_dot r) = ((bs, e), d)" by (metis surj_pair)
  note en = dot_Read_end [OF d]
  have "sr_Read k r = Some ((bs, map_option CWire e), r\<lparr>sr_dot := d\<rparr>)" using True d by (simp add: sr_Read_def)
  moreover have "sr_inv mx f (r\<lparr>sr_dot := d\<rparr>)" using inv en(1,2) True by (simp add: sr_inv_def)
  moreover have "snd (du_all (sr_dot r)) = snd f" using inv by (simp add: sr_inv_def)
  note last = dot_Read_last [OF d this]
  ultimately show ?thesis using True last by (auto simp: sr_ended_def)
next
  case False
  obtain bs e d where d: "dot_Read (nat (min (int k) (sint (sr_remain r + 1)))) (sr_dot r) = ((bs, e), d)"
    by (metis surj_pair)
  note en = dot_Read_end [OF d] and R = sr_Read_open [OF False d]
  have rem: "0 \<le> sint (sr_remain r)" "mx < MaxInt64" "\<not> sr_reported r"
    "sint (sr_remain r) + int (length (fst f)) = mx + int (length (fst (du_all (sr_dot r))))"
    "length (fst (du_all (sr_dot r))) \<le> length (fst f)"
    using inv False by (simp_all add: sr_inv_def)
  then have "sint (sr_remain r) < 2 ^ 63 - 1" by (simp add: MaxInt64_def)
  with rem(1) have nopanic: "\<not> sint (sr_remain r + 1) < 0" by (simp add: sint_plus_one)
  show ?thesis
  proof (cases "int (length bs) \<le> sint (sr_remain r)")
    case True
    let ?r = "r\<lparr>sr_dot := d, sr_remain := sr_remain r - of_nat (length bs)\<rparr>"
    have "sr_inv mx f ?r"
      using rem True en(1,2) False inv by (simp add: sr_inv_def sint_minus_nat)
    moreover have "snd (du_all (sr_dot r)) = snd f" using inv by (simp add: sr_inv_def)
    note last = dot_Read_last [OF d this]
    ultimately show ?thesis using R True nopanic False last by (auto simp: sr_ended_def)
  next
    case gr: False
    let ?r = "r\<lparr>sr_dot := d, sr_remain := 0, sr_exceeded := True, sr_reported := True\<rparr>"
    have "int (length bs) \<le> int (length (fst (du_all (sr_dot r))))" using en(2) by simp
    with gr rem have "mx < int (length (fst f))" by linarith
    then have "sr_inv mx f ?r" using rem en(1,2) inv by (simp add: sr_inv_def)
    with R gr nopanic rem(3) False show ?thesis by auto
  qed
qed

definition td_exceeded :: "tracked_reader \<Rightarrow> bool" where
  "td_exceeded t \<longleftrightarrow> (case mr_src (td_reader t) of SrcDot r \<Rightarrow> sr_exceeded r | SrcSpool _ \<Rightarrow> False)"

definition td_inv :: "int \<Rightarrow> bytes \<times> wire_error \<times> bytes \<Rightarrow> tracked_reader \<Rightarrow> bool" where
  "td_inv mx f t \<longleftrightarrow> (\<exists>r. mr_src (td_reader t) = SrcDot r \<and> sr_inv mx f r \<and>
     (td_exhausted t \<longrightarrow> mr_gone (td_reader t)) \<and> (mr_gone (td_reader t) \<longrightarrow> sr_ended r f))"

text \<open>What a read, or a sequence of reads, does to the reader in front of the framing reader.\<close>

definition td_later :: "int \<Rightarrow> bytes \<times> wire_error \<times> bytes \<Rightarrow> tracked_reader \<Rightarrow> tracked_reader \<Rightarrow> bool" where
  "td_later mx f t t' \<longleftrightarrow> td_inv mx f t' \<and> (td_exhausted t \<longrightarrow> td_exhausted t') \<and> (td_exceeded t \<longrightarrow> td_exceeded t')"

lemma td_later_trans: "td_later mx f t u \<Longrightarrow> td_later mx f u v \<Longrightarrow> td_later mx f t v"
  by (auto simp: td_later_def)

lemma tracked_Read_inv:
  assumes inv: "td_inv mx f t"
  shows "\<exists>bs e t'. tracked_Read fs k t = Some ((bs, e), t') \<and> td_later mx f t t' \<and>
    (e = Some CEOF \<longrightarrow> td_exhausted t') \<and> (e = Some CTooLarge \<longrightarrow> \<not> td_exceeded t \<and> td_exceeded t') \<and>
    (\<forall>x. e = Some (CWire x) \<longrightarrow> x = fst (snd f))"
proof -
  let ?m = "td_reader t"
  from inv obtain r where r: "mr_src ?m = SrcDot r" "sr_inv mx f r"
    "td_exhausted t \<longrightarrow> mr_gone ?m" "mr_gone ?m \<longrightarrow> sr_ended r f" by (auto simp: td_inv_def)
  show ?thesis
  proof (cases rule: header_cases [of ?m, case_names header src])
    case (header c h)
    with r inv show ?thesis
      by (auto simp: tracked_Read_def multi_Read_header td_later_def td_inv_def td_exceeded_def)
  next
    case src
    show ?thesis
    proof (cases "mr_gone ?m")
      case True
      with src r show ?thesis
        by (auto simp: tracked_Read_def multi_Read_src td_later_def td_inv_def td_exceeded_def sr_ended_def)
    next
      case False
      obtain bs e r' where R: "sr_Read k r = Some ((bs, e), r')" "sr_inv mx f r'" "e = Some CEOF \<longrightarrow> sr_ended r' f"
        "e = Some CTooLarge \<longrightarrow> \<not> sr_exceeded r \<and> sr_exceeded r'" "\<forall>x. e = Some (CWire x) \<longrightarrow> x = fst (snd f)"
        "sr_exceeded r \<longrightarrow> sr_exceeded r'"
        using sr_Read_inv [OF r(2)] by blast
      define t' where "t' = \<lparr>td_reader = ?m\<lparr>mr_header := None, mr_src := SrcDot r', mr_gone := (e = Some CEOF)\<rparr>,
        td_exhausted = (td_exhausted t \<or> e = Some CEOF)\<rparr>"
      have "tracked_Read fs k t = Some ((bs, e), t')"
        using src False r(1) R(1) by (simp add: tracked_Read_def multi_Read_src t'_def)
      moreover have "td_later mx f t t'"
        using R(2,3,6) r(1,3) False by (simp add: td_later_def td_inv_def td_exceeded_def t'_def)
      moreover have "e = Some CTooLarge \<longrightarrow> \<not> td_exceeded t \<and> td_exceeded t'"
        using R(4) r(1) by (simp add: td_exceeded_def t'_def)
      moreover have "e = Some CEOF \<longrightarrow> td_exhausted t'" by (simp add: t'_def)
      ultimately show ?thesis using R(5) by blast
    qed
  qed
qed

lemma run_prog_inv:
  "td_inv mx f t \<Longrightarrow> \<exists>x t'. run_prog fs p t = Some (x, t') \<and> td_later mx f t t'"
proof (induction p arbitrary: t)
  case (DReturn rs e b)
  then show ?case by (auto simp: td_later_def)
next
  case (DRead k g)
  obtain x t1 where t1: "tracked_Read fs k t = Some (x, t1)" "td_later mx f t t1"
    using tracked_Read_inv [OF DRead.prems, of fs k] by blast
  then have "td_inv mx f t1" by (simp add: td_later_def)
  from DRead.IH [OF rangeI this] obtain y t' where "run_prog fs (g x) t1 = Some (y, t')" "td_later mx f t1 t'" by blast
  with t1 td_later_trans show ?case by fastforce
qed

lemma drain_inv:
  "td_inv mx f t \<Longrightarrow> \<exists>e t'. drain fs t = Some (e, t') \<and> td_later mx f t t' \<and>
    (e = None \<longrightarrow> td_exhausted t') \<and> (e = Some CTooLarge \<longrightarrow> \<not> td_exceeded t \<and> td_exceeded t') \<and>
    (\<forall>x. e = Some (CWire x) \<longrightarrow> x = fst (snd f) \<and> x \<noteq> IO EOF)"
proof (induction fs t rule: drain.induct)
  case (1 fs t)
  obtain bs e t1 where t1: "tracked_Read fs 8192 t = Some ((bs, e), t1)" "td_later mx f t t1"
    "e = Some CEOF \<longrightarrow> td_exhausted t1" "e = Some CTooLarge \<longrightarrow> \<not> td_exceeded t \<and> td_exceeded t1"
    "\<forall>x. e = Some (CWire x) \<longrightarrow> x = fst (snd f)"
    using tracked_Read_inv [OF "1.prems", of fs 8192] by blast
  show ?case
  proof (cases e)
    case (Some x)
    with t1 show ?thesis by (cases x) (auto simp: drain.simps [of fs t])
  next
    case None
    with t1 have "td_inv mx f t1" by (simp add: td_later_def)
    from "1.IH" [OF t1(1) refl refl None this] obtain e' t' where IH: "drain fs t1 = Some (e', t')" "td_later mx f t1 t'"
      "e' = None \<longrightarrow> td_exhausted t'" "e' = Some CTooLarge \<longrightarrow> \<not> td_exceeded t1 \<and> td_exceeded t'"
      "\<forall>x. e' = Some (CWire x) \<longrightarrow> x = fst (snd f) \<and> x \<noteq> IO EOF" by blast
    moreover have "drain fs t = Some (e', t')" using t1(1) None IH(1) by (simp add: drain.simps [of fs t])
    ultimately show ?thesis using td_later_trans [OF t1(2)] t1(2) by (auto simp: td_later_def)
  qed
qed

lemma drainRest_inv:
  assumes inv: "td_inv mx f t"
  shows "\<exists>e t'. drainRest fs t = Some (e, t') \<and> td_later mx f t t' \<and>
    (e = None \<longrightarrow> td_exhausted t') \<and> (e \<noteq> None \<longrightarrow> fst (snd f) \<noteq> IO EOF)"
proof -
  obtain e t1 where t1: "drain fs t = Some (e, t1)" "td_later mx f t t1" "e = None \<longrightarrow> td_exhausted t1"
    "e = Some CTooLarge \<longrightarrow> \<not> td_exceeded t \<and> td_exceeded t1"
    "\<forall>x. e = Some (CWire x) \<longrightarrow> x = fst (snd f) \<and> x \<noteq> IO EOF"
    using drain_inv [OF inv, of fs] by blast
  show ?thesis
  proof (cases "e = Some CTooLarge")
    case True
    have "td_inv mx f t1" using t1(2) by (simp add: td_later_def)
    from drain_inv [OF this, of fs] obtain e2 t2 where t2: "drain fs t1 = Some (e2, t2)" "td_later mx f t1 t2"
      "e2 = None \<longrightarrow> td_exhausted t2" "e2 = Some CTooLarge \<longrightarrow> \<not> td_exceeded t1 \<and> td_exceeded t2"
      "\<forall>x. e2 = Some (CWire x) \<longrightarrow> x = fst (snd f) \<and> x \<noteq> IO EOF" by blast
    moreover have "drainRest fs t = Some (e2, t2)" using t1(1) True t2(1) by (simp add: drainRest_def)
    moreover have "e2 \<noteq> Some CTooLarge" using t1(4) True t2(4) by blast
    then have "e2 \<noteq> None \<longrightarrow> fst (snd f) \<noteq> IO EOF"
      using t2(5) by (metis content_error.exhaust option.exhaust)
    ultimately show ?thesis using td_later_trans [OF t1(2)] by blast
  next
    case False
    then have "drainRest fs t = Some (e, t1)"
      using t1(1) by (simp add: drainRest_def split: option.splits content_error.splits)
    moreover have "e \<noteq> None \<longrightarrow> fst (snd f) \<noteq> IO EOF"
      using t1(5) False by (metis content_error.exhaust option.exhaust)
    ultimately show ?thesis using t1(2,3) by blast
  qed
qed

lemma validate_open: "\<not> de_closeConnection (validateDataOutcome mode recipients command result callErr)"
  by (auto simp: validateDataOutcome_def invalidDataOutcome_def Let_def split: option.splits)

lemma withhold_simps [simp]:
  "de_closeConnection (withholdSuccess ev) = de_closeConnection ev"
  "length (de_result (withholdSuccess ev)) = length (de_result ev)"
  "\<not> list_ex Accepted (de_result (withholdSuccess ev))"
  "map rr_Recipient (de_result (withholdSuccess ev)) = map rr_Recipient (de_result ev)"
  by (auto simp: withholdSuccess_def replaceAccepted_def Accepted_def list_ex_iff)

lemma evaluateDataCall_unfold:
  assumes "run_prog fs prog \<lparr>td_reader = reader, td_exhausted = False\<rparr> = Some ((rs, e, b), t1)"
    and "(if \<not> td_exhausted t1 then drainRest fs t1 else Some (None, t1)) = Some (e2, t2)"
  shows "evaluateDataCall fs mode recipients command reader prog =
    Some (case e2 of Some x \<Rightarrow> drainFailed x | None \<Rightarrow>
            (if td_exhausted t1 then validateDataOutcome mode recipients command rs e
             else withholdSuccess (validateDataOutcome mode recipients command rs e)), td_reader t2, b)"
  using assms validate_open by (cases e2) (simp_all add: evaluateDataCall_def Let_def)

text \<open>The whole call over a DATA message: it always returns; the session goes on exactly when the
  message has a proper end, and then the framing reader stands behind it.\<close>

lemma evaluateDataCall_dot:
  assumes inv: "sr_inv mx f r"
  shows "\<exists>ev m b r'. evaluateDataCall fs mode recipients command
      \<lparr>mr_header = Some header, mr_src = SrcDot r, mr_gone = False\<rparr> prog = Some (ev, m, b) \<and>
    mr_src m = SrcDot r' \<and> sr_inv mx f r' \<and> (de_closeConnection ev \<longleftrightarrow> fst (snd f) \<noteq> IO EOF) \<and>
    (\<not> de_closeConnection ev \<longrightarrow> sr_ended r' f)"
proof -
  let ?t = "\<lparr>td_reader = \<lparr>mr_header = Some header, mr_src = SrcDot r, mr_gone = False\<rparr>, td_exhausted = False\<rparr>"
  have "td_inv mx f ?t" using inv by (simp add: td_inv_def)
  from run_prog_inv [OF this, of fs prog] obtain rs e b t1
    where t1: "run_prog fs prog ?t = Some ((rs, e, b), t1)" "td_later mx f ?t t1" by (metis surj_pair)
  obtain e2 t2 where t2: "(if \<not> td_exhausted t1 then drainRest fs t1 else Some (None, t1)) = Some (e2, t2)"
    "td_inv mx f t2" "e2 = None \<longrightarrow> td_exhausted t2" "e2 \<noteq> None \<longrightarrow> fst (snd f) \<noteq> IO EOF"
  proof (cases "td_exhausted t1")
    case True
    then show ?thesis using t1(2) by (intro that [of None t1]) (simp_all add: td_later_def)
  next
    case False
    have "td_inv mx f t1" using t1(2) by (simp add: td_later_def)
    from drainRest_inv [OF this, of fs] False that show ?thesis by (auto simp: td_later_def)
  qed
  from t2(2) obtain r' where r': "mr_src (td_reader t2) = SrcDot r'" "sr_inv mx f r'"
    "td_exhausted t2 \<longrightarrow> sr_ended r' f" by (auto simp: td_inv_def)
  define ev where "ev = (case e2 of Some x \<Rightarrow> drainFailed x | None \<Rightarrow>
      (if td_exhausted t1 then validateDataOutcome mode recipients command rs e
       else withholdSuccess (validateDataOutcome mode recipients command rs e)))"
  have "evaluateDataCall fs mode recipients command (td_reader ?t) prog = Some (ev, td_reader t2, b)"
    unfolding ev_def tracked_reader.select_convs by (rule evaluateDataCall_unfold [OF t1(1) t2(1)])
  moreover have close: "de_closeConnection ev \<longleftrightarrow> e2 \<noteq> None"
    using validate_open by (simp add: ev_def drainFailed_def split: option.splits)
  moreover have "e2 = None \<longrightarrow> sr_ended r' f" using t2(3) r'(3) by blast
  moreover have "e2 = None \<longrightarrow> fst (snd f) = IO EOF" using calculation by (simp add: sr_ended_def)
  ultimately show ?thesis using r' t2(4) by (intro exI [of _ ev] exI [of _ "td_reader t2"] exI [of _ b] exI [of _ r']) auto
qed

section \<open>The outcome of the call\<close>

lemma wrong_name_None:
  "length rs = length ns \<Longrightarrow> wrong_name i rs ns = None \<longleftrightarrow> map rr_Recipient rs = ns"
  by (induction i rs ns rule: wrong_name.induct) auto

definition class_agrees :: "RecipientResult \<Rightarrow> bool" where
  "class_agrees r \<longleftrightarrow> ec_String (rr_Enhanced r) = [] \<or> ec_Class (rr_Enhanced r) = hundreds (rr_Code r) \<or>
     hundreds (rr_Code r) \<notin> {2, 4, 5}"

lemma normalizeResults_map: "fst (normalizeResults i rs) = map (fst \<circ> normalizeRecipientResult) rs"
  by (induction rs arbitrary: i) (simp_all add: case_prod_beta)

lemma normalizeRecipientResult_props:
  "rr_Recipient (fst (normalizeRecipientResult r)) = rr_Recipient r"
  "rr_Code (fst (normalizeRecipientResult r)) = rr_Code r"
  "class_agrees (fst (normalizeRecipientResult r))"
  by (simp_all add: normalizeRecipientResult_def case_prod_beta normalizeEnhancedCode_def class_agrees_def)

lemma normalizeResults_props:
  "length (fst (normalizeResults i rs)) = length rs"
  "map rr_Recipient (fst (normalizeResults i rs)) = map rr_Recipient rs"
  "map rr_Code (fst (normalizeResults i rs)) = map rr_Code rs"
  "list_all class_agrees (fst (normalizeResults i rs))"
  by (simp_all add: normalizeResults_map normalizeRecipientResult_props list_all_iff)

lemma temporary_props:
  "length (temporaryDataResult mode recipients command) = data_count mode recipients"
  "mode = modeLMTP \<Longrightarrow> map rr_Recipient (temporaryDataResult mode recipients command) = recipients"
  "\<not> list_ex Accepted (temporaryDataResult mode recipients command)"
  "list_all class_agrees (temporaryDataResult mode recipients command)"
  by (auto simp: temporaryDataResult_def data_count_def list_ex_iff list_all_iff Accepted_def class_agrees_def
      hundreds_def intro: nth_equalityI)

lemma validate_outcome:
  fixes mode recipients command result callErr
  defines "ev \<equiv> validateDataOutcome mode recipients command result callErr"
  assumes "recipients \<noteq> []"
  shows "length (de_result ev) = data_count mode recipients"
    and "mode = modeLMTP \<Longrightarrow> map rr_Recipient (de_result ev) = recipients"
    and "list_all class_agrees (de_result ev)"
    and "list_ex Accepted (de_result ev) \<Longrightarrow> de_completed ev"
    and "de_completed ev \<Longrightarrow> callErr = None \<and> map rr_Code (de_result ev) = map rr_Code result"
proof -
  consider (bad) "de_result ev = temporaryDataResult mode recipients command" "\<not> de_completed ev"
    | (good) "callErr = None" "length result = data_count mode recipients"
        "mode = modeLMTP \<longrightarrow> map rr_Recipient result = recipients"
        "de_result ev = fst (normalizeResults 0 result)" "de_completed ev"
  proof (cases callErr)
    case (Some e)
    then show thesis using assms
      by (intro bad) (auto simp: ev_def validateDataOutcome_def invalidDataOutcome_def)
  next
    case None
    show thesis
    proof (cases "length result = data_count mode recipients \<and> (mode = modeLMTP \<longrightarrow> map rr_Recipient result = recipients)")
      case True
      then have "(if mode = modeLMTP then wrong_name 0 result recipients else None) = None"
        by (simp add: wrong_name_None data_count_def)
      then have "ev = \<lparr>de_result = fst (normalizeResults 0 result), de_completed = True,
          de_closeConnection = False, de_defect = snd (normalizeResults 0 result), de_cause = None\<rparr>"
        by (simp add: ev_def validateDataOutcome_def Let_def None assms(2) conjunct1 [OF True])
      with True None show thesis by (intro good) simp_all
    next
      case False
      show thesis
      proof (cases "length result = data_count mode recipients")
        case len: True
        with False obtain i where "(if mode = modeLMTP then wrong_name 0 result recipients else None) = Some i"
          using wrong_name_None [of result recipients 0] by (cases "wrong_name 0 result recipients") (auto simp: data_count_def)
        then show thesis
          by (intro bad) (simp_all add: ev_def validateDataOutcome_def invalidDataOutcome_def Let_def None assms(2) len)
      next
        case nolen: False
        then show thesis
          by (intro bad) (simp_all add: ev_def validateDataOutcome_def invalidDataOutcome_def Let_def None assms(2))
      qed
    qed
  qed
  note c = this
  show "length (de_result ev) = data_count mode recipients"
    by (cases rule: c) (simp_all add: temporary_props normalizeResults_props)
  show "mode = modeLMTP \<Longrightarrow> map rr_Recipient (de_result ev) = recipients"
    by (cases rule: c) (simp_all add: temporary_props normalizeResults_props)
  show "list_all class_agrees (de_result ev)"
    by (cases rule: c) (simp_all add: temporary_props normalizeResults_props)
  show "list_ex Accepted (de_result ev) \<Longrightarrow> de_completed ev"
    by (cases rule: c) (simp_all add: temporary_props)
  show "de_completed ev \<Longrightarrow> callErr = None \<and> map rr_Code (de_result ev) = map rr_Code result"
    by (cases rule: c) (simp_all add: normalizeResults_props)
qed

lemma withhold_class: "list_all class_agrees (de_result ev) \<Longrightarrow> list_all class_agrees (de_result (withholdSuccess ev))"
  by (auto simp: withholdSuccess_def replaceAccepted_def class_agrees_def list_all_iff hundreds_def)

lemma withhold_completed: "de_completed (withholdSuccess ev) \<Longrightarrow> withholdSuccess ev = ev"
  by (simp add: withholdSuccess_def split: if_splits)

text \<open>A call that leaves the connection open has one of two outcomes: the callback's own, when it had
  read to the end, or that outcome without its successes.\<close>

lemma evaluateDataCall_open:
  assumes "evaluateDataCall fs mode recipients command reader prog = Some (ev, m, b)" "\<not> de_closeConnection ev"
  obtains rs e t where "run_prog fs prog \<lparr>td_reader = reader, td_exhausted = False\<rparr> = Some ((rs, e, b), t)"
    and "ev = (if td_exhausted t then validateDataOutcome mode recipients command rs e
               else withholdSuccess (validateDataOutcome mode recipients command rs e))"
proof -
  obtain rs e b' t where run: "run_prog fs prog \<lparr>td_reader = reader, td_exhausted = False\<rparr> = Some ((rs, e, b'), t)"
    using assms(1) by (auto simp: evaluateDataCall_def split: option.splits)
  obtain e2 t2 where d: "(if \<not> td_exhausted t then drainRest fs t else Some (None, t)) = Some (e2, t2)"
    using assms(1) run by (auto simp: evaluateDataCall_def Let_def split: option.splits)
  from assms evaluateDataCall_unfold [OF run d, of mode recipients command]
  have "b' = b" "ev = (if td_exhausted t then validateDataOutcome mode recipients command rs e
               else withholdSuccess (validateDataOutcome mode recipients command rs e))"
    by (auto simp: drainFailed_def split: option.splits)
  with run show thesis by (intro that) simp_all
qed

definition start_reader :: "bytes \<Rightarrow> int \<Rightarrow> line_reader \<Rightarrow> multi_reader" where
  "start_reader header mx lr =
     \<lparr>mr_header = Some header,
      mr_src = SrcDot \<lparr>sr_dot = NewDotUnstuffReader lr, sr_remain = word_of_int mx, sr_exceeded = False, sr_reported = False\<rparr>,
      mr_gone = False\<rparr>"

lemma sint_of_int64: "0 \<le> mx \<Longrightarrow> mx \<le> MaxInt64 \<Longrightarrow> sint (word_of_int mx :: 64 word) = mx"
  by (simp add: sint_sbintrunc' signed_take_bit_int_eq_self MaxInt64_def)

lemma start_inv:
  assumes "0 \<le> mx" "mx < MaxInt64" "undot (lr_fin lr) True False (lr_stream lr) = f"
  shows "sr_inv mx f \<lparr>sr_dot = NewDotUnstuffReader lr, sr_remain = word_of_int mx, sr_exceeded = False, sr_reported = False\<rparr>"
  using assms by (simp add: sr_inv_def sint_of_int64 du_all_def du_future_def NewDotUnstuffReader_def)

text \<open>C27: A DATA call always comes back, and the session is in step with its peer afterwards.
  For every callback, every way the content arrives and every limit below \<open>MaxInt64\<close>, \<open>evaluateDataCall\<close> returns; it closes the connection
  exactly when the content has no proper end; otherwise the next octet the connection reads is the one after
  that end, whatever the callback read, and the limit reader has noticed an oversized message exactly
  when there is one.\<close>

theorem data_call_resync:
  assumes "0 \<le> mx" "mx < MaxInt64" "undot (lr_fin lr) True False (lr_stream lr) = (c, err, rest)"
  shows "\<exists>ev m b r. evaluateDataCall fs mode recipients command (start_reader header mx lr) prog = Some (ev, m, b) \<and>
    mr_src m = SrcDot r \<and> (de_closeConnection ev \<longleftrightarrow> err \<noteq> IO EOF) \<and>
    (err = IO EOF \<longrightarrow> lr_stream (du_lr (sr_dot r)) = rest \<and> (sr_exceeded r \<longleftrightarrow> mx < int (length c)))"
proof -
  from evaluateDataCall_dot [OF start_inv [OF assms], of fs mode recipients command header prog]
  obtain ev m b r where r: "evaluateDataCall fs mode recipients command (start_reader header mx lr) prog = Some (ev, m, b)"
    "mr_src m = SrcDot r" "sr_inv mx (c, err, rest) r" "de_closeConnection ev \<longleftrightarrow> err \<noteq> IO EOF"
    "err = IO EOF \<longrightarrow> sr_ended r (c, err, rest)" by (auto simp: start_reader_def)
  then have "err = IO EOF \<longrightarrow> lr_stream (du_lr (sr_dot r)) = rest \<and> (sr_exceeded r \<longleftrightarrow> mx < int (length c))"
    by (auto simp: sr_ended_def sr_inv_def split: if_splits)
  with r show ?thesis by blast
qed

theorem data_call_resync_witness:
  "\<exists>ev m b r. evaluateDataCall plain_fs modeLMTP [''a@b'', ''c@d''] ''DATA''
      (start_reader ''R'' 2 (NewLineReader [''hey'' @ CRLF @ ''.'', CRLF @ ''QUIT'' @ CRLF] EOF))
      (DRead 1 (\<lambda>x. DReturn [] None (fst x))) = Some (ev, m, b) \<and>
    mr_src m = SrcDot r \<and> \<not> de_closeConnection ev \<and>
    lr_stream (du_lr (sr_dot r)) = ''QUIT'' @ CRLF \<and> sr_exceeded r"
proof -
  let ?lr = "NewLineReader [''hey'' @ CRLF @ ''.'', CRLF @ ''QUIT'' @ CRLF] EOF"
  have "undot (lr_fin ?lr) True False (lr_stream ?lr) = (''hey'' @ CRLF, IO EOF, ''QUIT'' @ CRLF)" by code_simp
  from data_call_resync [OF _ _ this, of 2 plain_fs modeLMTP "[''a@b'', ''c@d'']" "''DATA''" "''R''"
    "DRead 1 (\<lambda>x. DReturn [] None (fst x))"] show ?thesis by (auto simp: MaxInt64_def)
qed

text \<open>C28: What the peer is told of a message is the callback's verdict, in the shape the protocol asks for.
  There is one result in SMTP and one for each recipient, in the order they were given, in LMTP; every enhanced code
  agrees with its reply code; and no result is an acceptance unless the callback read the content to its end and
  returned, without an error, results with these very reply codes.\<close>

theorem data_outcome:
  assumes "recipients \<noteq> []"
    and "evaluateDataCall fs mode recipients command reader prog = Some (ev, m, b)" "\<not> de_closeConnection ev"
  shows "length (de_result ev) = (if mode = modeLMTP then length recipients else 1) \<and>
    (mode = modeLMTP \<longrightarrow> map rr_Recipient (de_result ev) = recipients) \<and>
    list_all class_agrees (de_result ev) \<and>
    (list_ex Accepted (de_result ev) \<or> de_completed ev \<longrightarrow>
      (\<exists>rs t. run_prog fs prog \<lparr>td_reader = reader, td_exhausted = False\<rparr> = Some ((rs, None, b), t) \<and>
         (td_exhausted t \<or> \<not> list_ex Accepted (de_result ev)) \<and> map rr_Code (de_result ev) = map rr_Code rs))"
proof -
  obtain rs e t where run: "run_prog fs prog \<lparr>td_reader = reader, td_exhausted = False\<rparr> = Some ((rs, e, b), t)"
    and ev: "ev = (if td_exhausted t then validateDataOutcome mode recipients command rs e
               else withholdSuccess (validateDataOutcome mode recipients command rs e))"
    by (rule evaluateDataCall_open [OF assms(2,3)])
  let ?v = "validateDataOutcome mode recipients command rs e"
  note v = validate_outcome [OF assms(1), of mode command rs e]
  have shape: "length (de_result ev) = length (de_result ?v)"
    "map rr_Recipient (de_result ev) = map rr_Recipient (de_result ?v)" "list_all class_agrees (de_result ev)"
    using v(3) withhold_class [of ?v] by (simp_all add: ev)
  have "ev = ?v \<and> (td_exhausted t \<or> \<not> list_ex Accepted (de_result ev))" if "list_ex Accepted (de_result ev) \<or> de_completed ev"
  proof (cases "td_exhausted t")
    case True
    then show ?thesis by (simp add: ev)
  next
    case False
    then have "ev = withholdSuccess ?v" by (simp add: ev)
    moreover from this have "\<not> list_ex Accepted (de_result ev)" using withhold_simps(3) by metis
    ultimately show ?thesis using withhold_completed [of ?v] that by argo
  qed
  with v run shape show ?thesis by (auto simp: data_count_def)
qed

theorem data_outcome_witness:
  "\<exists>ev m b. evaluateDataCall plain_fs modeSMTP [''a@b''] ''DATA'' (start_reader [] 9 (NewLineReader [''.'' @ CRLF] EOF))
      (DReturn [\<lparr>rr_Recipient = [], rr_Command = ''DATA'', rr_Code = 250, rr_Enhanced = enhanced 2 0 0, rr_Text = ''ok''\<rparr>] None ())
      = Some (ev, m, b) \<and> length (de_result ev) = 1 \<and> list_all class_agrees (de_result ev)"
proof -
  let ?prog = "DReturn [\<lparr>rr_Recipient = [], rr_Command = ''DATA'', rr_Code = 250, rr_Enhanced = enhanced 2 0 0,
     rr_Text = ''ok''\<rparr>] None ()"
  let ?lr = "NewLineReader [''.'' @ CRLF] EOF"
  have "undot (lr_fin ?lr) True False (lr_stream ?lr) = ([], IO EOF, [])" by code_simp
  from evaluateDataCall_dot [OF start_inv [OF _ _ this, of 9], of plain_fs modeSMTP "[''a@b'']" "''DATA''" "[]" ?prog]
  obtain ev m b where "evaluateDataCall plain_fs modeSMTP [''a@b''] ''DATA'' (start_reader [] 9 ?lr) ?prog = Some (ev, m, b)"
    "\<not> de_closeConnection ev" by (auto simp: start_reader_def MaxInt64_def)
  from this(1) data_outcome [OF _ this] show ?thesis by auto
qed

text \<open>C29: A size limit of \<open>math.MaxInt64\<close> makes every read of the content panic: the limit plus one
  wraps to a negative bound of the slice.\<close>

theorem data_limit_overflow:
  "sr_Read k \<lparr>sr_dot = d, sr_remain = word_of_int MaxInt64, sr_exceeded = False, sr_reported = rep\<rparr> = None"
proof -
  have "sint (word_of_int MaxInt64 + 1 :: 64 word) = - (2 ^ 63)"
    by (subst sint_plus_one) (simp_all add: sint_of_int64 MaxInt64_def)
  then show ?thesis by (simp add: sr_Read_def Let_def)
qed

end
