(* ===== verification/Wire_Path.thy ===== *)
theory Wire_Path
  imports Wire_Command
begin

text \<open>
  Reverse and forward paths, src/internal/smtpwire/path.go: the angle-bracketed mailbox of MAIL and
  RCPT with its obsolete source route, quoted local parts, address literals and trailing ESMTP
  parameters. Shown here: what the parsers accept (the mailbox is local part, at sign and domain, each
  of them valid, and every octet of it comes from the argument) and that a path printed from valid
  parts is parsed back into them.
\<close>

section \<open>Data\<close>

record path_options =
  po_SMTPUTF8 :: bool
  po_MaxPathLength :: int

record path =
  path_Mailbox :: bytes
  path_LocalPart :: bytes
  path_Domain :: bytes
  path_Null :: bool
  path_Postmaster :: bool
  path_Params :: "param list"

section \<open>Scanners\<close>

definition hasHighByte :: "bytes \<Rightarrow> bool" where
  "hasHighByte s \<longleftrightarrow> list_ex (\<lambda>c. byte c \<ge> 0x80) s"

text \<open>The loop of \<open>pathClosingAngle\<close> from index \<open>i\<close>, with its three flags.\<close>

fun closingAngle :: "bool \<Rightarrow> bool \<Rightarrow> bool \<Rightarrow> nat \<Rightarrow> bytes \<Rightarrow> nat option" where
  "closingAngle quoted escaped literal i [] = None"
| "closingAngle quoted escaped literal i (c # s) =
     (if escaped then closingAngle quoted False literal (i + 1) s
      else if quoted then
        (if c = BSLASH then closingAngle quoted True literal (i + 1) s
         else if c = DQUOTE then closingAngle False escaped literal (i + 1) s
         else closingAngle quoted escaped literal (i + 1) s)
      else if c = DQUOTE then closingAngle True escaped literal (i + 1) s
      else if c = CHR ''['' then closingAngle quoted escaped True (i + 1) s
      else if c = CHR '']'' then closingAngle quoted escaped False (i + 1) s
      else if c = CHR ''>'' \<and> \<not> literal then Some i
      else closingAngle quoted escaped literal (i + 1) s)"

definition pathClosingAngle :: "bytes \<Rightarrow> wire_error + nat" where
  "pathClosingAngle rest =
     (case closingAngle False False False 1 (drop 1 rest) of Some i \<Rightarrow> Inr i | None \<Rightarrow> Inl ErrPathSyntax)"

fun sourceRouteColonFrom :: "bool \<Rightarrow> nat \<Rightarrow> bytes \<Rightarrow> nat option" where
  "sourceRouteColonFrom literal i [] = None"
| "sourceRouteColonFrom literal i (c # s) =
     (if c = CHR ''['' then sourceRouteColonFrom True (i + 1) s
      else if c = CHR '']'' then sourceRouteColonFrom False (i + 1) s
      else if c = CHR '':'' \<and> \<not> literal then Some i
      else sourceRouteColonFrom literal (i + 1) s)"

definition sourceRouteColon :: "bytes \<Rightarrow> nat option" where
  "sourceRouteColon mailbox = sourceRouteColonFrom False 0 mailbox"

text \<open>The loop of \<open>splitMailbox\<close>: the index of the only unquoted at sign, with the two flags at the
  end; \<open>None\<close> where a second one is met.\<close>

fun scanAt :: "bool \<Rightarrow> bool \<Rightarrow> nat option \<Rightarrow> nat \<Rightarrow> bytes \<Rightarrow> (nat option \<times> bool \<times> bool) option" where
  "scanAt quoted escaped at i [] = Some (at, quoted, escaped)"
| "scanAt quoted escaped at i (c # s) =
     (if escaped then scanAt quoted False at (i + 1) s
      else if quoted then
        (if c = BSLASH then scanAt quoted True at (i + 1) s
         else if c = DQUOTE then scanAt False escaped at (i + 1) s
         else scanAt quoted escaped at (i + 1) s)
      else if c = DQUOTE then scanAt True escaped at (i + 1) s
      else if c = CHR ''@'' then
        (if at \<noteq> None then None else scanAt quoted escaped (Some i) (i + 1) s)
      else scanAt quoted escaped at (i + 1) s)"

definition splitMailbox :: "bytes \<Rightarrow> wire_error + (bytes \<times> bytes \<times> bool)" where
  "splitMailbox mailbox =
     (case scanAt False False None 0 mailbox of
        None \<Rightarrow> Inl ErrPathSyntax
      | Some (at, quoted, escaped) \<Rightarrow>
          if quoted \<or> escaped then Inl ErrPathSyntax
          else
            case at of
              None \<Rightarrow> Inr (mailbox, [], False)
            | Some i \<Rightarrow> Inr (take i mailbox, drop (i + 1) mailbox, True))"

section \<open>Local parts and domains\<close>

definition isAtext :: "char \<Rightarrow> bool" where
  "isAtext c \<longleftrightarrow> is_alnum c \<or> c \<in> set ''!#$%&'' \<or> byte c = 39 \<or> c \<in> set ''*+-/=?^_'' \<or> byte c = 96 \<or> c \<in> set ''{|}~''"

fun quotedContent :: "bytes \<Rightarrow> bool" where
  "quotedContent [] = True"
| "quotedContent (c # s) =
     (if c = BSLASH then
        (case s of
           [] \<Rightarrow> False
         | d # s' \<Rightarrow> \<not> (d = CR \<or> d = LF \<or> d = NUL \<or> byte d = 0x7F) \<and> quotedContent s')
      else if c = DQUOTE then False
      else if c = CR \<or> c = LF \<or> c = NUL \<or> byte c = 0x7F \<or> (byte c < 0x20 \<and> c \<noteq> TAB) then False
      else quotedContent s)"

text \<open>The rune loops of \<open>validateLocalPart\<close> and \<open>validateDomain\<close>; a rune above ASCII is accepted when
  SMTPUTF8 is on and it is neither invalid nor a control or space character.\<close>

definition badRune :: "nat \<Rightarrow> bool" where
  "badRune r \<longleftrightarrow> r = RuneError \<or> IsControl r \<or> IsSpace r"

function dotAtom :: "bool \<Rightarrow> bool \<Rightarrow> bytes \<Rightarrow> wire_error option" where
  "dotAtom utf8 lastDot s =
     (case s of
        [] \<Rightarrow> None
      | c # cs \<Rightarrow>
          if c = CHR ''.'' then (if lastDot then Some ErrPathSyntax else dotAtom utf8 True cs)
          else if byte c < 0x80 then (if \<not> isAtext c then Some ErrPathSyntax else dotAtom utf8 False cs)
          else if \<not> utf8 then Some ErrPathUTF8Required
          else if badRune (fst (DecodeRune s)) then Some ErrPathSyntax
          else dotAtom utf8 False (drop (snd (DecodeRune s)) s))"
  by pat_completeness auto
termination
  by (relation "measure (\<lambda>(u, l, s). length s)") (auto simp: DecodeRune_size)

declare dotAtom.simps [simp del]

definition validateLocalPart :: "bytes \<Rightarrow> bool \<Rightarrow> wire_error option" where
  "validateLocalPart loc utf8 =
     (if loc = [] then Some ErrPathSyntax
      else if hd loc = DQUOTE then
        (if length loc < 2 \<or> last loc \<noteq> DQUOTE then Some ErrPathSyntax
         else if quotedContent (butlast (tl loc)) then None else Some ErrPathSyntax)
      else if last loc = CHR ''.'' then Some ErrPathSyntax
      else dotAtom utf8 True loc)"

function labelContent :: "bool \<Rightarrow> bytes \<Rightarrow> wire_error option" where
  "labelContent utf8 s =
     (case s of
        [] \<Rightarrow> None
      | c # cs \<Rightarrow>
          if byte c < 0x80 then
            (if \<not> is_alnum c \<and> c \<noteq> CHR ''-'' then Some ErrPathSyntax else labelContent utf8 cs)
          else if \<not> utf8 then Some ErrPathUTF8Required
          else if badRune (fst (DecodeRune s)) then Some ErrPathSyntax
          else labelContent utf8 (drop (snd (DecodeRune s)) s))"
  by pat_completeness auto
termination
  by (relation "measure (\<lambda>(u, s). length s)") (auto simp: DecodeRune_size)

declare labelContent.simps [simp del]

lemma labelContent_ascii:
  "labelContent utf8 [] = None"
  "byte c < 0x80 \<Longrightarrow>
    labelContent utf8 (c # cs) = (if \<not> is_alnum c \<and> c \<noteq> CHR ''-'' then Some ErrPathSyntax else labelContent utf8 cs)"
  by (simp_all add: labelContent.simps [of utf8 "[]"] labelContent.simps [of utf8 "c # cs"])

definition validateLabel :: "bool \<Rightarrow> bytes \<Rightarrow> wire_error option" where
  "validateLabel utf8 label =
     (if label = [] \<or> hd label = CHR ''-'' \<or> last label = CHR ''-'' then Some ErrPathSyntax
      else labelContent utf8 label)"

fun validateLabels :: "bool \<Rightarrow> bytes list \<Rightarrow> wire_error option" where
  "validateLabels utf8 [] = None"
| "validateLabels utf8 (l # ls) =
     (case validateLabel utf8 l of Some err \<Rightarrow> Some err | None \<Rightarrow> validateLabels utf8 ls)"

definition validAddressLiteralTag :: "bytes \<Rightarrow> bool" where
  "validAddressLiteralTag tag \<longleftrightarrow> list_all (\<lambda>c. is_alnum c \<or> c = CHR ''-'') tag"

definition validateLiteral :: "(nat \<Rightarrow> nat) \<Rightarrow> bytes \<Rightarrow> wire_error option" where
  "validateLiteral upr inside =
     (if HasPrefix (ToUpper upr inside) ''IPV6:'' then
        (if ParseAddr (drop 5 inside) = Some Is6 then None else Some ErrPathSyntax)
      else if ParseAddr inside = Some Is4 then None
      else
        let (tag, val, ok) = Cut inside (CHR '':'') in
        if \<not> ok \<or> tag = [] \<or> val = [] \<or> \<not> validAddressLiteralTag tag \<or>
           ContainsAny val [CHR ''['', CHR '']'', BSLASH, CR, LF, NUL] \<or> hasHighByte val
        then Some ErrPathSyntax
        else None)"

definition validateDomain :: "(nat \<Rightarrow> nat) \<Rightarrow> bytes \<Rightarrow> bool \<Rightarrow> wire_error option" where
  "validateDomain upr domain utf8 =
     (if domain = [] then Some ErrPathSyntax
      else if hd domain = CHR ''['' then
        (if length domain < 3 \<or> last domain \<noteq> CHR '']'' then Some ErrPathSyntax
         else validateLiteral upr (butlast (tl domain)))
      else validateLabels utf8 (Split domain (CHR ''.'')))"

section \<open>Source routes, parameters and paths\<close>

fun validateHops :: "(nat \<Rightarrow> nat) \<Rightarrow> bool \<Rightarrow> bytes list \<Rightarrow> wire_error option" where
  "validateHops upr utf8 [] = None"
| "validateHops upr utf8 (hop # hops) =
     (if length hop < 2 \<or> hd hop \<noteq> CHR ''@'' then Some ErrPathSyntax
      else
        case validateDomain upr (tl hop) utf8 of
          Some err \<Rightarrow> Some err
        | None \<Rightarrow> validateHops upr utf8 hops)"

definition discardSourceRoute :: "(nat \<Rightarrow> nat) \<Rightarrow> bytes \<Rightarrow> bool \<Rightarrow> wire_error + bytes" where
  "discardSourceRoute upr mailbox utf8 =
     (if hd mailbox \<noteq> CHR ''@'' then Inr mailbox
      else
        case sourceRouteColon mailbox of
          None \<Rightarrow> Inl ErrPathSyntax
        | Some colon \<Rightarrow>
            if colon + 1 \<ge> length mailbox then Inl ErrPathSyntax
            else
              case validateHops upr utf8 (Split (take colon mailbox) (CHR '','')) of
                Some err \<Rightarrow> Inl err
              | None \<Rightarrow> Inr (drop (colon + 1) mailbox))"

fun parseParamFields :: "bytes list \<Rightarrow> wire_error + param list" where
  "parseParamFields [] = Inr []"
| "parseParamFields (field # rest) =
     (let (keyword, val, hasValue) = Cut field (CHR ''='') in
      if validateKeyword keyword \<noteq> None then Inl ErrPathParameter
      else if hasValue \<and> validateESMTPValue val \<noteq> None then Inl ErrPathParameter
      else bind_res (parseParamFields rest) (\<lambda>ps. Inr (\<lparr>par_Keyword = keyword, par_Value = val\<rparr> # ps)))"

definition parsePathParams :: "bytes \<Rightarrow> wire_error + param list" where
  "parsePathParams suff =
     (if suff = [] then Inr []
      else if hd suff \<noteq> SP \<or> ContainsAny suff [CR, LF, NUL, TAB] then Inl ErrPathParameter
      else parseParamFields (Fields suff))"

definition parseMailbox :: "(nat \<Rightarrow> nat) \<Rightarrow> bytes \<Rightarrow> bool \<Rightarrow> param list \<Rightarrow> path_options \<Rightarrow> wire_error + path" where
  "parseMailbox upr rawMailbox allowPostmaster params opts =
     (if \<not> ValidString rawMailbox then Inl ErrPathSyntax
      else if \<not> po_SMTPUTF8 opts \<and> hasHighByte rawMailbox then Inl ErrPathUTF8Required
      else
        bind_res (discardSourceRoute upr rawMailbox (po_SMTPUTF8 opts)) (\<lambda>mailbox.
        bind_res (splitMailbox mailbox) (\<lambda>(loc, domain, hasDomain).
          if allowPostmaster \<and> EqualFold loc ''Postmaster'' \<and> (\<not> hasDomain \<or> domain \<noteq> []) then
            (case (if hasDomain then validateDomain upr domain (po_SMTPUTF8 opts) else None) of
               Some err \<Rightarrow> Inl err
             | None \<Rightarrow> Inr \<lparr>path_Mailbox = mailbox, path_LocalPart = loc, path_Domain = domain, path_Null = False,
                           path_Postmaster = True, path_Params = params\<rparr>)
          else if \<not> hasDomain \<or> domain = [] then Inl ErrPathSyntax
          else
            case validateLocalPart loc (po_SMTPUTF8 opts) of
              Some err \<Rightarrow> Inl err
            | None \<Rightarrow>
                case validateDomain upr domain (po_SMTPUTF8 opts) of
                  Some err \<Rightarrow> Inl err
                | None \<Rightarrow> Inr \<lparr>path_Mailbox = mailbox, path_LocalPart = loc, path_Domain = domain, path_Null = False,
                              path_Postmaster = False, path_Params = params\<rparr>)))"

definition parsePathArgument ::
  "(nat \<Rightarrow> nat) \<Rightarrow> bytes \<Rightarrow> bytes \<Rightarrow> bool \<Rightarrow> bool \<Rightarrow> path_options \<Rightarrow> wire_error + path" where
  "parsePathArgument upr argument pfx allowNull allowPostmaster opts =
     (if length argument < length pfx \<or> \<not> EqualFold (take (length pfx) argument) pfx then Inl ErrPathPrefix
      else
        let rest = TrimLeftSP (drop (length pfx) argument) in
        if rest = [] \<or> hd rest \<noteq> CHR ''<'' then Inl ErrPathSyntax
        else
          bind_res (pathClosingAngle rest) (\<lambda>cl.
            let maxPath = (if po_MaxPathLength opts \<le> 0 then 4096 else po_MaxPathLength opts) in
            if int cl + 1 > maxPath then Inl ErrPathTooLong
            else
              bind_res (parsePathParams (drop (cl + 1) rest)) (\<lambda>params.
                let rawMailbox = drop 1 (take cl rest) in
                if rawMailbox = [] then
                  (if \<not> allowNull then Inl ErrNullForwardPath
                   else Inr \<lparr>path_Mailbox = [], path_LocalPart = [], path_Domain = [], path_Null = True,
                             path_Postmaster = False, path_Params = params\<rparr>)
                else parseMailbox upr rawMailbox allowPostmaster params opts)))"

definition ParseReversePath :: "(nat \<Rightarrow> nat) \<Rightarrow> bytes \<Rightarrow> path_options \<Rightarrow> wire_error + path" where
  "ParseReversePath upr argument opts = parsePathArgument upr argument ''FROM:'' True False opts"

definition ParseForwardPath :: "(nat \<Rightarrow> nat) \<Rightarrow> bytes \<Rightarrow> path_options \<Rightarrow> wire_error + path" where
  "ParseForwardPath upr argument opts = parsePathArgument upr argument ''TO:'' False True opts"

section \<open>What the parsers accept\<close>

definition param_wf :: "param \<Rightarrow> bool" where
  "param_wf p \<longleftrightarrow> validateKeyword (par_Keyword p) = None \<and> (par_Value p = [] \<or> validateESMTPValue (par_Value p) = None)"

definition path_wf :: "(nat \<Rightarrow> nat) \<Rightarrow> bool \<Rightarrow> path \<Rightarrow> bool" where
  "path_wf upr utf8 p \<longleftrightarrow>
     list_all param_wf (path_Params p) \<and>
     (if path_Null p
      then path_Mailbox p = [] \<and> path_LocalPart p = [] \<and> path_Domain p = [] \<and> \<not> path_Postmaster p
      else path_Mailbox p = path_LocalPart p @ (if path_Domain p = [] then [] else ''@'' @ path_Domain p) \<and>
        (if path_Postmaster p
         then EqualFold (path_LocalPart p) ''Postmaster'' \<and>
           (path_Domain p = [] \<or> validateDomain upr (path_Domain p) utf8 = None)
         else validateLocalPart (path_LocalPart p) utf8 = None \<and> validateDomain upr (path_Domain p) utf8 = None))"

lemma scanAt_index:
  "scanAt q e at i s = Some (Some j, r) \<Longrightarrow> at = Some j \<or> (i \<le> j \<and> j < i + length s \<and> s ! (j - i) = CHR ''@'')"
proof (induction q e at i s rule: scanAt.induct)
  case (2 q e at i c s)
  have step: "at' = Some j \<or> (i + 1 \<le> j \<and> j < i + 1 + length s \<and> s ! (j - (i + 1)) = CHR ''@'') \<Longrightarrow>
      at' = Some j \<or> (i \<le> j \<and> j < i + length (c # s) \<and> (c # s) ! (j - i) = CHR ''@'')" for at'
    by (auto simp: nth_Cons' Suc_diff_Suc)
  show ?case
  proof (cases "\<not> e \<and> \<not> q \<and> c = CHR ''@'' \<and> c \<noteq> DQUOTE")
    case True
    with 2 show ?thesis by (auto simp: nth_Cons' split: if_splits)
  next
    case False
    with 2 step [of at] show ?thesis by (simp split: if_splits)
  qed
qed simp

lemma splitMailbox_Inr:
  assumes "splitMailbox m = Inr (loc, domain, has)"
  shows "m = loc @ (if has then ''@'' @ domain else []) \<and> (\<not> has \<longrightarrow> domain = [])"
proof -
  obtain at q e where sc: "scanAt False False None 0 m = Some (at, q, e)"
    using assms by (auto simp: splitMailbox_def split: option.splits)
  show ?thesis
  proof (cases at)
    case None
    with sc assms show ?thesis by (auto simp: splitMailbox_def split: if_splits)
  next
    case (Some j)
    with scanAt_index [of False False None 0 m j] sc have j: "j < length m" "m ! j = CHR ''@''" by auto
    have "loc = take j m" "domain = drop (j + 1) m" "has"
      using sc Some assms by (auto simp: splitMailbox_def split: if_splits)
    with id_take_nth_drop [OF j(1)] j(2) show ?thesis by simp
  qed
qed

lemma discardSourceRoute_Inr:
  "discardSourceRoute upr m u = Inr m' \<Longrightarrow> set m' \<subseteq> set m \<and> (m \<noteq> [] \<longrightarrow> m' \<noteq> [])"
  by (auto simp: discardSourceRoute_def split: if_splits option.splits dest: in_set_dropD)

lemma parseParamFields_wf: "parseParamFields fs = Inr ps \<Longrightarrow> list_all param_wf ps"
proof (induction fs arbitrary: ps)
  case (Cons f fs)
  obtain kw v h where c: "Cut f (CHR ''='') = (kw, v, h)" by (cases "Cut f (CHR ''='')")
  from Cut_eq [OF c] have "\<not> h \<longrightarrow> v = []" by simp
  with Cons c show ?case by (auto simp: param_wf_def bind_res_Inr_iff split: if_splits)
qed simp

lemma parsePathParams_wf: "parsePathParams s = Inr ps \<Longrightarrow> list_all param_wf ps"
  by (auto simp: parsePathParams_def dest: parseParamFields_wf split: if_splits)

lemma parseMailbox_Inr:
  assumes "parseMailbox upr m post params opts = Inr p" "list_all param_wf params"
  shows "path_wf upr (po_SMTPUTF8 opts) p \<and> \<not> path_Null p \<and> (path_Postmaster p \<longrightarrow> post) \<and>
    set (path_Mailbox p) \<subseteq> set m \<and> (\<not> po_SMTPUTF8 opts \<longrightarrow> \<not> hasHighByte m)"
proof -
  obtain mb where mb: "discardSourceRoute upr m (po_SMTPUTF8 opts) = Inr mb"
    using assms(1) by (auto simp: parseMailbox_def bind_res_Inr_iff split: if_splits)
  then obtain loc domain has where sp: "splitMailbox mb = Inr (loc, domain, has)"
    using assms(1) by (auto simp: parseMailbox_def bind_res_Inr_iff split: if_splits)
  note spl = splitMailbox_Inr [OF sp] and dis = discardSourceRoute_Inr [OF mb]
  let ?u = "po_SMTPUTF8 opts" and ?p = "\<lambda>pm. \<lparr>path_Mailbox = mb, path_LocalPart = loc, path_Domain = domain,
    path_Null = False, path_Postmaster = pm, path_Params = params\<rparr>"
  have high: "\<not> ?u \<longrightarrow> \<not> hasHighByte m"
    using assms(1) by (auto simp: parseMailbox_def split: if_splits)
  consider (pm) "post" "EqualFold loc ''Postmaster''" "has \<longrightarrow> domain \<noteq> [] \<and> validateDomain upr domain ?u = None" "p = ?p True"
    | (nm) "has" "domain \<noteq> []" "validateLocalPart loc ?u = None" "validateDomain upr domain ?u = None" "p = ?p False"
    using assms(1) mb sp unfolding parseMailbox_def by (simp split: if_splits option.splits)
  then show ?thesis
  proof cases
    case pm
    with assms(2) spl dis high show ?thesis by (cases has) (simp_all add: path_wf_def)
  next
    case nm
    with assms(2) spl dis high show ?thesis by (simp add: path_wf_def)
  qed
qed

lemma hasHighByte_mono: "set a \<subseteq> set b \<Longrightarrow> \<not> hasHighByte b \<Longrightarrow> \<not> hasHighByte a"
  by (auto simp: hasHighByte_def list_ex_iff)

lemma parsePathArgument_Inr:
  assumes "parsePathArgument upr arg pfx nullOk post opts = Inr p"
  shows "path_wf upr (po_SMTPUTF8 opts) p \<and> (path_Null p \<longrightarrow> nullOk) \<and> (path_Postmaster p \<longrightarrow> post) \<and>
    set (path_Mailbox p) \<subseteq> set arg \<and> (\<not> po_SMTPUTF8 opts \<longrightarrow> \<not> hasHighByte (path_Mailbox p))"
proof -
  let ?rest = "TrimLeftSP (drop (length pfx) arg)"
  obtain cl where cl: "pathClosingAngle ?rest = Inr cl"
    using assms by (auto simp: parsePathArgument_def bind_res_Inr_iff Let_def split: if_splits)
  then obtain params where ps: "parsePathParams (drop (cl + 1) ?rest) = Inr params"
    using assms by (auto simp: parsePathArgument_def bind_res_Inr_iff Let_def split: if_splits)
  let ?raw = "drop 1 (take cl ?rest)"
  have "set ?raw \<subseteq> set ?rest"
    by (rule subset_trans [OF set_drop_subset set_take_subset])
  also have "set ?rest \<subseteq> set (drop (length pfx) arg)"
    unfolding TrimLeftSP_def by (auto dest: set_dropWhileD)
  also have "set (drop (length pfx) arg) \<subseteq> set arg"
    by (rule set_drop_subset)
  finally have sub: "set ?raw \<subseteq> set arg" .
  show ?thesis
  proof (cases "?raw = []")
    case True
    with assms cl ps have "nullOk \<and> p = \<lparr>path_Mailbox = [], path_LocalPart = [], path_Domain = [], path_Null = True,
        path_Postmaster = False, path_Params = params\<rparr>"
      by (simp add: parsePathArgument_def Let_def split: if_splits)
    with parsePathParams_wf [OF ps] show ?thesis
      by (simp add: path_wf_def hasHighByte_def)
  next
    case False
    with assms cl ps have "parseMailbox upr ?raw post params opts = Inr p"
      by (auto simp: parsePathArgument_def Let_def split: if_splits)
    from parseMailbox_Inr [OF this parsePathParams_wf [OF ps]] sub hasHighByte_mono show ?thesis
      by blast
  qed
qed

section \<open>Paths printed and parsed back\<close>

text \<open>Octets the scanners pass over without changing a flag.\<close>

definition scan_plain :: "char \<Rightarrow> bool" where
  "scan_plain c \<longleftrightarrow> c \<notin> {DQUOTE, CHR ''['', CHR '']'', CHR ''>'', CHR ''@''}"

lemma closingAngle_plain:
  "list_all scan_plain s \<Longrightarrow> closingAngle False False lit i (s @ t) = closingAngle False False lit (i + length s) t"
  by (induction s arbitrary: i) (auto simp: scan_plain_def)

lemma scanAt_plain:
  "list_all scan_plain s \<Longrightarrow> scanAt False False at i (s @ t) = scanAt False False at (i + length s) t"
  by (induction s arbitrary: i) (auto simp: scan_plain_def)

lemma closingAngle_quoted:
  "quotedContent s \<Longrightarrow> closingAngle True False lit i (s @ DQUOTE # t) = closingAngle False False lit (i + length s + 1) t"
  by (induction s arbitrary: i rule: quotedContent.induct) (auto split: if_splits list.splits)

lemma scanAt_quoted:
  "quotedContent s \<Longrightarrow> scanAt True False at i (s @ DQUOTE # t) = scanAt False False at (i + length s + 1) t"
  by (induction s arbitrary: i rule: quotedContent.induct) (auto split: if_splits list.splits)

lemma DecodeRune_octets:
  assumes "byte c \<ge> 0x80" "fst (DecodeRune (c # s)) \<noteq> RuneError" "d \<in> set (take (snd (DecodeRune (c # s))) (c # s))"
  shows "byte d \<ge> 0x80"
proof -
  obtain sz lo hi where h: "rune_head (byte c) = Some (sz, lo, hi)"
    using assms(1,2) by (auto simp: DecodeRune_def split: option.splits)
  then have lo: "0x80 \<le> lo" "sz \<in> {2, 3, 4}" by (auto simp: rune_head_def split: if_splits)
  have len: "sz \<le> length (c # s)" using assms(1,2) h by (auto simp: DecodeRune_def split: if_splits)
  consider (two) a s1 where "sz = 2" "s = a # s1" | (three) a b s1 where "sz = 3" "s = a # b # s1"
    | (four) a b e s1 where "sz = 4" "s = a # b # e # s1"
    using lo(2) len by (cases s; cases "tl s"; cases "tl (tl s)") auto
  then show ?thesis
  proof cases
    case two
    with assms h lo len show ?thesis by (auto simp: DecodeRune_def Let_def split: if_splits)
  next
    case three
    with assms h lo len show ?thesis by (auto simp: DecodeRune_def Let_def split: if_splits)
  next
    case four
    with assms h lo len show ?thesis by (auto simp: DecodeRune_def Let_def split: if_splits)
  qed
qed

lemma dotAtom_plain: "dotAtom u ld s = None \<Longrightarrow> list_all scan_plain s"
proof (induction u ld s rule: dotAtom.induct)
  case (1 u ld s)
  show ?case
  proof (cases s)
    case (Cons c cs)
    show ?thesis
    proof (cases "byte c < 0x80")
      case True
      have "scan_plain c" "c = CHR ''.'' \<longrightarrow> \<not> ld \<and> dotAtom u True cs = None" "c \<noteq> CHR ''.'' \<longrightarrow> isAtext c \<and> dotAtom u False cs = None"
        using "1.prems" Cons True
        by (auto simp: dotAtom.simps [of u ld "c # cs"] scan_plain_def isAtext_def wire_defs split: if_splits)
      with "1.IH"(1) [OF Cons] "1.IH"(2) [OF Cons _ True] have "list_all scan_plain cs"
        by (cases "c = CHR ''.''") simp_all
      with \<open>scan_plain c\<close> show ?thesis by (simp add: Cons)
    next
      case False
      then have nd: "c \<noteq> CHR ''.''" by auto
      let ?n = "snd (DecodeRune s)"
      have bad: "u" "\<not> badRune (fst (DecodeRune s))" and rec: "dotAtom u False (drop ?n s) = None"
        using "1.prems" Cons False nd by (auto simp: dotAtom.simps [of u ld "c # cs"] split: if_splits)
      have "list_all scan_plain (drop ?n s)"
        by (rule "1.IH"(3) [OF Cons nd False _ bad(2) rec]) (simp add: bad)
      moreover have "list_all scan_plain (take ?n s)"
        using DecodeRune_octets [of c cs] False bad(2) unfolding Cons
        by (fastforce simp: list_all_iff scan_plain_def badRune_def)
      ultimately have "list_all scan_plain (take ?n s @ drop ?n s)" by (simp only: list_all_append)
      then show ?thesis by simp
    qed
  qed simp
qed

lemma labelContent_plain: "labelContent u s = None \<Longrightarrow> list_all scan_plain s"
proof (induction u s rule: labelContent.induct)
  case (1 u s)
  show ?case
  proof (cases s)
    case (Cons c cs)
    show ?thesis
    proof (cases "byte c < 0x80")
      case True
      have c: "is_alnum c \<or> c = CHR ''-''" and rec: "labelContent u cs = None"
        using "1.prems" Cons True by (auto simp: labelContent.simps [of u "c # cs"] split: if_splits)
      have "list_all scan_plain cs"
        by (rule "1.IH"(1) [OF Cons True _ rec]) (use c in simp)
      moreover have "scan_plain c"
        using c by (auto simp: scan_plain_def wire_defs)
      ultimately show ?thesis by (simp add: Cons)
    next
      case False
      let ?n = "snd (DecodeRune s)"
      have bad: "u" "\<not> badRune (fst (DecodeRune s))" and rec: "labelContent u (drop ?n s) = None"
        using "1.prems" Cons False by (auto simp: labelContent.simps [of u "c # cs"] split: if_splits)
      have "list_all scan_plain (drop ?n s)"
        by (rule "1.IH"(2) [OF Cons False _ bad(2) rec]) (simp add: bad)
      moreover have "list_all scan_plain (take ?n s)"
        using DecodeRune_octets [of c cs] False bad(2) unfolding Cons
        by (fastforce simp: list_all_iff scan_plain_def badRune_def)
      ultimately have "list_all scan_plain (take ?n s @ drop ?n s)" by (simp only: list_all_append)
      then show ?thesis by simp
    qed
  qed simp
qed

lemma validateLabels_plain: "validateLabels u ls = None \<Longrightarrow> \<forall>l \<in> set ls. list_all scan_plain l"
  by (induction u ls rule: validateLabels.induct)
    (auto simp: validateLabel_def labelContent_plain split: option.splits if_splits)

lemma Join_plain: "\<forall>l \<in> set ls. list_all scan_plain l \<Longrightarrow> list_all scan_plain (Join ls [CHR ''.''])"
proof (induction ls)
  case (Cons l ls)
  then show ?case by (cases ls) (auto simp: scan_plain_def)
qed simp

text \<open>The scanners run over a valid local part and over a domain. \<open>validateDomain\<close> lets an address literal hold double
  quotes, and the zone of an IPv6 address brackets, on which the scanners act; \<open>scannable_domain\<close> says that there are
  none. An at sign, which the validator lets through as well, is a different matter: \<open>splitMailbox\<close> refuses it.\<close>

definition scannable_domain :: "bytes \<Rightarrow> bool" where
  "scannable_domain d \<longleftrightarrow>
     (hd d = CHR ''['' \<longrightarrow> list_all (\<lambda>c. c \<noteq> DQUOTE \<and> c \<noteq> CHR ''['' \<and> c \<noteq> CHR '']'') (butlast (tl d)))"

abbreviation literal_char :: "char \<Rightarrow> bool" where
  "literal_char c \<equiv> c \<noteq> DQUOTE \<and> c \<noteq> CHR ''['' \<and> c \<noteq> CHR '']''"

lemma localPart_shape:
  assumes "validateLocalPart loc u = None"
  shows "loc \<noteq> [] \<and> ((\<exists>s. loc = DQUOTE # s @ [DQUOTE] \<and> quotedContent s) \<or> list_all scan_plain loc)"
proof (cases "hd loc = DQUOTE")
  case True
  with assms have "loc \<noteq> []" "2 \<le> length loc" "last loc = DQUOTE" "quotedContent (butlast (tl loc))"
    by (auto simp: validateLocalPart_def split: if_splits)
  then have "loc = DQUOTE # butlast (tl loc) @ [DQUOTE]"
    using True by (cases loc; cases "tl loc" rule: rev_cases) auto
  with \<open>loc \<noteq> []\<close> \<open>quotedContent _\<close> show ?thesis by blast
next
  case False
  with assms show ?thesis by (auto simp: validateLocalPart_def dest: dotAtom_plain split: if_splits)
qed

lemma scan_localPart:
  assumes "validateLocalPart loc u = None"
  shows "closingAngle False False False i (loc @ t) = closingAngle False False False (i + length loc) t"
    and "scanAt False False at i (loc @ t) = scanAt False False at (i + length loc) t"
    and "hd (loc @ t) \<noteq> CHR ''@''"
  using localPart_shape [OF assms]
  by (auto simp: closingAngle_plain scanAt_plain closingAngle_quoted scanAt_quoted hd_append)
    (cases loc; simp add: scan_plain_def)

lemma closingAngle_literal:
  "list_all literal_char s \<Longrightarrow>
    closingAngle False False True i (s @ CHR '']'' # t) = closingAngle False False False (i + length s + 1) t"
  by (induction s arbitrary: i) auto

lemma scanAt_second:
  "DQUOTE \<notin> set s \<Longrightarrow>
    scanAt False False (Some j) i s = (if CHR ''@'' \<in> set s then None else Some (Some j, False, False))"
  by (induction s arbitrary: i) auto

lemma domain_shape:
  assumes "validateDomain upr d u = None" "scannable_domain d"
  shows "d \<noteq> [] \<and> ((\<exists>s. d = CHR ''['' # s @ '']'' \<and> list_all literal_char s) \<or> list_all scan_plain d)"
proof (cases "hd d = CHR ''[''")
  case True
  with assms have l: "d \<noteq> []" "3 \<le> length d" "last d = CHR '']''" "list_all literal_char (butlast (tl d))"
    by (auto simp: validateDomain_def scannable_domain_def split: if_splits)
  then have "d = CHR ''['' # butlast (tl d) @ '']''"
    using True by (cases d; cases "tl d" rule: rev_cases) auto
  with l show ?thesis by blast
next
  case False
  with assms have "d \<noteq> []" "validateLabels u (Split d (CHR ''.'')) = None"
    by (auto simp: validateDomain_def split: if_splits)
  with Join_plain [OF validateLabels_plain] Join_Split [of d "CHR ''.''"] show ?thesis by metis
qed

lemma scan_domain:
  assumes "validateDomain upr d u = None" "scannable_domain d"
  shows "closingAngle False False False i (d @ t) = closingAngle False False False (i + length d) t"
    and "DQUOTE \<notin> set d"
proof -
  consider (lit) s where "d = CHR ''['' # s @ '']''" "list_all literal_char s" | (plain) "list_all scan_plain d"
    using domain_shape [OF assms] by blast
  note shape = this
  show "closingAngle False False False i (d @ t) = closingAngle False False False (i + length d) t"
    by (cases rule: shape) (simp_all add: closingAngle_plain closingAngle_literal)
  show "DQUOTE \<notin> set d"
  proof (cases rule: shape)
    case lit
    then have "DQUOTE \<notin> set s" unfolding list_all_iff by blast
    with lit show ?thesis by simp
  next
    case plain
    then show ?thesis unfolding list_all_iff scan_plain_def by blast
  qed
qed

text \<open>The text of a parameter, and of a path argument.\<close>

definition param_text :: "param \<Rightarrow> bytes" where
  "param_text p = par_Keyword p @ (if par_Value p = [] then [] else ''='' @ par_Value p)"

definition path_text :: "bytes \<Rightarrow> bytes \<Rightarrow> param list \<Rightarrow> bytes" where
  "path_text pfx mailbox ps = pfx @ ''<'' @ mailbox @ ''>'' @ concat (map (\<lambda>p. SP # param_text p) ps)"

lemma EncodeParam_text: "param_wf p \<Longrightarrow> EncodeParam p = Inr (param_text p)"
  by (auto simp: param_wf_def EncodeParam_def param_text_def)

lemma keyword_chars: "validateKeyword kw = None \<Longrightarrow> kw \<noteq> [] \<and> list_all esmtp_char kw"
  by (auto simp: validateKeyword_def list_all_iff esmtp_char_def wire_defs split: list.splits if_splits)

lemma esmtp_chars: "validateESMTPValue v = None \<Longrightarrow> list_all esmtp_char v"
  by (auto simp: validateESMTPValue_def split: if_splits)

lemma param_text_chars:
  assumes "param_wf p"
  shows "param_text p \<noteq> [] \<and> (\<forall>c \<in> set (param_text p). 33 \<le> byte c \<and> byte c \<le> 126)"
proof -
  have v: "param_text p \<noteq> []" "c \<in> set (param_text p) \<Longrightarrow> esmtp_char c \<or> c = CHR ''=''" for c
    using assms keyword_chars [of "par_Keyword p"] esmtp_chars [of "par_Value p"]
    by (auto simp: param_wf_def param_text_def list_all_iff split: if_splits)
  have "esmtp_char c \<or> c = CHR ''='' \<Longrightarrow> 33 \<le> byte c \<and> byte c \<le> 126" for c
    by (auto simp: esmtp_char_def)
  with v show ?thesis by blast
qed

lemma printable_word: "33 \<le> byte c \<Longrightarrow> byte c \<le> 126 \<Longrightarrow> is_ascii c \<and> \<not> IsSpace (byte c)"
  by (simp add: is_ascii_def IsSpace_def)

lemma plain_word_param: "param_wf p \<Longrightarrow> plain_word (param_text p)"
  using param_text_chars [of p] printable_word by (simp add: plain_word_def list_all_iff)

lemma Fields_words: "list_all plain_word ws \<Longrightarrow> Fields (concat (map (\<lambda>w. SP # w) ws)) = ws"
proof (induction ws)
  case (Cons w ws)
  then show ?case by (cases ws) (auto simp: Fields_word)
qed simp

lemma Cut_param_text:
  assumes "param_wf p"
  shows "Cut (param_text p) (CHR ''='') = (par_Keyword p, par_Value p, par_Value p \<noteq> [])"
proof -
  have "CHR ''='' \<notin> set (par_Keyword p)"
    using assms keyword_chars [of "par_Keyword p"] by (auto simp: param_wf_def list_all_iff esmtp_char_def)
  then show ?thesis by (simp add: param_text_def)
qed

lemma parseParamFields_text: "list_all param_wf ps \<Longrightarrow> parseParamFields (map param_text ps) = Inr ps"
  by (induction ps) (auto simp: Cut_param_text param_wf_def)

lemma parsePathParams_text:
  assumes "list_all param_wf ps"
  shows "parsePathParams (concat (map (\<lambda>p. SP # param_text p) ps)) = Inr ps"
proof (cases ps)
  case (Cons q qs)
  let ?s = "concat (map (\<lambda>p. SP # param_text p) ps)"
  have "32 \<le> byte c" if "c \<in> set ?s" for c
  proof -
    have "c = SP \<or> (\<exists>p \<in> set ps. c \<in> set (param_text p))" using that by (auto split: if_splits)
    with assms param_text_chars have "c = SP \<or> 33 \<le> byte c" unfolding list_all_iff by blast
    then show ?thesis by auto
  qed
  then have "c \<notin> set ?s" if "byte c < 32" for c using that by force
  then have "\<not> ContainsAny ?s [CR, LF, NUL, TAB]" by (simp add: ContainsAny_iff del: set_concat set_map)
  moreover have "Fields ?s = map param_text ps"
    using Fields_words [of "map param_text ps"] assms plain_word_param by (simp add: list_all_iff comp_def)
  ultimately show ?thesis
    using parseParamFields_text [OF assms] Cons by (simp add: parsePathParams_def)
qed (simp add: parsePathParams_def)

lemma splitMailbox_parts:
  assumes "validateLocalPart loc u = None" "validateDomain upr d u = None" "scannable_domain d"
  shows "splitMailbox (loc @ ''@'' @ d) = (if CHR ''@'' \<in> set d then Inl ErrPathSyntax else Inr (loc, d, True))"
  by (simp add: splitMailbox_def scan_localPart [OF assms(1)] scanAt_second scan_domain(2) [OF assms(2,3)])

lemma parsePathArgument_text:
  assumes "validateLocalPart loc u = None" "validateDomain upr d u = None" "scannable_domain d"
    and "u = po_SMTPUTF8 opts" "ValidString (loc @ ''@'' @ d)" "u \<or> \<not> hasHighByte (loc @ ''@'' @ d)" "list_all param_wf ps"
    and "int (length (loc @ ''@'' @ d)) + 2 \<le> (if po_MaxPathLength opts \<le> 0 then 4096 else po_MaxPathLength opts)"
    and "EqualFold pfx pfx"
  shows "parsePathArgument upr (path_text pfx (loc @ ''@'' @ d) ps) pfx nullOk post opts =
    (if CHR ''@'' \<in> set d then Inl ErrPathSyntax
     else Inr \<lparr>path_Mailbox = loc @ ''@'' @ d, path_LocalPart = loc, path_Domain = d, path_Null = False,
       path_Postmaster = (post \<and> EqualFold loc ''Postmaster''), path_Params = ps\<rparr>)"
proof -
  let ?m = "loc @ ''@'' @ d" and ?suff = "concat (map (\<lambda>p. SP # param_text p) ps)"
  let ?rest = "CHR ''<'' # ?m @ CHR ''>'' # ?suff"
  have trim: "TrimLeftSP ?rest = ?rest" by (simp add: TrimLeftSP_def)
  have "closingAngle False False False 1 (?m @ CHR ''>'' # ?suff) = Some (1 + length ?m)"
    using scan_localPart(1) [OF assms(1), of 1 "''@'' @ d @ CHR ''>'' # ?suff"]
      closingAngle_plain [of "''@''"] scan_domain(1) [OF assms(2,3), of _ "CHR ''>'' # ?suff"]
    by simp
  then have cl: "pathClosingAngle ?rest = Inr (1 + length ?m)" by (simp add: pathClosingAngle_def)
  have d: "d \<noteq> []" using domain_shape [OF assms(2,3)] by simp
  have mb: "parseMailbox upr ?m post ps opts =
    (if CHR ''@'' \<in> set d then Inl ErrPathSyntax
     else Inr \<lparr>path_Mailbox = ?m, path_LocalPart = loc, path_Domain = d, path_Null = False,
       path_Postmaster = (post \<and> EqualFold loc ''Postmaster''), path_Params = ps\<rparr>)"
    using assms(1,2,4-6) scan_localPart(3) [OF assms(1), of "''@'' @ d"] splitMailbox_parts [OF assms(1-3)] d
    by (cases "CHR ''@'' \<in> set d") (simp_all add: parseMailbox_def discardSourceRoute_def)
  have arg: "path_text pfx ?m ps = pfx @ ?rest" by (simp add: path_text_def)
  have cuts: "drop 1 (take (1 + length ?m) ?rest) = ?m" "drop (1 + length ?m + 1) ?rest = ?suff" "?m \<noteq> []"
    by simp_all
  show ?thesis
    unfolding parsePathArgument_def arg using assms(8,9) trim cl cuts mb parsePathParams_text [OF assms(7)]
    by (simp add: Let_def del: append_Cons)
qed

section \<open>Properties\<close>

text \<open>C15: Accepted paths are well formed. The null path is accepted for MAIL only and the bare
  Postmaster for RCPT only; any other mailbox is a valid local part, an at sign and a valid domain;
  the parameters have valid keywords and values; every octet of the mailbox comes from the argument,
  and without SMTPUTF8 it is ASCII.\<close>

theorem path_parsers_sound:
  "(ParseReversePath upr arg opts = Inr p \<longrightarrow>
      path_wf upr (po_SMTPUTF8 opts) p \<and> \<not> path_Postmaster p \<and> set (path_Mailbox p) \<subseteq> set arg \<and>
      (\<not> po_SMTPUTF8 opts \<longrightarrow> \<not> hasHighByte (path_Mailbox p))) \<and>
   (ParseForwardPath upr arg opts = Inr p \<longrightarrow>
      path_wf upr (po_SMTPUTF8 opts) p \<and> \<not> path_Null p \<and> set (path_Mailbox p) \<subseteq> set arg \<and>
      (\<not> po_SMTPUTF8 opts \<longrightarrow> \<not> hasHighByte (path_Mailbox p)))"
  unfolding ParseReversePath_def ParseForwardPath_def using parsePathArgument_Inr by blast

theorem path_parsers_sound_witness:
  "\<exists>p. ParseForwardPath (\<lambda>r. r) ''TO:<Postmaster>'' \<lparr>po_SMTPUTF8 = False, po_MaxPathLength = 0\<rparr> = Inr p \<and>
     path_wf (\<lambda>r. r) False p \<and> \<not> path_Null p"
proof -
  let ?o = "\<lparr>po_SMTPUTF8 = False, po_MaxPathLength = 0\<rparr>"
  let ?p = "\<lparr>path_Mailbox = ''Postmaster'', path_LocalPart = ''Postmaster'', path_Domain = [], path_Null = False,
    path_Postmaster = True, path_Params = []\<rparr>"
  have "ValidString ''Postmaster''" "EqualFold ''Postmaster'' ''Postmaster''" "EqualFold ''TO:'' ''TO:''"
    by (simp_all add: ValidString_ascii EqualFold_ascii is_ascii_def)
  then have "ParseForwardPath (\<lambda>r. r) ''TO:<Postmaster>'' ?o = Inr ?p"
    by (simp add: ParseForwardPath_def parsePathArgument_def TrimLeftSP_def pathClosingAngle_def parsePathParams_def
        parseMailbox_def hasHighByte_def discardSourceRoute_def splitMailbox_def Let_def)
  with path_parsers_sound [of "\<lambda>r. r" "''TO:<Postmaster>''" ?o ?p] show ?thesis by simp
qed

text \<open>C16: A path is parsed back as printed, unless its domain holds an at sign. For a valid local part (quoted ones
  with any content included), a valid domain, valid parameters and a mailbox within the bound on paths, the argument
  of RCPT printed from them is parsed into exactly these parts. There are two exceptions, both for address literals
  such as \<open>[tag:value]\<close>. One with an at sign passes \<open>validateDomain\<close> and is still refused with a syntax error,
  since \<open>splitMailbox\<close> takes it for a second separator. One with a double quote or an inner bracket is left out by the
  hypothesis \<open>scannable_domain\<close>; a domain of labels is never concerned.\<close>

theorem forward_path_roundtrip:
  assumes "validateLocalPart loc (po_SMTPUTF8 opts) = None" "validateDomain upr d (po_SMTPUTF8 opts) = None"
    and "scannable_domain d" "ValidString (loc @ ''@'' @ d)" "po_SMTPUTF8 opts \<or> \<not> hasHighByte (loc @ ''@'' @ d)"
    and "list_all param_wf ps"
    and "int (length (loc @ ''@'' @ d)) + 2 \<le> (if po_MaxPathLength opts \<le> 0 then 4096 else po_MaxPathLength opts)"
  shows "ParseForwardPath upr (path_text ''TO:'' (loc @ ''@'' @ d) ps) opts =
    (if CHR ''@'' \<in> set d then Inl ErrPathSyntax
     else Inr \<lparr>path_Mailbox = loc @ ''@'' @ d, path_LocalPart = loc, path_Domain = d, path_Null = False,
       path_Postmaster = EqualFold loc ''Postmaster'', path_Params = ps\<rparr>)"
proof -
  have "EqualFold ''TO:'' ''TO:''" by (simp add: EqualFold_ascii is_ascii_def)
  then show ?thesis
    unfolding ParseForwardPath_def
    using parsePathArgument_text [OF assms(1-3) refl assms(4-7), of "''TO:''" False True] by simp
qed

theorem forward_path_roundtrip_witness:
  "(\<exists>p. ParseForwardPath (\<lambda>r. r) (''TO:<'' @ [DQUOTE] @ ''a>@b'' @ [DQUOTE] @ ''@c.d> NOTIFY=NEVER'')
       \<lparr>po_SMTPUTF8 = False, po_MaxPathLength = 0\<rparr> = Inr p \<and>
     path_LocalPart p = [DQUOTE] @ ''a>@b'' @ [DQUOTE] \<and> path_Domain p = ''c.d'') \<and>
   validateDomain (\<lambda>r. r) ''[X:a@b]'' False = None \<and>
   ParseForwardPath (\<lambda>r. r) ''TO:<u@[X:a@b]>'' \<lparr>po_SMTPUTF8 = False, po_MaxPathLength = 0\<rparr> = Inl ErrPathSyntax"
proof (intro conjI)
  let ?o = "\<lparr>po_SMTPUTF8 = False, po_MaxPathLength = 0\<rparr>"
  let ?l = "[DQUOTE] @ ''a>@b'' @ [DQUOTE]" and ?d = "''c.d''"
  let ?ps = "[\<lparr>par_Keyword = ''NOTIFY'', par_Value = ''NEVER''\<rparr>]"
  have "validateLocalPart ?l (po_SMTPUTF8 ?o) = None" by (simp add: validateLocalPart_def)
  moreover have "validateDomain (\<lambda>r. r) ?d (po_SMTPUTF8 ?o) = None"
    by (simp add: validateDomain_def validateLabel_def labelContent_ascii is_alnum_def is_lower_def)
  moreover have "ValidString (?l @ ''@'' @ ?d)" by (rule ValidString_ascii) (simp add: is_ascii_def)
  moreover have "scannable_domain ?d" "list_all param_wf ?ps" "\<not> hasHighByte (?l @ ''@'' @ ?d)"
    by (simp_all add: scannable_domain_def param_wf_def validateKeyword_def validateESMTPValue_def esmtp_char_def
        hasHighByte_def is_alnum_def is_upper_def)
  moreover have "path_text ''TO:'' (?l @ ''@'' @ ?d) ?ps = ''TO:<'' @ ?l @ ''@c.d> NOTIFY=NEVER''"
    by (simp add: path_text_def param_text_def)
  ultimately show "\<exists>p. ParseForwardPath (\<lambda>r. r) (''TO:<'' @ [DQUOTE] @ ''a>@b'' @ [DQUOTE] @ ''@c.d> NOTIFY=NEVER'') ?o = Inr p \<and>
      path_LocalPart p = ?l \<and> path_Domain p = ''c.d''"
    using forward_path_roundtrip [of ?l ?o "\<lambda>r. r" ?d ?ps] by simp
next
  let ?o = "\<lparr>po_SMTPUTF8 = False, po_MaxPathLength = 0\<rparr>"
  have "ToUpperASCII ''X:a@b'' = ''X:A@B''" by code_simp
  then have up: "ToUpper (\<lambda>r. r) ''X:a@b'' = ''X:A@B''" by (simp add: ToUpper_def is_ascii_def)
  have "ParseAddr ''X:a@b'' \<noteq> Some Is4" "Cut ''X:a@b'' (CHR '':'') = (''X'', ''a@b'', True)" by code_simp+
  then show dom: "validateDomain (\<lambda>r. r) ''[X:a@b]'' False = None"
    by (simp add: validateDomain_def validateLiteral_def up HasPrefix_def validAddressLiteralTag_def hasHighByte_def
        ContainsAny_def is_alnum_def is_upper_def)
  have "validateLocalPart ''u'' False = None" by (simp add: validateLocalPart_def dotAtom.simps isAtext_def is_alnum_def is_lower_def)
  moreover have "ValidString (''u'' @ ''@'' @ ''[X:a@b]'')" by (rule ValidString_ascii) (simp add: is_ascii_def)
  moreover have "scannable_domain ''[X:a@b]''" "\<not> hasHighByte (''u'' @ ''@'' @ ''[X:a@b]'')"
    by (simp_all add: scannable_domain_def hasHighByte_def)
  ultimately show "ParseForwardPath (\<lambda>r. r) ''TO:<u@[X:a@b]>'' ?o = Inl ErrPathSyntax"
    using forward_path_roundtrip [of "''u''" ?o "\<lambda>r. r" "''[X:a@b]''" "[]"] dom by (simp add: path_text_def)
qed

end
