(* ===== verification/Go_Time.thy ===== *)
theory Go_Time
  imports Go_Base "HOL-Library.Monad_Syntax"
begin

text \<open>
  The part of Go's package time the server uses: \<open>time.Parse(time.RFC3339, s)\<close>,
  \<open>Time.After\<close>, and \<open>t.UTC().Format(time.RFC3339)\<close>.

  An instant is its UTC date, the second of that day and the nanosecond. The parser is the general one
  of the package, which is more permissive than the RFC: the hour may have one digit, a fraction may follow
  the seconds after a point or a comma, and an offset reaches up to 24 hours and 60 minutes.
  The package's fast path accepts fewer texts and gives the same instants.

  The lemmas show that moving a date by whole days stays on the calendar, and that the printed form of an
  instant whose year has four digits is parsed back to that instant, without its nanoseconds.
\<close>

section \<open>The calendar\<close>

definition is_leap :: "int \<Rightarrow> bool" where
  "is_leap y \<longleftrightarrow> y mod 4 = 0 \<and> (y mod 100 \<noteq> 0 \<or> y mod 400 = 0)"

definition days_in :: "nat \<Rightarrow> int \<Rightarrow> nat" where
  "days_in m y = (if m = 2 then (if is_leap y then 29 else 28) else if m \<in> {4, 6, 9, 11} then 30 else 31)"

type_synonym date = "int \<times> nat \<times> nat"

fun valid_date :: "date \<Rightarrow> bool" where
  "valid_date (y, m, d) \<longleftrightarrow> 1 \<le> m \<and> m \<le> 12 \<and> 1 \<le> d \<and> d \<le> days_in m y"

fun next_day :: "date \<Rightarrow> date" where
  "next_day (y, m, d) =
     (if d < days_in m y then (y, m, d + 1) else if m < 12 then (y, m + 1, 1) else (y + 1, 1, 1))"

fun prev_day :: "date \<Rightarrow> date" where
  "prev_day (y, m, d) =
     (if 1 < d then (y, m, d - 1) else if 1 < m then (y, m - 1, days_in (m - 1) y) else (y - 1, 12, 31))"

definition add_days :: "int \<Rightarrow> date \<Rightarrow> date" where
  "add_days k dt = (if k < 0 then (prev_day ^^ nat (- k)) dt else (next_day ^^ nat k) dt)"

record instant =
  ti_date :: date
  ti_sec :: int
  ti_nsec :: int

text \<open>The instant \<open>s\<close> seconds after the start of a UTC day; \<open>s\<close> may be negative or past its end.\<close>

definition instant_at :: "date \<Rightarrow> int \<Rightarrow> int \<Rightarrow> instant" where
  "instant_at dt s n = \<lparr>ti_date = add_days (s div 86400) dt, ti_sec = s mod 86400, ti_nsec = n\<rparr>"

fun date_less :: "date \<Rightarrow> date \<Rightarrow> bool" where
  "date_less (y, m, d) (y', m', d') \<longleftrightarrow> y < y' \<or> y = y' \<and> (m < m' \<or> m = m' \<and> d < d')"

definition time_After :: "instant \<Rightarrow> instant \<Rightarrow> bool" where
  "time_After t u \<longleftrightarrow> date_less (ti_date u) (ti_date t) \<or>
     ti_date u = ti_date t \<and> (ti_sec u < ti_sec t \<or> ti_sec u = ti_sec t \<and> ti_nsec u < ti_nsec t)"

section \<open>Parsing\<close>

definition getnum :: "bool \<Rightarrow> bytes \<Rightarrow> (nat \<times> bytes) option" where
  "getnum fixed s =
     (case s of
        [] \<Rightarrow> None
      | c # r \<Rightarrow>
          if \<not> is_digit c then None
          else
            case r of
              d # r' \<Rightarrow>
                if is_digit d then Some (10 * digit_val c + digit_val d, r')
                else if fixed then None else Some (digit_val c, r)
            | [] \<Rightarrow> if fixed then None else Some (digit_val c, r))"

fun skip_char :: "char \<Rightarrow> bytes \<Rightarrow> bytes option" where
  "skip_char c [] = None"
| "skip_char c (d # r) = (if c = d then Some r else None)"

definition year4 :: "bytes \<Rightarrow> (nat \<times> bytes) option" where
  "year4 s = (if length s < 4 \<or> \<not> list_all is_digit (take 4 s) then None else Some (decimal (take 4 s), drop 4 s))"

definition check :: "bool \<Rightarrow> unit option" where
  "check b = (if b then Some () else None)"

definition nanoseconds :: "bytes \<Rightarrow> int" where
  "nanoseconds ds = int (decimal (take 9 ds)) * 10 ^ (9 - length (take 9 ds))"

definition fraction :: "bytes \<Rightarrow> int \<times> bytes" where
  "fraction s =
     (case s of
        c # d # r \<Rightarrow>
          if c \<in> {CHR ''.'', CHR '',''} \<and> is_digit d
          then (nanoseconds (takeWhile is_digit (d # r)), dropWhile is_digit (d # r))
          else (0, s)
      | _ \<Rightarrow> (0, s))"

text \<open>The offset in seconds and the rest.\<close>

definition zone :: "bytes \<Rightarrow> (int \<times> bytes) option" where
  "zone s =
     (case s of
        [] \<Rightarrow> None
      | c # r \<Rightarrow>
          if c = CHR ''Z'' then Some (0, r)
          else if length s < 6 \<or> s ! 3 \<noteq> CHR '':'' then None
          else
            do {
              (hr, _) \<leftarrow> getnum True (take 2 r);
              (mm, _) \<leftarrow> getnum True (take 2 (drop 3 r));
              check (hr \<le> 24 \<and> mm \<le> 60);
              check (c \<in> {CHR ''+'', CHR ''-''});
              Some ((if c = CHR ''-'' then - 1 else 1) * int ((hr * 60 + mm) * 60), drop 5 r)
            })"

text \<open>A date and a time of day in seconds. The package reports the day out of range only at the end; every failure
  is the same here.\<close>

definition parse_date :: "bytes \<Rightarrow> (date \<times> bytes) option" where
  "parse_date s =
     do {
       (year, s) \<leftarrow> year4 s;
       s \<leftarrow> skip_char (CHR ''-'') s;
       (month, s) \<leftarrow> getnum True s;
       s \<leftarrow> skip_char (CHR ''-'') s;
       (day, s) \<leftarrow> getnum True s;
       check (valid_date (int year, month, day));
       Some ((int year, month, day), s)
     }"

definition parse_clock :: "bytes \<Rightarrow> (int \<times> bytes) option" where
  "parse_clock s =
     do {
       (hour, s) \<leftarrow> getnum False s;
       s \<leftarrow> skip_char (CHR '':'') s;
       (minute, s) \<leftarrow> getnum True s;
       s \<leftarrow> skip_char (CHR '':'') s;
       (second, s) \<leftarrow> getnum True s;
       check (hour < 24 \<and> minute < 60 \<and> second < 60);
       Some (int hour * 3600 + int minute * 60 + int second, s)
     }"

definition time_Parse :: "bytes \<Rightarrow> instant option" where
  "time_Parse s =
     do {
       (dt, s) \<leftarrow> parse_date s;
       s \<leftarrow> skip_char (CHR ''T'') s;
       (clock, s) \<leftarrow> parse_clock s;
       (nsec, s) \<leftarrow> Some (fraction s);
       (offset, s) \<leftarrow> zone s;
       check (s = []);
       Some (instant_at dt (clock - offset) nsec)
     }"

section \<open>Printing\<close>

definition pad2 :: "nat \<Rightarrow> bytes" where
  "pad2 n = [digit_char (n div 10 mod 10), digit_char (n mod 10)]"

definition appendInt4 :: "int \<Rightarrow> bytes" where
  "appendInt4 y =
     (let ds = FormatUint (nat \<bar>y\<bar>) in
      (if y < 0 then ''-'' else []) @ replicate (4 - length ds) (CHR ''0'') @ ds)"

definition format_UTC :: "instant \<Rightarrow> bytes" where
  "format_UTC t =
     (case ti_date t of
        (y, m, d) \<Rightarrow>
          appendInt4 y @ ''-'' @ pad2 m @ ''-'' @ pad2 d @ ''T'' @ pad2 (nat (ti_sec t div 3600)) @ '':'' @
          pad2 (nat (ti_sec t div 60 mod 60)) @ '':'' @ pad2 (nat (ti_sec t mod 60)) @ ''Z'')"

section \<open>Lemmas\<close>

definition valid_instant :: "instant \<Rightarrow> bool" where
  "valid_instant t \<longleftrightarrow> valid_date (ti_date t) \<and> 0 \<le> ti_sec t \<and> ti_sec t < 86400"

lemma days_in_bounds: "28 \<le> days_in m y" "days_in m y \<le> 31"
  by (auto simp: days_in_def)

lemma days_in_pos: "Suc 0 \<le> days_in m y"
  by (simp add: days_in_def)

lemma days_in_12: "days_in 12 y = 31"
  by (simp add: days_in_def)

lemma next_day_valid: "valid_date dt \<Longrightarrow> valid_date (next_day dt)"
  by (cases dt) (auto simp: days_in_pos)

lemma prev_day_valid: "valid_date dt \<Longrightarrow> valid_date (prev_day dt)"
  by (cases dt) (auto simp: days_in_pos days_in_12)

lemma funpow_valid: "(\<And>x. valid_date x \<Longrightarrow> valid_date (f x)) \<Longrightarrow> valid_date dt \<Longrightarrow> valid_date ((f ^^ n) dt)"
  by (induction n) (simp_all del: valid_date.simps)

lemma add_days_valid: "valid_date dt \<Longrightarrow> valid_date (add_days k dt)"
  unfolding add_days_def by (simp add: funpow_valid [OF next_day_valid] funpow_valid [OF prev_day_valid] del: valid_date.simps)

lemma instant_at_valid: "valid_date dt \<Longrightarrow> valid_instant (instant_at dt s n)"
  by (simp add: valid_instant_def instant_at_def add_days_valid)

lemma instant_at_same:
  assumes "0 \<le> s" "s < 86400"
  shows "instant_at dt s n = \<lparr>ti_date = dt, ti_sec = s, ti_nsec = n\<rparr>"
proof -
  from assms have d: "s div 86400 = 0" "s mod 86400 = s" by simp_all
  have "add_days 0 dt = dt" by (simp add: add_days_def)
  then show ?thesis unfolding instant_at_def d by simp
qed

lemma check_bind [simp]: "do { check b; x } = (if b then x else None)"
  by (simp add: check_def)

lemma parse_date_valid: "parse_date s = Some (dt, r) \<Longrightarrow> valid_date dt"
  by (auto simp: parse_date_def bind_eq_Some_conv simp del: valid_date.simps split: if_splits)

lemma time_Parse_valid:
  assumes "time_Parse s = Some t"
  shows "valid_instant t"
proof -
  from assms obtain dt r where "parse_date s = Some (dt, r)" "\<exists>x n. t = instant_at dt x n"
    by (auto simp: time_Parse_def bind_eq_Some_conv case_prod_beta split: if_splits)
  then show ?thesis using parse_date_valid instant_at_valid by blast
qed

text \<open>The printed form of an instant with a year of four digits is parsed back.\<close>

lemma getnum_pad2: "n < 100 \<Longrightarrow> getnum f (pad2 n @ r) = Some (n, r)"
  by (simp add: getnum_def pad2_def)

lemma decimal_zeros: "decimal (replicate k (CHR ''0'') @ s) = decimal s"
  by (induction k) (simp_all add: decimal_def digit_val_def)

lemma year4_append:
  assumes "0 \<le> y" "y < 10000"
  shows "year4 (appendInt4 y @ r) = Some (nat y, r)"
proof -
  let ?ds = "FormatUint (nat y)"
  have len: "length ?ds \<le> 4" using assms by (intro FormatUint_length) simp_all
  then have "length (appendInt4 y) = 4" using assms by (simp add: appendInt4_def Let_def)
  moreover have "list_all is_digit (appendInt4 y)"
    using assms by (auto simp: appendInt4_def Let_def list_all_iff is_digit_def dest: FormatUint_digit)
  moreover have "decimal (appendInt4 y) = nat y" using assms by (simp add: appendInt4_def Let_def decimal_zeros)
  ultimately show ?thesis by (simp add: year4_def)
qed

lemma parse_date_format:
  assumes "valid_date (y, m, d)" "0 \<le> y" "y < 10000"
  shows "parse_date (appendInt4 y @ CHR ''-'' # pad2 m @ CHR ''-'' # pad2 d @ r) = Some ((y, m, d), r)"
proof -
  have "m < 100" "d < 100" using assms(1) days_in_bounds(2) [of m y] by auto
  with assms show ?thesis by (simp add: parse_date_def year4_append getnum_pad2 del: valid_date.simps)
qed

lemma parse_clock_parts:
  assumes "h < 24" "m < 60" "x < 60"
  shows "parse_clock (pad2 h @ CHR '':'' # pad2 m @ CHR '':'' # pad2 x @ r) = Some (int (h * 3600 + m * 60 + x), r)"
  using assms by (simp add: parse_clock_def getnum_pad2)

lemma clock_parts:
  fixes s :: nat
  shows "s div 3600 * 3600 + s div 60 mod 60 * 60 + s mod 60 = s"
proof -
  have "s div 3600 = s div 60 div 60" by (simp flip: div_mult2_eq)
  then show ?thesis using div_mult_mod_eq [of "s div 60" 60] div_mult_mod_eq [of s 60] by linarith
qed

lemma parse_clock_format:
  assumes "s < 86400"
  shows "parse_clock (pad2 (s div 3600) @ CHR '':'' # pad2 (s div 60 mod 60) @ CHR '':'' # pad2 (s mod 60) @ r) = Some (int s, r)"
proof -
  have "s div 3600 < 24" "s div 60 mod 60 < 60" "s mod 60 < 60" using assms by simp_all
  from parse_clock_parts [OF this] show ?thesis unfolding clock_parts .
qed

lemma time_Parse_format:
  assumes "valid_instant t" and "0 \<le> fst (ti_date t)" "fst (ti_date t) < 10000"
  shows "time_Parse (format_UTC t) = Some (t\<lparr>ti_nsec := 0\<rparr>)"
proof -
  obtain y m d where dt: "ti_date t = (y, m, d)" by (cases "ti_date t")
  have v: "valid_date (y, m, d)" using assms(1) dt by (simp add: valid_instant_def)
  obtain s where s: "ti_sec t = int s" "s < 86400" using assms(1) nonneg_int_cases [of "ti_sec t"]
    by (auto simp: valid_instant_def)
  have sec: "nat (int s div 3600) = s div 3600" "nat (int s div 60 mod 60) = s div 60 mod 60" "nat (int s mod 60) = s mod 60"
    by (simp_all add: nat_div_distrib nat_mod_distrib)
  have "time_Parse (format_UTC t) = Some (instant_at (y, m, d) (int s) 0)"
    using assms(2,3) dt unfolding time_Parse_def format_UTC_def s(1)
    by (simp add: sec parse_date_format [OF v] parse_clock_format [OF s(2)] fraction_def zone_def del: valid_date.simps)
  also have "instant_at (y, m, d) (int s) 0 = t\<lparr>ti_nsec := 0\<rparr>"
    using s dt by (cases t) (simp add: instant_at_same)
  finally show ?thesis .
qed

end
