(* ===== verification/Srv_Params.thy ===== *)
theory Srv_Params
  imports Smtp_Types Wire_Path Go_Time
begin

text \<open>
  The parameters of MAIL and RCPT (smtpserver/cmd_params.go and smtpserver/ext_params.go): which keywords
  the server knows, which of them an advertised extension allows, the syntax of each value, and the options the
  backend receives.

  The map \<open>seen\<close> of the code is the list of the keywords met so far, the options are passed from one parameter to
  the next, and a pointer to a part of the options is an option value that the \<open>ensure\<close> functions fill in.

  The lemmas show that a list of parameters is accepted only when every known keyword occurs once and is
  covered by an advertised extension, that every other parameter reaches the backend in order, and that every
  option is the value of its parameter, within the range the server enforces.
\<close>

section \<open>Errors\<close>

datatype param_cause = Because bytes | BecauseWire wire_error

record parameterError =
  pe_keyword :: bytes
  pe_cause :: param_cause

definition invalidParameter :: "bytes \<Rightarrow> param_cause \<Rightarrow> parameterError" where
  "invalidParameter keyword cause = \<lparr>pe_keyword = keyword, pe_cause = cause\<rparr>"

definition unavailableParameter :: "bytes \<Rightarrow> parameterError" where
  "unavailableParameter keyword = invalidParameter keyword (Because ''extension was not advertised'')"

definition uniqueParameter :: "bytes list \<Rightarrow> bytes \<Rightarrow> parameterError + bytes list" where
  "uniqueParameter seen keyword =
     (if keyword \<in> set seen then Inl (invalidParameter keyword (Because ''parameter appears more than once''))
      else Inr (keyword # seen))"

text \<open>Values refused with a cause of their own.\<close>

definition reject :: "bytes \<Rightarrow> param_cause + 'a" where
  "reject cause = Inl (Because cause)"

definition with_keyword :: "bytes \<Rightarrow> param_cause + 'a \<Rightarrow> parameterError + 'a" where
  "with_keyword keyword r = (case r of Inl cause \<Rightarrow> Inl (invalidParameter keyword cause) | Inr x \<Rightarrow> Inr x)"

section \<open>Syntax of the values\<close>

definition validSignedDecimal :: "bytes \<Rightarrow> bool" where
  "validSignedDecimal v =
     (case v of
        [] \<Rightarrow> False
      | c # r \<Rightarrow>
          (let ds = (if c = CHR ''-'' \<or> c = CHR ''+'' then r else v) in ds \<noteq> [] \<and> list_all is_digit ds))"

definition validExtensionValue :: "bytes \<Rightarrow> bool" where
  "validExtensionValue v \<longleftrightarrow> v \<noteq> [] \<and> \<not> ContainsAny v [SP, TAB, CR, LF, NUL, CHR ''='']"

definition validSubmitter :: "(nat \<Rightarrow> nat) \<Rightarrow> bytes \<Rightarrow> bool" where
  "validSubmitter upr mailbox =
     (case ParseReversePath upr (''FROM:<'' @ mailbox @ ''>'') \<lparr>po_SMTPUTF8 = False, po_MaxPathLength = 0\<rparr> of
        Inl _ \<Rightarrow> False
      | Inr p \<Rightarrow> path_Mailbox p = mailbox \<and> path_Params p = [])"

definition base64_rune :: "nat \<Rightarrow> bool" where
  "base64_rune r \<longleftrightarrow> 65 \<le> r \<and> r \<le> 90 \<or> 97 \<le> r \<and> r \<le> 122 \<or> 48 \<le> r \<and> r \<le> 57 \<or> r = 43 \<or> r = 47"

definition validMTRK :: "bytes \<Rightarrow> bool" where
  "validMTRK v =
     (case Cut v (CHR '':'') of
        (certifier, timeout, hasTimeout) \<Rightarrow>
          certifier \<noteq> [] \<and> CHR '':'' \<notin> set timeout \<and> list_all (\<lambda>x. base64_rune (fst x)) (runes certifier) \<and>
          (hasTimeout \<longrightarrow> timeout \<noteq> [] \<and> length timeout \<le> 9 \<and>
             list_all (\<lambda>x. 48 \<le> fst x \<and> fst x \<le> 57) (runes timeout)))"

definition validMTRKENVID :: "bytes \<Rightarrow> bool" where
  "validMTRKENVID v =
     (case Cut v (CHR ''@'') of (local, fqhn, ok) \<Rightarrow> ok \<and> local \<noteq> [] \<and> fqhn \<noteq> [] \<and> CHR ''@'' \<notin> set fqhn)"

definition alnum_rune :: "nat \<Rightarrow> bool" where
  "alnum_rune r \<longleftrightarrow> 97 \<le> r \<and> r \<le> 122 \<or> 65 \<le> r \<and> r \<le> 90 \<or> 48 \<le> r \<and> r \<le> 57"

text \<open>\<open>strings.ContainsRune\<close> on the two punctuation sets of the code, as code points.\<close>

definition atom_punct :: "nat list" where
  "atom_punct = map byte ''!#$%&'' @ [39] @ map byte ''*+-/=?^_'' @ [96] @ map byte ''{|}~''"

definition solicit_punct :: "nat list" where
  "solicit_punct = map byte ''!#$%&'' @ [39] @ map byte ''*+-.^_'' @ [96] @ map byte ''{|}~:''"

definition validAtom :: "bytes \<Rightarrow> bool" where
  "validAtom v \<longleftrightarrow> v \<noteq> [] \<and> list_all (\<lambda>x. alnum_rune (fst x) \<or> fst x \<in> set atom_punct) (runes v)"

definition validSolicitValue :: "bytes \<Rightarrow> bool" where
  "validSolicitValue v \<longleftrightarrow> v \<noteq> [] \<and> length v \<le> 1000 \<and> \<not> ContainsAny v [SP, TAB, CR, LF, NUL] \<and>
     list_all (\<lambda>keyword. keyword \<noteq> [] \<and>
         list_all (\<lambda>x. alnum_rune (fst x) \<or> fst x \<in> set solicit_punct) (runes keyword))
       (Split v (CHR '',''))"

section \<open>Values\<close>

definition decodeRequiredXtext :: "bytes \<Rightarrow> bytes \<Rightarrow> parameterError + bytes" where
  "decodeRequiredXtext keyword v =
     (if v = [] then Inl (invalidParameter keyword (Because ''xtext value is required''))
      else case DecodeXtext v of
             Inl e \<Rightarrow> Inl (invalidParameter keyword (BecauseWire e))
           | Inr d \<Rightarrow> Inr d)"

definition TrimLeftSign :: "bytes \<Rightarrow> bytes" where
  "TrimLeftSign s = dropWhile (\<lambda>c. c = CHR ''+'' \<or> c = CHR ''-'') s"

definition TrimSuffixT :: "bytes \<Rightarrow> bytes" where
  "TrimSuffixT s = (if HasSuffix s ''T'' then butlast s else s)"

definition parseDeliverBy :: "(nat \<Rightarrow> nat) \<Rightarrow> bytes \<Rightarrow> bytes \<Rightarrow> param_cause + DeliverByOptions" where
  "parseDeliverBy upr v capability =
     (case Split v (CHR '';'') of
        [p0, p1] \<Rightarrow>
          if p0 = [] then reject ''value must be by-time;by-mode[T]''
          else if length (TrimLeftSign p0) > 9 \<or> \<not> validSignedDecimal p0
          then reject ''by-time must contain at most nine decimal digits''
          else
            (case ParseInt p0 of
               None \<Rightarrow> reject ''by-time must be in -999999999..999999999''
             | Some seconds \<Rightarrow>
                 if seconds < -999999999 \<or> seconds > 999999999
                 then reject ''by-time must be in -999999999..999999999''
                 else
                   let modeAndTrace = ToUpper upr p1;
                       trace = HasSuffix modeAndTrace ''T'';
                       mode = TrimSuffixT modeAndTrace;
                       result = \<lparr>db_Seconds = seconds, db_Mode = mode, db_Trace = trace\<rparr> in
                   if mode \<noteq> ''N'' \<and> mode \<noteq> ''R'' then reject ''by-mode must be N or R''
                   else if mode = ''R'' \<and> seconds < 1 then reject ''return mode requires a positive by-time''
                   else if mode = ''R'' \<and> capability \<noteq> [] then
                     let minimumText = fst (Cut capability (CHR '','')) in
                     if minimumText = [] then Inr result
                     else case ParseInt minimumText of
                            None \<Rightarrow> reject (''return deadline must be at least '' @ minimumText @ '' seconds'')
                          | Some minimum \<Rightarrow>
                              if seconds < minimum
                              then reject (''return deadline must be at least '' @ minimumText @ '' seconds'')
                              else Inr result
                   else Inr result)
      | _ \<Rightarrow> reject ''value must be by-time;by-mode[T]'')"

definition parseFutureRelease :: "bytes \<Rightarrow> bytes \<Rightarrow> bytes \<Rightarrow> param_cause + FutureReleaseOptions" where
  "parseFutureRelease keyword v capability =
     (case Fields capability of
        [f0, f1] \<Rightarrow>
          (case ParseInt f0 of
             None \<Rightarrow> reject ''server FUTURERELEASE interval is invalid''
           | Some maximum \<Rightarrow>
               case time_Parse f1 of
                 None \<Rightarrow> reject ''server FUTURERELEASE date-time is invalid''
               | Some maximumTime \<Rightarrow>
                   if keyword = ''HOLDFOR'' then
                     (case ParseInt v of
                        None \<Rightarrow> reject (''value must be in 1..'' @ Itoa maximum)
                      | Some seconds \<Rightarrow>
                          if seconds < 1 \<or> seconds > maximum \<or> Itoa seconds \<noteq> v
                          then reject (''value must be in 1..'' @ Itoa maximum)
                          else Inr \<lparr>fr_HoldForSeconds = seconds, fr_HoldUntil = []\<rparr>)
                   else
                     (case time_Parse v of
                        None \<Rightarrow> reject ''value is not a valid date-time within the advertised maximum''
                      | Some timestamp \<Rightarrow>
                          if time_After timestamp maximumTime
                          then reject ''value is not a valid date-time within the advertised maximum''
                          else Inr \<lparr>fr_HoldForSeconds = 0, fr_HoldUntil = format_UTC timestamp\<rparr>))
      | _ \<Rightarrow> reject ''server FUTURERELEASE declaration is invalid'')"

fun notifyLoop :: "(nat \<Rightarrow> nat) \<Rightarrow> bytes list \<Rightarrow> bytes list \<Rightarrow> param_cause + bytes list" where
  "notifyLoop upr [] result = Inr result"
| "notifyLoop upr (p # ps) result =
     (let part = ToUpper upr p in
      if \<not> validAtom part then reject ''contains an invalid notification token''
      else if part \<in> set result then reject ''contains a duplicate notification token''
      else notifyLoop upr ps (result @ [part]))"

definition parseNotify :: "(nat \<Rightarrow> nat) \<Rightarrow> bytes \<Rightarrow> param_cause + bytes list" where
  "parseNotify upr v =
     (if v = [] then reject ''value is required''
      else case notifyLoop upr (Split v (CHR '','')) [] of
             Inl e \<Rightarrow> Inl e
           | Inr result \<Rightarrow>
               if ''NEVER'' \<in> set result \<and> length result \<noteq> 1 then reject ''NEVER must be used alone''
               else Inr result)"

definition parseRRVS :: "(nat \<Rightarrow> nat) \<Rightarrow> bytes \<Rightarrow> param_cause + RRVSOptions" where
  "parseRRVS upr v =
     (case Split v (CHR '';'') of
        p0 # ps \<Rightarrow>
          if length ps > 1 \<or> p0 = [] then reject ''value must be date-time[;C|R]''
          else
            (case time_Parse p0 of
               None \<Rightarrow> reject ''timestamp is invalid''
             | Some timestamp \<Rightarrow>
                 if length p0 > 20 \<and> p0 ! 19 = CHR ''.'' then reject ''timestamp is invalid''
                 else
                   case ps of
                     [] \<Rightarrow> Inr \<lparr>rv_Timestamp = format_UTC timestamp, rv_Disposition = []\<rparr>
                   | p1 # _ \<Rightarrow>
                       let disposition = ToUpper upr p1 in
                       if disposition \<noteq> ''C'' \<and> disposition \<noteq> ''R'' then reject ''disposition must be C or R''
                       else Inr \<lparr>rv_Timestamp = format_UTC timestamp, rv_Disposition = disposition\<rparr>)
      | [] \<Rightarrow> reject ''value must be date-time[;C|R]'')"

section \<open>Options\<close>

definition no_transport :: TransportOptions where
  "no_transport = \<lparr>to_Size = None, to_Body = [], to_SMTPUTF8 = False\<rparr>"

definition no_mail_options :: MailOptions where
  "no_mail_options = \<lparr>mo_Transport = None, mo_Delivery = None, mo_Legacy = None, mo_Auth = [], mo_AuthOriginal = None,
     mo_Extra = []\<rparr>"

definition no_rcpt_options :: RcptOptions where
  "no_rcpt_options = \<lparr>rco_Delivery = None, rco_Legacy = None, rco_Extra = []\<rparr>"

definition ensureTransport :: "MailOptions \<Rightarrow> TransportOptions" where
  "ensureTransport opts = (case mo_Transport opts of None \<Rightarrow> no_transport | Some t \<Rightarrow> t)"

definition ensureDelivery :: "MailOptions \<Rightarrow> DeliveryOptions" where
  "ensureDelivery opts =
     (case mo_Delivery opts of
        None \<Rightarrow> \<lparr>dv_DSN = None, dv_DeliverBy = None, dv_FutureRelease = None, dv_MTPriority = [], dv_RequireTLS = False\<rparr>
      | Some d \<Rightarrow> d)"

definition ensureDSNMail :: "DSNMailOptions option \<Rightarrow> DSNMailOptions" where
  "ensureDSNMail opts =
     (case opts of None \<Rightarrow> \<lparr>dm_Return = [], dm_EnvelopeID = [], dm_EnvelopeIDOriginal = None\<rparr> | Some d \<Rightarrow> d)"

definition ensureLegacy :: "MailOptions \<Rightarrow> LegacyOptions" where
  "ensureLegacy opts =
     (case mo_Legacy opts of
        None \<Rightarrow> \<lparr>lg_Solicit = [], lg_TransitID = [], lg_Submitter = [], lg_SubmitterOriginal = None, lg_ConPerm = False\<rparr>
      | Some l \<Rightarrow> l)"

definition ensureRecipientDelivery :: "RcptOptions \<Rightarrow> RecipientDeliveryOptions" where
  "ensureRecipientDelivery opts =
     (case rco_Delivery opts of None \<Rightarrow> \<lparr>rdv_DSN = None, rdv_RRVS = None\<rparr> | Some d \<Rightarrow> d)"

definition ensureDSNRcpt :: "DSNRcptOptions option \<Rightarrow> DSNRcptOptions" where
  "ensureDSNRcpt opts =
     (case opts of None \<Rightarrow> \<lparr>dn_Notify = [], dn_OriginalType = [], dn_Original = [], dn_ORCPTOriginal = None\<rparr> | Some d \<Rightarrow> d)"

definition ensureRecipientLegacy :: "RcptOptions \<Rightarrow> RecipientLegacyOptions" where
  "ensureRecipientLegacy opts = (case rco_Legacy opts of None \<Rightarrow> \<lparr>rlg_ConNeg = False\<rparr> | Some l \<Rightarrow> l)"

definition originalParam :: "param \<Rightarrow> param" where
  "originalParam p = \<lparr>par_Keyword = par_Keyword p, par_Value = par_Value p\<rparr>"

text \<open>The assignments through the pointers the \<open>ensure\<close> functions return.\<close>

definition set_transport :: "(TransportOptions \<Rightarrow> TransportOptions) \<Rightarrow> MailOptions \<Rightarrow> MailOptions" where
  "set_transport f opts = opts\<lparr>mo_Transport := Some (f (ensureTransport opts))\<rparr>"

definition set_delivery :: "(DeliveryOptions \<Rightarrow> DeliveryOptions) \<Rightarrow> MailOptions \<Rightarrow> MailOptions" where
  "set_delivery f opts = opts\<lparr>mo_Delivery := Some (f (ensureDelivery opts))\<rparr>"

definition set_dsn :: "(DSNMailOptions \<Rightarrow> DSNMailOptions) \<Rightarrow> MailOptions \<Rightarrow> MailOptions" where
  "set_dsn f = set_delivery (\<lambda>d. d\<lparr>dv_DSN := Some (f (ensureDSNMail (dv_DSN d)))\<rparr>)"

definition set_legacy :: "(LegacyOptions \<Rightarrow> LegacyOptions) \<Rightarrow> MailOptions \<Rightarrow> MailOptions" where
  "set_legacy f opts = opts\<lparr>mo_Legacy := Some (f (ensureLegacy opts))\<rparr>"

definition set_rdelivery :: "(RecipientDeliveryOptions \<Rightarrow> RecipientDeliveryOptions) \<Rightarrow> RcptOptions \<Rightarrow> RcptOptions" where
  "set_rdelivery f opts = opts\<lparr>rco_Delivery := Some (f (ensureRecipientDelivery opts))\<rparr>"

definition set_rdsn :: "(DSNRcptOptions \<Rightarrow> DSNRcptOptions) \<Rightarrow> RcptOptions \<Rightarrow> RcptOptions" where
  "set_rdsn f = set_rdelivery (\<lambda>d. d\<lparr>rdv_DSN := Some (f (ensureDSNRcpt (rdv_DSN d)))\<rparr>)"

section \<open>Parameters of extensions\<close>

type_synonym extensions = "bytes \<Rightarrow> bytes option"

definition mail_extension :: "bytes \<Rightarrow> bytes option" where
  "mail_extension keyword =
     map_of [(''RET'', ''DSN''), (''ENVID'', ''DSN''), (''BY'', ''DELIVERBY''), (''HOLDFOR'', ''FUTURERELEASE''),
       (''HOLDUNTIL'', ''FUTURERELEASE''), (''MT-PRIORITY'', ''MT-PRIORITY''), (''REQUIRETLS'', ''REQUIRETLS''),
       (''SOLICIT'', ''NO-SOLICITING''), (''MTRK'', ''MTRK''), (''SUBMITTER'', ''SUBMITTER''),
       (''CONPERM'', ''CONPERM'')] keyword"

definition rcpt_extension :: "bytes \<Rightarrow> bytes option" where
  "rcpt_extension keyword =
     map_of [(''NOTIFY'', ''DSN''), (''ORCPT'', ''DSN''), (''RRVS'', ''RRVS''), (''CONNEG'', ''CONNEG'')] keyword"

text \<open>The second switch of \<open>parseExtensionMailParameter\<close>: \<open>v\<close> is the value, \<open>params\<close> the advertised parameters,
  \<open>seen\<close> the keywords so far.\<close>

definition mailExtensionValue ::
  "(nat \<Rightarrow> nat) \<Rightarrow> bytes \<Rightarrow> param \<Rightarrow> bytes \<Rightarrow> bytes list \<Rightarrow> MailOptions \<Rightarrow> parameterError + MailOptions" where
  "mailExtensionValue upr keyword p params seen opts =
     (let v = par_Value p; bad = (\<lambda>cause. Inl (invalidParameter keyword (Because cause))) in
      if keyword = ''RET'' then
        (if \<not> validExtensionValue v then bad ''value is required''
         else Inr (set_dsn (\<lambda>d. d\<lparr>dm_Return := ToUpper upr v\<rparr>) opts))
      else if keyword = ''ENVID'' then
        bind_res (decodeRequiredXtext keyword v)
          (\<lambda>decoded. Inr (set_dsn (\<lambda>d. d\<lparr>dm_EnvelopeID := decoded, dm_EnvelopeIDOriginal := Some (originalParam p)\<rparr>) opts))
      else if keyword = ''BY'' then
        bind_res (with_keyword keyword (parseDeliverBy upr v params))
          (\<lambda>x. Inr (set_delivery (\<lambda>d. d\<lparr>dv_DeliverBy := Some x\<rparr>) opts))
      else if keyword = ''HOLDFOR'' \<or> keyword = ''HOLDUNTIL'' then
        (if (if keyword = ''HOLDFOR'' then ''HOLDUNTIL'' else ''HOLDFOR'') \<in> set seen
         then bad ''HOLDFOR and HOLDUNTIL are mutually exclusive''
         else bind_res (with_keyword keyword (parseFutureRelease keyword v params))
                (\<lambda>x. Inr (set_delivery (\<lambda>d. d\<lparr>dv_FutureRelease := Some x\<rparr>) opts)))
      else if keyword = ''MT-PRIORITY'' then
        (if \<not> validSignedDecimal v then bad ''value must be a signed decimal integer''
         else Inr (set_delivery (\<lambda>d. d\<lparr>dv_MTPriority := v\<rparr>) opts))
      else if keyword = ''REQUIRETLS'' then
        (if v \<noteq> [] then bad ''parameter must not have a value''
         else Inr (set_delivery (\<lambda>d. d\<lparr>dv_RequireTLS := True\<rparr>) opts))
      else if keyword = ''SOLICIT'' then
        (if \<not> validSolicitValue v then bad ''invalid solicitation keyword list''
         else Inr (set_legacy (\<lambda>l. l\<lparr>lg_Solicit := v\<rparr>) opts))
      else if keyword = ''MTRK'' then
        (if \<not> validMTRK v then bad ''value must be a base64 certifier with an optional nine-digit timeout''
         else Inr (set_legacy (\<lambda>l. l\<lparr>lg_TransitID := v\<rparr>) opts))
      else if keyword = ''SUBMITTER'' then
        bind_res (decodeRequiredXtext keyword v)
          (\<lambda>decoded. if \<not> validSubmitter upr decoded then bad ''value is not an RFC 5321 mailbox''
             else Inr (set_legacy (\<lambda>l. l\<lparr>lg_Submitter := decoded, lg_SubmitterOriginal := Some (originalParam p)\<rparr>) opts))
      else
        (if v \<noteq> [] then bad ''parameter must not have a value''
         else Inr (set_legacy (\<lambda>l. l\<lparr>lg_ConPerm := True\<rparr>) opts)))"

text \<open>\<open>Inr None\<close> is the answer \<open>false, nil\<close>: not a parameter of an extension.\<close>

definition parseExtensionMailParameter ::
  "(nat \<Rightarrow> nat) \<Rightarrow> MailOptions \<Rightarrow> param \<Rightarrow> extensions \<Rightarrow> bytes list \<Rightarrow> parameterError + (MailOptions \<times> bytes list) option" where
  "parseExtensionMailParameter upr opts p exts seen =
     (let keyword = ToUpper upr (par_Keyword p) in
      case mail_extension keyword of
        None \<Rightarrow> Inr None
      | Some extension \<Rightarrow>
          case exts extension of
            None \<Rightarrow> Inl (unavailableParameter keyword)
          | Some params \<Rightarrow>
              bind_res (uniqueParameter seen keyword)
                (\<lambda>seen'. bind_res (mailExtensionValue upr keyword p params seen' opts) (\<lambda>opts'. Inr (Some (opts', seen')))))"

definition rcptExtensionValue ::
  "(nat \<Rightarrow> nat) \<Rightarrow> bytes \<Rightarrow> param \<Rightarrow> RcptOptions \<Rightarrow> parameterError + RcptOptions" where
  "rcptExtensionValue upr keyword p opts =
     (let v = par_Value p; bad = (\<lambda>cause. Inl (invalidParameter keyword (Because cause))) in
      if keyword = ''NOTIFY'' then
        bind_res (with_keyword keyword (parseNotify upr v))
          (\<lambda>values. Inr (set_rdsn (\<lambda>d. d\<lparr>dn_Notify := values\<rparr>) opts))
      else if keyword = ''ORCPT'' then
        (case Cut v (CHR '';'') of
           (addressType, encoded, ok) \<Rightarrow>
             if \<not> ok \<or> \<not> validAtom addressType \<or> encoded = [] then bad ''value must be addr-type;xtext-address''
             else case DecodeXtext encoded of
                    Inl e \<Rightarrow> Inl (invalidParameter keyword (BecauseWire e))
                  | Inr decoded \<Rightarrow>
                      Inr (set_rdsn (\<lambda>d. d\<lparr>dn_OriginalType := addressType, dn_Original := decoded,
                                           dn_ORCPTOriginal := Some (originalParam p)\<rparr>) opts))
      else if keyword = ''RRVS'' then
        bind_res (with_keyword keyword (parseRRVS upr v))
          (\<lambda>x. Inr (set_rdelivery (\<lambda>d. d\<lparr>rdv_RRVS := Some x\<rparr>) opts))
      else
        (if v \<noteq> [] then bad ''parameter must not have a value''
         else Inr (opts\<lparr>rco_Legacy := Some ((ensureRecipientLegacy opts)\<lparr>rlg_ConNeg := True\<rparr>)\<rparr>)))"

definition parseExtensionRcptParameter ::
  "(nat \<Rightarrow> nat) \<Rightarrow> RcptOptions \<Rightarrow> param \<Rightarrow> extensions \<Rightarrow> bytes list \<Rightarrow> parameterError + (RcptOptions \<times> bytes list) option" where
  "parseExtensionRcptParameter upr opts p exts seen =
     (let keyword = ToUpper upr (par_Keyword p) in
      case rcpt_extension keyword of
        None \<Rightarrow> Inr None
      | Some extension \<Rightarrow>
          case exts extension of
            None \<Rightarrow> Inl (unavailableParameter keyword)
          | Some _ \<Rightarrow>
              bind_res (uniqueParameter seen keyword)
                (\<lambda>seen'. bind_res (rcptExtensionValue upr keyword p opts) (\<lambda>opts'. Inr (Some (opts', seen')))))"

definition validateExtensionMailPath :: "bytes \<Rightarrow> MailOptions option \<Rightarrow> parameterError option" where
  "validateExtensionMailPath reversePath opts =
     (let delivery = Option.bind opts mo_Delivery; transitID = (case Option.bind opts mo_Legacy of None \<Rightarrow> [] | Some l \<Rightarrow> lg_TransitID l) in
      if reversePath = [] \<and> Option.bind delivery dv_FutureRelease \<noteq> None
      then Some (invalidParameter ''FUTURERELEASE'' (Because ''must not be used with the null reverse-path''))
      else if transitID \<noteq> [] then
        (case Option.bind (Option.bind delivery dv_DSN) dm_EnvelopeIDOriginal of
           None \<Rightarrow> Some (invalidParameter ''MTRK'' (Because ''requires ENVID''))
         | Some original \<Rightarrow>
             if \<not> validMTRKENVID (par_Value original)
             then Some (invalidParameter ''MTRK'' (Because ''requires ENVID in local-envid@fqhn form''))
             else None)
      else None)"

section \<open>Parameters of MAIL and RCPT\<close>

record mailParameterFeatures =
  mf_size :: bool
  mf_eightBit :: bool
  mf_binaryMIME :: bool
  mf_smtpUTF8 :: bool
  mf_auth :: bool
  mf_extensions :: extensions

text \<open>One iteration of the loop of \<open>parseMailParameters\<close>; the four keywords of the framework first.\<close>

definition sizeParameter :: "param \<Rightarrow> bytes \<Rightarrow> mailParameterFeatures \<Rightarrow> MailOptions \<Rightarrow> parameterError + MailOptions" where
  "sizeParameter p keyword features opts =
     (let v = par_Value p;
          bad = Inl (invalidParameter keyword (Because ''value must be an unsigned decimal integer'')) in
      if \<not> mf_size features then Inl (unavailableParameter keyword)
      else if v = [] \<or> HasPrefix v ''+'' \<or> HasPrefix v ''-'' then bad
      else case ParseInt v of
             None \<Rightarrow> bad
           | Some n \<Rightarrow> if n < 0 then bad else Inr (set_transport (\<lambda>t. t\<lparr>to_Size := Some n\<rparr>) opts))"

definition bodyParameter :: "(nat \<Rightarrow> nat) \<Rightarrow> param \<Rightarrow> bytes \<Rightarrow> mailParameterFeatures \<Rightarrow> MailOptions \<Rightarrow> parameterError + MailOptions" where
  "bodyParameter upr p keyword features opts =
     (let body = ToUpper upr (par_Value p); ok = Inr (set_transport (\<lambda>t. t\<lparr>to_Body := body\<rparr>) opts) in
      if body = ''7BIT'' \<or> body = ''8BITMIME'' then
        (if \<not> mf_eightBit features then Inl (unavailableParameter keyword) else ok)
      else if body = ''BINARYMIME'' then
        (if \<not> mf_binaryMIME features then Inl (unavailableParameter keyword) else ok)
      else Inl (invalidParameter keyword (Because ''value must be 7BIT, 8BITMIME, or BINARYMIME'')))"

definition utf8Parameter :: "param \<Rightarrow> bytes \<Rightarrow> mailParameterFeatures \<Rightarrow> MailOptions \<Rightarrow> parameterError + MailOptions" where
  "utf8Parameter p keyword features opts =
     (if \<not> mf_smtpUTF8 features then Inl (unavailableParameter keyword)
      else if par_Value p \<noteq> [] then Inl (invalidParameter keyword (Because ''parameter must not have a value''))
      else Inr (set_transport (\<lambda>t. t\<lparr>to_SMTPUTF8 := True\<rparr>) opts))"

definition authParameter :: "param \<Rightarrow> bytes \<Rightarrow> mailParameterFeatures \<Rightarrow> MailOptions \<Rightarrow> parameterError + MailOptions" where
  "authParameter p keyword features opts =
     (if \<not> mf_auth features then Inl (unavailableParameter keyword)
      else bind_res (decodeRequiredXtext keyword (par_Value p))
             (\<lambda>decoded. Inr (opts\<lparr>mo_Auth := decoded, mo_AuthOriginal := Some (originalParam p)\<rparr>)))"

definition mailParameter ::
  "(nat \<Rightarrow> nat) \<Rightarrow> mailParameterFeatures \<Rightarrow> param \<Rightarrow> MailOptions \<times> bytes list \<Rightarrow> parameterError + (MailOptions \<times> bytes list)" where
  "mailParameter upr features p st =
     (case st of
        (opts, seen) \<Rightarrow>
          let keyword = ToUpper upr (par_Keyword p);
              own = (\<lambda>f. bind_res (uniqueParameter seen keyword)
                           (\<lambda>seen'. bind_res (f p keyword features opts) (\<lambda>opts'. Inr (opts', seen')))) in
          if keyword = ''SIZE'' then own sizeParameter
          else if keyword = ''BODY'' then own (bodyParameter upr)
          else if keyword = ''SMTPUTF8'' then own utf8Parameter
          else if keyword = ''AUTH'' then own authParameter
          else
            case parseExtensionMailParameter upr opts p (mf_extensions features) seen of
              Inl e \<Rightarrow> Inl e
            | Inr (Some st') \<Rightarrow> Inr st'
            | Inr None \<Rightarrow> Inr (opts\<lparr>mo_Extra := mo_Extra opts @ [originalParam p]\<rparr>, seen))"

fun mailParameters ::
  "(nat \<Rightarrow> nat) \<Rightarrow> mailParameterFeatures \<Rightarrow> param list \<Rightarrow> MailOptions \<times> bytes list \<Rightarrow> parameterError + (MailOptions \<times> bytes list)" where
  "mailParameters upr features [] st = Inr st"
| "mailParameters upr features (p # ps) st = bind_res (mailParameter upr features p st) (mailParameters upr features ps)"

definition parseMailParameters ::
  "(nat \<Rightarrow> nat) \<Rightarrow> param list \<Rightarrow> mailParameterFeatures \<Rightarrow> parameterError + MailOptions option" where
  "parseMailParameters upr params features =
     (if params = [] then Inr None
      else bind_res (mailParameters upr features params (no_mail_options, [])) (\<lambda>st. Inr (Some (fst st))))"

fun rcptParameters ::
  "(nat \<Rightarrow> nat) \<Rightarrow> extensions \<Rightarrow> param list \<Rightarrow> RcptOptions \<times> bytes list \<Rightarrow> parameterError + (RcptOptions \<times> bytes list)" where
  "rcptParameters upr exts [] st = Inr st"
| "rcptParameters upr exts (p # ps) (opts, seen) =
     (case parseExtensionRcptParameter upr opts p exts seen of
        Inl e \<Rightarrow> Inl e
      | Inr (Some st') \<Rightarrow> rcptParameters upr exts ps st'
      | Inr None \<Rightarrow> rcptParameters upr exts ps (opts\<lparr>rco_Extra := rco_Extra opts @ [originalParam p]\<rparr>, seen))"

definition parseRcptParameters :: "(nat \<Rightarrow> nat) \<Rightarrow> param list \<Rightarrow> extensions \<Rightarrow> parameterError + RcptOptions option" where
  "parseRcptParameters upr params exts =
     (if params = [] then Inr None
      else bind_res (rcptParameters upr exts params (no_rcpt_options, [])) (\<lambda>st. Inr (Some (fst st))))"

section \<open>Lemmas\<close>

definition framework_keyword :: "bytes \<Rightarrow> bool" where
  "framework_keyword kw \<longleftrightarrow> kw \<in> set [''SIZE'', ''BODY'', ''SMTPUTF8'', ''AUTH'']"

definition mail_keyword :: "bytes \<Rightarrow> bool" where
  "mail_keyword kw \<longleftrightarrow> framework_keyword kw \<or> mail_extension kw \<noteq> None"

text \<open>What has to be on offer for a keyword to be accepted.\<close>

definition mail_offered :: "mailParameterFeatures \<Rightarrow> bytes \<Rightarrow> bool" where
  "mail_offered f kw \<longleftrightarrow>
     (if kw = ''SIZE'' then mf_size f
      else if kw = ''BODY'' then mf_eightBit f \<or> mf_binaryMIME f
      else if kw = ''SMTPUTF8'' then mf_smtpUTF8 f
      else if kw = ''AUTH'' then mf_auth f
      else \<exists>e. mail_extension kw = Some e \<and> mf_extensions f e \<noteq> None)"

text \<open>What the options say, as a function of the values the client gave: \<open>vals\<close> has the value of each keyword that
  occurs, and an option whose keyword does not occur keeps its zero value. The ranges are those the server enforces. Two
  of them are wider than the RFCs: RET is any token and MT-PRIORITY any signed decimal; the backend judges these.\<close>

definition size_value :: "bytes \<Rightarrow> int \<Rightarrow> bool" where
  "size_value v n \<longleftrightarrow> v \<noteq> [] \<and> list_all is_digit v \<and> n = int (decimal v) \<and> n \<le> MaxInt64"

definition transport_spec :: "(nat \<Rightarrow> nat) \<Rightarrow> mailParameterFeatures \<Rightarrow> (bytes \<Rightarrow> bytes option) \<Rightarrow> TransportOptions \<Rightarrow> bool" where
  "transport_spec upr f vals t \<longleftrightarrow>
     (case vals ''SIZE'' of None \<Rightarrow> to_Size t = None | Some v \<Rightarrow> \<exists>n. to_Size t = Some n \<and> size_value v n) \<and>
     (case vals ''BODY'' of
        None \<Rightarrow> to_Body t = []
      | Some v \<Rightarrow> to_Body t = ToUpper upr v \<and>
          (to_Body t \<in> {''7BIT'', ''8BITMIME''} \<and> mf_eightBit f \<or> to_Body t = ''BINARYMIME'' \<and> mf_binaryMIME f)) \<and>
     (case vals ''SMTPUTF8'' of None \<Rightarrow> \<not> to_SMTPUTF8 t | Some v \<Rightarrow> to_SMTPUTF8 t \<and> v = [])"

text \<open>A decoded xtext value with the parameter it came from.\<close>

definition xtext_value :: "bytes \<Rightarrow> bytes \<Rightarrow> param option \<Rightarrow> bool" where
  "xtext_value v decoded original \<longleftrightarrow> v \<noteq> [] \<and> DecodeXtext v = Inr decoded \<and> map_option par_Value original = Some v"

definition deliver_by_value :: "(nat \<Rightarrow> nat) \<Rightarrow> bytes \<Rightarrow> bytes \<Rightarrow> DeliverByOptions \<Rightarrow> bool" where
  "deliver_by_value upr capability v d \<longleftrightarrow>
     (\<exists>seconds mode minimum.
        Split v (CHR '';'') = [seconds, mode] \<and> validSignedDecimal seconds \<and> ParseInt seconds = Some (db_Seconds d) \<and>
        \<bar>db_Seconds d\<bar> \<le> 999999999 \<and> ToUpper upr mode = db_Mode d @ (if db_Trace d then ''T'' else []) \<and>
        minimum = fst (Cut capability (CHR '','')) \<and>
        (db_Mode d = ''N'' \<or>
         db_Mode d = ''R'' \<and> 1 \<le> db_Seconds d \<and> (minimum = [] \<or> (\<exists>n. ParseInt minimum = Some n \<and> n \<le> db_Seconds d))))"

text \<open>The two values the server advertises with FUTURERELEASE: a longest interval and a latest time.\<close>

definition future_release_limits :: "bytes \<Rightarrow> int \<Rightarrow> instant \<Rightarrow> bool" where
  "future_release_limits capability maximum latest \<longleftrightarrow>
     (\<exists>f0 f1. Fields capability = [f0, f1] \<and> ParseInt f0 = Some maximum \<and> time_Parse f1 = Some latest)"

definition hold_for_value :: "bytes \<Rightarrow> bytes \<Rightarrow> FutureReleaseOptions \<Rightarrow> bool" where
  "hold_for_value capability v r \<longleftrightarrow>
     (\<exists>maximum latest. future_release_limits capability maximum latest \<and> v = Itoa (fr_HoldForSeconds r) \<and>
        1 \<le> fr_HoldForSeconds r \<and> fr_HoldForSeconds r \<le> maximum \<and> fr_HoldUntil r = [])"

definition hold_until_value :: "bytes \<Rightarrow> bytes \<Rightarrow> FutureReleaseOptions \<Rightarrow> bool" where
  "hold_until_value capability v r \<longleftrightarrow>
     (\<exists>maximum latest t. future_release_limits capability maximum latest \<and> time_Parse v = Some t \<and>
        \<not> time_After t latest \<and> fr_HoldUntil r = format_UTC t \<and> fr_HoldForSeconds r = 0)"

definition delivery_spec :: "(nat \<Rightarrow> nat) \<Rightarrow> mailParameterFeatures \<Rightarrow> (bytes \<Rightarrow> bytes option) \<Rightarrow> DeliveryOptions \<Rightarrow> bool" where
  "delivery_spec upr f vals d \<longleftrightarrow>
     (case vals ''RET'' of
        None \<Rightarrow> dm_Return (ensureDSNMail (dv_DSN d)) = []
      | Some v \<Rightarrow> dm_Return (ensureDSNMail (dv_DSN d)) = ToUpper upr v \<and> validExtensionValue v) \<and>
     (case vals ''ENVID'' of
        None \<Rightarrow> dm_EnvelopeID (ensureDSNMail (dv_DSN d)) = [] \<and> dm_EnvelopeIDOriginal (ensureDSNMail (dv_DSN d)) = None
      | Some v \<Rightarrow> xtext_value v (dm_EnvelopeID (ensureDSNMail (dv_DSN d))) (dm_EnvelopeIDOriginal (ensureDSNMail (dv_DSN d)))) \<and>
     (case vals ''BY'' of
        None \<Rightarrow> dv_DeliverBy d = None
      | Some v \<Rightarrow> \<exists>x cap. dv_DeliverBy d = Some x \<and> mf_extensions f ''DELIVERBY'' = Some cap \<and> deliver_by_value upr cap v x) \<and>
     (case (vals ''HOLDFOR'', vals ''HOLDUNTIL'') of
        (None, None) \<Rightarrow> dv_FutureRelease d = None
      | (Some v, None) \<Rightarrow>
          \<exists>x cap. dv_FutureRelease d = Some x \<and> mf_extensions f ''FUTURERELEASE'' = Some cap \<and> hold_for_value cap v x
      | (None, Some v) \<Rightarrow>
          \<exists>x cap. dv_FutureRelease d = Some x \<and> mf_extensions f ''FUTURERELEASE'' = Some cap \<and> hold_until_value cap v x
      | (Some _, Some _) \<Rightarrow> False) \<and>
     (case vals ''MT-PRIORITY'' of None \<Rightarrow> dv_MTPriority d = [] | Some v \<Rightarrow> dv_MTPriority d = v \<and> validSignedDecimal v) \<and>
     (case vals ''REQUIRETLS'' of None \<Rightarrow> \<not> dv_RequireTLS d | Some v \<Rightarrow> dv_RequireTLS d \<and> v = [])"

definition legacy_spec :: "(nat \<Rightarrow> nat) \<Rightarrow> (bytes \<Rightarrow> bytes option) \<Rightarrow> LegacyOptions \<Rightarrow> bool" where
  "legacy_spec upr vals l \<longleftrightarrow>
     (case vals ''SOLICIT'' of None \<Rightarrow> lg_Solicit l = [] | Some v \<Rightarrow> lg_Solicit l = v \<and> validSolicitValue v) \<and>
     (case vals ''MTRK'' of None \<Rightarrow> lg_TransitID l = [] | Some v \<Rightarrow> lg_TransitID l = v \<and> validMTRK v) \<and>
     (case vals ''SUBMITTER'' of
        None \<Rightarrow> lg_Submitter l = [] \<and> lg_SubmitterOriginal l = None
      | Some v \<Rightarrow> xtext_value v (lg_Submitter l) (lg_SubmitterOriginal l) \<and> validSubmitter upr (lg_Submitter l)) \<and>
     (case vals ''CONPERM'' of None \<Rightarrow> \<not> lg_ConPerm l | Some v \<Rightarrow> lg_ConPerm l \<and> v = [])"

definition auth_spec :: "(bytes \<Rightarrow> bytes option) \<Rightarrow> MailOptions \<Rightarrow> bool" where
  "auth_spec vals o' \<longleftrightarrow>
     (case vals ''AUTH'' of
        None \<Rightarrow> mo_Auth o' = [] \<and> mo_AuthOriginal o' = None
      | Some v \<Rightarrow> xtext_value v (mo_Auth o') (mo_AuthOriginal o'))"

definition mail_spec :: "(nat \<Rightarrow> nat) \<Rightarrow> mailParameterFeatures \<Rightarrow> (bytes \<Rightarrow> bytes option) \<Rightarrow> MailOptions \<Rightarrow> bool" where
  "mail_spec upr f vals o' \<longleftrightarrow> transport_spec upr f vals (ensureTransport o') \<and> delivery_spec upr f vals (ensureDelivery o') \<and>
     legacy_spec upr vals (ensureLegacy o') \<and> auth_spec vals o'"

lemma ensure_set [simp]:
  "ensureTransport (set_transport g o') = g (ensureTransport o')" "ensureDelivery (set_transport g o') = ensureDelivery o'"
  "ensureLegacy (set_transport g o') = ensureLegacy o'" "auth_spec vals (set_transport g o') = auth_spec vals o'"
  "ensureDelivery (set_delivery h o') = h (ensureDelivery o')" "ensureTransport (set_delivery h o') = ensureTransport o'"
  "ensureLegacy (set_delivery h o') = ensureLegacy o'" "auth_spec vals (set_delivery h o') = auth_spec vals o'"
  "ensureLegacy (set_legacy k o') = k (ensureLegacy o')" "ensureTransport (set_legacy k o') = ensureTransport o'"
  "ensureDelivery (set_legacy k o') = ensureDelivery o'" "auth_spec vals (set_legacy k o') = auth_spec vals o'"
  by (simp_all add: ensureTransport_def ensureDelivery_def ensureLegacy_def set_transport_def set_delivery_def set_legacy_def auth_spec_def
      cong: option.case_cong)

lemma ensureDSNMail_Some [simp]: "ensureDSNMail (Some d) = d"
  by (simp add: ensureDSNMail_def)

text \<open>Each part of the specification reads its own keywords only.\<close>

lemma upd_other: "kw \<noteq> k \<Longrightarrow> (vals(kw \<mapsto> v)) k = vals k"
  by simp

lemma spec_frame:
  "kw \<notin> set [''SIZE'', ''BODY'', ''SMTPUTF8''] \<Longrightarrow> transport_spec upr f (vals(kw \<mapsto> v)) t = transport_spec upr f vals t"
  "kw \<notin> set [''RET'', ''ENVID'', ''BY'', ''HOLDFOR'', ''HOLDUNTIL'', ''MT-PRIORITY'', ''REQUIRETLS''] \<Longrightarrow>
    delivery_spec upr f (vals(kw \<mapsto> v)) d = delivery_spec upr f vals d"
  "kw \<notin> set [''SOLICIT'', ''MTRK'', ''SUBMITTER'', ''CONPERM''] \<Longrightarrow> legacy_spec upr (vals(kw \<mapsto> v)) l = legacy_spec upr vals l"
  "kw \<noteq> ''AUTH'' \<Longrightarrow> auth_spec (vals(kw \<mapsto> v)) o' = auth_spec vals o'"
  by (simp_all add: transport_spec_def delivery_spec_def legacy_spec_def auth_spec_def upd_other del: fun_upd_apply)

lemma set_Extra [simp]:
  "mo_Extra (set_transport g o') = mo_Extra o'" "mo_Extra (set_delivery h o') = mo_Extra o'"
  "mo_Extra (set_legacy k o') = mo_Extra o'" "mo_Extra (set_dsn d o') = mo_Extra o'"
  by (simp_all add: set_transport_def set_delivery_def set_legacy_def set_dsn_def)

lemma with_keyword_Inr [simp]: "with_keyword kw r = Inr x \<longleftrightarrow> r = Inr x"
  by (cases r) (simp_all add: with_keyword_def)

lemma reject_not_Inr [simp]: "reject c \<noteq> Inr x"
  by (simp add: reject_def)

lemma unsigned_ParseInt:
  assumes "ParseInt v = Some n" "\<not> HasPrefix v ''+''" "\<not> HasPrefix v ''-''"
  shows "size_value v n"
proof (cases v)
  case (Cons c cs)
  with assms(2,3) have "c \<noteq> CHR ''+''" "c \<noteq> CHR ''-''" by (simp_all add: HasPrefix_def)
  with Cons assms(1) have "case ParseUint 64 v of None \<Rightarrow> False | Some k \<Rightarrow> k < 2 ^ 63 \<and> n = int k"
    by (simp add: ParseInt_def Let_def split: option.splits if_splits)
  then obtain k where k: "ParseUint 64 v = Some k" "k < 2 ^ 63" "n = int k" by (cases "ParseUint 64 v") simp_all
  from k(1) have "v \<noteq> []" "list_all is_digit v" "k = decimal v" unfolding ParseUint_def by (simp_all split: if_splits)
  with k(2,3) show ?thesis by (simp add: size_value_def MaxInt64_def)
qed (use assms(1) in \<open>simp add: ParseInt_def\<close>)

lemma TrimSuffixT_split: "s = TrimSuffixT s @ (if HasSuffix s ''T'' then ''T'' else [])"
  by (cases s rule: rev_cases) (simp_all add: TrimSuffixT_def HasSuffix_def)

lemma parseDeliverBy_value:
  assumes "parseDeliverBy upr v cap = Inr d"
  shows "deliver_by_value upr cap v d"
proof -
  obtain p0 p1 secs where p: "Split v (CHR '';'') = [p0, p1]" "validSignedDecimal p0" "ParseInt p0 = Some secs" "\<bar>secs\<bar> \<le> 999999999"
    "d = \<lparr>db_Seconds = secs, db_Mode = TrimSuffixT (ToUpper upr p1), db_Trace = HasSuffix (ToUpper upr p1) ''T''\<rparr>"
    using assms by (auto simp: parseDeliverBy_def Let_def split: list.splits option.splits if_splits)
  have "db_Mode d = ''N'' \<or> db_Mode d = ''R'' \<and> 1 \<le> db_Seconds d \<and>
      (fst (Cut cap (CHR '','')) = [] \<or> (\<exists>n. ParseInt (fst (Cut cap (CHR '',''))) = Some n \<and> n \<le> db_Seconds d))"
    using assms p by (auto simp: parseDeliverBy_def Let_def split: list.splits option.splits if_splits)
  with p TrimSuffixT_split [of "ToUpper upr p1"] show ?thesis by (auto simp: deliver_by_value_def)
qed

lemma parseFutureRelease_value:
  assumes "parseFutureRelease kw v cap = Inr r"
  shows "kw = ''HOLDFOR'' \<Longrightarrow> hold_for_value cap v r" and "kw \<noteq> ''HOLDFOR'' \<Longrightarrow> hold_until_value cap v r"
  using assms
  by (auto simp: parseFutureRelease_def hold_for_value_def hold_until_value_def future_release_limits_def
      split: list.splits option.splits if_splits)

lemma decodeRequiredXtext_value:
  "decodeRequiredXtext kw v = Inr d \<Longrightarrow> par_Value p = v \<Longrightarrow> xtext_value v d (Some p)"
  by (auto simp: decodeRequiredXtext_def xtext_value_def split: sum.splits if_splits)

lemma originalParam_id [simp]: "originalParam p = p"
  by (simp add: originalParam_def)

lemma mailExtensionValue_keeps:
  assumes "mailExtensionValue upr kw p params seen o' = Inr o''"
  shows "mo_Extra o'' = mo_Extra o'"
    and "kw = ''HOLDFOR'' \<Longrightarrow> ''HOLDUNTIL'' \<notin> set seen" and "kw = ''HOLDUNTIL'' \<Longrightarrow> ''HOLDFOR'' \<notin> set seen"
proof -
  show "mo_Extra o'' = mo_Extra o'" using assms
    by (auto simp: mailExtensionValue_def Let_def bind_res_Inr_iff split: if_splits)
  show "kw = ''HOLDFOR'' \<Longrightarrow> ''HOLDUNTIL'' \<notin> set seen" "kw = ''HOLDUNTIL'' \<Longrightarrow> ''HOLDFOR'' \<notin> set seen"
    using assms by (auto simp: mailExtensionValue_def Let_def split: if_splits)
qed

text \<open>One assignment to the options of delivery, and to those of the old extensions.\<close>

lemma delivery_assign:
  assumes "delivery_spec upr f vals d"
  shows "validExtensionValue v \<Longrightarrow>
      delivery_spec upr f (vals(''RET'' \<mapsto> v)) (d\<lparr>dv_DSN := Some (ensureDSNMail (dv_DSN d)\<lparr>dm_Return := ToUpper upr v\<rparr>)\<rparr>)"
    and "xtext_value v x q \<Longrightarrow> delivery_spec upr f (vals(''ENVID'' \<mapsto> v))
      (d\<lparr>dv_DSN := Some (ensureDSNMail (dv_DSN d)\<lparr>dm_EnvelopeID := x, dm_EnvelopeIDOriginal := q\<rparr>)\<rparr>)"
    and "mf_extensions f ''DELIVERBY'' = Some cap \<Longrightarrow> deliver_by_value upr cap v b \<Longrightarrow>
      delivery_spec upr f (vals(''BY'' \<mapsto> v)) (d\<lparr>dv_DeliverBy := Some b\<rparr>)"
    and "mf_extensions f ''FUTURERELEASE'' = Some cap \<Longrightarrow> hold_for_value cap v r \<Longrightarrow> vals ''HOLDUNTIL'' = None \<Longrightarrow>
      delivery_spec upr f (vals(''HOLDFOR'' \<mapsto> v)) (d\<lparr>dv_FutureRelease := Some r\<rparr>)"
    and "mf_extensions f ''FUTURERELEASE'' = Some cap \<Longrightarrow> hold_until_value cap v r \<Longrightarrow> vals ''HOLDFOR'' = None \<Longrightarrow>
      delivery_spec upr f (vals(''HOLDUNTIL'' \<mapsto> v)) (d\<lparr>dv_FutureRelease := Some r\<rparr>)"
    and "validSignedDecimal v \<Longrightarrow> delivery_spec upr f (vals(''MT-PRIORITY'' \<mapsto> v)) (d\<lparr>dv_MTPriority := v\<rparr>)"
    and "delivery_spec upr f (vals(''REQUIRETLS'' \<mapsto> [])) (d\<lparr>dv_RequireTLS := True\<rparr>)"
  using assms by (simp_all add: delivery_spec_def cong: option.case_cong)

lemma legacy_assign:
  assumes "legacy_spec upr vals l"
  shows "validSolicitValue v \<Longrightarrow> legacy_spec upr (vals(''SOLICIT'' \<mapsto> v)) (l\<lparr>lg_Solicit := v\<rparr>)"
    and "validMTRK v \<Longrightarrow> legacy_spec upr (vals(''MTRK'' \<mapsto> v)) (l\<lparr>lg_TransitID := v\<rparr>)"
    and "xtext_value v x q \<Longrightarrow> validSubmitter upr x \<Longrightarrow>
      legacy_spec upr (vals(''SUBMITTER'' \<mapsto> v)) (l\<lparr>lg_Submitter := x, lg_SubmitterOriginal := q\<rparr>)"
    and "legacy_spec upr (vals(''CONPERM'' \<mapsto> [])) (l\<lparr>lg_ConPerm := True\<rparr>)"
  using assms by (simp_all add: legacy_spec_def cong: option.case_cong)

lemma set_spec:
  assumes "mail_spec upr f vals o'"
  shows "kw \<in> set [''RET'', ''ENVID'', ''BY'', ''HOLDFOR'', ''HOLDUNTIL'', ''MT-PRIORITY'', ''REQUIRETLS''] \<Longrightarrow>
      delivery_spec upr f (vals(kw \<mapsto> v)) (h (ensureDelivery o')) \<Longrightarrow> mail_spec upr f (vals(kw \<mapsto> v)) (set_delivery h o')"
    and "kw \<in> set [''SOLICIT'', ''MTRK'', ''SUBMITTER'', ''CONPERM''] \<Longrightarrow>
      legacy_spec upr (vals(kw \<mapsto> v)) (k (ensureLegacy o')) \<Longrightarrow> mail_spec upr f (vals(kw \<mapsto> v)) (set_legacy k o')"
proof -
  note spec = assms [unfolded mail_spec_def]
  assume "kw \<in> set [''RET'', ''ENVID'', ''BY'', ''HOLDFOR'', ''HOLDUNTIL'', ''MT-PRIORITY'', ''REQUIRETLS'']"
  then have "kw \<notin> set [''SIZE'', ''BODY'', ''SMTPUTF8'']" "kw \<notin> set [''SOLICIT'', ''MTRK'', ''SUBMITTER'', ''CONPERM'']" "kw \<noteq> ''AUTH''"
    by force+
  with spec show "delivery_spec upr f (vals(kw \<mapsto> v)) (h (ensureDelivery o')) \<Longrightarrow> mail_spec upr f (vals(kw \<mapsto> v)) (set_delivery h o')"
    by (simp only: mail_spec_def ensure_set spec_frame simp_thms not_False_eq_True)
next
  note spec = assms [unfolded mail_spec_def]
  assume "kw \<in> set [''SOLICIT'', ''MTRK'', ''SUBMITTER'', ''CONPERM'']"
  then have "kw \<notin> set [''SIZE'', ''BODY'', ''SMTPUTF8'']" "kw \<noteq> ''AUTH''"
      "kw \<notin> set [''RET'', ''ENVID'', ''BY'', ''HOLDFOR'', ''HOLDUNTIL'', ''MT-PRIORITY'', ''REQUIRETLS'']"
    by force+
  with spec show "legacy_spec upr (vals(kw \<mapsto> v)) (k (ensureLegacy o')) \<Longrightarrow> mail_spec upr f (vals(kw \<mapsto> v)) (set_legacy k o')"
    by (simp only: mail_spec_def ensure_set spec_frame simp_thms not_False_eq_True)
qed

lemma delivery_value_spec:
  assumes run: "mailExtensionValue upr kw p params seen o' = Inr o''" and spec: "mail_spec upr f vals o'"
    and ext: "mf_extensions f e = Some params" and hold: "dom vals \<subseteq> set seen"
  shows "kw = ''RET'' \<Longrightarrow> mail_spec upr f (vals(kw \<mapsto> par_Value p)) o''"
    and "kw = ''ENVID'' \<Longrightarrow> mail_spec upr f (vals(kw \<mapsto> par_Value p)) o''"
    and "kw = ''BY'' \<Longrightarrow> e = ''DELIVERBY'' \<Longrightarrow> mail_spec upr f (vals(kw \<mapsto> par_Value p)) o''"
    and "kw = ''HOLDFOR'' \<Longrightarrow> e = ''FUTURERELEASE'' \<Longrightarrow> mail_spec upr f (vals(kw \<mapsto> par_Value p)) o''"
    and "kw = ''HOLDUNTIL'' \<Longrightarrow> e = ''FUTURERELEASE'' \<Longrightarrow> mail_spec upr f (vals(kw \<mapsto> par_Value p)) o''"
    and "kw = ''MT-PRIORITY'' \<Longrightarrow> mail_spec upr f (vals(kw \<mapsto> par_Value p)) o''"
    and "kw = ''REQUIRETLS'' \<Longrightarrow> mail_spec upr f (vals(kw \<mapsto> par_Value p)) o''"
proof -
  have d: "delivery_spec upr f vals (ensureDelivery o')" using spec by (simp add: mail_spec_def)
  note assign = delivery_assign [OF d]
  note result = run [unfolded mailExtensionValue_def Let_def set_dsn_def]
  note keeps = mailExtensionValue_keeps(2,3) [OF run]
  show "kw = ''RET'' \<Longrightarrow> mail_spec upr f (vals(kw \<mapsto> par_Value p)) o''"
    using result by (auto split: if_splits intro!: set_spec(1) [OF spec] assign(1))
  show "kw = ''ENVID'' \<Longrightarrow> mail_spec upr f (vals(kw \<mapsto> par_Value p)) o''"
    using result by (auto simp: bind_res_Inr_iff intro!: set_spec(1) [OF spec] assign(2) decodeRequiredXtext_value)
  show "mail_spec upr f (vals(kw \<mapsto> par_Value p)) o''" if "kw = ''BY''" "e = ''DELIVERBY''"
    using result that ext
    by (auto simp: bind_res_Inr_iff intro!: set_spec(1) [OF spec] assign(3) parseDeliverBy_value)
  show "mail_spec upr f (vals(kw \<mapsto> par_Value p)) o''" if "kw = ''HOLDFOR''" "e = ''FUTURERELEASE''"
  proof -
    have "vals ''HOLDUNTIL'' = None" using keeps(1) [OF that(1)] hold by auto
    then show ?thesis using result that ext
      by (auto simp: bind_res_Inr_iff split: if_splits intro!: set_spec(1) [OF spec] assign(4) parseFutureRelease_value)
  qed
  show "mail_spec upr f (vals(kw \<mapsto> par_Value p)) o''" if "kw = ''HOLDUNTIL''" "e = ''FUTURERELEASE''"
  proof -
    have "vals ''HOLDFOR'' = None" using keeps(2) [OF that(1)] hold by auto
    then show ?thesis using result that ext
      by (auto simp: bind_res_Inr_iff split: if_splits intro!: set_spec(1) [OF spec] assign(5) parseFutureRelease_value)
  qed
  show "kw = ''MT-PRIORITY'' \<Longrightarrow> mail_spec upr f (vals(kw \<mapsto> par_Value p)) o''"
    using result by (auto split: if_splits intro!: set_spec(1) [OF spec] assign(6))
  show "kw = ''REQUIRETLS'' \<Longrightarrow> mail_spec upr f (vals(kw \<mapsto> par_Value p)) o''"
    using result by (auto split: if_splits intro!: set_spec(1) [OF spec] assign(7))
qed

lemma legacy_value_spec:
  assumes run: "mailExtensionValue upr kw p params seen o' = Inr o''" and spec: "mail_spec upr f vals o'"
  shows "kw = ''SOLICIT'' \<Longrightarrow> mail_spec upr f (vals(kw \<mapsto> par_Value p)) o''"
    and "kw = ''MTRK'' \<Longrightarrow> mail_spec upr f (vals(kw \<mapsto> par_Value p)) o''"
    and "kw = ''SUBMITTER'' \<Longrightarrow> mail_spec upr f (vals(kw \<mapsto> par_Value p)) o''"
    and "kw = ''CONPERM'' \<Longrightarrow> mail_spec upr f (vals(kw \<mapsto> par_Value p)) o''"
proof -
  have l: "legacy_spec upr vals (ensureLegacy o')" using spec by (simp add: mail_spec_def)
  note assign = legacy_assign [OF l]
  note result = run [unfolded mailExtensionValue_def Let_def]
  show "kw = ''SOLICIT'' \<Longrightarrow> mail_spec upr f (vals(kw \<mapsto> par_Value p)) o''"
    using result by (auto split: if_splits intro!: set_spec(2) [OF spec] assign(1))
  show "kw = ''MTRK'' \<Longrightarrow> mail_spec upr f (vals(kw \<mapsto> par_Value p)) o''"
    using result by (auto split: if_splits intro!: set_spec(2) [OF spec] assign(2))
  show "kw = ''SUBMITTER'' \<Longrightarrow> mail_spec upr f (vals(kw \<mapsto> par_Value p)) o''"
    using result by (auto simp: bind_res_Inr_iff split: if_splits intro!: set_spec(2) [OF spec] assign(3) decodeRequiredXtext_value)
  show "kw = ''CONPERM'' \<Longrightarrow> mail_spec upr f (vals(kw \<mapsto> par_Value p)) o''"
    using result by (auto split: if_splits intro!: set_spec(2) [OF spec] assign(4))
qed

lemma mailExtensionValue_spec:
  assumes "mailExtensionValue upr kw p params seen o' = Inr o''" "mail_spec upr f vals o'" "mf_extensions f e = Some params"
    and "mail_extension kw = Some e" "dom vals \<subseteq> set seen"
  shows "mail_spec upr f (vals(kw \<mapsto> par_Value p)) o''"
proof -
  note d = delivery_value_spec [OF assms(1-3,5)] and l = legacy_value_spec [OF assms(1,2)]
  show ?thesis
    using map_of_SomeD [OF assms(4) [unfolded mail_extension_def]]
    unfolding list.set insert_iff empty_iff prod.inject
    by (elim disjE conjE FalseE)
      (rule d(1), assumption, rule d(2), assumption, rule d(3), assumption, assumption, rule d(4), assumption, assumption,
        rule d(5), assumption, assumption, rule d(6), assumption, rule d(7), assumption,
        rule l(1), assumption, rule l(2), assumption, rule l(3), assumption, rule l(4), assumption)
qed

lemma transport_assign:
  assumes "transport_spec upr f vals t"
  shows "size_value v n \<Longrightarrow> transport_spec upr f (vals(''SIZE'' \<mapsto> v)) (t\<lparr>to_Size := Some n\<rparr>)"
    and "b = ToUpper upr v \<Longrightarrow> b \<in> {''7BIT'', ''8BITMIME''} \<and> mf_eightBit f \<or> b = ''BINARYMIME'' \<and> mf_binaryMIME f \<Longrightarrow>
      transport_spec upr f (vals(''BODY'' \<mapsto> v)) (t\<lparr>to_Body := b\<rparr>)"
    and "transport_spec upr f (vals(''SMTPUTF8'' \<mapsto> [])) (t\<lparr>to_SMTPUTF8 := True\<rparr>)"
  using assms by (simp_all add: transport_spec_def cong: option.case_cong)

lemma set_transport_spec:
  assumes "mail_spec upr f vals o'" "kw \<in> set [''SIZE'', ''BODY'', ''SMTPUTF8'']"
    and "transport_spec upr f (vals(kw \<mapsto> v)) (g (ensureTransport o'))"
  shows "mail_spec upr f (vals(kw \<mapsto> v)) (set_transport g o')"
proof -
  from assms(2) have "kw \<notin> set [''SOLICIT'', ''MTRK'', ''SUBMITTER'', ''CONPERM'']" "kw \<noteq> ''AUTH''"
      "kw \<notin> set [''RET'', ''ENVID'', ''BY'', ''HOLDFOR'', ''HOLDUNTIL'', ''MT-PRIORITY'', ''REQUIRETLS'']"
    by force+
  with assms(1,3) show ?thesis by (simp only: mail_spec_def ensure_set spec_frame simp_thms not_False_eq_True)
qed

lemma own_parameter_keeps:
  assumes "mail_spec upr f vals o'"
  shows "sizeParameter p kw f o' = Inr o'' \<Longrightarrow>
      mf_size f \<and> mo_Extra o'' = mo_Extra o' \<and> mail_spec upr f (vals(''SIZE'' \<mapsto> par_Value p)) o''"
    and "bodyParameter upr p kw f o' = Inr o'' \<Longrightarrow>
      (mf_eightBit f \<or> mf_binaryMIME f) \<and> mo_Extra o'' = mo_Extra o' \<and> mail_spec upr f (vals(''BODY'' \<mapsto> par_Value p)) o''"
    and "utf8Parameter p kw f o' = Inr o'' \<Longrightarrow>
      mf_smtpUTF8 f \<and> mo_Extra o'' = mo_Extra o' \<and> mail_spec upr f (vals(''SMTPUTF8'' \<mapsto> par_Value p)) o''"
    and "authParameter p kw f o' = Inr o'' \<Longrightarrow>
      mf_auth f \<and> mo_Extra o'' = mo_Extra o' \<and> mail_spec upr f (vals(''AUTH'' \<mapsto> par_Value p)) o''"
proof -
  have t: "transport_spec upr f vals (ensureTransport o')" using assms by (simp add: mail_spec_def)
  note assign = transport_assign [OF t] and set = set_transport_spec [OF assms]
  show "sizeParameter p kw f o' = Inr o'' \<Longrightarrow>
      mf_size f \<and> mo_Extra o'' = mo_Extra o' \<and> mail_spec upr f (vals(''SIZE'' \<mapsto> par_Value p)) o''"
    by (auto simp: sizeParameter_def Let_def split: if_splits option.splits intro!: set assign(1) unsigned_ParseInt)
  show "bodyParameter upr p kw f o' = Inr o'' \<Longrightarrow>
      (mf_eightBit f \<or> mf_binaryMIME f) \<and> mo_Extra o'' = mo_Extra o' \<and> mail_spec upr f (vals(''BODY'' \<mapsto> par_Value p)) o''"
    by (auto simp: bodyParameter_def Let_def split: if_splits intro!: set assign(2))
  show "utf8Parameter p kw f o' = Inr o'' \<Longrightarrow>
      mf_smtpUTF8 f \<and> mo_Extra o'' = mo_Extra o' \<and> mail_spec upr f (vals(''SMTPUTF8'' \<mapsto> par_Value p)) o''"
    by (auto simp: utf8Parameter_def split: if_splits intro!: set assign(3))
  show "authParameter p kw f o' = Inr o'' \<Longrightarrow>
      mf_auth f \<and> mo_Extra o'' = mo_Extra o' \<and> mail_spec upr f (vals(''AUTH'' \<mapsto> par_Value p)) o''"
    using assms
    by (auto simp: authParameter_def bind_res_Inr_iff mail_spec_def spec_frame auth_spec_def decodeRequiredXtext_value
        ensureTransport_def ensureDelivery_def ensureLegacy_def split: if_splits)
qed

lemma uniqueParameter_Inr: "uniqueParameter seen kw = Inr seen' \<longleftrightarrow> kw \<notin> set seen \<and> seen' = kw # seen"
  by (auto simp: uniqueParameter_def)

lemma own_bind:
  "bind_res (uniqueParameter seen kw) (\<lambda>seen'. bind_res r (\<lambda>x. Inr (x, seen'))) = Inr (y, z) \<longleftrightarrow>
    kw \<notin> set seen \<and> z = kw # seen \<and> r = Inr y"
  by (auto simp: bind_res_Inr_iff uniqueParameter_Inr)

text \<open>One parameter: a known one is new, on offer, and only adds to the options; any other goes to the extras.\<close>

lemma mailParameter_Inr:
  assumes "mailParameter upr f p (o', seen) = Inr (o'', seen')" and spec: "mail_spec upr f vals o'" "dom vals = set seen"
  defines "kw \<equiv> ToUpper upr (par_Keyword p)"
  shows "mail_spec upr f (if mail_keyword kw then vals(kw \<mapsto> par_Value p) else vals) o''"
    and "mail_keyword kw \<Longrightarrow> kw \<notin> set seen \<and> seen' = kw # seen \<and> mail_offered f kw \<and> mo_Extra o'' = mo_Extra o'"
    and "\<not> mail_keyword kw \<Longrightarrow> seen' = seen \<and> mo_Extra o'' = mo_Extra o' @ [originalParam p]"
    and "\<not> (''HOLDFOR'' \<in> set seen \<and> ''HOLDUNTIL'' \<in> set seen) \<Longrightarrow> \<not> (''HOLDFOR'' \<in> set seen' \<and> ''HOLDUNTIL'' \<in> set seen')"
proof -
  note keeps = own_parameter_keeps [OF spec(1)]
  consider (own) "framework_keyword kw" "mail_offered f kw" "mo_Extra o'' = mo_Extra o'" "mail_spec upr f (vals(kw \<mapsto> par_Value p)) o''"
      "kw \<notin> set seen" "seen' = kw # seen"
    | (ext) e params where "\<not> framework_keyword kw" "mail_extension kw = Some e" "mf_extensions f e = Some params"
      "mailExtensionValue upr kw p params seen' o' = Inr o''" "kw \<notin> set seen" "seen' = kw # seen"
    | (extra) "\<not> mail_keyword kw" "seen' = seen" "o'' = o'\<lparr>mo_Extra := mo_Extra o' @ [originalParam p]\<rparr>"
  proof (cases "framework_keyword kw")
    case True
    then consider "kw = ''SIZE''" | "kw = ''BODY''" | "kw = ''SMTPUTF8''" | "kw = ''AUTH''"
      by (auto simp: framework_keyword_def)
    then have "mail_offered f kw \<and> mo_Extra o'' = mo_Extra o' \<and> mail_spec upr f (vals(kw \<mapsto> par_Value p)) o'' \<and> kw \<notin> set seen \<and> seen' = kw # seen"
    proof cases
      case 1
      with assms(1) keeps(1) [of p kw o''] show ?thesis by (simp add: mailParameter_def Let_def own_bind mail_offered_def flip: kw_def)
    next
      case 2
      with assms(1) keeps(2) [of p kw o''] show ?thesis by (simp add: mailParameter_def Let_def own_bind mail_offered_def flip: kw_def)
    next
      case 3
      with assms(1) keeps(3) [of p kw o''] show ?thesis by (simp add: mailParameter_def Let_def own_bind mail_offered_def flip: kw_def)
    next
      case 4
      with assms(1) keeps(4) [of p kw o''] show ?thesis by (simp add: mailParameter_def Let_def own_bind mail_offered_def flip: kw_def)
    qed
    with True own show thesis by blast
  next
    case False
    then have "mailParameter upr f p (o', seen) =
        (case parseExtensionMailParameter upr o' p (mf_extensions f) seen of
           Inl e \<Rightarrow> Inl e | Inr (Some st') \<Rightarrow> Inr st'
         | Inr None \<Rightarrow> Inr (o'\<lparr>mo_Extra := mo_Extra o' @ [originalParam p]\<rparr>, seen))"
      by (simp add: mailParameter_def Let_def framework_keyword_def flip: kw_def)
    then show thesis
      using assms(1) False ext extra
      by (auto simp: parseExtensionMailParameter_def Let_def bind_res_Inr_iff uniqueParameter_Inr mail_keyword_def
          kw_def [symmetric] split: option.splits sum.splits)
  qed
  note cases = this
  show "mail_spec upr f (if mail_keyword kw then vals(kw \<mapsto> par_Value p) else vals) o''"
  proof (cases rule: cases)
    case own
    then show ?thesis by (simp add: mail_keyword_def)
  next
    case ext
    have "dom vals \<subseteq> set seen'" using ext(6) spec(2) by auto
    with mailExtensionValue_spec [OF ext(4) spec(1) ext(3,2)] ext(2) show ?thesis by (simp add: mail_keyword_def)
  next
    case extra
    then show ?thesis using spec(1)
      by (simp add: mail_spec_def auth_spec_def ensureTransport_def ensureDelivery_def ensureLegacy_def cong: option.case_cong)
  qed
  show "mail_keyword kw \<Longrightarrow> kw \<notin> set seen \<and> seen' = kw # seen \<and> mail_offered f kw \<and> mo_Extra o'' = mo_Extra o'"
    by (cases rule: cases)
      (use mailExtensionValue_keeps(1) in \<open>auto simp: mail_offered_def framework_keyword_def\<close>)
  show "\<not> mail_keyword kw \<Longrightarrow> seen' = seen \<and> mo_Extra o'' = mo_Extra o' @ [originalParam p]"
    by (cases rule: cases) (simp_all add: mail_keyword_def)
  show "\<not> (''HOLDFOR'' \<in> set seen \<and> ''HOLDUNTIL'' \<in> set seen) \<Longrightarrow> \<not> (''HOLDFOR'' \<in> set seen' \<and> ''HOLDUNTIL'' \<in> set seen')"
  proof (cases rule: cases)
    case own
    then show ?thesis if "\<not> (''HOLDFOR'' \<in> set seen \<and> ''HOLDUNTIL'' \<in> set seen)"
      using that by (auto simp: framework_keyword_def)
  next
    case ext
    then show ?thesis if "\<not> (''HOLDFOR'' \<in> set seen \<and> ''HOLDUNTIL'' \<in> set seen)"
      using that mailExtensionValue_keeps(2,3) [OF ext(4)] by auto
  qed simp
qed

abbreviation upper_keyword :: "(nat \<Rightarrow> nat) \<Rightarrow> param \<Rightarrow> bytes" where
  "upper_keyword upr p \<equiv> ToUpper upr (par_Keyword p)"

definition known_keywords :: "(nat \<Rightarrow> nat) \<Rightarrow> param list \<Rightarrow> bytes list" where
  "known_keywords upr ps = filter mail_keyword (map (upper_keyword upr) ps)"

definition holds_once :: "bytes list \<Rightarrow> bool" where
  "holds_once kws \<longleftrightarrow> distinct kws \<and> \<not> (''HOLDFOR'' \<in> set kws \<and> ''HOLDUNTIL'' \<in> set kws)"

text \<open>The values of the keywords the server knows.\<close>

definition known_values :: "(nat \<Rightarrow> nat) \<Rightarrow> param list \<Rightarrow> bytes \<Rightarrow> bytes option" where
  "known_values upr ps = map_of (map (\<lambda>p. (upper_keyword upr p, par_Value p)) (filter (\<lambda>p. mail_keyword (upper_keyword upr p)) ps))"

lemma mailParameters_Inr:
  assumes "mailParameters upr f ps (o', seen) = Inr (o'', seen')"
    and "mail_spec upr f vals o'" "dom vals = set seen" "holds_once seen" "list_all (mail_offered f) seen"
  shows "mail_spec upr f (known_values upr ps ++ vals) o'' \<and> holds_once seen' \<and> list_all (mail_offered f) seen' \<and>
    seen' = rev (known_keywords upr ps) @ seen \<and>
    mo_Extra o'' = mo_Extra o' @ filter (\<lambda>p. \<not> mail_keyword (upper_keyword upr p)) ps"
  using assms
proof (induction ps arbitrary: o' seen vals)
  case Nil
  then show ?case by (simp add: known_keywords_def known_values_def)
next
  case (Cons p ps)
  let ?kw = "upper_keyword upr p"
  let ?vals = "if mail_keyword ?kw then vals(?kw \<mapsto> par_Value p) else vals"
  from Cons.prems(1) obtain o1 s1 where step: "mailParameter upr f p (o', seen) = Inr (o1, s1)"
    and rest: "mailParameters upr f ps (o1, s1) = Inr (o'', seen')" by (auto simp: bind_res_Inr_iff)
  note one = mailParameter_Inr [OF step Cons.prems(2,3)]
  have h: "dom ?vals = set s1" "holds_once s1" "list_all (mail_offered f) s1"
    using one(2,3,4) Cons.prems(3,4,5) by (cases "mail_keyword ?kw"; auto simp: holds_once_def)+
  have vals: "known_values upr ps ++ ?vals = known_values upr (p # ps) ++ vals"
    using one(2) Cons.prems(3) by (auto simp: known_values_def map_add_upd_left)
  from Cons.IH [OF rest one(1) h, unfolded vals] one(2,3) show ?case
    by (cases "mail_keyword ?kw") (auto simp: known_keywords_def)
qed

text \<open>C31: The parameters of MAIL are accepted only as a whole that makes sense, and the backend gets what they say.
  Every keyword the server knows occurs at most once and belongs to something it advertised, HOLDFOR and HOLDUNTIL
  exclude each other, and every parameter the server does not know reaches the backend unchanged and in order. Each
  option has exactly the value its parameter gives, or its zero value without one (\<open>mail_spec\<close>): SIZE is an unsigned decimal
  within 63 bits; BODY one of the bodies on offer; AUTH, ENVID and SUBMITTER non-empty xtext with its decoding,
  the last a mailbox; BY within nine digits, and in return mode positive and not below the advertised minimum; HOLDFOR
  from 1 to the advertised interval; HOLDUNTIL a time not after the advertised one, in its canonical form; SOLICIT and
  MTRK in their syntax; SMTPUTF8, REQUIRETLS and CONPERM without a value. RET is only required to be a token and
  MT-PRIORITY to be a signed decimal, whatever its size.\<close>

theorem mail_params_sound:
  assumes "parseMailParameters upr ps f = Inr (Some opts)"
  shows "distinct (known_keywords upr ps) \<and> list_all (mail_offered f) (known_keywords upr ps) \<and>
    \<not> (''HOLDFOR'' \<in> set (known_keywords upr ps) \<and> ''HOLDUNTIL'' \<in> set (known_keywords upr ps)) \<and>
    mail_spec upr f (known_values upr ps) opts \<and> mo_Extra opts = filter (\<lambda>p. \<not> mail_keyword (upper_keyword upr p)) ps"
proof -
  from assms obtain seen where run: "mailParameters upr f ps (no_mail_options, []) = Inr (opts, seen)"
    by (auto simp: parseMailParameters_def bind_res_Inr_iff split: if_splits)
  have "mail_spec upr f Map.empty no_mail_options"
    by (simp add: mail_spec_def transport_spec_def delivery_spec_def legacy_spec_def auth_spec_def no_mail_options_def
        ensureTransport_def ensureDelivery_def ensureLegacy_def no_transport_def ensureDSNMail_def)
  from mailParameters_Inr [OF run this] show ?thesis
    by (auto simp: holds_once_def no_mail_options_def)
qed

definition all_features :: mailParameterFeatures where
  "all_features = \<lparr>mf_size = True, mf_eightBit = True, mf_binaryMIME = False, mf_smtpUTF8 = True, mf_auth = False,
     mf_extensions = [''DSN'' \<mapsto> [], ''DELIVERBY'' \<mapsto> ''60'']\<rparr>"

lemma upper_examples:
  "ToUpper upr ''size'' = ''SIZE''" "ToUpper upr ''X-NEW'' = ''X-NEW''"
proof -
  have "ToUpperASCII ''size'' = ''SIZE''" by code_simp
  then show "ToUpper upr ''size'' = ''SIZE''" by (simp add: ToUpper_def is_ascii_def)
  have "ToUpperASCII ''X-NEW'' = ''X-NEW''" by code_simp
  then show "ToUpper upr ''X-NEW'' = ''X-NEW''" by (simp add: ToUpper_def is_ascii_def)
qed

theorem mail_params_sound_witness:
  "\<exists>opts. parseMailParameters id [\<lparr>par_Keyword = ''size'', par_Value = ''1000''\<rparr>,
      \<lparr>par_Keyword = ''X-NEW'', par_Value = ''yes''\<rparr>] all_features = Inr (Some opts) \<and>
    to_Size (ensureTransport opts) = Some 1000 \<and> dv_FutureRelease (ensureDelivery opts) = None \<and> mo_Extra opts = [\<lparr>par_Keyword = ''X-NEW'', par_Value = ''yes''\<rparr>]"
proof -
  let ?ps = "[\<lparr>par_Keyword = ''size'', par_Value = ''1000''\<rparr>, \<lparr>par_Keyword = ''X-NEW'', par_Value = ''yes''\<rparr>]"
  have "ParseInt ''1000'' = Some 1000" by (simp add: ParseInt_def ParseUint_def decimal_def digit_val_def is_digit_def)
  then obtain opts where opts: "parseMailParameters id ?ps all_features = Inr (Some opts)"
    by (simp add: parseMailParameters_def mailParameter_def upper_examples own_bind uniqueParameter_def Let_def
        sizeParameter_def all_features_def HasPrefix_def parseExtensionMailParameter_def mail_extension_def)
  have "filter (\<lambda>p. \<not> mail_keyword (upper_keyword id p)) ?ps = [\<lparr>par_Keyword = ''X-NEW'', par_Value = ''yes''\<rparr>]"
    by (simp add: upper_examples mail_keyword_def framework_keyword_def mail_extension_def)
  moreover have "known_values id ?ps = [''SIZE'' \<mapsto> ''1000'']"
    by (simp add: known_values_def upper_examples mail_keyword_def framework_keyword_def mail_extension_def)
  ultimately show ?thesis using opts mail_params_sound [OF opts]
    by (auto simp: mail_spec_def transport_spec_def delivery_spec_def size_value_def decimal_def digit_val_def)
qed

section \<open>Canonical timestamps\<close>

definition rrvs_text :: "RRVSOptions \<Rightarrow> bytes" where
  "rrvs_text r = rv_Timestamp r @ (if rv_Disposition r = [] then [] else CHR '';'' # rv_Disposition r)"

lemma digit_char_not_sep: "n < 10 \<Longrightarrow> digit_char n \<noteq> CHR '';''"
  by (auto simp: char_eq_byte digit_char_def)

lemma format_UTC_chars:
  assumes "0 \<le> fst (ti_date t)" "fst (ti_date t) < 10000"
  shows "CHR '';'' \<notin> set (format_UTC t)" and "length (format_UTC t) = 20"
proof -
  obtain y m d where dt: "ti_date t = (y, m, d)" by (cases "ti_date t")
  have "length (FormatUint (nat y)) \<le> 4" using assms dt by (intro FormatUint_length) simp_all
  moreover have "CHR '';'' \<notin> set (FormatUint (nat y))" using FormatUint_digit [of "CHR '';''"] by (auto simp: is_digit_def)
  ultimately have "length (appendInt4 y) = 4" "CHR '';'' \<notin> set (appendInt4 y)"
    using assms dt by (auto simp: appendInt4_def Let_def)
  moreover have "CHR '';'' \<notin> set (pad2 n)" "length (pad2 n) = 2" for n
    using digit_char_not_sep [of "n div 10 mod 10"] digit_char_not_sep [of "n mod 10"] by (auto simp: pad2_def)
  ultimately show "CHR '';'' \<notin> set (format_UTC t)" "length (format_UTC t) = 20"
    by (simp_all add: format_UTC_def dt)
qed

lemma format_UTC_nsec [simp]: "format_UTC (t\<lparr>ti_nsec := n\<rparr>) = format_UTC t"
  by (simp add: format_UTC_def)

lemma ToUpper_disposition: "ToUpper upr ''C'' = ''C''" "ToUpper upr ''R'' = ''R''"
  by (simp_all add: ToUpper_def is_ascii_def ToUpperASCII_def upper_char_def is_lower_def)

lemma parseRRVS_Inr:
  assumes "parseRRVS upr v = Inr r"
  obtains t where "valid_instant t" "rv_Timestamp r = format_UTC t" "rv_Disposition r \<in> {[], ''C'', ''R''}"
  using assms
  by (auto simp: parseRRVS_def Let_def split: list.splits option.splits if_splits dest!: time_Parse_valid)

lemma parseRRVS_text:
  assumes t: "valid_instant t" "0 \<le> fst (ti_date t)" "fst (ti_date t) < 10000" and d: "d \<in> {[], ''C'', ''R''}"
  shows "parseRRVS upr (rrvs_text \<lparr>rv_Timestamp = format_UTC t, rv_Disposition = d\<rparr>) =
    Inr \<lparr>rv_Timestamp = format_UTC t, rv_Disposition = d\<rparr>"
proof -
  note f = format_UTC_chars [OF t(2,3)]
  have "d = ''C'' \<or> d = ''R'' \<Longrightarrow> Split d (CHR '';'') = [d] \<and> ToUpper upr d = d"
    by (auto simp: ToUpper_disposition)
  with d f time_Parse_format [OF t] show ?thesis
    by (auto simp: parseRRVS_def rrvs_text_def Split_append Split_single Let_def)
qed

lemma decimal_bound: "list_all is_digit s \<Longrightarrow> decimal s < 10 ^ length s"
proof (induction s rule: rev_induct)
  case (snoc c s)
  then have "decimal s + 1 \<le> 10 ^ length s" "digit_val c < 10" by (simp_all add: digit_val_less)
  then show ?case by simp
qed simp

lemma format_UTC_year:
  assumes "length (format_UTC t) = 20"
  shows "0 \<le> fst (ti_date t) \<and> fst (ti_date t) < 10000"
proof -
  obtain y m d where dt: "ti_date t = (y, m, d)" by (cases "ti_date t")
  let ?ds = "FormatUint (nat \<bar>y\<bar>)"
  have "length (appendInt4 y) = 4" using assms by (simp add: format_UTC_def dt pad2_def)
  then have "0 \<le> y" "length ?ds \<le> 4" by (auto simp: appendInt4_def Let_def split: if_splits)
  from \<open>length ?ds \<le> 4\<close> have "(10::nat) ^ length ?ds \<le> 10 ^ 4" by (rule power_increasing) simp
  moreover have "nat \<bar>y\<bar> < 10 ^ length ?ds" using decimal_bound [OF FormatUint_digits] unfolding decimal_FormatUint .
  ultimately have "nat \<bar>y\<bar> < 10 ^ 4" by (rule order.strict_trans2 [rotated])
  with \<open>0 \<le> y\<close> show ?thesis by (simp add: dt)
qed

text \<open>C32: The RRVS value handed to the backend is canonical. Whatever form of date-time the client used, the
  timestamp is its UTC form, and sending that form again gives the same option. The form has twenty octets
  unless an offset moved the first or the last day out of the years of four digits.\<close>

theorem rrvs_canonical:
  assumes "parseRRVS upr v = Inr r" and "length (rv_Timestamp r) = 20"
  shows "parseRRVS upr (rrvs_text r) = Inr r"
proof -
  obtain t where t: "valid_instant t" "rv_Timestamp r = format_UTC t" "rv_Disposition r \<in> {[], ''C'', ''R''}"
    by (rule parseRRVS_Inr [OF assms(1)])
  then have r: "r = \<lparr>rv_Timestamp = format_UTC t, rv_Disposition = rv_Disposition r\<rparr>" by simp
  show ?thesis
    by (subst (1 2) r, rule parseRRVS_text) (use t assms(2) format_UTC_year [of t] in auto)
qed

lemma rrvs_example:
  "parseRRVS upr ''2024-03-01T01:30:00+02:00;C'' = Inr \<lparr>rv_Timestamp = ''2024-02-29T23:30:00Z'', rv_Disposition = ''C''\<rparr>"
proof -
  have s: "Split ''2024-03-01T01:30:00+02:00;C'' (CHR '';'') = [''2024-03-01T01:30:00+02:00'', ''C'']" by code_simp
  have p: "map_option format_UTC (time_Parse ''2024-03-01T01:30:00+02:00'') = Some ''2024-02-29T23:30:00Z''" by code_simp
  then obtain t where "time_Parse ''2024-03-01T01:30:00+02:00'' = Some t" "format_UTC t = ''2024-02-29T23:30:00Z''" by auto
  then show ?thesis by (simp add: parseRRVS_def s Let_def ToUpper_disposition)
qed

theorem rrvs_canonical_witness:
  "parseRRVS id (rrvs_text \<lparr>rv_Timestamp = ''2024-02-29T23:30:00Z'', rv_Disposition = ''C''\<rparr>) =
    Inr \<lparr>rv_Timestamp = ''2024-02-29T23:30:00Z'', rv_Disposition = ''C''\<rparr>"
  by (rule rrvs_canonical [OF rrvs_example]) simp

text \<open>The server refuses a fraction of a second after a point, but not after a comma, which
  \<open>time.Parse\<close> reads the same way.\<close>

theorem rrvs_comma_fraction:
  "parseRRVS upr ''2024-02-29T23:30:00.5Z'' = reject ''timestamp is invalid'' \<and>
   parseRRVS upr ''2024-02-29T23:30:00,5Z'' = Inr \<lparr>rv_Timestamp = ''2024-02-29T23:30:00Z'', rv_Disposition = []\<rparr>"
proof -
  have s: "Split ''2024-02-29T23:30:00.5Z'' (CHR '';'') = [''2024-02-29T23:30:00.5Z'']"
    "Split ''2024-02-29T23:30:00,5Z'' (CHR '';'') = [''2024-02-29T23:30:00,5Z'']" by code_simp+
  have "map_option format_UTC (time_Parse ''2024-02-29T23:30:00.5Z'') = Some ''2024-02-29T23:30:00Z''"
    "map_option format_UTC (time_Parse ''2024-02-29T23:30:00,5Z'') = Some ''2024-02-29T23:30:00Z''" by code_simp+
  then show ?thesis by (auto simp: parseRRVS_def s)
qed

end
