(* ===== verification/Srv_Types.thy ===== *)
theory Srv_Types
  imports Srv_Data Srv_Params
begin

text \<open>
  The types a server and a backend exchange (smtpserver/session.go, smtpserver/backend.go and the
  \<open>Server\<close> of smtpserver/server.go).

  A backend is what the program does not contain: a \<open>Session\<close> is a record of callbacks on a state \<open>'b\<close> of the
  backend's own. A callback is a function on that state, so it always returns; a field that is \<open>nil\<close> in Go is
  \<open>None\<close>. A context that is already cancelled is not visible to the callbacks here: what a callback does with its
  context is the backend's choice. \<open>Data\<close> is a program that reads (see \<open>Srv_Data\<close>).
\<close>

section \<open>Vocabulary of the callbacks\<close>

datatype ResetReason =
  ResetExplicit | ResetNewMail | ResetCompleted | ResetFailed | ResetStartTLS | ResetSessionEnd

text \<open>The facts of a TLS connection the server asks for: does the peer have certificates, and what does
  exporting keying material give.\<close>

record tls_state =
  tls_PeerCertificates :: bool
  tls_Export :: "nat + bytes"

record Credentials =
  cr_Mechanism :: bytes
  cr_AuthenticationID :: bytes
  cr_AuthorizationID :: bytes
  cr_Password :: bytes
  cr_Token :: bytes
  cr_TLS :: "tls_state option"

record Challenge =
  ch_Mechanism :: bytes
  ch_Challenge :: bytes
  ch_Response :: bytes

record OAuthError =
  oa_Status :: bytes
  oa_Scope :: bytes
  oa_OpenIDConfiguration :: bytes

record AuthFailure =
  af_Err :: "smtp_Error option"
  af_OAuth :: "OAuthError option"

record AuthResult =
  ar_Identity :: bytes
  ar_Failure :: "AuthFailure option"

record SCRAMKeys =
  sk_Salt :: bytes
  sk_Iterations :: int
  sk_StoredKey :: bytes
  sk_ServerKey :: bytes
  sk_Result :: AuthResult

record ParameterExtension =
  px_Keyword :: bytes
  px_Params :: bytes

text \<open>\<open>ATRNResult.Takeover\<close> uses the transport by itself until it returns, possibly with an error.\<close>

record 'b ATRNResult =
  at_Takeover :: "('b \<Rightarrow> backend_error option \<times> 'b) option"

type_synonym ('b, 'r) callback = "'b \<Rightarrow> (backend_error + 'r) \<times> 'b"

record 'b Session =
  se_Mail :: "(bytes \<Rightarrow> MailOptions option \<Rightarrow> ('b, unit) callback) option"
  se_Rcpt :: "(bytes \<Rightarrow> RcptOptions option \<Rightarrow> 'b \<Rightarrow> (backend_error option \<times> bytes list) \<times> 'b) option"
  se_Data :: "('b \<Rightarrow> 'b data_prog) option"
  se_Reset :: "(ResetReason \<Rightarrow> 'b \<Rightarrow> 'b) option"
  se_Close :: "('b \<Rightarrow> 'b) option"
  se_Authenticate :: "(Credentials \<Rightarrow> ('b, AuthResult option) callback) option"
  se_ChallengeResponse :: "(Challenge \<Rightarrow> ('b, AuthResult option) callback) option"
  se_SCRAMCredentials :: "(Credentials \<Rightarrow> ('b, SCRAMKeys option) callback) option"
  se_CommitAuth :: "(AuthResult \<Rightarrow> 'b \<Rightarrow> 'b) option"
  se_Verify :: "(bytes \<Rightarrow> ('b, bytes) callback) option"
  se_Expand :: "(bytes \<Rightarrow> ('b, bytes list) callback) option"
  se_Help :: "(bytes \<Rightarrow> ('b, bytes) callback) option"
  se_ETRN :: "(bytes \<Rightarrow> ('b, unit) callback) option"
  se_ATRN :: "(bytes list \<Rightarrow> ('b, 'b ATRNResult option) callback) option"
  se_ParameterExtensions :: "ParameterExtension list"
  se_Limits :: "Limits option"

section \<open>The server\<close>

record serverTimeouts =
  tm_command :: int
  tm_data :: int

text \<open>The listener, the backend and the hooks are not data: \<open>sv_trace\<close> and \<open>sv_errorLog\<close> say that a hook is set.
  \<open>sv_tlsConfig\<close> says that there is a TLS configuration.\<close>

record Server =
  sv_mode :: listenerMode
  sv_tlsConfig :: bool
  sv_implicitTLS :: bool
  sv_spools :: "spoolManager option"
  sv_chunking :: bool
  sv_binaryMIME :: bool
  sv_trace :: bool
  sv_errorLog :: bool
  sv_identity :: bytes
  sv_timeouts :: serverTimeouts
  sv_maxMessage :: int
  sv_maxRcpt :: int
  sv_maxTransactions :: int
  sv_requireTLS :: bool
  sv_requireAuth :: bool
  sv_authBefore :: "bytes list"
  sv_authAfter :: "bytes list"
  sv_maxConnections :: int
  sv_maxConnectionsPerSource :: int

end
