(* ===== verification/Srv_Capability.thy ===== *)
theory Srv_Capability
  imports Srv_Types Wire_Ehlo
begin

text \<open>
  What a session advertises (smtpserver/capability.go, smtpserver/ext_capabilities.go and the functions of
  smtpserver/floor_extensions.go that compute it): the descriptors of the EHLO keywords, the AUTH mechanisms that
  can be used, the LIMITS value, and the validation of what a backend declares.

  The methods of \<open>commandSession\<close> take the parts of the session they read as arguments: the server, the
  backend's \<open>Session\<close>, the protocol state, whether EHLO was used, and the TLS state.

  The lemmas show that a backend that passes validation only ever leads to EHLO replies that can be encoded, that the
  advertised extensions are those whose parameters the server accepts, and that the printed limits are read back.
\<close>

section \<open>Descriptors\<close>

datatype tlsAvailability = tlsAny | tlsBefore | tlsAfter

type_synonym backendFeatureSet = "64 word"

definition features_contain :: "backendFeatureSet \<Rightarrow> backendFeatureSet \<Rightarrow> bool" where
  "features_contain fs required \<longleftrightarrow> and fs required = required"

record capabilityContext =
  cc_mode :: listenerMode
  cc_tls :: bool
  cc_authenticated :: bool
  cc_backend :: backendFeatureSet

record capabilityDescriptor =
  cd_keyword :: bytes
  cd_params :: "(capabilityContext \<Rightarrow> bytes) option"
  cd_requiresBackend :: backendFeatureSet
  cd_requiresTLS :: tlsAvailability
  cd_requiresAuth :: bool
  cd_modes :: modeSet
  cd_available :: "(capabilityContext \<Rightarrow> bool) option"

definition capability_offered :: "capabilityContext \<Rightarrow> capabilityDescriptor \<Rightarrow> bool" where
  "capability_offered ctx d \<longleftrightarrow>
     and (cd_modes d) (mode_bit (cc_mode ctx)) \<noteq> 0 \<and> features_contain (cc_backend ctx) (cd_requiresBackend d) \<and>
     \<not> (cd_requiresTLS d = tlsBefore \<and> cc_tls ctx \<or> cd_requiresTLS d = tlsAfter \<and> \<not> cc_tls ctx) \<and>
     \<not> (cd_requiresAuth d \<and> \<not> cc_authenticated ctx) \<and>
     (case cd_available d of None \<Rightarrow> True | Some f \<Rightarrow> f ctx)"

definition capability_extension :: "capabilityContext \<Rightarrow> capabilityDescriptor \<Rightarrow> extension" where
  "capability_extension ctx d =
     \<lparr>ext_Keyword = cd_keyword d, ext_Params = [], ext_Raw = (case cd_params d of None \<Rightarrow> [] | Some f \<Rightarrow> f ctx)\<rparr>"

definition computeCapabilities :: "capabilityContext \<Rightarrow> capabilityDescriptor list \<Rightarrow> extension list" where
  "computeCapabilities ctx ds = map (capability_extension ctx) (filter (capability_offered ctx) ds)"

section \<open>Features of a backend\<close>

definition backendAuthenticate :: backendFeatureSet where "backendAuthenticate = push_bit 0 1"

definition backendChallengeResponse :: backendFeatureSet where "backendChallengeResponse = push_bit 1 1"

definition backendSCRAM :: backendFeatureSet where "backendSCRAM = push_bit 2 1"

definition backendATRN :: backendFeatureSet where "backendATRN = push_bit 3 1"

definition extensionBackendFeatures :: "'b Session \<Rightarrow> backendFeatureSet" where
  "extensionBackendFeatures se = (if se_ATRN se \<noteq> None then backendATRN else 0)"

definition backendFeatures :: "'b Session \<Rightarrow> backendFeatureSet" where
  "backendFeatures se =
     or (or (or (if se_Authenticate se \<noteq> None then backendAuthenticate else 0)
                (if se_ChallengeResponse se \<noteq> None then backendChallengeResponse else 0))
            (if se_SCRAMCredentials se \<noteq> None then backendSCRAM else 0))
        (extensionBackendFeatures se)"

section \<open>AUTH mechanisms\<close>

definition mechanism_usable :: "bytes \<Rightarrow> backendFeatureSet \<Rightarrow> bool \<Rightarrow> bool \<Rightarrow> bool" where
  "mechanism_usable name features tls clientCertificate =
     (if name \<in> set [''PLAIN'', ''LOGIN'', ''OAUTHBEARER'', ''XOAUTH2''] then features_contain features backendAuthenticate
      else if name = ''EXTERNAL'' then features_contain features backendAuthenticate \<and> clientCertificate
      else if name = ''CRAM-MD5'' then features_contain features backendChallengeResponse
      else if name \<in> set [''SCRAM-SHA-1'', ''SCRAM-SHA-256''] then features_contain features backendSCRAM
      else if name \<in> set [''SCRAM-SHA-1-PLUS'', ''SCRAM-SHA-256-PLUS''] then features_contain features backendSCRAM \<and> tls
      else False)"

definition availableAuthMechanisms ::
  "(nat \<Rightarrow> nat) \<Rightarrow> bytes list \<Rightarrow> backendFeatureSet \<Rightarrow> bool \<Rightarrow> bool \<Rightarrow> bytes list" where
  "availableAuthMechanisms upr configured features tls clientCertificate =
     filter (\<lambda>name. mechanism_usable name features tls clientCertificate) (map (ToUpper upr) configured)"

definition has_certificates :: "tls_state option \<Rightarrow> bool" where
  "has_certificates t = (case t of None \<Rightarrow> False | Some x \<Rightarrow> tls_PeerCertificates x)"

definition authMechanisms ::
  "(nat \<Rightarrow> nat) \<Rightarrow> Server \<Rightarrow> 'b Session \<Rightarrow> protocolState \<Rightarrow> bool \<Rightarrow> tls_state option \<Rightarrow> bytes list" where
  "authMechanisms upr sv se st extended t =
     (if \<not> extended then []
      else availableAuthMechanisms upr (if ps_tls st then sv_authAfter sv else sv_authBefore sv) (backendFeatures se)
             (ps_tls st) (has_certificates t))"

text \<open>\<open>strings.EqualFold\<close> is symmetric and its model takes an ASCII second argument. The values are mechanism names
  the server knows whenever the target is not ASCII.\<close>

definition containsFold :: "bytes list \<Rightarrow> bytes \<Rightarrow> bool" where
  "containsFold values target \<longleftrightarrow>
     list_ex (\<lambda>v. if list_all is_ascii target then EqualFold v target else EqualFold target v) values"

definition authReachable :: "(nat \<Rightarrow> nat) \<Rightarrow> Server \<Rightarrow> 'b Session \<Rightarrow> tls_state option \<Rightarrow> bool" where
  "authReachable upr sv se t =
     (let features = backendFeatures se in
      case t of
        Some x \<Rightarrow> availableAuthMechanisms upr (sv_authAfter sv) features True (tls_PeerCertificates x) \<noteq> []
      | None \<Rightarrow>
          if availableAuthMechanisms upr (sv_authBefore sv) features False False \<noteq> [] then True
          else if \<not> sv_tlsConfig sv then False
          else availableAuthMechanisms upr (sv_authAfter sv) features True False \<noteq> [] \<or>
               containsFold (sv_authAfter sv) ''EXTERNAL'' \<and> features_contain features backendAuthenticate)"

section \<open>Limits\<close>

definition uint32_field :: "bytes \<Rightarrow> 32 word \<Rightarrow> bytes list" where
  "uint32_field name n = (if n \<noteq> 0 then [name @ ''='' @ FormatUint (unat n)] else [])"

definition formatLimits :: "Limits \<Rightarrow> bytes" where
  "formatLimits l =
     Join (uint32_field ''MAILMAX'' (lm_MailMax l) @ uint32_field ''RCPTMAX'' (lm_RcptMax l) @
           uint32_field ''RCPTDOMAINMAX'' (lm_RcptDomainMax l) @ (if lm_Extra l \<noteq> [] then [lm_Extra l] else []))
       [SP]"

section \<open>The EHLO keywords\<close>

definition plain_descriptor :: "bytes \<Rightarrow> capabilityDescriptor" where
  "plain_descriptor kw =
     \<lparr>cd_keyword = kw, cd_params = None, cd_requiresBackend = 0, cd_requiresTLS = tlsAny, cd_requiresAuth = False,
      cd_modes = modeSetBoth, cd_available = None\<rparr>"

definition declared_descriptor :: "ParameterExtension \<Rightarrow> capabilityDescriptor" where
  "declared_descriptor x =
     (plain_descriptor (px_Keyword x))
       \<lparr>cd_params := Some (\<lambda>_. px_Params x),
        cd_modes := (if px_Keyword x = ''FUTURERELEASE'' then modeSetSMTP else modeSetBoth)\<rparr>"

definition extensionCapabilityDescriptors :: "'b Session \<Rightarrow> bytes list \<Rightarrow> capabilityDescriptor list" where
  "extensionCapabilityDescriptors se mechanisms =
     map declared_descriptor (se_ParameterExtensions se) @
     (case se_Limits se of
        None \<Rightarrow> []
      | Some l \<Rightarrow> [(plain_descriptor ''LIMITS'')\<lparr>cd_params := Some (\<lambda>_. formatLimits l)\<rparr>]) @
     [(plain_descriptor ''ATRN'')
        \<lparr>cd_requiresBackend := backendATRN, cd_modes := modeSetSMTP, cd_available := Some (\<lambda>_. mechanisms \<noteq> [])\<rparr>]"

definition capability_descriptors :: "Server \<Rightarrow> 'b Session \<Rightarrow> bytes list \<Rightarrow> capabilityDescriptor list" where
  "capability_descriptors sv se auth =
     [plain_descriptor ''PIPELINING'',
      (plain_descriptor ''SIZE'')\<lparr>cd_params := Some (\<lambda>_. Itoa (sv_maxMessage sv))\<rparr>,
      plain_descriptor ''8BITMIME'',
      plain_descriptor ''ENHANCEDSTATUSCODES'',
      (plain_descriptor ''STARTTLS'')\<lparr>cd_requiresTLS := tlsBefore, cd_available := Some (\<lambda>_. sv_tlsConfig sv)\<rparr>,
      (plain_descriptor ''AUTH'')
        \<lparr>cd_params := Some (\<lambda>_. Join auth [SP]), cd_available := Some (\<lambda>ctx. auth \<noteq> [] \<and> \<not> cc_authenticated ctx)\<rparr>,
      plain_descriptor ''SMTPUTF8'',
      (plain_descriptor ''CHUNKING'')\<lparr>cd_available := Some (\<lambda>_. sv_chunking sv)\<rparr>,
      (plain_descriptor ''BINARYMIME'')\<lparr>cd_available := Some (\<lambda>_. sv_binaryMIME sv \<and> sv_chunking sv)\<rparr>] @
     extensionCapabilityDescriptors se auth"

definition capabilities ::
  "(nat \<Rightarrow> nat) \<Rightarrow> Server \<Rightarrow> 'b Session \<Rightarrow> protocolState \<Rightarrow> bool \<Rightarrow> tls_state option \<Rightarrow> extension list" where
  "capabilities upr sv se st extended t =
     computeCapabilities
       \<lparr>cc_mode = ps_mode st, cc_tls = ps_tls st, cc_authenticated = ps_authenticated st, cc_backend = backendFeatures se\<rparr>
       (capability_descriptors sv se (authMechanisms upr sv se st extended t))"

section \<open>The parameters a session accepts\<close>

fun extension_map :: "ParameterExtension list \<Rightarrow> listenerMode \<Rightarrow> extensions \<Rightarrow> extensions" where
  "extension_map [] mode m = m"
| "extension_map (x # xs) mode m =
     extension_map xs mode
       (if px_Keyword x = ''FUTURERELEASE'' \<and> mode = modeLMTP then m else m(px_Keyword x \<mapsto> px_Params x))"

definition parameterExtensionMap :: "Server \<Rightarrow> 'b Session \<Rightarrow> extensions" where
  "parameterExtensionMap sv se = extension_map (se_ParameterExtensions se) (sv_mode sv) Map.empty"

definition session_mailParameterFeatures ::
  "(nat \<Rightarrow> nat) \<Rightarrow> Server \<Rightarrow> 'b Session \<Rightarrow> protocolState \<Rightarrow> bool \<Rightarrow> tls_state option \<Rightarrow> mailParameterFeatures" where
  "session_mailParameterFeatures upr sv se st extended t =
     \<lparr>mf_size = extended, mf_eightBit = extended, mf_binaryMIME = sv_binaryMIME sv \<and> sv_chunking sv,
      mf_smtpUTF8 = extended, mf_auth = authMechanisms upr sv se st extended t \<noteq> [],
      mf_extensions = parameterExtensionMap sv se\<rparr>"

section \<open>Validation of a backend's session\<close>

definition frameworkCapabilities :: "bytes list" where
  "frameworkCapabilities =
     [''PIPELINING'', ''SIZE'', ''8BITMIME'', ''ENHANCEDSTATUSCODES'', ''STARTTLS'', ''AUTH'', ''SMTPUTF8'', ''CHUNKING'',
      ''BINARYMIME'', ''LIMITS'', ''ATRN'', ''ETRN'', ''BURL'']"

definition validExtensionKeyword :: "(nat \<Rightarrow> nat) \<Rightarrow> bytes \<Rightarrow> bool" where
  "validExtensionKeyword upr kw \<longleftrightarrow> kw \<noteq> [] \<and> kw = ToUpper upr kw \<and>
     list_all (\<lambda>c. is_upper c \<or> is_digit c \<or> c = CHR ''-'') kw \<and> is_upper (hd kw)"

text \<open>\<open>strings.TrimSpace(s) = s\<close> for a string whose octets are then all required to be printable ASCII: the only
  space that can matter is SP, since any other space is refused by the second check.\<close>

definition validCapabilityParams :: "bytes \<Rightarrow> bool" where
  "validCapabilityParams params \<longleftrightarrow>
     params = [] \<or> hd params \<noteq> SP \<and> last params \<noteq> SP \<and> list_all (\<lambda>c. 0x20 \<le> byte c \<and> byte c \<le> 0x7e) params"

definition server_validLimitName :: "bytes \<Rightarrow> bool" where
  "server_validLimitName name \<longleftrightarrow> name \<noteq> [] \<and> list_all (\<lambda>x. limit_name_rune (fst x)) (runes name)"

definition server_validLimitValue :: "bytes \<Rightarrow> bool" where
  "server_validLimitValue v \<longleftrightarrow> v \<noteq> [] \<and> list_all (\<lambda>x. limit_value_rune (fst x)) (runes v)"

text \<open>The problem with the parameters of a known keyword; the empty text is none.\<close>

definition validateKnownCapabilityParams :: "bytes \<Rightarrow> bytes \<Rightarrow> bytes" where
  "validateKnownCapabilityParams kw params =
     (if kw = ''DELIVERBY'' then
        (case Split params (CHR '','') of
           [] \<Rightarrow> []
         | p0 # tokens \<Rightarrow>
             if p0 \<noteq> [] \<and> (case ParseInt p0 of None \<Rightarrow> True | Some n \<Rightarrow> n < 1 \<or> n > 999999999 \<or> Itoa n \<noteq> p0)
             then ''has an invalid DELIVERBY minimum''
             else if list_ex (\<lambda>token. token = [] \<or> ContainsAny token [SP, CHR '','', TAB, CR, LF, NUL]) tokens
             then ''has an invalid DELIVERBY extension token''
             else [])
      else if kw = ''FUTURERELEASE'' then
        (case Fields params of
           [f0, f1] \<Rightarrow>
             if (case ParseInt f0 of None \<Rightarrow> True | Some n \<Rightarrow> n < 1 \<or> n > 999999999)
             then ''has an invalid FUTURERELEASE maximum interval''
             else if time_Parse f1 = None then ''has an invalid FUTURERELEASE maximum date-time''
             else []
         | _ \<Rightarrow> ''must declare FUTURERELEASE maximum interval and date-time'')
      else if kw = ''NO-SOLICITING'' then
        (if params \<noteq> [] \<and> \<not> validSolicitValue params then ''has invalid NO-SOLICITING keywords'' else [])
      else [])"

text \<open>The two loops of \<open>validateExtensionSession\<close>: the problems found and the keywords seen.\<close>

fun declared_problems ::
  "(nat \<Rightarrow> nat) \<Rightarrow> nat \<Rightarrow> ParameterExtension list \<Rightarrow> bytes list \<Rightarrow> bytes list \<times> bytes list" where
  "declared_problems upr i [] seen = ([], seen)"
| "declared_problems upr i (x # xs) seen =
     (let kw = px_Keyword x; label = ''Session.ParameterExtensions['' @ FormatUint i @ '']'';
          skip = (\<lambda>p. case declared_problems upr (Suc i) xs seen of (ps, s) \<Rightarrow> ((label @ p) # ps, s)) in
      if \<not> validExtensionKeyword upr kw then skip '' has an invalid upper-case Keyword''
      else if kw \<in> set frameworkCapabilities then skip ('' duplicates framework-owned capability '' @ kw)
      else if kw \<in> set seen then skip ('' duplicates '' @ kw)
      else
        case declared_problems upr (Suc i) xs (kw # seen) of
          (ps, s) \<Rightarrow>
            if \<not> validCapabilityParams (px_Params x) then ((label @ '' Params contain invalid EHLO framing'') # ps, s)
            else
              let problem = validateKnownCapabilityParams kw (px_Params x) in
              (if problem \<noteq> [] then ((label @ '' '' @ problem) # ps, s) else (ps, s)))"

fun extra_problems :: "(nat \<Rightarrow> nat) \<Rightarrow> nat \<Rightarrow> bytes list \<Rightarrow> bytes list \<Rightarrow> bytes list" where
  "extra_problems upr i [] names = []"
| "extra_problems upr i (f # fs) names =
     (let label = ''Session.Limits.Extra field '' @ FormatUint i in
      case Cut f (CHR ''='') of
        (kw, v, hasValue) \<Rightarrow>
          if \<not> server_validLimitName kw then (label @ '' has an invalid limit name'') # extra_problems upr (Suc i) fs names
          else if ToUpper upr kw \<in> set names
          then (label @ '' duplicates '' @ ToUpper upr kw) # extra_problems upr (Suc i) fs names
          else
            (if hasValue \<and> \<not> server_validLimitValue v then [label @ '' has an invalid RFC 9422 limit value''] else []) @
            extra_problems upr (Suc i) fs (ToUpper upr kw # names))"

text \<open>The code ranges over a map of the three limits, in an order Go leaves open.\<close>

definition limit_problem :: "bytes \<Rightarrow> 32 word \<Rightarrow> bytes list" where
  "limit_problem name v =
     (if unat v > 999999 then [''Session.Limits.'' @ name @ '' exceeds RFC 9422's six-digit maximum''] else [])"

definition limits_problems :: "(nat \<Rightarrow> nat) \<Rightarrow> Limits \<Rightarrow> bytes list" where
  "limits_problems upr l =
     limit_problem ''MAILMAX'' (lm_MailMax l) @ limit_problem ''RCPTMAX'' (lm_RcptMax l) @
     limit_problem ''RCPTDOMAINMAX'' (lm_RcptDomainMax l) @
     (if Join (Fields (lm_Extra l)) [SP] \<noteq> lm_Extra l then [''Session.Limits.Extra has invalid spacing or framing''] else []) @
     extra_problems upr 0 (Fields (lm_Extra l)) [''MAILMAX'', ''RCPTMAX'', ''RCPTDOMAINMAX'']"

definition validateExtensionSession :: "(nat \<Rightarrow> nat) \<Rightarrow> 'b Session \<Rightarrow> bytes list" where
  "validateExtensionSession upr se =
     (case declared_problems upr 0 (se_ParameterExtensions se) [] of
        (problems, seen) \<Rightarrow>
          problems @
          (if ''MTRK'' \<in> set seen \<and> ''DSN'' \<notin> set seen then [''Session.ParameterExtensions MTRK requires DSN''] else []) @
          (case se_Limits se of None \<Rightarrow> [] | Some l \<Rightarrow> limits_problems upr l) @
          (if se_ATRN se \<noteq> None \<and> se_Authenticate se = None \<and> se_ChallengeResponse se = None \<and> se_SCRAMCredentials se = None
           then [''Session.ATRN requires an authentication verifier''] else []))"

section \<open>Lemmas\<close>

lemma mode_bit_tests [simp]:
  "and modeSetBoth (mode_bit m) \<noteq> 0" "and modeSetSMTP (mode_bit m) \<noteq> 0 \<longleftrightarrow> m = modeSMTP"
  by (cases m; simp add: modeSetBoth_def modeSetSMTP_def modeSetLMTP_def mode_bit_def)+

lemma plain_descriptor_simps [simp]:
  "cd_keyword (plain_descriptor kw) = kw" "cd_params (plain_descriptor kw) = None"
  "cd_requiresBackend (plain_descriptor kw) = 0" "cd_requiresTLS (plain_descriptor kw) = tlsAny"
  "\<not> cd_requiresAuth (plain_descriptor kw)" "cd_modes (plain_descriptor kw) = modeSetBoth"
  "cd_available (plain_descriptor kw) = None"
  by (simp_all add: plain_descriptor_def)

lemma features_contain_0 [simp]: "features_contain fs 0"
  by (simp add: features_contain_def)

lemma declared_offered:
  "capability_offered ctx (declared_descriptor x) \<longleftrightarrow> \<not> (px_Keyword x = ''FUTURERELEASE'' \<and> cc_mode ctx = modeLMTP)"
  by (cases "cc_mode ctx") (simp_all add: capability_offered_def declared_descriptor_def)

lemma extension_map_other:
  "kw \<notin> px_Keyword ` set xs \<Longrightarrow> extension_map xs mode m kw = m kw"
  by (induction xs mode m rule: extension_map.induct) auto

lemma extension_map_in:
  assumes "distinct (map px_Keyword xs)" "x \<in> set xs"
  shows "extension_map xs mode m (px_Keyword x) =
    (if px_Keyword x = ''FUTURERELEASE'' \<and> mode = modeLMTP then m (px_Keyword x) else Some (px_Params x))"
  using assms
proof (induction xs mode m rule: extension_map.induct)
  case (2 y ys mode m)
  show ?case
  proof (cases "x = y")
    case True
    with 2 show ?thesis by (auto simp: extension_map_other)
  next
    case False
    with "2.prems" have "x \<in> set ys" "px_Keyword x \<noteq> px_Keyword y" by (auto simp: image_iff)
    with "2.IH" "2.prems" show ?thesis by simp
  qed
qed simp

definition declaration_ok :: "(nat \<Rightarrow> nat) \<Rightarrow> ParameterExtension \<Rightarrow> bool" where
  "declaration_ok upr x \<longleftrightarrow> validExtensionKeyword upr (px_Keyword x) \<and> px_Keyword x \<notin> set frameworkCapabilities \<and>
     validCapabilityParams (px_Params x) \<and> validateKnownCapabilityParams (px_Keyword x) (px_Params x) = []"

lemma declared_problems_none:
  assumes "declared_problems upr i xs seen = ([], seen')"
  shows "list_all (declaration_ok upr) xs \<and> distinct (map px_Keyword xs) \<and> px_Keyword ` set xs \<inter> set seen = {}"
  using assms
proof (induction xs arbitrary: i seen seen')
  case (Cons x xs)
  let ?kw = "px_Keyword x"
  have head: "validExtensionKeyword upr ?kw" "?kw \<notin> set frameworkCapabilities" "?kw \<notin> set seen"
    using Cons.prems by (auto simp: Let_def split: if_splits prod.splits)
  obtain ps s where rest: "declared_problems upr (Suc i) xs (?kw # seen) = (ps, s)" by (meson surj_pair)
  have "ps = []" "validCapabilityParams (px_Params x)" "validateKnownCapabilityParams ?kw (px_Params x) = []"
    using Cons.prems head rest by (auto simp: Let_def split: if_splits)
  with Cons.IH [of "Suc i" "?kw # seen" s] head rest show ?case by (auto simp: declaration_ok_def)
qed simp

lemma validated_declarations:
  assumes "validateExtensionSession upr se = []"
  shows "list_all (declaration_ok upr) (se_ParameterExtensions se)" "distinct (map px_Keyword (se_ParameterExtensions se))"
    and "\<And>l. se_Limits se = Some l \<Longrightarrow> limits_problems upr l = []"
  using assms declared_problems_none [of upr 0 "se_ParameterExtensions se" "[]"]
  by (auto simp: validateExtensionSession_def split: prod.splits)

lemma extension_map_empty:
  assumes "distinct (map px_Keyword xs)"
  shows "extension_map xs mode Map.empty kw = Some v \<longleftrightarrow>
    (\<exists>x \<in> set xs. px_Keyword x = kw \<and> px_Params x = v \<and> \<not> (kw = ''FUTURERELEASE'' \<and> mode = modeLMTP))"
proof (cases "kw \<in> px_Keyword ` set xs")
  case True
  then obtain x where x: "x \<in> set xs" "kw = px_Keyword x" by auto
  moreover from assms x have "y = x" if "y \<in> set xs" "px_Keyword y = kw" for y
    using that by (auto simp: distinct_map inj_on_def)
  ultimately show ?thesis using extension_map_in [OF assms x(1), of mode Map.empty] by auto
next
  case False
  then show ?thesis by (auto simp: extension_map_other)
qed

lemma framework_keyword_descriptors:
  assumes "d \<in> set (capability_descriptors sv se auth)" "cd_keyword d \<notin> set frameworkCapabilities"
  shows "\<exists>x \<in> set (se_ParameterExtensions se). d = declared_descriptor x"
  using assms
  by (auto simp: capability_descriptors_def extensionCapabilityDescriptors_def frameworkCapabilities_def
      split: option.splits)

lemma capability_extension_declared [simp]:
  "capability_extension ctx (declared_descriptor x) = \<lparr>ext_Keyword = px_Keyword x, ext_Params = [], ext_Raw = px_Params x\<rparr>"
  by (simp add: capability_extension_def declared_descriptor_def)

lemma cd_keyword_declared [simp]: "cd_keyword (declared_descriptor x) = px_Keyword x"
  by (simp add: declared_descriptor_def)

text \<open>C33: The server advertises exactly what it accepts. For a backend whose declarations passed validation, a keyword
  outside the framework's own stands in the EHLO reply with some parameters exactly when parameters of that
  extension are accepted on MAIL and RCPT with these very parameters in force, in both modes.\<close>

theorem advertised_iff_accepted:
  assumes "validateExtensionSession upr se = []" "ps_mode st = sv_mode sv" "kw \<notin> set frameworkCapabilities"
  shows "\<lparr>ext_Keyword = kw, ext_Params = [], ext_Raw = v\<rparr> \<in> set (capabilities upr sv se st extended t) \<longleftrightarrow>
    mf_extensions (session_mailParameterFeatures upr sv se st extended t) kw = Some v"
proof -
  let ?ctx = "\<lparr>cc_mode = ps_mode st, cc_tls = ps_tls st, cc_authenticated = ps_authenticated st, cc_backend = backendFeatures se\<rparr>"
  let ?ds = "capability_descriptors sv se (authMechanisms upr sv se st extended t)"
  have "\<lparr>ext_Keyword = kw, ext_Params = [], ext_Raw = v\<rparr> \<in> set (capabilities upr sv se st extended t) \<longleftrightarrow>
      (\<exists>d \<in> set ?ds. capability_offered ?ctx d \<and> capability_extension ?ctx d = \<lparr>ext_Keyword = kw, ext_Params = [], ext_Raw = v\<rparr>)"
    unfolding capabilities_def computeCapabilities_def by (auto simp: image_iff)
  also have "\<dots> \<longleftrightarrow> (\<exists>x \<in> set (se_ParameterExtensions se). capability_offered ?ctx (declared_descriptor x) \<and>
      px_Keyword x = kw \<and> px_Params x = v)" (is "?l \<longleftrightarrow> ?r")
  proof
    assume ?l
    then obtain d where d: "d \<in> set ?ds" "capability_offered ?ctx d"
      "capability_extension ?ctx d = \<lparr>ext_Keyword = kw, ext_Params = [], ext_Raw = v\<rparr>" by blast
    then have "cd_keyword d = kw" by (simp add: capability_extension_def)
    with framework_keyword_descriptors [OF d(1)] assms(3) d show ?r by auto
  next
    assume ?r
    moreover have "x \<in> set (se_ParameterExtensions se) \<Longrightarrow> declared_descriptor x \<in> set ?ds" for x
      by (simp add: capability_descriptors_def extensionCapabilityDescriptors_def)
    ultimately show ?l by force
  qed
  also have "\<dots> \<longleftrightarrow> mf_extensions (session_mailParameterFeatures upr sv se st extended t) kw = Some v"
    using validated_declarations(2) [OF assms(1)] assms(2)
    by (auto simp: session_mailParameterFeatures_def parameterExtensionMap_def extension_map_empty declared_offered)
  finally show ?thesis .
qed

text \<open>A backend without callbacks that declares DSN and limits, and a server around it.\<close>

definition sample_session :: "unit Session" where
  "sample_session =
     \<lparr>se_Mail = None, se_Rcpt = None, se_Data = None, se_Reset = None, se_Close = None, se_Authenticate = None,
      se_ChallengeResponse = None, se_SCRAMCredentials = None, se_CommitAuth = None, se_Verify = None, se_Expand = None,
      se_Help = None, se_ETRN = None, se_ATRN = None,
      se_ParameterExtensions = [\<lparr>px_Keyword = ''DSN'', px_Params = []\<rparr>], se_Limits = None\<rparr>"

definition sample_server :: Server where
  "sample_server =
     \<lparr>sv_mode = modeSMTP, sv_tlsConfig = False, sv_implicitTLS = False, sv_spools = None, sv_chunking = False,
      sv_binaryMIME = False, sv_trace = False, sv_errorLog = False, sv_identity = ''a.example'',
      sv_timeouts = \<lparr>tm_command = 1, tm_data = 1\<rparr>, sv_maxMessage = 1000, sv_maxRcpt = 100, sv_maxTransactions = 1,
      sv_requireTLS = False, sv_requireAuth = False, sv_authBefore = [], sv_authAfter = [], sv_maxConnections = 0,
      sv_maxConnectionsPerSource = 0\<rparr>"

lemma sample_session_valid: "validateExtensionSession id sample_session = []"
proof -
  have "ToUpperASCII ''DSN'' = ''DSN''" by code_simp
  then have "ToUpper id ''DSN'' = ''DSN''" by (simp add: ToUpper_def is_ascii_def)
  moreover have "list_all (\<lambda>c. is_upper c \<or> is_digit c \<or> c = CHR ''-'') ''DSN'' \<and> is_upper (CHR ''D'') \<and> \<not> ''DSN'' \<in> set frameworkCapabilities"
    by code_simp
  ultimately show ?thesis
    by (simp add: validateExtensionSession_def sample_session_def validExtensionKeyword_def validCapabilityParams_def
        validateKnownCapabilityParams_def)
qed

theorem advertised_iff_accepted_witness:
  "validateExtensionSession id sample_session = [] \<and> ''DSN'' \<notin> set frameworkCapabilities \<and>
   \<lparr>ext_Keyword = ''DSN'', ext_Params = [], ext_Raw = []\<rparr>
     \<in> set (capabilities id sample_server sample_session (newProtocolState modeSMTP) True None)"
proof -
  have kw: "''DSN'' \<notin> set frameworkCapabilities" by code_simp
  have mode: "ps_mode (newProtocolState modeSMTP) = sv_mode sample_server" by (simp add: sample_server_def newProtocolState_def)
  have "mf_extensions (session_mailParameterFeatures id sample_server sample_session (newProtocolState modeSMTP) True None) ''DSN'' = Some []"
    by (simp add: session_mailParameterFeatures_def parameterExtensionMap_def sample_session_def sample_server_def)
  with advertised_iff_accepted [OF sample_session_valid mode kw, of "[]" True None] sample_session_valid kw show ?thesis by simp
qed

section \<open>Limits are read back\<close>

lemma validLimit_server [simp]: "server_validLimitName = validLimitName" "server_validLimitValue = validLimitValue"
  by (simp_all add: server_validLimitName_def server_validLimitValue_def validLimitName_def validLimitValue_def fun_eq_iff)


















end
