(* ===== verification/Srv_Config.thy ===== *)
theory Srv_Config
  imports Srv_Capability
begin

text \<open>
  Construction of a server (\<open>NewServer\<close> of smtpserver/server.go and smtpserver/config.go): the defaults, every check
  of the options with the problem it reports, and the validation of the session a backend returns. The environment
  is two arguments: what \<open>os.Hostname\<close> returns and the directory of \<open>os.TempDir\<close>. A server that was constructed
  satisfies \<open>wf_server\<close>, and a session that was accepted \<open>wf_session\<close>: the typing facts the rest of the server
  relies on.
\<close>

section \<open>Package net\<close>

datatype net_addr =
  TCPAddr bytes bytes int
| UDPAddr bytes bytes int
| IPAddr bytes bytes
| OtherAddr bytes bytes

definition LastIndexByte :: "bytes \<Rightarrow> char \<Rightarrow> nat option" where
  "LastIndexByte s c = (if c \<in> set s then Some (length s - 1 - length (takeWhile (\<lambda>x. x \<noteq> c) (rev s))) else None)"

text \<open>\<open>net.SplitHostPort\<close>; the sources never look at which error it reports.\<close>

definition SplitHostPort :: "bytes \<Rightarrow> (bytes \<times> bytes) option" where
  "SplitHostPort s =
     (case LastIndexByte s (CHR '':'') of
        None \<Rightarrow> None
      | Some i \<Rightarrow>
          if hd s = CHR ''['' then
            (let e = length (takeWhile (\<lambda>c. c \<noteq> CHR '']'') s) in
             if e = length s \<or> e + 1 \<noteq> i then None
             else if CHR ''['' \<in> set (drop 1 s) \<or> CHR '']'' \<in> set (drop (e + 1) s) then None
             else Some (drop 1 (take e s), drop (i + 1) s))
          else if CHR '':'' \<in> set (take i s) \<or> CHR ''['' \<in> set s \<or> CHR '']'' \<in> set s then None
          else Some (take i s, drop (i + 1) s))"

section \<open>Options\<close>

text \<open>The fields of \<open>ServerOptions\<close>. A listener is its address, a backend whether it has a \<open>NewSession\<close>, a TLS
  configuration or a hook whether it is set; durations are nanoseconds.\<close>

record ServerOptions =
  op_Listener :: "net_addr option"
  op_Backend :: "bool option"
  op_Mode :: bytes
  op_TLSConfig :: bool
  op_ImplicitTLS :: bool
  op_EnableCHUNKING :: bool
  op_EnableBINARYMIME :: bool
  op_MaxSpoolBytes :: int
  op_MaxSpoolMemoryBytes :: int
  op_MaxTotalSpoolBytes :: int
  op_MaxTotalSpoolMemoryBytes :: int
  op_MaxConcurrentSpools :: int
  op_SpoolDir :: bytes
  op_MaxConnections :: int
  op_MaxConnectionsPerSource :: int
  op_GreetingIdentity :: bytes
  op_CommandTimeout :: int
  op_DataTimeout :: int
  op_MaxMessageBytes :: int
  op_MaxRecipients :: int
  op_MaxTransactions :: int
  op_RequireTLS :: bool
  op_RequireAuth :: bool
  op_AuthMechanismsBeforeTLS :: "bytes list option"
  op_AuthMechanismsAfterTLS :: "bytes list option"
  op_Trace :: bool
  op_ErrorLog :: bool

definition no_options :: ServerOptions where
  "no_options =
     \<lparr>op_Listener = None, op_Backend = None, op_Mode = [], op_TLSConfig = False, op_ImplicitTLS = False,
      op_EnableCHUNKING = False, op_EnableBINARYMIME = False, op_MaxSpoolBytes = 0, op_MaxSpoolMemoryBytes = 0,
      op_MaxTotalSpoolBytes = 0, op_MaxTotalSpoolMemoryBytes = 0, op_MaxConcurrentSpools = 0, op_SpoolDir = [],
      op_MaxConnections = 0, op_MaxConnectionsPerSource = 0, op_GreetingIdentity = [], op_CommandTimeout = 0,
      op_DataTimeout = 0, op_MaxMessageBytes = 0, op_MaxRecipients = 0, op_MaxTransactions = 0, op_RequireTLS = False,
      op_RequireAuth = False, op_AuthMechanismsBeforeTLS = None, op_AuthMechanismsAfterTLS = None, op_Trace = False,
      op_ErrorLog = False\<rparr>"

definition defaultAuthMechanismsAfterTLS :: "bytes list" where
  "defaultAuthMechanismsAfterTLS =
     [''SCRAM-SHA-256-PLUS'', ''SCRAM-SHA-256'', ''SCRAM-SHA-1-PLUS'', ''SCRAM-SHA-1'', ''CRAM-MD5'', ''OAUTHBEARER'',
      ''XOAUTH2'', ''EXTERNAL'', ''PLAIN'', ''LOGIN'']"

definition internalMode :: "bytes \<Rightarrow> listenerMode \<times> bytes" where
  "internalMode mode =
     (if mode = [] \<or> mode = ''smtp'' then (modeSMTP, [])
      else if mode = ''lmtp'' then (modeLMTP, [])
      else (modeSMTP, ''Mode must be smtp or lmtp''))"

definition validGreetingLabel :: "bytes \<Rightarrow> bool" where
  "validGreetingLabel label \<longleftrightarrow>
     \<not> (label = [] \<or> hd label = CHR ''-'' \<or> last label = CHR ''-'') \<and>
     list_all (\<lambda>c. is_upper c \<or> is_lower c \<or> is_digit c \<or> c = CHR ''-'') label"

definition validGreetingIdentity :: "(nat \<Rightarrow> nat) \<Rightarrow> bytes \<Rightarrow> bool" where
  "validGreetingIdentity upr identity =
     (if identity = [] \<or> length identity > 255 then False
      else if \<not> list_all (\<lambda>c. 0x21 \<le> byte c \<and> byte c \<le> 0x7e) identity then False
      else if hd identity = CHR ''['' then
        (if length identity < 3 \<or> last identity \<noteq> CHR '']'' then False
         else
           let inside = butlast (tl identity) in
           if HasPrefix (ToUpper upr inside) ''IPV6:'' then ParseAddr (drop 5 inside) = Some Is6
           else
             case ParseAddr inside of
               Some family \<Rightarrow> family = Is4
             | None \<Rightarrow>
                 (case Cut inside (CHR '':'') of
                    (tag, v, ok) \<Rightarrow> ok \<and> validGreetingLabel tag \<and> v \<noteq> [] \<and> \<not> ContainsAny v [CHR ''['', CHR '']'', BSLASH]))
      else list_all (\<lambda>label. validGreetingLabel label \<and> length label \<le> 63) (Split identity (CHR ''.'')))"

definition localHostname :: "(nat \<Rightarrow> nat) \<Rightarrow> bytes option \<Rightarrow> bytes" where
  "localHostname upr hostname =
     (case hostname of
        Some h \<Rightarrow> if validGreetingIdentity upr h then h else ''localhost''
      | None \<Rightarrow> ''localhost'')"

text \<open>A UDP address prints as host and port, an IP address without a port.\<close>

definition listenerPort :: "net_addr \<Rightarrow> int" where
  "listenerPort addr =
     (let by_name = (\<lambda>s. case SplitHostPort s of
          None \<Rightarrow> 0
        | Some (_, port) \<Rightarrow> (case ParseInt port of None \<Rightarrow> 0 | Some n \<Rightarrow> n)) in
      case addr of TCPAddr _ _ port \<Rightarrow> port | OtherAddr _ s \<Rightarrow> by_name s | UDPAddr _ _ port \<Rightarrow> port | IPAddr _ _ \<Rightarrow> 0)"

section \<open>Checks\<close>

definition mechanism_rune :: "nat \<Rightarrow> bool" where
  "mechanism_rune r \<longleftrightarrow> \<not> ((r < 65 \<or> r > 90) \<and> (r < 48 \<or> r > 57) \<and> r \<noteq> 45)"

text \<open>The problems and the slice, whose entries the code replaces by their upper-case form.\<close>

fun validateAuthMechanisms ::
  "(nat \<Rightarrow> nat) \<Rightarrow> bytes \<Rightarrow> nat \<Rightarrow> bytes list \<Rightarrow> bytes list \<Rightarrow> bytes list \<times> bytes list" where
  "validateAuthMechanisms upr field i [] seen = ([], [])"
| "validateAuthMechanisms upr field i (mechanism # ms) seen =
     (let name = ToUpper upr mechanism in
      if name = [] then
        (case validateAuthMechanisms upr field (Suc i) ms seen of
           (ps, out) \<Rightarrow> ((field @ '' contains an empty mechanism'') # ps, mechanism # out))
      else
        case validateAuthMechanisms upr field (Suc i) ms (name # seen) of
          (ps, out) \<Rightarrow>
            ((if list_all (\<lambda>x. mechanism_rune (fst x)) (runes name) then []
              else [field @ '' contains an invalid mechanism at index '' @ FormatUint i]) @
             (if name \<in> set seen then [field @ '' contains duplicate mechanism '' @ name] else []) @ ps,
             name # out))"

definition construction_problems :: "(nat \<Rightarrow> nat) \<Rightarrow> listenerMode \<Rightarrow> ServerOptions \<Rightarrow> bytes list \<Rightarrow> bytes list" where
  "construction_problems upr mode op mechanism_problems =
     (if op_Listener op = None then [''Listener is required''] else []) @
     (if op_Backend op \<noteq> Some True then [''Backend.NewSession is required''] else []) @
     (case op_Listener op of
        None \<Rightarrow> []
      | Some addr \<Rightarrow> if mode = modeLMTP \<and> listenerPort addr = 25 then [''LMTP must not use TCP port 25''] else []) @
     (if op_EnableBINARYMIME op \<and> \<not> op_EnableCHUNKING op then [''BINARYMIME requires CHUNKING''] else []) @
     (if \<not> validGreetingIdentity upr (op_GreetingIdentity op)
      then [''GreetingIdentity must be a domain or address-literal without whitespace''] else []) @
     (if op_CommandTimeout op \<le> 0 then [''CommandTimeout must be positive''] else []) @
     (if op_DataTimeout op \<le> 0 then [''DataTimeout must be positive''] else []) @
     (if op_MaxMessageBytes op \<le> 0 then [''MaxMessageBytes must be positive''] else []) @
     (if op_MaxRecipients op < 100 then [''MaxRecipients must be at least 100''] else []) @
     (if op_MaxTransactions op < 0 \<or> op_MaxTransactions op > 999999
      then [''MaxTransactions must be between 0 and 999999''] else []) @
     mechanism_problems @
     (if op_EnableCHUNKING op then
        (if op_MaxSpoolBytes op \<le> 0 then [''MaxSpoolBytes must be positive when CHUNKING is enabled''] else []) @
        (if op_MaxSpoolMemoryBytes op \<le> 0 then [''MaxSpoolMemoryBytes must be positive when CHUNKING is enabled''] else []) @
        (if op_MaxTotalSpoolBytes op \<le> 0 then [''MaxTotalSpoolBytes must be positive when CHUNKING is enabled''] else []) @
        (if op_MaxTotalSpoolMemoryBytes op \<le> 0
         then [''MaxTotalSpoolMemoryBytes must be positive when CHUNKING is enabled''] else []) @
        (if op_MaxConcurrentSpools op \<le> 0 then [''MaxConcurrentSpools must be positive when CHUNKING is enabled''] else [])
      else [])"

text \<open>An error is its text. The configuration the code hands over is a copy of fields of the options.\<close>

definition validateConstruction ::
  "(nat \<Rightarrow> nat) \<Rightarrow> listenerMode \<Rightarrow> ServerOptions \<Rightarrow> bytes option \<times> bytes list \<times> bytes list" where
  "validateConstruction upr mode op =
     (let (pb, before) = validateAuthMechanisms upr ''AuthMechanismsBeforeTLS'' 0 (case op_AuthMechanismsBeforeTLS op of None \<Rightarrow> [] | Some ms \<Rightarrow> ms) [];
          (pa, after) = validateAuthMechanisms upr ''AuthMechanismsAfterTLS'' 0 (case op_AuthMechanismsAfterTLS op of None \<Rightarrow> [] | Some ms \<Rightarrow> ms) [];
          problems = construction_problems upr mode op (pb @ pa) in
      (if problems \<noteq> [] then Some (''smtpserver: invalid server options: '' @ joinProblems problems) else None,
       before, after))"

definition appendOptionProblem :: "bytes option \<Rightarrow> bytes \<Rightarrow> bytes option" where
  "appendOptionProblem current problem =
     (case current of
        None \<Rightarrow> Some (''smtpserver: invalid server options: '' @ problem)
      | Some text \<Rightarrow> Some (text @ ''; '' @ problem))"

definition append_if :: "bool \<Rightarrow> bytes \<Rightarrow> bytes option \<Rightarrow> bytes option" where
  "append_if condition problem current = (if condition then appendOptionProblem current problem else current)"

section \<open>NewServer\<close>

definition or_default :: "int \<Rightarrow> int \<Rightarrow> int" where
  "or_default v d = (if v = 0 then d else v)"

definition option_defaults :: "(nat \<Rightarrow> nat) \<Rightarrow> bytes option \<Rightarrow> ServerOptions \<Rightarrow> ServerOptions" where
  "option_defaults upr hostname op =
     op\<lparr>op_MaxConnections := or_default (op_MaxConnections op) 1000,
        op_MaxConnectionsPerSource := or_default (op_MaxConnectionsPerSource op) 32,
        op_GreetingIdentity := (if op_GreetingIdentity op = [] then localHostname upr hostname else op_GreetingIdentity op),
        op_CommandTimeout := or_default (op_CommandTimeout op) (5 * 60 * 1000000000),
        op_DataTimeout := or_default (op_DataTimeout op) (10 * 60 * 1000000000),
        op_MaxMessageBytes := or_default (op_MaxMessageBytes op) (64 * 2 ^ 20),
        op_MaxRecipients := or_default (op_MaxRecipients op) 100,
        op_MaxTransactions := or_default (op_MaxTransactions op) 100,
        op_AuthMechanismsBeforeTLS := Some (case op_AuthMechanismsBeforeTLS op of None \<Rightarrow> [] | Some ms \<Rightarrow> ms),
        op_AuthMechanismsAfterTLS :=
          Some (case op_AuthMechanismsAfterTLS op of None \<Rightarrow> defaultAuthMechanismsAfterTLS | Some ms \<Rightarrow> ms)\<rparr>"

definition option_error ::
  "(nat \<Rightarrow> nat) \<Rightarrow> ServerOptions \<Rightarrow> bool \<Rightarrow> bytes list \<Rightarrow> bytes list \<Rightarrow> bytes option \<Rightarrow> bytes option" where
  "option_error upr op explicit before after err =
     (let err = append_if (snd (internalMode (op_Mode op)) \<noteq> []) (snd (internalMode (op_Mode op))) err;
          err = append_if (op_ImplicitTLS op \<and> \<not> op_TLSConfig op) ''TLSConfig is required for implicit TLS'' err;
          err = append_if (op_RequireTLS op \<and> \<not> op_TLSConfig op) ''TLSConfig is required when RequireTLS is enabled'' err;
          err = append_if (op_RequireAuth op \<and> before = [] \<and> (\<not> op_TLSConfig op \<or> after = []))
                  ''RequireAuth needs an AUTH mechanism before TLS or an available TLS-authentication path'' err;
          err = append_if (op_MaxConnections op < 0) ''MaxConnections must not be negative'' err;
          err = append_if (op_MaxConnectionsPerSource op < 0) ''MaxConnectionsPerSource must not be negative'' err in
      append_if (op_EnableCHUNKING op \<and> op_MaxSpoolBytes op > 0 \<and> op_MaxMessageBytes op > op_MaxSpoolBytes op \<and> explicit)
        ''MaxMessageBytes must not exceed MaxSpoolBytes when CHUNKING is enabled'' err)"

definition server_spools :: "bytes \<Rightarrow> ServerOptions \<Rightarrow> bytes + spoolManager option" where
  "server_spools tmp op =
     (if op_EnableCHUNKING op then
        bind_res
          (newSpoolManager tmp
             \<lparr>so_MaxBytes = op_MaxSpoolBytes op, so_MaxMemoryBytes = op_MaxSpoolMemoryBytes op,
              so_MaxTotalBytes = op_MaxTotalSpoolBytes op, so_MaxTotalMemoryBytes = op_MaxTotalSpoolMemoryBytes op,
              so_MaxConcurrent = op_MaxConcurrentSpools op, so_Dir = op_SpoolDir op\<rparr>)
          (\<lambda>m. Inr (Some m))
      else Inr None)"

definition server_message_limit :: "ServerOptions \<Rightarrow> bool \<Rightarrow> int" where
  "server_message_limit op explicit =
     (if op_EnableCHUNKING op \<and> op_MaxSpoolBytes op > 0 \<and> op_MaxMessageBytes op > op_MaxSpoolBytes op \<and> \<not> explicit
      then op_MaxSpoolBytes op else op_MaxMessageBytes op)"

definition server_of ::
  "listenerMode \<Rightarrow> ServerOptions \<Rightarrow> bytes list \<Rightarrow> bytes list \<Rightarrow> int \<Rightarrow> spoolManager option \<Rightarrow> Server" where
  "server_of mode op before after max_message spools =
     \<lparr>sv_mode = mode, sv_tlsConfig = op_TLSConfig op, sv_implicitTLS = op_ImplicitTLS op, sv_spools = spools,
      sv_chunking = op_EnableCHUNKING op, sv_binaryMIME = op_EnableBINARYMIME op, sv_trace = op_Trace op,
      sv_errorLog = op_ErrorLog op, sv_identity = op_GreetingIdentity op,
      sv_timeouts = \<lparr>tm_command = op_CommandTimeout op, tm_data = op_DataTimeout op\<rparr>,
      sv_maxMessage = max_message, sv_maxRcpt = op_MaxRecipients op, sv_maxTransactions = op_MaxTransactions op,
      sv_requireTLS = op_RequireTLS op, sv_requireAuth = op_RequireAuth op, sv_authBefore = before,
      sv_authAfter = after, sv_maxConnections = op_MaxConnections op,
      sv_maxConnectionsPerSource = op_MaxConnectionsPerSource op\<rparr>"

definition NewServer :: "(nat \<Rightarrow> nat) \<Rightarrow> bytes option \<Rightarrow> bytes \<Rightarrow> ServerOptions option \<Rightarrow> bytes + Server" where
  "NewServer upr hostname tmp opts =
     (let value0 = (case opts of None \<Rightarrow> no_options | Some v \<Rightarrow> v);
          op = option_defaults upr hostname value0;
          explicit = (op_MaxMessageBytes value0 \<noteq> 0);
          mode = fst (internalMode (op_Mode op));
          (err0, before, after) = validateConstruction upr mode op in
      case option_error upr op explicit before after err0 of
        Some err \<Rightarrow> Inl err
      | None \<Rightarrow>
          bind_res (server_spools tmp op)
            (\<lambda>spools. Inr (server_of mode op before after (server_message_limit op explicit) spools)))"

section \<open>Sessions\<close>

definition session_problems :: "(nat \<Rightarrow> nat) \<Rightarrow> 'b Session \<Rightarrow> bytes list" where
  "session_problems upr se =
     (if se_Mail se = None then [''Session.Mail is required''] else []) @
     (if se_Rcpt se = None then [''Session.Rcpt is required''] else []) @
     (if se_Data se = None then [''Session.Data is required''] else []) @
     (if se_Reset se = None then [''Session.Reset is required''] else []) @
     (if se_Close se = None then [''Session.Close is required''] else []) @
     (if (se_Authenticate se \<noteq> None \<or> se_ChallengeResponse se \<noteq> None \<or> se_SCRAMCredentials se \<noteq> None) \<and> se_CommitAuth se = None
      then [''Session.CommitAuth is required when authentication verification is configured''] else []) @
     validateExtensionSession upr se"

definition validateSession :: "(nat \<Rightarrow> nat) \<Rightarrow> 'b Session option \<Rightarrow> bytes option" where
  "validateSession upr session =
     (case session of
        None \<Rightarrow> Some ''smtpserver: invalid backend session: Session is nil''
      | Some se \<Rightarrow>
          if session_problems upr se \<noteq> []
          then Some (''smtpserver: invalid backend session: '' @ joinProblems (session_problems upr se))
          else None)"

section \<open>What construction guarantees\<close>

definition mechanism_name :: "bytes \<Rightarrow> bool" where
  "mechanism_name m \<longleftrightarrow> m \<noteq> [] \<and> list_all (\<lambda>c. is_upper c \<or> is_digit c \<or> c = CHR ''-'') m"

definition wf_server :: "(nat \<Rightarrow> nat) \<Rightarrow> Server \<Rightarrow> bool" where
  "wf_server upr sv \<longleftrightarrow>
     validGreetingIdentity upr (sv_identity sv) \<and> 0 < tm_command (sv_timeouts sv) \<and> 0 < tm_data (sv_timeouts sv) \<and>
     0 < sv_maxMessage sv \<and> 100 \<le> sv_maxRcpt sv \<and> 1 \<le> sv_maxTransactions sv \<and> sv_maxTransactions sv \<le> 999999 \<and>
     0 < sv_maxConnections sv \<and> 0 < sv_maxConnectionsPerSource sv \<and>
     list_all mechanism_name (sv_authBefore sv) \<and> distinct (sv_authBefore sv) \<and>
     list_all mechanism_name (sv_authAfter sv) \<and> distinct (sv_authAfter sv) \<and>
     (sv_binaryMIME sv \<longrightarrow> sv_chunking sv) \<and> (sv_implicitTLS sv \<longrightarrow> sv_tlsConfig sv) \<and> (sv_requireTLS sv \<longrightarrow> sv_tlsConfig sv) \<and>
     (sv_requireAuth sv \<longrightarrow> sv_authBefore sv \<noteq> [] \<or> sv_tlsConfig sv \<and> sv_authAfter sv \<noteq> []) \<and>
     (case sv_spools sv of
        None \<Rightarrow> \<not> sv_chunking sv
      | Some m \<Rightarrow> sv_chunking sv \<and> spool_problems (sm_opts m) = [] \<and> sv_maxMessage sv \<le> so_MaxBytes (sm_opts m) \<and>
                  sm_total m = 0 \<and> sm_totalMemory m = 0 \<and> sm_concurrent m = 0)"

definition wf_session :: "(nat \<Rightarrow> nat) \<Rightarrow> 'b Session \<Rightarrow> bool" where
  "wf_session upr se \<longleftrightarrow>
     se_Mail se \<noteq> None \<and> se_Rcpt se \<noteq> None \<and> se_Data se \<noteq> None \<and> se_Reset se \<noteq> None \<and> se_Close se \<noteq> None \<and>
     (se_Authenticate se \<noteq> None \<or> se_ChallengeResponse se \<noteq> None \<or> se_SCRAMCredentials se \<noteq> None \<longrightarrow> se_CommitAuth se \<noteq> None) \<and>
     validateExtensionSession upr se = []"

lemma validateSession_wf: "validateSession upr session = None \<longleftrightarrow> (\<exists>se. session = Some se \<and> wf_session upr se)"
  by (auto simp: validateSession_def session_problems_def wf_session_def split: option.splits if_splits)

lemma mechanism_runes:
  assumes "list_all (\<lambda>x. mechanism_rune (fst x)) (runes name)"
  shows "list_all (\<lambda>c. is_upper c \<or> is_digit c \<or> c = CHR ''-'') name"
proof -
  have "mechanism_rune r \<Longrightarrow> r < 128" for r by (auto simp: mechanism_rune_def)
  with assms have "list_all (\<lambda>c. mechanism_rune (byte c)) name" by (simp add: runes_all_ascii)
  then show ?thesis by (auto simp: list_all_iff mechanism_rune_def is_upper_def is_digit_def char_eq_byte)
qed

lemma validateAuthMechanisms_ok:
  assumes "validateAuthMechanisms upr field i ms seen = ([], out)"
  shows "list_all mechanism_name out \<and> distinct out \<and> set out \<inter> set seen = {} \<and> length out = length ms"
  using assms
proof (induction ms arbitrary: i seen out)
  case (Cons m ms)
  obtain ps out' where r: "validateAuthMechanisms upr field (Suc i) ms (ToUpper upr m # seen) = (ps, out')" by fastforce
  have nz: "ToUpper upr m \<noteq> []" using Cons.prems by (auto simp: Let_def split: prod.splits)
  with Cons.prems r have ps: "ps = []" "out = ToUpper upr m # out'" "ToUpper upr m \<notin> set seen"
    "list_all (\<lambda>x. mechanism_rune (fst x)) (runes (ToUpper upr m))" by (auto simp: Let_def split: if_splits)
  with Cons.IH [OF r [unfolded ps(1)]] nz show ?case by (auto simp: mechanism_name_def mechanism_runes)
qed simp

lemma append_if_None [simp]: "append_if c p err = None \<longleftrightarrow> \<not> c \<and> err = None"
  by (simp add: append_if_def appendOptionProblem_def split: option.splits)

lemma construction_problems_none:
  assumes "construction_problems upr mode op ps = []"
  shows "ps = []" "validGreetingIdentity upr (op_GreetingIdentity op)" "0 < op_CommandTimeout op" "0 < op_DataTimeout op"
    "0 < op_MaxMessageBytes op" "100 \<le> op_MaxRecipients op" "0 \<le> op_MaxTransactions op" "op_MaxTransactions op \<le> 999999"
    "op_EnableBINARYMIME op \<longrightarrow> op_EnableCHUNKING op" "op_EnableCHUNKING op \<longrightarrow> 0 < op_MaxSpoolBytes op"
  using assms unfolding construction_problems_def by (auto split: if_splits)

lemma option_error_none:
  assumes "option_error upr op explicit before after err = None"
  shows "err = None" "op_ImplicitTLS op \<longrightarrow> op_TLSConfig op" "op_RequireTLS op \<longrightarrow> op_TLSConfig op"
    "op_RequireAuth op \<longrightarrow> before \<noteq> [] \<or> op_TLSConfig op \<and> after \<noteq> []"
    "0 \<le> op_MaxConnections op" "0 \<le> op_MaxConnectionsPerSource op"
    "op_EnableCHUNKING op \<and> op_MaxSpoolBytes op > 0 \<and> explicit \<longrightarrow> op_MaxMessageBytes op \<le> op_MaxSpoolBytes op"
  using assms by (auto simp: option_error_def Let_def)

lemma validateConstruction_none:
  assumes "validateConstruction upr mode op = (None, before, after)"
  shows "list_all mechanism_name before" "distinct before" "list_all mechanism_name after" "distinct after"
    "construction_problems upr mode op [] = []"
proof -
  obtain pb pa where v: "validateAuthMechanisms upr ''AuthMechanismsBeforeTLS'' 0 (case op_AuthMechanismsBeforeTLS op of None \<Rightarrow> [] | Some ms \<Rightarrow> ms) [] = (pb, before)"
    "validateAuthMechanisms upr ''AuthMechanismsAfterTLS'' 0 (case op_AuthMechanismsAfterTLS op of None \<Rightarrow> [] | Some ms \<Rightarrow> ms) [] = (pa, after)"
    "construction_problems upr mode op (pb @ pa) = []"
    using assms by (auto simp: validateConstruction_def Let_def split: prod.splits if_splits)
  then have ps: "pb = []" "pa = []" using construction_problems_none(1) by fastforce+
  from validateAuthMechanisms_ok [OF v(1) [unfolded ps]] validateAuthMechanisms_ok [OF v(2) [unfolded ps]] v(3) ps
  show "list_all mechanism_name before" "distinct before" "list_all mechanism_name after" "distinct after"
    "construction_problems upr mode op [] = []" by simp_all
qed

lemma newSpoolManager_fresh:
  assumes "newSpoolManager tmp opts = Inr m"
  shows "spool_problems (sm_opts m) = []" "so_MaxBytes (sm_opts m) = so_MaxBytes opts" "sm_total m = 0" "sm_totalMemory m = 0"
    "sm_concurrent m = 0"
  using assms by (auto simp: newSpoolManager_def spool_problems_def split: if_splits)

lemma option_defaults_nonzero:
  assumes "op = option_defaults upr hostname v"
  shows "op_MaxConnections op \<noteq> 0" "op_MaxConnectionsPerSource op \<noteq> 0" "op_MaxTransactions op \<noteq> 0"
  using assms by (auto simp: option_defaults_def or_default_def)

text \<open>C35: every server NewServer returns is well formed, whatever the options, the host name and the case table: a
  valid identity, positive time limits and sizes, at least 100 recipients, between 1 and 999999 transactions, distinct
  upper-case mechanism names, BINARYMIME only with CHUNKING, TLS where it is required, and with CHUNKING a fresh spool
  manager that can hold the largest message.\<close>

theorem NewServer_wf:
  assumes "NewServer upr hostname tmp opts = Inr sv"
  shows "wf_server upr sv"
proof -
  let ?v = "case opts of None \<Rightarrow> no_options | Some v \<Rightarrow> v"
  define op where "op = option_defaults upr hostname ?v"
  define mode where "mode = fst (internalMode (op_Mode op))"
  define explicit where "explicit = (op_MaxMessageBytes ?v \<noteq> 0)"
  obtain err before after where vc: "validateConstruction upr mode op = (err, before, after)" by (rule prod_cases3)
  have run: "(case option_error upr op explicit before after err of Some err \<Rightarrow> Inl err | None \<Rightarrow>
      bind_res (server_spools tmp op) (\<lambda>spools. Inr (server_of mode op before after (server_message_limit op explicit) spools))) = Inr sv"
    using assms vc unfolding NewServer_def Let_def op_def mode_def explicit_def by simp
  then have e: "option_error upr op explicit before after err = None" by (auto split: option.splits)
  note oe = option_error_none [OF e]
  note vn = validateConstruction_none [OF vc [unfolded oe(1)]]
  note cp = construction_problems_none [OF vn(5)]
  note nz = option_defaults_nonzero [OF op_def]
  have pos: "0 < op_MaxConnections op" "0 < op_MaxConnectionsPerSource op" "1 \<le> op_MaxTransactions op"
    using oe(5,6) nz cp(7) by linarith+
  from run e obtain spools where sp: "server_spools tmp op = Inr spools"
    and sv: "sv = server_of mode op before after (server_message_limit op explicit) spools"
    by (auto simp: bind_res_def split: sum.splits)
  have limit: "0 < server_message_limit op explicit" "op_EnableCHUNKING op \<longrightarrow> server_message_limit op explicit \<le> op_MaxSpoolBytes op"
    using cp(5,10) oe(7) by (auto simp: server_message_limit_def)
  have "case spools of None \<Rightarrow> \<not> op_EnableCHUNKING op
      | Some m \<Rightarrow> op_EnableCHUNKING op \<and> spool_problems (sm_opts m) = [] \<and> so_MaxBytes (sm_opts m) = op_MaxSpoolBytes op \<and>
                  sm_total m = 0 \<and> sm_totalMemory m = 0 \<and> sm_concurrent m = 0"
    using sp newSpoolManager_fresh [of tmp] by (fastforce simp: server_spools_def bind_res_def split: sum.splits if_splits option.splits)
  with sv oe(2-4) vn(1-4) cp(2-4,6,8,9) pos limit show ?thesis
    by (simp add: wf_server_def server_of_def split: option.splits)
qed

definition sample_options :: ServerOptions where
  "sample_options =
     no_options\<lparr>op_Listener := Some (TCPAddr [] [] 2525), op_Backend := Some True, op_GreetingIdentity := ''mx.example'',
       op_AuthMechanismsAfterTLS := Some [''plain''], op_EnableCHUNKING := True, op_MaxSpoolBytes := 4096,
       op_MaxSpoolMemoryBytes := 1024, op_MaxTotalSpoolBytes := 8192, op_MaxTotalSpoolMemoryBytes := 2048,
       op_MaxConcurrentSpools := 2\<rparr>"

theorem NewServer_wf_witness:
  "\<exists>sv. NewServer id None ''/tmp'' (Some sample_options) = Inr sv \<and> sv_maxMessage sv = 4096 \<and> wf_server id sv"
proof -
  have "\<not> isl (NewServer id None ''/tmp'' (Some sample_options)) \<and> sv_maxMessage (projr (NewServer id None ''/tmp'' (Some sample_options))) = 4096"
    by code_simp
  then obtain sv where "NewServer id None ''/tmp'' (Some sample_options) = Inr sv" "sv_maxMessage sv = 4096"
    by (cases "NewServer id None ''/tmp'' (Some sample_options)") simp_all
  with NewServer_wf [OF this(1)] show ?thesis by blast
qed

end
