(* ===== verification/Srv_Session.thy ===== *)
theory Srv_Session
  imports Go_Effect Srv_Config Sasl_Responder
begin

text \<open>
  One connection of the server: the state of a command session and its handlers (smtpserver/cmd_session.go, cmd_data.go,
  cmd_reply.go, lifecycle.go, tls.go and the STARTTLS part of floor_extensions.go). Every handler is a computation on
  the state of the session in the sense of \<open>Go_Effect\<close>. AUTH is in \<open>Srv_Auth\<close>, the dispatch of commands, the
  command loop and the serving of a connection are in \<open>Srv_Loop\<close>.

  What the code reaches outside is given by two records of functions. \<open>net_ops\<close> are the operations on the network,
  the clock, the random source and the context of the connection, on a state \<open>'w\<close>. The backend is a \<open>Session\<close> with its
  state \<open>'b\<close>. The octets a peer will send are the chunks of the line reader, those it sends after a TLS handshake come
  from that handshake. Deadlines and contexts only matter through what the operations answer.
  Asking for the time or for random octets reads the state of the world and leaves it as it is; an operation on the network
  may change it. Callbacks of the backend return and do not panic.
\<close>

section \<open>Types\<close>

datatype ctx_error = Canceled | DeadlineExceeded

text \<open>The errors a handler returns, which end the session.\<close>

datatype session_error =
  ErrIO io_error | ErrWire wire_error | ErrTransition stateEvent sessionPhase | ErrSasl sasl_error | ErrSASLResponse
| ErrNoProgress | ErrTLSConfigRequired | ErrHandshake io_error | ErrNoHandler bytes | ErrContent data_cause
| ErrContext ctx_error | ErrFlushBeforeRead io_error | ErrFlushReply io_error | ErrReadCommand wire_error

text \<open>What is reported to \<open>ServerOptions.ErrorLog\<close>.\<close>

datatype report =
  RepError session_error | RepBackend bytes backend_error | RepDefect "data_defect list" | RepCause data_cause
| RepResultCode | RepSuccessLines | RepSpool spool_error | RepAuthContract | RepPrefetched nat | RepATRNPrefetched
| RepNoTakeover | RepTakeover backend_error | RepSession bytes | RepPanic

datatype direction = TraceSent | TraceReceived

record commandAction =
  ca_synchronizationPoint :: bool
  ca_closeConnection :: bool

definition no_action :: commandAction where
  "no_action = \<lparr>ca_synchronizationPoint = False, ca_closeConnection = False\<rparr>"

definition sync :: commandAction where
  "sync = \<lparr>ca_synchronizationPoint = True, ca_closeConnection = False\<rparr>"

definition sync_close :: commandAction where
  "sync_close = \<lparr>ca_synchronizationPoint = True, ca_closeConnection = True\<rparr>"

text \<open>\<open>bufio.Writer\<close> with its default size: the octets not yet written, and the first error, which sticks.\<close>

record bufio_writer =
  bw_buf :: bytes
  bw_err :: "io_error option"

definition bufio_size :: nat where
  "bufio_size = 4096"

definition NewWriter :: bufio_writer where
  "NewWriter = \<lparr>bw_buf = [], bw_err = None\<rparr>"

text \<open>\<open>nt_Quiet e\<close>: is \<open>e\<close> one of \<open>context.Canceled\<close> and \<open>net.ErrClosed\<close>. \<open>nt_Write\<close> is a write to the transport in use, of
  everything or with an error.\<close>

record 'w net_ops =
  nt_ctxErr :: "'w \<Rightarrow> ctx_error option"
  nt_SetWriteDeadline :: "'w \<Rightarrow> io_error option \<times> 'w"
  nt_SetReadDeadline :: "'w \<Rightarrow> io_error option \<times> 'w"
  nt_Write :: "bytes \<Rightarrow> 'w \<Rightarrow> io_error option \<times> 'w"
  nt_Handshake :: "'w \<Rightarrow> (io_error + tls_state \<times> bytes list \<times> io_error) \<times> 'w"
  nt_Now :: "'w \<Rightarrow> timestamp"
  nt_Rand :: "'w \<Rightarrow> bytes option"
  nt_Quiet :: "io_error \<Rightarrow> bool"

text \<open>The fields of a \<open>commandSession\<close> that never change, and the ones that do. \<open>sessionLifecycle\<close> is part of the
  latter: \<open>cn_transactionOpen\<close>, \<open>cn_spool\<close> and \<open>cn_closed\<close>, the last for its \<open>closeOnce\<close>. \<open>cn_user\<close> is the state of the
  backend; \<open>cn_spools\<close> the server's spool manager; \<open>cn_trace\<close> and \<open>cn_errors\<close> what the hooks were called with.\<close>

record ('w, 'b) session_env =
  en_upr :: "nat \<Rightarrow> nat"
  en_server :: Server
  en_backend :: "'b Session"
  en_maxTransactions :: int
  en_net :: "'w net_ops"
  en_fs :: fs_ops

record ('w, 'b) commandSession =
  cn_world :: 'w
  cn_user :: 'b
  cn_tlsState :: "tls_state option"
  cn_state :: protocolState
  cn_reader :: line_reader
  cn_writer :: bufio_writer
  cn_transactionOpen :: bool
  cn_spool :: "spool option"
  cn_closed :: bool
  cn_spools :: "spoolManager option"
  cn_extended :: bool
  cn_smtpUTF8 :: bool
  cn_binaryMIME :: bool
  cn_recipients :: "bytes list"
  cn_mailAttempts :: int
  cn_trace :: "(direction \<times> bytes) list"
  cn_errors :: "report list"

type_synonym ('w, 'b, 'a) handler = "(('w, 'b) commandSession, session_error, 'a) go"

definition session_limits :: limits where
  "session_limits =
     \<lparr>MaxReplyLineLength = 0, MaxReplyLines = 0, MaxReplySize = 0, MaxBDATChunkSize = MaxInt64, MaxCommandLineLength = 0,
      MaxSASLResponseLength = 0\<rparr>"

section \<open>The network and the backend\<close>

text \<open>One operation of the network, and one callback of the backend. A callback that is nil panics.\<close>

definition net :: "('w \<Rightarrow> 'r \<times> 'w) \<Rightarrow> ('w, 'b, 'r) handler" where
  "net f s = (case f (cn_world s) of (r, w) \<Rightarrow> (Ok r, s\<lparr>cn_world := w\<rparr>))"

definition invoke :: "('b \<Rightarrow> 'r \<times> 'b) \<Rightarrow> ('w, 'b, 'r) handler" where
  "invoke f s = (case f (cn_user s) of (r, b) \<Rightarrow> (Ok r, s\<lparr>cn_user := b\<rparr>))"

definition invoke_opt :: "('b \<Rightarrow> 'r \<times> 'b) option \<Rightarrow> ('w, 'b, 'r) handler" where
  "invoke_opt f = (case f of None \<Rightarrow> panic | Some g \<Rightarrow> invoke g)"

definition io_check :: "io_error option \<Rightarrow> ('w, 'b, unit) handler" where
  "io_check e = (case e of None \<Rightarrow> ret () | Some x \<Rightarrow> fail (ErrIO x))"

definition SetWriteDeadline :: "('w, 'b) session_env \<Rightarrow> ('w, 'b, unit) handler" where
  "SetWriteDeadline en = bind_go (net (nt_SetWriteDeadline (en_net en))) io_check"

definition reportError :: "('w, 'b) session_env \<Rightarrow> report \<Rightarrow> ('w, 'b, unit) handler" where
  "reportError en r = unless (\<not> sv_errorLog (en_server en)) (assign (\<lambda>s. s\<lparr>cn_errors := cn_errors s @ [r]\<rparr>))"

definition trace :: "('w, 'b) session_env \<Rightarrow> direction \<Rightarrow> bytes \<Rightarrow> ('w, 'b, unit) handler" where
  "trace en d line = unless (\<not> sv_trace (en_server en)) (assign (\<lambda>s. s\<lparr>cn_trace := cn_trace s @ [(d, line)]\<rparr>))"

section \<open>Buffered output\<close>

definition bw_Flush :: "('w, 'b) session_env \<Rightarrow> ('w, 'b, io_error option) handler" where
  "bw_Flush en s =
     (case bw_err (cn_writer s) of
        Some e \<Rightarrow> (Ok (Some e), s)
      | None \<Rightarrow>
          if bw_buf (cn_writer s) = [] then (Ok None, s)
          else
            case nt_Write (en_net en) (bw_buf (cn_writer s)) (cn_world s) of
              (Some e, w) \<Rightarrow> (Ok (Some e), s\<lparr>cn_world := w, cn_writer := (cn_writer s)\<lparr>bw_err := Some e\<rparr>\<rparr>)
            | (None, w) \<Rightarrow> (Ok None, s\<lparr>cn_world := w, cn_writer := (cn_writer s)\<lparr>bw_buf := []\<rparr>\<rparr>))"

definition Flush :: "('w, 'b) session_env \<Rightarrow> ('w, 'b, unit) handler" where
  "Flush en = bind_go (bw_Flush en) io_check"

lemma bw_Flush_cases:
  assumes "bw_Flush en s = (r, t)"
  shows "\<exists>e. r = Ok e \<and> (e = None \<longrightarrow> bw_buf (cn_writer t) = [] \<and> bw_err (cn_writer t) = None) \<and>
    t = s\<lparr>cn_world := cn_world t, cn_writer := cn_writer t\<rparr>"
  using assms by (auto simp: bw_Flush_def split: option.splits if_splits prod.splits)

lemma Flush_Ok:
  assumes "Flush en s = (Ok u, t)"
  shows "bw_buf (cn_writer t) = []"
  using assms bw_Flush_cases [of en s]
  by (fastforce simp: Flush_def bind_go_eq io_check_def ret_def fail_def split: option.splits)

text \<open>\<open>WriteString\<close>: fill the buffer, flush, and go on while the rest does not fit.\<close>

function bw_WriteString :: "('w, 'b) session_env \<Rightarrow> bytes \<Rightarrow> ('w, 'b, unit) handler" where
  "bw_WriteString en p s =
     (let w = cn_writer s; avail = bufio_size - length (bw_buf w) in
      case bw_err w of
        Some e \<Rightarrow> (Err (ErrIO e), s)
      | None \<Rightarrow>
          if length p \<le> avail then (Ok (), s\<lparr>cn_writer := w\<lparr>bw_buf := bw_buf w @ p\<rparr>\<rparr>)
          else
            bind_go (Flush en) (\<lambda>_ t. bw_WriteString en (drop avail p) t)
              (s\<lparr>cn_writer := w\<lparr>bw_buf := bw_buf w @ take avail p\<rparr>\<rparr>))"
  by pat_completeness auto
termination
  by (relation "measure (\<lambda>(en, p, s). length p + length (bw_buf (cn_writer s)))")
    (auto simp: bufio_size_def dest: Flush_Ok)

declare bw_WriteString.simps [simp del]

section \<open>Replies\<close>

definition writeReply :: "('w, 'b) session_env \<Rightarrow> wireReply \<Rightarrow> ('w, 'b, unit) handler" where
  "writeReply en reply =
     seq (SetWriteDeadline en)
       (case encodeWireReply reply of
          Inl e \<Rightarrow> fail (ErrWire e)
        | Inr octets \<Rightarrow>
            seq (bw_WriteString en octets)
              (trace en TraceSent
                (Itoa (wr_code reply) @ '' '' @
                 (if wr_lines reply \<noteq> [] then Join (wr_lines reply) [LF] else wr_text reply))))"

text \<open>The idiom of the handlers: write a reply, and on success return an action.\<close>

definition reply_with :: "('w, 'b) session_env \<Rightarrow> wireReply \<Rightarrow> commandAction \<Rightarrow> ('w, 'b, commandAction) handler" where
  "reply_with en reply action = seq (writeReply en reply) (ret action)"

definition writeResult :: "('w, 'b) session_env \<Rightarrow> RecipientResult \<Rightarrow> ('w, 'b, unit) handler" where
  "writeResult en result =
     (case normalizeRecipientResult result of
        (normalized, repaired) \<Rightarrow>
          seq (unless (\<not> repaired) (reportError en RepResultCode))
            (writeReply en
              (text_reply (rr_Code normalized) (rr_Enhanced normalized)
                (if rr_Text normalized = [] then ''OK'' else rr_Text normalized))))"

definition synchronizationPoint :: "bytes \<Rightarrow> bool" where
  "synchronizationPoint verb \<longleftrightarrow> verb \<notin> set [''MAIL'', ''RCPT'', ''RSET'', ''BDAT'']"

definition sync_if :: "bool \<Rightarrow> commandAction" where
  "sync_if b = \<lparr>ca_synchronizationPoint = b, ca_closeConnection = False\<rparr>"

definition syntaxReply :: "('w, 'b) session_env \<Rightarrow> bytes \<Rightarrow> ('w, 'b, commandAction) handler" where
  "syntaxReply en name = reply_with en (text_reply 501 (enhanced 5 5 2) (''Invalid '' @ name)) sync"

definition policyReply :: "('w, 'b) session_env \<Rightarrow> bytes \<Rightarrow> ('w, 'b, commandAction) handler" where
  "policyReply en text = reply_with en (text_reply 530 (enhanced 5 7 0) text) no_action"

definition notImplementedReply :: "('w, 'b) session_env \<Rightarrow> bytes \<Rightarrow> ('w, 'b, commandAction) handler" where
  "notImplementedReply en command =
     reply_with en (text_reply 502 (enhanced 5 5 1) (command @ '' not implemented'')) sync"

definition backendReply ::
  "('w, 'b) session_env \<Rightarrow> bytes \<Rightarrow> backend_error \<Rightarrow> int \<Rightarrow> bytes \<Rightarrow> ('w, 'b, commandAction) handler" where
  "backendReply en command err fallbackCode fallbackText =
     seq (case err of ProtocolError _ \<Rightarrow> ret () | OtherError _ \<Rightarrow> reportError en (RepBackend command err))
       (reply_with en (errorReply err fallbackCode fallbackText) (sync_if (synchronizationPoint command)))"

definition noRecipientsReply :: "('w, 'b) session_env \<Rightarrow> ('w, 'b, commandAction) handler" where
  "noRecipientsReply en = reply_with en (text_reply 503 (enhanced 5 5 1) ''No valid recipients'') sync"

definition temporary :: bytes where
  "temporary = ''Temporary server failure''"

section \<open>Lifecycle of the backend session\<close>

definition transit :: "stateEvent \<Rightarrow> ('w, 'b, unit) handler" where
  "transit ev s =
     (case transition ev (cn_state s) of
        (None, st) \<Rightarrow> (Ok (), s\<lparr>cn_state := st\<rparr>)
      | (Some (e, p), st) \<Rightarrow> (Err (ErrTransition e p), s\<lparr>cn_state := st\<rparr>))"

definition drop_spool :: "('w, 'b) session_env \<Rightarrow> spool option \<Rightarrow> ('w, 'b, unit) handler" where
  "drop_spool en sp =
     (case sp of
        None \<Rightarrow> ret ()
      | Some x \<Rightarrow> assign (\<lambda>s. s\<lparr>cn_spools := map_option (\<lambda>m. fst (snd (spool_Close (en_fs en) (m, x)))) (cn_spools s)\<rparr>))"

definition life_reset :: "('w, 'b) session_env \<Rightarrow> ResetReason \<Rightarrow> ('w, 'b, unit) handler" where
  "life_reset en reason =
     view (\<lambda>s.
       seq (assign (\<lambda>s. s\<lparr>cn_spool := None, cn_transactionOpen := False\<rparr>))
       (seq (drop_spool en (cn_spool s))
         (invoke_opt (map_option (\<lambda>f b. ((), f reason b)) (se_Reset (en_backend en))))))"

definition life_resetIfOpen :: "('w, 'b) session_env \<Rightarrow> ResetReason \<Rightarrow> ('w, 'b, unit) handler" where
  "life_resetIfOpen en reason =
     view (\<lambda>s. unless (\<not> cn_transactionOpen s \<and> cn_spool s = None) (life_reset en reason))"

definition life_mail ::
  "('w, 'b) session_env \<Rightarrow> bytes \<Rightarrow> MailOptions option \<Rightarrow> ('w, 'b, backend_error option) handler" where
  "life_mail en reversePath params =
     view (\<lambda>s.
       seq (unless (\<not> cn_transactionOpen s) (life_reset en ResetNewMail))
         (bind_go (invoke_opt (map_option (\<lambda>f. f reversePath params) (se_Mail (en_backend en))))
           (\<lambda>r. case r of
                  Inl e \<Rightarrow> ret (Some e)
                | Inr _ \<Rightarrow> seq (assign (\<lambda>s. s\<lparr>cn_transactionOpen := True\<rparr>)) (ret None))))"

definition attachSpool :: "('w, 'b) session_env \<Rightarrow> spool \<Rightarrow> ('w, 'b, unit) handler" where
  "attachSpool en sp = view (\<lambda>s. seq (drop_spool en (cn_spool s)) (assign (\<lambda>s. s\<lparr>cn_spool := Some sp\<rparr>)))"

definition life_close :: "('w, 'b) session_env \<Rightarrow> ('w, 'b, unit) handler" where
  "life_close en =
     view (\<lambda>s. unless (cn_closed s)
       (seq (assign (\<lambda>s. s\<lparr>cn_closed := True\<rparr>))
       (seq (life_resetIfOpen en ResetSessionEnd)
         (invoke_opt (map_option (\<lambda>f b. ((), f b)) (se_Close (en_backend en)))))))"

text \<open>\<open>commandSession.close\<close>: an invalid transition is ignored there.\<close>

definition session_close :: "('w, 'b) session_env \<Rightarrow> ('w, 'b, unit) handler" where
  "session_close en =
     seq (life_close en) (assign (\<lambda>s. s\<lparr>cn_state := snd (transition eventClose (cn_state s))\<rparr>))"

definition clearTransaction :: "('w, 'b, unit) handler" where
  "clearTransaction = assign (\<lambda>s. s\<lparr>cn_smtpUTF8 := False, cn_binaryMIME := False, cn_recipients := []\<rparr>)"

section \<open>Greeting\<close>

definition session_mechanisms :: "('w, 'b) session_env \<Rightarrow> ('w, 'b) commandSession \<Rightarrow> bytes list" where
  "session_mechanisms en s =
     authMechanisms (en_upr en) (en_server en) (en_backend en) (cn_state s) (cn_extended s) (cn_tlsState s)"

definition greet :: "hello \<Rightarrow> ('w, 'b) commandSession \<Rightarrow> ('w, 'b) commandSession" where
  "greet hello s =
     s\<lparr>cn_state := (cn_state s)\<lparr>ps_hello := hello_Domain hello\<rparr>, cn_extended := hello_Verb hello \<noteq> ''HELO'',
       cn_smtpUTF8 := False, cn_binaryMIME := False, cn_recipients := []\<rparr>"

definition hello_reply :: "('w, 'b) session_env \<Rightarrow> hello \<Rightarrow> ('w, 'b, commandAction) handler" where
  "hello_reply en hello =
     (let sv = en_server en in
      view (\<lambda>s.
      if sv_requireAuth sv \<and> ps_tls (cn_state s) \<and> \<not> ps_authenticated (cn_state s) \<and> session_mechanisms en s = [] then
        seq (reportError en RepAuthContract)
          (reply_with en (text_reply 421 (enhanced 4 3 0) ''Service not available'') sync_close)
      else if hello_Verb hello = ''HELO'' then
        reply_with en ((text_reply 250 no_code (sv_identity sv))\<lparr>wr_context := ReplyContextHello\<rparr>) sync
      else
        seq (SetWriteDeadline en)
          (case EncodeEHLOReply
                  \<lparr>ehlo_Domain = sv_identity sv, ehlo_Greeting = [],
                   ehlo_Extensions = capabilities (en_upr en) sv (en_backend en) (cn_state s) (cn_extended s) (cn_tlsState s)\<rparr> of
             Inl e \<Rightarrow> fail (ErrWire e)
           | Inr octets \<Rightarrow>
               seq (bw_WriteString en octets)
               (seq (trace en TraceSent (''250 '' @ sv_identity sv))
                 (ret sync)))))"

definition handleHello :: "('w, 'b) session_env \<Rightarrow> command \<Rightarrow> ('w, 'b, commandAction) handler" where
  "handleHello en command =
     (case ParseHelloCommand (en_upr en) command of
        Inl _ \<Rightarrow> syntaxReply en ''HELO/EHLO/LHLO argument''
      | Inr hello \<Rightarrow>
          if \<not> validGreetingIdentity (en_upr en) (hello_Domain hello) then syntaxReply en ''HELO/EHLO/LHLO argument''
          else
            seq (view (\<lambda>s. unless (\<not> cn_transactionOpen s) (life_reset en ResetExplicit)))
            (seq (transit eventHello)
            (seq (assign (greet hello))
              (hello_reply en hello))))"

section \<open>MAIL and RCPT\<close>

definition hasNonASCII :: "bytes \<Rightarrow> bool" where
  "hasNonASCII v \<longleftrightarrow> list_ex (\<lambda>c. byte c \<ge> 0x80) v"

definition requested_transport :: "MailOptions option \<Rightarrow> TransportOptions option" where
  "requested_transport params = Option.bind params mo_Transport"

definition requested_utf8 :: "MailOptions option \<Rightarrow> bool" where
  "requested_utf8 params = (case requested_transport params of None \<Rightarrow> False | Some x \<Rightarrow> to_SMTPUTF8 x)"

definition size_too_large :: "Server \<Rightarrow> MailOptions option \<Rightarrow> bool" where
  "size_too_large sv params =
     (case Option.bind (requested_transport params) to_Size of None \<Rightarrow> False | Some n \<Rightarrow> n > sv_maxMessage sv)"

definition requested_binary :: "MailOptions option \<Rightarrow> bool" where
  "requested_binary params = (case requested_transport params of None \<Rightarrow> False | Some x \<Rightarrow> to_Body x = ''BINARYMIME'')"

text \<open>The checks of \<open>handleMail\<close> before it touches the transaction: the name for a syntax reply, or the path
  and its options.\<close>

definition mail_request ::
  "('w, 'b) session_env \<Rightarrow> command \<Rightarrow> ('w, 'b) commandSession \<Rightarrow> bytes + path \<times> MailOptions option" where
  "mail_request en command s =
     (case ParseReversePath (en_upr en) (cmd_Argument command) \<lparr>po_SMTPUTF8 = True, po_MaxPathLength = 0\<rparr> of
        Inl _ \<Rightarrow> Inl ''MAIL FROM path''
      | Inr path \<Rightarrow>
          if \<not> cn_extended s \<and> path_Params path \<noteq> [] then Inl (par_Keyword (hd (path_Params path)))
          else
            (case parseMailParameters (en_upr en) (path_Params path)
                    (session_mailParameterFeatures (en_upr en) (en_server en) (en_backend en) (cn_state s) (cn_extended s)
                      (cn_tlsState s)) of
               Inl e \<Rightarrow> Inl (pe_keyword e)
             | Inr params \<Rightarrow>
                 (case validateExtensionMailPath (path_Mailbox path) params of
                    Some e \<Rightarrow> Inl (pe_keyword e)
                  | None \<Rightarrow>
                      if hasNonASCII (path_Mailbox path) \<and> \<not> requested_utf8 params then Inl ''SMTPUTF8''
                      else Inr (path, params))))"

definition mail_reply :: "('w, 'b) session_env \<Rightarrow> MailOptions option \<Rightarrow> backend_error option \<Rightarrow> ('w, 'b, commandAction) handler" where
  "mail_reply en params r =
     (case r of
        Some err \<Rightarrow>
          seq (view (\<lambda>s. unless (ps_phase (cn_state s) \<notin> {phaseMail, phaseRecipients})
                 (assign (\<lambda>s. s\<lparr>cn_state := snd (transition eventTransactionFailed (cn_state s))\<rparr>))))
          (seq clearTransaction (backendReply en ''MAIL'' err 451 temporary))
      | None \<Rightarrow>
          seq (transit eventMailAccepted)
          (seq (assign (\<lambda>s. s\<lparr>cn_smtpUTF8 := requested_utf8 params, cn_binaryMIME := requested_binary params, cn_recipients := []\<rparr>))
            (reply_with en (text_reply 250 (enhanced 2 1 0) ''Sender OK'') no_action)))"

definition mail_ask :: "('w, 'b) session_env \<Rightarrow> path \<Rightarrow> MailOptions option \<Rightarrow> ('w, 'b, commandAction) handler" where
  "mail_ask en path params =
     (if size_too_large (en_server en) params then
        reply_with en (text_reply 552 (enhanced 5 3 4) ''Message size exceeds fixed maximum message size'') no_action
      else bind_go (life_mail en (path_Mailbox path) params) (mail_reply en params))"

text \<open>The rest of \<open>handleMail\<close>: end the old transaction, then ask the backend.\<close>

definition mail_transaction ::
  "('w, 'b) session_env \<Rightarrow> path \<Rightarrow> MailOptions option \<Rightarrow> ('w, 'b, commandAction) handler" where
  "mail_transaction en path params =
     seq (view (\<lambda>s. unless (\<not> cn_transactionOpen s)
            (seq (life_reset en ResetNewMail) (seq (transit eventTransactionFailed) clearTransaction))))
       (mail_ask en path params)"

definition handleMail :: "('w, 'b) session_env \<Rightarrow> command \<Rightarrow> ('w, 'b, commandAction) handler" where
  "handleMail en command =
     view (\<lambda>s.
       if sv_requireTLS (en_server en) \<and> \<not> ps_tls (cn_state s) then policyReply en ''TLS is required''
       else if sv_requireAuth (en_server en) \<and> \<not> ps_authenticated (cn_state s) then policyReply en ''Authentication is required''
       else
         case mail_request en command s of
           Inl name \<Rightarrow> syntaxReply en name
         | Inr (path, params) \<Rightarrow> mail_transaction en path params)"

definition validateRcptSuccessLines :: "bytes list \<Rightarrow> bool" where
  "validateRcptSuccessLines lines \<longleftrightarrow> list_all (\<lambda>line. line \<noteq> [] \<and> \<not> ContainsAny line [CR, LF, NUL]) lines"

definition rcpt_reply :: "bytes list \<Rightarrow> wireReply" where
  "rcpt_reply lines =
     (let reply = text_reply 250 (enhanced 2 1 5) ''Recipient OK'' in
      if lines \<noteq> [] then reply\<lparr>wr_enhanced := no_code, wr_text := [], wr_lines := ''Recipient OK'' # lines\<rparr> else reply)"

definition rcpt_accept :: "('w, 'b) session_env \<Rightarrow> bytes \<Rightarrow> bytes list \<Rightarrow> ('w, 'b, commandAction) handler" where
  "rcpt_accept en mailbox lines =
     seq (assign (\<lambda>s. s\<lparr>cn_recipients := cn_recipients s @ [mailbox]\<rparr>))
     (seq (view (\<lambda>s. unless (ps_phase (cn_state s) \<noteq> phaseMail) (transit eventRecipientAccepted)))
       (reply_with en (rcpt_reply lines) no_action))"

definition rcpt_request ::
  "('w, 'b) session_env \<Rightarrow> path \<Rightarrow> RcptOptions option \<Rightarrow> ('w, 'b, commandAction) handler" where
  "rcpt_request en path params =
     bind_go (invoke_opt (map_option (\<lambda>f. f (path_Mailbox path) params) (se_Rcpt (en_backend en))))
       (\<lambda>r. case r of
          (Some err, _) \<Rightarrow> backendReply en ''RCPT'' err 451 temporary
        | (None, lines) \<Rightarrow>
            if \<not> validateRcptSuccessLines lines then
              seq (reportError en RepSuccessLines) (backendReply en ''RCPT'' (OtherError 0) 451 temporary)
            else rcpt_accept en (path_Mailbox path) lines)"

definition handleRcpt :: "('w, 'b) session_env \<Rightarrow> command \<Rightarrow> ('w, 'b, commandAction) handler" where
  "handleRcpt en command =
     view (\<lambda>s.
       case ParseForwardPath (en_upr en) (cmd_Argument command) \<lparr>po_SMTPUTF8 = cn_smtpUTF8 s, po_MaxPathLength = 0\<rparr> of
         Inl _ \<Rightarrow> syntaxReply en ''RCPT TO path''
       | Inr path \<Rightarrow>
           if \<not> cn_extended s \<and> path_Params path \<noteq> [] then syntaxReply en (par_Keyword (hd (path_Params path)))
           else if int (length (cn_recipients s)) \<ge> sv_maxRcpt (en_server en) then
             reply_with en (text_reply 452 (enhanced 4 5 3) ''Too many recipients'') no_action
           else
             (case parseRcptParameters (en_upr en) (path_Params path) (parameterExtensionMap (en_server en) (en_backend en)) of
                Inl e \<Rightarrow> syntaxReply en (pe_keyword e)
              | Inr params \<Rightarrow> rcpt_request en path params))"

section \<open>Commands without a transaction\<close>

definition handleRSET :: "('w, 'b) session_env \<Rightarrow> command \<Rightarrow> ('w, 'b, commandAction) handler" where
  "handleRSET en command =
     (if cmd_Argument command \<noteq> [] then syntaxReply en ''RSET''
      else
        seq (life_resetIfOpen en ResetExplicit)
        (seq (transit eventReset)
        (seq clearTransaction
          (reply_with en (text_reply 250 (enhanced 2 0 0) ''Reset state'') no_action))))"

definition handleNOOP :: "('w, 'b) session_env \<Rightarrow> command \<Rightarrow> ('w, 'b, commandAction) handler" where
  "handleNOOP en command = reply_with en (text_reply 250 (enhanced 2 0 0) ''OK'') sync"

definition handleQUIT :: "('w, 'b) session_env \<Rightarrow> command \<Rightarrow> ('w, 'b, commandAction) handler" where
  "handleQUIT en command =
     (if cmd_Argument command \<noteq> [] then syntaxReply en ''QUIT''
      else reply_with en (text_reply 221 (enhanced 2 0 0) (sv_identity (en_server en) @ '' closing connection'')) sync_close)"

definition handleVRFY :: "('w, 'b) session_env \<Rightarrow> command \<Rightarrow> ('w, 'b, commandAction) handler" where
  "handleVRFY en command =
     (if cmd_Argument command = [] then syntaxReply en ''VRFY address''
      else
        case se_Verify (en_backend en) of
          None \<Rightarrow> reply_with en (text_reply 252 (enhanced 2 5 2) ''Cannot VRFY user, but will accept message'') sync
        | Some f \<Rightarrow>
            bind_go (invoke (f (cmd_Argument command)))
              (\<lambda>r. case r of
                 Inl err \<Rightarrow> backendReply en ''VRFY'' err 451 temporary
               | Inr result \<Rightarrow>
                   reply_with en (text_reply 250 (enhanced 2 1 5) (if result = [] then cmd_Argument command else result)) sync))"

definition handleEXPN :: "('w, 'b) session_env \<Rightarrow> command \<Rightarrow> ('w, 'b, commandAction) handler" where
  "handleEXPN en command =
     (if cmd_Argument command = [] then syntaxReply en ''EXPN list''
      else
        case se_Expand (en_backend en) of
          None \<Rightarrow> notImplementedReply en ''EXPN''
        | Some f \<Rightarrow>
            bind_go (invoke (f (cmd_Argument command)))
              (\<lambda>r. case r of
                 Inl err \<Rightarrow> backendReply en ''EXPN'' err 451 temporary
               | Inr addresses \<Rightarrow>
                   reply_with en
                     ((text_reply 250 no_code [])\<lparr>wr_lines := (if addresses = [] then [''No members''] else addresses)\<rparr>) sync))"

definition handleHELP :: "('w, 'b) session_env \<Rightarrow> command \<Rightarrow> ('w, 'b, commandAction) handler" where
  "handleHELP en command =
     (case se_Help (en_backend en) of
        None \<Rightarrow> notImplementedReply en ''HELP''
      | Some f \<Rightarrow>
          bind_go (invoke (f (cmd_Argument command)))
            (\<lambda>r. case r of
               Inl err \<Rightarrow> backendReply en ''HELP'' err 451 temporary
             | Inr text \<Rightarrow> reply_with en (text_reply 214 no_code text) sync))"

definition handleETRN :: "('w, 'b) session_env \<Rightarrow> command \<Rightarrow> ('w, 'b, commandAction) handler" where
  "handleETRN en command =
     (if cmd_Argument command = [] then syntaxReply en ''ETRN domain''
      else
        case se_ETRN (en_backend en) of
          None \<Rightarrow> notImplementedReply en ''ETRN''
        | Some f \<Rightarrow>
            bind_go (invoke (f (cmd_Argument command)))
              (\<lambda>r. case r of
                 Inl err \<Rightarrow> backendReply en ''ETRN'' err 451 temporary
               | Inr _ \<Rightarrow> reply_with en (text_reply 250 (enhanced 2 0 0) ''Queuing started'') sync))"

section \<open>DATA and BDAT\<close>

definition received_header :: "('w, 'b) session_env \<Rightarrow> bytes \<Rightarrow> ('w, 'b) commandSession \<Rightarrow> wire_error + bytes" where
  "received_header en first s =
     (let st = cn_state s in
      FormatReceived
        \<lparr>rcv_From = ps_hello st, rcv_By = sv_identity (en_server en),
         rcv_Extended = (cn_extended s \<or> ps_tls st \<or> ps_authenticated st), rcv_LMTP = (ps_mode st = modeLMTP),
         rcv_TLS = ps_tls st, rcv_Authenticated = ps_authenticated st, rcv_ID = [], rcv_For = ''<'' @ first @ ''>'',
         rcv_RecipientCount = int (length (cn_recipients s)), rcv_Timestamp = nt_Now (en_net en) (cn_world s)\<rparr>)"

text \<open>A source over the connection reads from the session's own line reader.\<close>

fun content_reader :: "content_src \<Rightarrow> line_reader \<Rightarrow> line_reader" where
  "content_reader (SrcDot r) lr = du_lr (sr_dot r)"
| "content_reader (SrcSpool _) lr = lr"

definition content_reports ::
  "('w, 'b) session_env \<Rightarrow> dataEvaluation \<Rightarrow> content_src \<Rightarrow> ('w, 'b, dataEvaluation \<times> content_src) handler" where
  "content_reports en ev src =
     seq (unless (de_defect ev = []) (reportError en (RepDefect (de_defect ev))))
     (seq (case de_cause ev of None \<Rightarrow> ret () | Some c \<Rightarrow> reportError en (RepCause c))
       (ret (ev, src)))"

definition evaluateContent ::
  "('w, 'b) session_env \<Rightarrow> bytes \<Rightarrow> content_src \<Rightarrow> ('w, 'b, dataEvaluation \<times> content_src) handler" where
  "evaluateContent en command src =
     view (\<lambda>s.
       case cn_recipients s of
         [] \<Rightarrow> panic
       | first # _ \<Rightarrow>
           (case received_header en first s of
              Inl e \<Rightarrow> fail (ErrWire e)
            | Inr header \<Rightarrow>
                (case se_Data (en_backend en) of
                   None \<Rightarrow> panic
                 | Some f \<Rightarrow>
                     (case evaluateDataCall (en_fs en) (ps_mode (cn_state s)) (cn_recipients s) command
                             \<lparr>mr_header = Some header, mr_src = src, mr_gone = False\<rparr> (f (cn_user s)) of
                        None \<Rightarrow> panic
                      | Some (ev, m, b) \<Rightarrow>
                          seq (assign (\<lambda>s. s\<lparr>cn_user := b, cn_reader := content_reader (mr_src m) (cn_reader s)\<rparr>))
                            (content_reports en ev (mr_src m))))))"

definition finishContent :: "('w, 'b) session_env \<Rightarrow> dataEvaluation \<Rightarrow> ('w, 'b, commandAction) handler" where
  "finishContent en ev =
     (if de_closeConnection ev then
        (case de_cause ev of
           Some c \<Rightarrow> fail (ErrContent c)
         | None \<Rightarrow> ret \<lparr>ca_synchronizationPoint = False, ca_closeConnection = True\<rparr>)
      else
        deferring (seq (each (writeResult en) (de_result ev)) (ret sync))
          (seq (life_reset en (if de_completed ev then ResetCompleted else ResetFailed))
          (seq clearTransaction
            (transit (if de_completed ev then eventTransactionComplete else eventTransactionFailed)))))"

definition sizeExceededEvaluation :: "bytes \<Rightarrow> ('w, 'b) commandSession \<Rightarrow> dataEvaluation" where
  "sizeExceededEvaluation command s =
     (let result = (\<lambda>name. \<lparr>rr_Recipient = name, rr_Command = command, rr_Code = 552, rr_Enhanced = enhanced 5 3 4,
                            rr_Text = ''Message size exceeds fixed maximum message size''\<rparr>) in
      \<lparr>de_result = (if ps_mode (cn_state s) = modeLMTP then map result (cn_recipients s) else [result []]),
       de_completed = False, de_closeConnection = False, de_defect = [], de_cause = None\<rparr>)"

fun src_exceeded :: "content_src \<Rightarrow> bool" where
  "src_exceeded (SrcDot r) = sr_exceeded r"
| "src_exceeded (SrcSpool _) = False"

definition data_source :: "Server \<Rightarrow> line_reader \<Rightarrow> content_src" where
  "data_source sv lr =
     SrcDot \<lparr>sr_dot = NewDotUnstuffReader lr, sr_remain = word_of_int (sv_maxMessage sv), sr_exceeded = False, sr_reported = False\<rparr>"

definition data_content :: "('w, 'b) session_env \<Rightarrow> ('w, 'b, commandAction) handler" where
  "data_content en =
     bind_go (net (nt_SetReadDeadline (en_net en)))
       (\<lambda>dl. view (\<lambda>s.
          case dot_SetDeadline dl (NewDotUnstuffReader (cn_reader s)) of
            Some e \<Rightarrow> fail (ErrWire e)
          | None \<Rightarrow>
              bind_go (evaluateContent en ''DATA'' (data_source (en_server en) (cn_reader s)))
                (\<lambda>(ev, src). view (\<lambda>s.
                   finishContent en (if src_exceeded src then sizeExceededEvaluation ''DATA'' s else ev)))))"

definition handleDATA :: "('w, 'b) session_env \<Rightarrow> command \<Rightarrow> ('w, 'b, commandAction) handler" where
  "handleDATA en command =
     (if cmd_Argument command \<noteq> [] then syntaxReply en ''DATA''
      else
        view (\<lambda>s.
          if cn_recipients s = [] then noRecipientsReply en
          else if cn_binaryMIME s then reply_with en (text_reply 503 (enhanced 5 5 1) ''BINARYMIME requires BDAT'') sync
          else
            seq (writeReply en (text_reply 354 no_code ''End data with <CRLF>.<CRLF>''))
            (seq (Flush en) (data_content en))))"

definition failBDAT :: "('w, 'b) session_env \<Rightarrow> spool_error \<Rightarrow> ('w, 'b, commandAction) handler" where
  "failBDAT en cause =
     seq (life_resetIfOpen en ResetFailed)
     (seq (transit eventBDATFailed)
       (if cause = errSpoolMessageTooLarge then
          reply_with en (text_reply 552 (enhanced 5 3 4) ''Message size exceeds fixed maximum message size'') no_action
        else if cause \<in> {errSpoolTotalExhausted, errSpoolMemoryExhausted, errSpoolConcurrentExhausted} then
          reply_with en (text_reply 452 (enhanced 4 3 1) ''Insufficient system storage'') no_action
        else
          seq (reportError en (RepSpool cause))
            (reply_with en (text_reply 451 (enhanced 4 3 0) ''Temporary storage failure'') no_action)))"

text \<open>Read an announced chunk from the connection into a writer.\<close>

definition read_bdat ::
  "('w, 'b) session_env \<Rightarrow> (bytes \<Rightarrow> 'x \<Rightarrow> io_error option \<times> 'x) \<Rightarrow> 64 word \<Rightarrow> 'x \<Rightarrow> ('w, 'b, wire_error option \<times> 'x) handler" where
  "read_bdat en wr sz x =
     bind_go (net (nt_SetReadDeadline (en_net en)))
       (\<lambda>dl. view (\<lambda>s.
          case ReadBDATChunk wr sz dl session_limits (cn_reader s) x of
            (err, lr, x') \<Rightarrow> seq (assign (\<lambda>s. s\<lparr>cn_reader := lr\<rparr>)) (ret (err, x'))))"

definition wire_check :: "wire_error option \<Rightarrow> ('w, 'b, unit) handler" where
  "wire_check e = (case e of None \<Rightarrow> ret () | Some x \<Rightarrow> fail (ErrWire x))"

definition discard_chunk :: "('w, 'b) session_env \<Rightarrow> 64 word \<Rightarrow> ('w, 'b, unit) handler" where
  "discard_chunk en sz = bind_go (read_bdat en Discard_Write sz ()) (\<lambda>(err, _). wire_check err)"

definition store_chunk :: "('w, 'b) session_env \<Rightarrow> 64 word \<Rightarrow> ('w, 'b, spool_error option) handler" where
  "store_chunk en sz =
     view (\<lambda>s.
       case (cn_spools s, cn_spool s) of
         (Some m, Some sp) \<Rightarrow>
           bind_go (read_bdat en (cw_Write (en_fs en)) sz \<lparr>cw_manager = m, cw_spool = sp, cw_err = None\<rparr>)
             (\<lambda>(err, w).
                seq (assign (\<lambda>s. s\<lparr>cn_spools := Some (cw_manager w), cn_spool := Some (cw_spool w)\<rparr>))
                (seq (wire_check err) (ret (cw_err w))))
       | _ \<Rightarrow> panic)"

text \<open>The last chunk is there: deliver the spool.\<close>

definition bdat_deliver :: "('w, 'b) session_env \<Rightarrow> ('w, 'b, commandAction) handler" where
  "bdat_deliver en =
     view (\<lambda>s.
       case cn_spool s of
         None \<Rightarrow> panic
       | Some sp \<Rightarrow>
           (case spool_Reader (en_fs en) sp of
              (Inl e, sp') \<Rightarrow> seq (assign (\<lambda>s. s\<lparr>cn_spool := Some sp'\<rparr>)) (failBDAT en e)
            | (Inr reader, sp') \<Rightarrow>
                seq (assign (\<lambda>s. s\<lparr>cn_spool := Some sp'\<rparr>))
                  (bind_go (evaluateContent en ''BDAT'' (SrcSpool reader)) (\<lambda>(ev, _). finishContent en ev))))"

definition bdat_chunk :: "('w, 'b) session_env \<Rightarrow> bdat_command \<Rightarrow> ('w, 'b, commandAction) handler" where
  "bdat_chunk en fr =
     bind_go (store_chunk en (bdat_Size fr))
       (\<lambda>err. case err of
          Some e \<Rightarrow> failBDAT en e
        | None \<Rightarrow>
            if \<not> bdat_Last fr then reply_with en (text_reply 250 (enhanced 2 0 0) ''BDAT chunk accepted'') no_action
            else bdat_deliver en)"

definition bdat_spooled :: "('w, 'b) session_env \<Rightarrow> bdat_command \<Rightarrow> ('w, 'b, commandAction) handler" where
  "bdat_spooled en fr =
     view (\<lambda>s.
       if cn_spool s \<noteq> None then bdat_chunk en fr
       else
         case cn_spools s of
           None \<Rightarrow> panic
         | Some m \<Rightarrow>
             (case newSpool m of
                (r, m') \<Rightarrow>
                  seq (assign (\<lambda>s. s\<lparr>cn_spools := Some m'\<rparr>))
                    (case r of
                       Inl e \<Rightarrow> seq (discard_chunk en (bdat_Size fr)) (failBDAT en e)
                     | Inr sp \<Rightarrow> seq (attachSpool en sp) (bdat_chunk en fr))))"

definition handleBDAT :: "('w, 'b) session_env \<Rightarrow> command \<Rightarrow> ('w, 'b, commandAction) handler" where
  "handleBDAT en command =
     (case ParseBDATArgument (cmd_Argument command) session_limits of
        Inl e \<Rightarrow>
          if e \<in> {ErrBDATSizeOverflow, ErrBDATChunkTooLarge} then
            reply_with en (text_reply 501 (enhanced 5 5 2) ''Invalid BDAT size'') sync_close
          else syntaxReply en ''BDAT size''
      | Inr fr \<Rightarrow>
          view (\<lambda>s.
            if \<not> cn_extended s \<or> \<not> sv_chunking (en_server en) then notImplementedReply en ''BDAT''
            else if cn_recipients s = [] \<and> ps_phase (cn_state s) \<noteq> phaseFailedBDAT then
              seq (discard_chunk en (bdat_Size fr)) (noRecipientsReply en)
            else if ps_phase (cn_state s) = phaseFailedBDAT then
              seq (discard_chunk en (bdat_Size fr))
                (reply_with en (text_reply 503 (enhanced 5 5 1) ''RSET required after failed BDAT'') no_action)
            else bdat_spooled en fr))"

section \<open>STARTTLS\<close>

definition start_tls :: "tls_state \<Rightarrow> ('w, 'b) commandSession \<Rightarrow> ('w, 'b) commandSession" where
  "start_tls t s = s\<lparr>cn_tlsState := Some t\<rparr>"

text \<open>\<open>handshakeTLS\<close> for an open connection: drop what the plaintext decoder holds, then let the peer agree.\<close>

definition handshakeTLS :: "('w, 'b) session_env \<Rightarrow> ('w, 'b, tls_state \<times> bytes list \<times> io_error) handler" where
  "handshakeTLS en =
     (if \<not> sv_tlsConfig (en_server en) then fail ErrTLSConfigRequired
      else
        view (\<lambda>s.
          case DiscardBuffered (cn_reader s) of
            (discarded, lr) \<Rightarrow>
              seq (assign (\<lambda>s. s\<lparr>cn_reader := lr\<rparr>))
              (seq (unless (discarded = 0) (reportError en (RepPrefetched discarded)))
                (bind_go (net (nt_Handshake (en_net en)))
                  (\<lambda>r. case r of Inl e \<Rightarrow> fail (ErrHandshake e) | Inr x \<Rightarrow> ret x)))))"

definition handleSTARTTLS :: "('w, 'b) session_env \<Rightarrow> command \<Rightarrow> ('w, 'b, commandAction) handler" where
  "handleSTARTTLS en command =
     (if cmd_Argument command \<noteq> [] then syntaxReply en ''STARTTLS''
      else
        view (\<lambda>s.
          if \<not> cn_extended s then notImplementedReply en ''STARTTLS''
          else if \<not> sv_tlsConfig (en_server en) then notImplementedReply en ''STARTTLS''
          else
            seq (writeReply en (text_reply 220 (enhanced 2 0 0) ''Ready to start TLS''))
            (seq (Flush en)
              (bind_go (handshakeTLS en)
                (\<lambda>(t, chunks, fin).
                   seq (assign (start_tls t))
                   (seq (life_reset en ResetStartTLS)
                   (seq (transit eventStartTLS)
                   (seq (assign (\<lambda>s. s\<lparr>cn_extended := False\<rparr>))
                   (seq clearTransaction
                   (seq (assign (\<lambda>s. s\<lparr>cn_reader := NewLineReader chunks fin, cn_writer := NewWriter\<rparr>))
                     (ret no_action)))))))))))"

section \<open>Output leaves the session alone\<close>

text \<open>Writing replies, tracing and reporting change nothing of the session but its outp.\<close>

definition output_only :: "('w, 'b) commandSession \<Rightarrow> ('w, 'b) commandSession \<Rightarrow> bool" where
  "output_only s t \<longleftrightarrow>
     t = s\<lparr>cn_world := cn_world t, cn_writer := cn_writer t, cn_trace := cn_trace t, cn_errors := cn_errors t\<rparr>"

interpretation outp: path_relation output_only
proof
  show "output_only s u" if "output_only s t" "output_only t u" for s t u :: "('w, 'b) commandSession"
    using that unfolding output_only_def by (cases s; cases t; cases u) simp
qed (simp add: output_only_def)

text \<open>The errors a session cannot get into are a panic and the ones that only a defect of its own could cause.\<close>

fun benign :: "session_error option \<Rightarrow> bool" where
  "benign None = False"
| "benign (Some (ErrTransition _ _)) = False"
| "benign (Some ErrNoProgress) = False"
| "benign (Some (ErrNoHandler _)) = False"
| "benign (Some ErrTLSConfigRequired) = False"
| "benign (Some _) = True"

abbreviation outputs :: "('w, 'b, 'a) handler \<Rightarrow> bool" where
  "outputs m \<equiv> along benign output_only m"

lemma net_output: "outputs (net f)"
  by (rule along_intro) (auto simp: net_def output_only_def split: prod.splits)

lemma io_check_output: "outputs (io_check e)"
  by (cases e) (simp_all add: io_check_def outp.path_rules outp.fail_along)

lemma SetWriteDeadline_output: "outputs (SetWriteDeadline en)"
  by (simp add: SetWriteDeadline_def outp.bind_along net_output io_check_output)

lemma reportError_output: "outputs (reportError en r)"
  unfolding reportError_def by (intro outp.path_rules outp.assign_along) (simp add: output_only_def)

lemma trace_output: "outputs (trace en d l)"
  unfolding trace_def by (intro outp.path_rules outp.assign_along) (simp add: output_only_def)

lemma bw_Flush_output: "outputs (bw_Flush en)"
proof (rule along_intro)
  fix s r t
  assume "bw_Flush en s = (r, t)"
  from bw_Flush_cases [OF this] obtain e where t: "t = s\<lparr>cn_world := cn_world t, cn_writer := cn_writer t\<rparr>" and r: "r = Ok e" by blast
  have "output_only s t" unfolding output_only_def by (subst t) (subst (3 4) t, simp)
  with r show "output_only s t \<and> (r = Panic \<longrightarrow> benign None) \<and> (\<forall>e. r = Err e \<longrightarrow> benign (Some e))" by simp
qed

lemma Flush_output: "outputs (Flush en)"
  by (simp add: Flush_def outp.bind_along bw_Flush_output io_check_output)

lemma bw_WriteString_output:
  "bw_WriteString en p s = (r, t) \<Longrightarrow> output_only s t \<and> (r = Panic \<longrightarrow> benign None) \<and> (\<forall>e. r = Err e \<longrightarrow> benign (Some e))"
proof (induction en p s arbitrary: r t rule: bw_WriteString.induct)
  case (1 en p s)
  let ?avail = "bufio_size - length (bw_buf (cn_writer s))"
  let ?s = "s\<lparr>cn_writer := (cn_writer s)\<lparr>bw_buf := bw_buf (cn_writer s) @ take ?avail p\<rparr>\<rparr>"
  have here: "output_only s ?s" "output_only s (s\<lparr>cn_writer := w\<rparr>)" for w by (simp_all add: output_only_def)
  show ?case
  proof (cases "bw_err (cn_writer s) = None \<and> \<not> length p \<le> ?avail")
    case True
    obtain r1 u where u: "Flush en ?s = (r1, u)" by (cases "Flush en ?s")
    have su: "output_only s u" by (rule outp.trans [OF here(1) alongD [OF Flush_output u]])
    from 1(2) True u have run: "(case r1 of Ok _ \<Rightarrow> bw_WriteString en (drop ?avail p) u | Err e \<Rightarrow> (Err e, u) | Panic \<Rightarrow> (Panic, u)) = (r, t)"
      by (subst (asm) bw_WriteString.simps) (simp add: Let_def bind_go_def)
    show ?thesis
    proof (cases r1)
      case (Ok a)
      with run 1(1) [OF refl refl] True u have "output_only u t \<and> (r = Panic \<longrightarrow> benign None) \<and> (\<forall>e. r = Err e \<longrightarrow> benign (Some e))"
        by simp
      with outp.trans [OF su] show ?thesis by blast
    qed (use run su u along_Panic [OF Flush_output] along_Err [OF Flush_output] in auto)
  qed (use 1(2) here(2) in \<open>auto simp: bw_WriteString.simps Let_def outp.refl split: option.splits if_splits\<close>)
qed

lemma WriteString_output: "outputs (bw_WriteString en p)"
  by (rule along_intro) (rule bw_WriteString_output)

lemma writeReply_output: "outputs (writeReply en reply)"
  unfolding writeReply_def
  by (cases "encodeWireReply reply")
    (simp_all add: outp.path_rules outp.fail_along SetWriteDeadline_output WriteString_output trace_output)

lemma reply_with_output: "outputs (reply_with en reply a)"
  by (simp add: reply_with_def outp.path_rules writeReply_output)

lemma writeResult_output: "outputs (writeResult en r)"
  by (cases "normalizeRecipientResult r") (simp add: writeResult_def outp.path_rules reportError_output writeReply_output)

lemma backendReply_output: "outputs (backendReply en c e code t)"
  unfolding backendReply_def
  by (cases e) (simp_all add: outp.path_rules reportError_output reply_with_output)

lemma replies_output:
  "outputs (syntaxReply en n)" "outputs (policyReply en n)" "outputs (notImplementedReply en n)"
  "outputs (noRecipientsReply en)"
  by (simp_all add: syntaxReply_def policyReply_def notImplementedReply_def noRecipientsReply_def reply_with_output)

lemma content_reports_output: "outputs (content_reports en ev src)"
  unfolding content_reports_def by (simp add: outp.path_rules reportError_output split: option.split)

lemma hello_reply_output: "outputs (hello_reply en h)"
  unfolding hello_reply_def Let_def
  by (simp add: outp.path_rules outp.fail_along reportError_output reply_with_output SetWriteDeadline_output WriteString_output
      trace_output split: sum.split)

lemmas output_rules = outp.path_rules net_output io_check_output SetWriteDeadline_output reportError_output trace_output
  bw_Flush_output Flush_output WriteString_output writeReply_output reply_with_output writeResult_output backendReply_output
  replies_output content_reports_output hello_reply_output

lemma output_fields:
  assumes "output_only s t"
  shows "cn_user t = cn_user s" "cn_tlsState t = cn_tlsState s" "cn_state t = cn_state s" "cn_reader t = cn_reader s"
    "cn_transactionOpen t = cn_transactionOpen s" "cn_spool t = cn_spool s" "cn_closed t = cn_closed s"
    "cn_spools t = cn_spools s" "cn_extended t = cn_extended s" "cn_smtpUTF8 t = cn_smtpUTF8 s"
    "cn_binaryMIME t = cn_binaryMIME s" "cn_recipients t = cn_recipients s" "cn_mailAttempts t = cn_mailAttempts s"
  using assms unfolding output_only_def by (cases s; cases t; simp)+

end
