(* ===== verification/Srv_Auth.thy ===== *)
theory Srv_Auth
  imports Srv_Session
begin

text \<open>
  The AUTH command (smtpserver/cmd_auth.go, authentication.go and \<open>channelBinding\<close> of floor_extensions.go): the
  exchange between the peer, the SASL responder of \<open>Sasl_Responder\<close> and the verifiers of the backend, and the point
  where an authentication is committed. The exchange is a loop; its termination proof uses that every challenge is answered
  by a line of the peer and that no step after a verification asks for another.
\<close>

section \<open>AUTH\<close>

definition channelBinding :: "(nat \<Rightarrow> nat) \<Rightarrow> tls_state option \<Rightarrow> bytes \<Rightarrow> backend_error + bytes" where
  "channelBinding upr t mechanism =
     (if \<not> HasSuffix (ToUpper upr mechanism) ''-PLUS'' then Inr []
      else case t of
        None \<Rightarrow> Inl (OtherError 0)
      | Some x \<Rightarrow> (case tls_Export x of Inl e \<Rightarrow> Inl (OtherError e) | Inr k \<Rightarrow> Inr k))"

text \<open>\<open>decodeSASLResponse\<close>: \<open>None\<close> where the text is not base64 or too long.\<close>

definition decodeSASLResponse :: "bytes \<Rightarrow> bytes option" where
  "decodeSASLResponse v =
     (if v = ''='' \<or> v = [] then Some []
      else if v = ''*'' then Some ''*''
      else case StdEncoding_DecodeString v of
        None \<Rightarrow> None
      | Some d \<Rightarrow> if int (length d) > maxResponderPayload then None else Some d)"

text \<open>\<open>json.Marshal\<close> of a string: quotes and backslashes, control octets, the characters that are special in HTML and
  the two line separators are escaped; an octet that is not UTF-8 becomes the replacement character.\<close>

definition hex_digit :: "nat \<Rightarrow> char" where
  "hex_digit n = ''0123456789abcdef'' ! (n mod 16)"

definition json_unicode :: "nat \<Rightarrow> bytes" where
  "json_unicode n = [BSLASH] @ ''u'' @ map (\<lambda>k. hex_digit (n div 16 ^ k)) [3, 2, 1, 0]"

definition json_rune :: "nat \<times> bytes \<Rightarrow> bytes" where
  "json_rune x =
     (let r = fst x in
      if r = byte DQUOTE \<or> r = byte BSLASH then [BSLASH, char_of r]
      else if r = 8 then [BSLASH] @ ''b'' else if r = 12 then [BSLASH] @ ''f'' else if r = 10 then [BSLASH] @ ''n''
      else if r = 13 then [BSLASH] @ ''r'' else if r = 9 then [BSLASH] @ ''t''
      else if r < 32 \<or> r \<in> set (map of_char ''<>&'') \<or> r = 0x2028 \<or> r = 0x2029 \<or> (r = RuneError \<and> length (snd x) = 1)
      then json_unicode r
      else snd x)"

definition json_string :: "bytes \<Rightarrow> bytes" where
  "json_string s = [DQUOTE] @ concat (map json_rune (runes s)) @ [DQUOTE]"

definition json_oauth :: "OAuthError \<Rightarrow> bytes" where
  "json_oauth e =
     ''{'' @ json_string ''openid-configuration'' @ '':'' @ json_string (oa_OpenIDConfiguration e) @ '','' @
     json_string ''scope'' @ '':'' @ json_string (oa_Scope e) @ '','' @ json_string ''status'' @ '':'' @
     json_string (oa_Status e) @ ''}''"

definition authVerification :: "AuthResult option \<Rightarrow> Verification" where
  "authVerification result =
     (case result of
        None \<Rightarrow> \<lparr>vf_Accepted = False, vf_FailureChallenge = None, vf_Keys = None\<rparr>
      | Some r \<Rightarrow>
          \<lparr>vf_Accepted = (ar_Failure r = None),
           vf_FailureChallenge = map_option json_oauth (Option.bind (ar_Failure r) af_OAuth), vf_Keys = None\<rparr>)"

text \<open>What a verifier answered: a missing result is a violation of the contract, \<open>OtherError 0\<close>.\<close>

definition verified :: "backend_error + AuthResult option \<Rightarrow> backend_error + Verification \<times> AuthResult" where
  "verified r =
     (case r of
        Inl e \<Rightarrow> Inl e
      | Inr None \<Rightarrow> Inl (OtherError 0)
      | Inr (Some result) \<Rightarrow> Inr (authVerification (Some result), result))"

definition verified_keys :: "backend_error + SCRAMKeys option \<Rightarrow> backend_error + Verification \<times> AuthResult" where
  "verified_keys r =
     (case r of
        Inl e \<Rightarrow> Inl e
      | Inr None \<Rightarrow> Inl (OtherError 0)
      | Inr (Some keys) \<Rightarrow>
          let v = authVerification (Some (sk_Result keys)) in
          Inr (if vf_Accepted v then
                 v\<lparr>vf_Keys := Some \<lparr>ss_Salt = sk_Salt keys, ss_Iterations = sk_Iterations keys, ss_StoredKey = sk_StoredKey keys,
                                    ss_ServerKey = sk_ServerKey keys\<rparr>\<rparr>
               else v,
               sk_Result keys))"

definition server_credentials :: "VerificationRequest \<Rightarrow> tls_state option \<Rightarrow> Credentials" where
  "server_credentials q t =
     (let c = vr_Credentials q in
      \<lparr>cr_Mechanism = vr_Mechanism q, cr_AuthenticationID = sa_AuthenticationID c, cr_AuthorizationID = sa_AuthorizationID c,
       cr_Password = sa_Password c, cr_Token = sa_Token c, cr_TLS = t\<rparr>)"

definition verifyAUTH ::
  "('w, 'b) session_env \<Rightarrow> VerificationRequest \<Rightarrow> ('w, 'b, backend_error + Verification \<times> AuthResult) handler" where
  "verifyAUTH en q =
     view (\<lambda>s.
       case vr_Kind q of
         VerifyCredentials \<Rightarrow>
           (case se_Authenticate (en_backend en) of
              None \<Rightarrow> ret (Inl (OtherError 0))
            | Some f \<Rightarrow> bind_go (invoke (f (server_credentials q (cn_tlsState s)))) (\<lambda>r. ret (verified r)))
       | VerifyChallengeResponse \<Rightarrow>
           (case se_ChallengeResponse (en_backend en) of
              None \<Rightarrow> ret (Inl (OtherError 0))
            | Some f \<Rightarrow>
                bind_go (invoke (f \<lparr>ch_Mechanism = vr_Mechanism q, ch_Challenge = vr_Challenge q, ch_Response = vr_Response q\<rparr>))
                  (\<lambda>r. ret (verified r)))
       | VerifySCRAMKeys \<Rightarrow>
           (case se_SCRAMCredentials (en_backend en) of
              None \<Rightarrow> ret (Inl (OtherError 0))
            | Some f \<Rightarrow>
                bind_go (invoke (f ((server_credentials q (cn_tlsState s))\<lparr>cr_Password := [], cr_Token := []\<rparr>)))
                  (\<lambda>r. ret (verified_keys r))))"

section \<open>The AUTH exchange\<close>

definition authFailure :: "('w, 'b) session_env \<Rightarrow> AuthResult option \<Rightarrow> ('w, 'b, commandAction) handler" where
  "authFailure en result =
     (let text = ''Authentication credentials invalid'' in
      reply_with en
        (case Option.bind (Option.bind result ar_Failure) af_Err of
           Some e \<Rightarrow> errorReply (ProtocolError e) 535 text
         | None \<Rightarrow> text_reply 535 (enhanced 5 7 8) text)
        sync)"

definition authExchangeError :: "('w, 'b) session_env \<Rightarrow> sasl_error \<Rightarrow> ('w, 'b, commandAction) handler" where
  "authExchangeError en e =
     (if e = ErrResponderAborted \<or> e = ErrResponderPayload then
        reply_with en (text_reply 501 (enhanced 5 5 2) ''Authentication exchange cancelled or malformed'') sync
      else if e = SaslPanic then panic
      else fail (ErrSasl e))"

text \<open>\<open>finalizeAuthentication\<close>; a violation of the contract is \<open>OtherError 0\<close>.\<close>

definition finalizeAuthentication ::
  "('w, 'b) session_env \<Rightarrow> AuthResult option \<Rightarrow> backend_error option \<Rightarrow> bool \<Rightarrow> ('w, 'b, backend_error + AuthResult) handler" where
  "finalizeAuthentication en result verificationErr exchangeComplete =
     (case verificationErr of
        Some e \<Rightarrow> ret (Inl e)
      | None \<Rightarrow>
          (case result of
             None \<Rightarrow> ret (Inl (OtherError 0))
           | Some r \<Rightarrow>
               if ar_Failure r \<noteq> None \<or> \<not> exchangeComplete then ret (Inr r)
               else
                 case se_CommitAuth (en_backend en) of
                   None \<Rightarrow> ret (Inl (OtherError 0))
                 | Some f \<Rightarrow> seq (invoke (\<lambda>b. ((), f r b))) (ret (Inr r))))"

text \<open>The end of the loop: no verification and no challenge.\<close>

definition auth_done ::
  "('w, 'b) session_env \<Rightarrow> ResponderStep \<Rightarrow> AuthResult option \<Rightarrow> ('w, 'b, commandAction) handler" where
  "auth_done en step authoritative =
     (if \<not> st_Done step then fail ErrNoProgress
      else if \<not> st_Accepted step then authFailure en authoritative
      else
        bind_go (finalizeAuthentication en authoritative None True)
          (\<lambda>r. case r of
             Inl _ \<Rightarrow>
               seq (reportError en RepAuthContract)
                 (reply_with en (text_reply 454 (enhanced 4 7 0) ''Temporary authentication failure'') sync)
           | Inr _ \<Rightarrow>
               seq (transit eventAuthenticated)
                 (reply_with en (text_reply 235 (enhanced 2 7 0) ''Authentication successful'') sync)))"

text \<open>One challenge and the line that answers it, or the action after a line that is too long.\<close>

definition auth_round :: "('w, 'b) session_env \<Rightarrow> bytes \<Rightarrow> ('w, 'b, commandAction + bytes) handler" where
  "auth_round en challenge =
     seq (writeReply en (text_reply 334 no_code (StdEncoding_EncodeToString challenge)))
     (seq (Flush en)
       (bind_go (net (nt_SetReadDeadline (en_net en)))
         (\<lambda>dl. view (\<lambda>s.
            case ReadSASLResponse dl session_limits (cn_reader s) of
              (r, lr) \<Rightarrow>
                seq (assign (\<lambda>s. s\<lparr>cn_reader := lr\<rparr>))
                  (case r of
                     Inl e \<Rightarrow>
                       if e = ErrCommandLineTooLong then
                         bind_go (reply_with en (text_reply 500 (enhanced 5 5 6) ''Authentication exchange line is too long'') sync_close)
                           (\<lambda>a. ret (Inl a))
                       else fail (ErrWire e)
                   | Inr line \<Rightarrow> seq (trace en TraceReceived ''<redacted>'') (ret (Inr line)))))))"

lemma readCommandLine_le:
  assumes "readCommandLine m lr = (r, lr')" "0 \<le> m"
  shows "length (lr_stream lr') \<le> length (lr_stream lr)"
proof -
  have "length (snd (command_line_spec m st fin)) \<le> length st" for st fin
    by (auto simp: command_line_spec_def Cut_def split: prod.splits) (metis diff_le_self le_trans length_dropWhile_le length_tl)
  then show ?thesis using readCommandLine_spec [OF assms(2), of lr] assms(1) by (metis snd_conv)
qed

lemma readCommandLine_less:
  "readCommandLine m lr = (Inr line, lr') \<Longrightarrow> 0 \<le> m \<Longrightarrow> length (lr_stream lr') < length (lr_stream lr)"
  using readCommandLine_Inr [of m lr line lr'] by simp

lemma session_bounds:
  "0 \<le> MaxSASLResponseLength (withDefaults lim)" "0 \<le> MaxCommandLineLength (withDefaults lim)"
  by (simp_all add: withDefaults_def DefaultLimits_def)

lemma ReadSASLResponse_less:
  "ReadSASLResponse dl lim lr = (Inr line, lr') \<Longrightarrow> length (lr_stream lr') < length (lr_stream lr)"
  by (auto simp: ReadSASLResponse_def session_bounds dest!: readCommandLine_less split: option.splits prod.splits sum.splits if_splits)

lemma auth_round_less:
  assumes "auth_round en challenge s = (Ok (Inr line), t)"
  shows "length (lr_stream (cn_reader t)) < length (lr_stream (cn_reader s))"
proof -
  from assms obtain u v dl w where u: "writeReply en (text_reply 334 no_code (StdEncoding_EncodeToString challenge)) s = (Ok (), u)"
    "Flush en u = (Ok (), v)" "net (nt_SetReadDeadline (en_net en)) v = (Ok dl, w)"
    and rest: "(case ReadSASLResponse dl session_limits (cn_reader w) of
              (r, lr) \<Rightarrow>
                seq (assign (\<lambda>s. s\<lparr>cn_reader := lr\<rparr>))
                  (case r of
                     Inl e \<Rightarrow>
                       if e = ErrCommandLineTooLong then
                         bind_go (reply_with en (text_reply 500 (enhanced 5 5 6) ''Authentication exchange line is too long'') sync_close)
                           (\<lambda>a. ret (Inl a))
                       else fail (ErrWire e)
                   | Inr line \<Rightarrow> seq (trace en TraceReceived ''<redacted>'') (ret (Inr line)))) w = (Ok (Inr line), t)"
    by (auto simp: auth_round_def seq_def bind_go_eq view_def)
  have su: "cn_reader w = cn_reader s"
    using output_fields(4) [OF alongD [OF writeReply_output u(1)]] output_fields(4) [OF alongD [OF Flush_output u(2)]]
      output_fields(4) [OF alongD [OF net_output u(3)]] by simp
  obtain r lr where read: "ReadSASLResponse dl session_limits (cn_reader w) = (r, lr)" by (cases "ReadSASLResponse dl session_limits (cn_reader w)")
  with rest obtain line' where r: "r = Inr line'"
    by (cases r) (auto simp: seq_def bind_go_eq ret_def fail_def split: if_splits)
  with rest read have "trace en TraceReceived ''<redacted>'' (w\<lparr>cn_reader := lr\<rparr>) = (Ok (), t)"
    by (auto simp: seq_def bind_go_eq ret_def assign_def)
  from output_fields(4) [OF alongD [OF trace_output this]] have "cn_reader t = lr" by simp
  with ReadSASLResponse_less read r su show ?thesis by simp
qed


lemma Continue_no_verification: "Continue rnd v r = (Inr step, r') \<Longrightarrow> st_Verification step = None"
  by (auto simp: Continue_def Let_def finish_def await_def refuse_def challengeStep_def no_step_def scramServerFirst_def
      split: responderState.splits option.splits if_splits)

lemma verifyAUTH_reader: "verifyAUTH en q s = (r, t) \<Longrightarrow> cn_reader t = cn_reader s"
  by (auto simp: verifyAUTH_def view_def invoke_def bind_go_def ret_def split: VerificationKind.splits option.splits prod.splits)

function auth_loop ::
  "('w, 'b) session_env \<Rightarrow> Responder \<Rightarrow> ResponderStep \<Rightarrow> AuthResult option \<Rightarrow> ('w, 'b, commandAction) handler" where
  "auth_loop en responder step authoritative s =
     (case st_Verification step of
        Some q \<Rightarrow>
          bind_go (verifyAUTH en q)
            (\<lambda>r t. case r of
               Inl err \<Rightarrow> backendReply en ''AUTH'' err 454 ''Temporary authentication failure'' t
             | Inr (verification, result) \<Rightarrow>
                 (case Continue (nt_Rand (en_net en) (cn_world t)) verification responder of
                    (Inl e, _) \<Rightarrow> authExchangeError en e t
                  | (Inr step', responder') \<Rightarrow> auth_loop en responder' step' (Some result) t)) s
      | None \<Rightarrow>
          (case st_Challenge step of
             Some challenge \<Rightarrow>
               bind_go (auth_round en challenge)
                 (\<lambda>r t. case r of
                    Inl action \<Rightarrow> ret action t
                  | Inr line \<Rightarrow>
                      (case decodeSASLResponse line of
                         None \<Rightarrow> fail ErrSASLResponse t
                       | Some response \<Rightarrow>
                           (case Next response responder of
                              (Inl e, _) \<Rightarrow> authExchangeError en e t
                            | (Inr step', responder') \<Rightarrow> auth_loop en responder' step' authoritative t))) s
           | None \<Rightarrow> auth_done en step authoritative s))"
  by pat_completeness auto
termination
proof (relation "measure (\<lambda>(en, r, step, a, s).
    2 * length (lr_stream (cn_reader s)) + (if st_Verification step \<noteq> None then 1 else 0))", goal_cases)
  case 2
  then show ?case by (auto dest!: auth_round_less)
next
  case 3
  then show ?case by (auto dest!: Continue_no_verification [OF sym] verifyAUTH_reader)
qed simp

declare auth_loop.simps [simp del]

definition handleAUTH :: "('w, 'b) session_env \<Rightarrow> command \<Rightarrow> ('w, 'b, commandAction) handler" where
  "handleAUTH en command =
     (let fs = Fields (cmd_Argument command) in
      if length fs < 1 \<or> length fs > 2 then syntaxReply en ''AUTH mechanism and initial response''
      else
        view (\<lambda>s.
          let mechanism = ToUpper (en_upr en) (fs ! 0) in
          if \<not> containsFold (session_mechanisms en s) mechanism then
            reply_with en (text_reply 504 (enhanced 5 5 4) ''Unsupported authentication mechanism'') sync
          else
            case channelBinding (en_upr en) (cn_tlsState s) mechanism of
              Inl err \<Rightarrow> backendReply en ''AUTH'' err 454 ''Temporary authentication failure''
            | Inr binding \<Rightarrow>
                (case NewResponder (en_upr en) mechanism
                        \<lparr>rc_Hostname = sv_identity (en_server en), rc_CRAMChallenge = None, rc_ChannelBinding = binding, rc_testNonce = []\<rparr> of
                   Inl _ \<Rightarrow> backendReply en ''AUTH'' (OtherError 0) 454 ''Temporary authentication failure''
                 | Inr responder \<Rightarrow>
                     if length fs = 2 \<and> decodeSASLResponse (fs ! 1) = None then syntaxReply en ''AUTH initial response''
                     else
                       let initial = (if length fs = 2 then decodeSASLResponse (fs ! 1) else None) in
                       case Start (nt_Rand (en_net en) (cn_world s)) initial responder of
                         (Inl e, _) \<Rightarrow> authExchangeError en e
                       | (Inr step, responder') \<Rightarrow> auth_loop en responder' step None)))"

end
