(* ===== verification/Srv_Loop.thy ===== *)
theory Srv_Loop
  imports Srv_Auth
begin

text \<open>
  From a command line to its handler and from a connection to its end: the ATRN command (smtpserver/ext_atrn.go),
  \<open>execute\<close> and the handler of read errors (cmd_session.go), the command loop (loop.go), and \<open>serveConnection\<close> with
  \<open>newCommandSession\<close> (cmd_server.go). The loop takes the number of commands it may run as fuel; \<open>None\<close> means that the
  fuel did not suffice.
\<close>

section \<open>ATRN\<close>

definition validATRNLabel :: "bytes \<Rightarrow> bool" where
  "validATRNLabel label \<longleftrightarrow>
     label \<noteq> [] \<and> hd label \<noteq> CHR ''-'' \<and> last label \<noteq> CHR ''-'' \<and> list_all (\<lambda>c. is_alnum c \<or> c = CHR ''-'') label"

definition validATRNDomain :: "bytes \<Rightarrow> bool" where
  "validATRNDomain domain \<longleftrightarrow>
     (let labels = Split domain (CHR ''.'') in length labels \<ge> 2 \<and> list_all validATRNLabel labels)"

text \<open>\<open>parseATRNDomains\<close>: \<open>None\<close> is a syntax error, the empty list stands for all domains.\<close>

definition parseATRNDomains :: "bytes \<Rightarrow> bytes list option" where
  "parseATRNDomains argument =
     (if argument = [] then Some []
      else if ContainsAny argument [SP, TAB, CR, LF, NUL] then None
      else
        let parts = Split argument (CHR '','') in
        if list_all validATRNDomain parts then Some parts else None)"

definition atrn_text :: bytes where
  "atrn_text = ''Unable to process ATRN request now''"

definition atrn_takeover :: "('w, 'b) session_env \<Rightarrow> ('b \<Rightarrow> backend_error option \<times> 'b) \<Rightarrow> ('w, 'b, commandAction) handler" where
  "atrn_takeover en takeover =
     seq (writeReply en (text_reply 250 (enhanced 2 0 0) ''OK, reversing the connection''))
     (seq (Flush en)
       (bind_go (invoke takeover)
         (\<lambda>err. seq (case err of None \<Rightarrow> ret () | Some e \<Rightarrow> reportError en (RepTakeover e)) (ret sync_close))))"

definition handleATRN :: "('w, 'b) session_env \<Rightarrow> command \<Rightarrow> ('w, 'b, commandAction) handler" where
  "handleATRN en command =
     (case parseATRNDomains (cmd_Argument command) of
        None \<Rightarrow> syntaxReply en ''ATRN domains''
      | Some domains \<Rightarrow>
          view (\<lambda>s.
            if \<not> ps_authenticated (cn_state s) then
              reply_with en (text_reply 530 (enhanced 5 7 0) ''Authentication required'') sync
            else
              case se_ATRN (en_backend en) of
                None \<Rightarrow> notImplementedReply en ''ATRN''
              | Some f \<Rightarrow>
                  if Buffered (cn_reader s) \<noteq> 0 then
                    seq (reportError en RepATRNPrefetched)
                      (reply_with en (text_reply 554 (enhanced 5 5 0) ''ATRN must not be pipelined'') sync_close)
                  else
                    bind_go (invoke (f domains))
                      (\<lambda>r. case r of
                         Inl err \<Rightarrow> backendReply en ''ATRN'' err 451 atrn_text
                       | Inr result \<Rightarrow>
                           (case Option.bind result at_Takeover of
                              None \<Rightarrow> seq (reportError en RepNoTakeover) (backendReply en ''ATRN'' (OtherError 0) 451 atrn_text)
                            | Some takeover \<Rightarrow> atrn_takeover en takeover))))"

definition executeExtensionCommand :: "('w, 'b) session_env \<Rightarrow> command \<Rightarrow> ('w, 'b, commandAction) handler" where
  "executeExtensionCommand en command =
     (if ToUpper (en_upr en) (cmd_Verb command) = ''ATRN'' then handleATRN en command
      else fail (ErrNoHandler (cmd_Verb command)))"

section \<open>Commands\<close>

definition traceCommand :: "('w, 'b) session_env \<Rightarrow> bytes \<Rightarrow> bytes \<Rightarrow> ('w, 'b, unit) handler" where
  "traceCommand en verb argument =
     trace en TraceReceived
       (if argument = [] then verb
        else if verb = ''AUTH'' then verb @ '' '' @ fst (Cut argument SP) @ '' <redacted>''
        else verb @ '' '' @ argument)"

definition dispatch :: "('w, 'b) session_env \<Rightarrow> bytes \<Rightarrow> command \<Rightarrow> ('w, 'b, commandAction) handler" where
  "dispatch en verb command =
     (if verb \<in> {''HELO'', ''EHLO'', ''LHLO''} then handleHello en command
      else if verb = ''MAIL'' then handleMail en command
      else if verb = ''RCPT'' then handleRcpt en command
      else if verb = ''DATA'' then handleDATA en command
      else if verb = ''BDAT'' then handleBDAT en command
      else if verb = ''RSET'' then handleRSET en command
      else if verb = ''NOOP'' then handleNOOP en command
      else if verb = ''QUIT'' then handleQUIT en command
      else if verb = ''VRFY'' then handleVRFY en command
      else if verb = ''EXPN'' then handleEXPN en command
      else if verb = ''HELP'' then handleHELP en command
      else if verb = ''ETRN'' then handleETRN en command
      else if verb = ''STARTTLS'' then handleSTARTTLS en command
      else if verb = ''AUTH'' then handleAUTH en command
      else executeExtensionCommand en command)"

definition checked :: "('w, 'b) session_env \<Rightarrow> bytes \<Rightarrow> command \<Rightarrow> ('w, 'b, commandAction) handler" where
  "checked en verb command =
     view (\<lambda>s.
       case legality (en_upr en) (cn_state s) verb of
         commandUnknown \<Rightarrow> reply_with en (text_reply 500 (enhanced 5 5 1) ''Command unrecognized'') sync
       | commandWrongMode \<Rightarrow>
           reply_with en (text_reply 500 (enhanced 5 5 1) ''Command unavailable in this protocol mode'')
             (sync_if (synchronizationPoint verb))
       | commandWrongState \<Rightarrow>
           reply_with en (text_reply 503 (enhanced 5 5 1) ''Bad sequence of commands'') (sync_if (synchronizationPoint verb))
       | commandAllowed \<Rightarrow> dispatch en verb command)"

definition execute :: "('w, 'b) session_env \<Rightarrow> command \<Rightarrow> ('w, 'b, commandAction) handler" where
  "execute en command =
     (let verb = ToUpper (en_upr en) (cmd_Verb command) in
      seq (traceCommand en verb (cmd_Argument command))
        (if verb = ''MAIL'' then
           seq (assign (\<lambda>s. s\<lparr>cn_mailAttempts := cn_mailAttempts s + 1\<rparr>))
             (view (\<lambda>s.
                if cn_mailAttempts s > en_maxTransactions en then
                  reply_with en (text_reply 421 (enhanced 4 7 0) ''Transaction limit reached'') sync_close
                else checked en verb command))
         else checked en verb command))"

definition isFramedCommandSyntaxError :: "wire_error \<Rightarrow> bool" where
  "isFramedCommandSyntaxError e \<longleftrightarrow> e \<in> {ErrCommandEmpty, ErrCommandVerbSyntax, ErrCommandArgumentControl}"

text \<open>\<open>handleCommandReadError\<close>: \<open>None\<close> where the error is not handled.\<close>

definition handleCommandReadError :: "('w, 'b) session_env \<Rightarrow> wire_error \<Rightarrow> ('w, 'b, commandAction option) handler" where
  "handleCommandReadError en cause =
     view (\<lambda>s.
       if cn_spool s = None \<or> \<not> isFramedCommandSyntaxError cause then ret None
       else
         seq (life_resetIfOpen en ResetFailed)
         (seq (transit eventBDATFailed)
         (seq (writeReply en (text_reply 500 (enhanced 5 5 2) ''Command syntax error after BDAT''))
           (ret (Some sync)))))"

section \<open>The loop\<close>

definition loop_Flush :: "('w, 'b) session_env \<Rightarrow> (io_error \<Rightarrow> session_error) \<Rightarrow> ('w, 'b, unit) handler" where
  "loop_Flush en wrap = bind_go (bw_Flush en) (\<lambda>e. case e of None \<Rightarrow> ret () | Some x \<Rightarrow> fail (wrap x))"

definition after_action :: "('w, 'b) session_env \<Rightarrow> commandAction \<Rightarrow> ('w, 'b, bool) handler" where
  "after_action en a =
     seq (unless (\<not> (ca_synchronizationPoint a \<or> ca_closeConnection a)) (loop_Flush en ErrFlushReply))
       (ret (\<not> ca_closeConnection a))"

definition after_read :: "('w, 'b) session_env \<Rightarrow> wire_error + command \<Rightarrow> ('w, 'b, bool) handler" where
  "after_read en r =
     (case r of
        Inr command \<Rightarrow> bind_go (execute en command) (after_action en)
      | Inl e \<Rightarrow>
          if e = IO EOF then ret False
          else
            bind_go (handleCommandReadError en e)
              (\<lambda>h. case h of None \<Rightarrow> fail (ErrReadCommand e) | Some a \<Rightarrow> after_action en a))"

definition read_command :: "('w, 'b) session_env \<Rightarrow> ('w, 'b, wire_error + command) handler" where
  "read_command en =
     bind_go (net (nt_SetReadDeadline (en_net en)))
       (\<lambda>dl. view (\<lambda>s.
          case ReadCommand dl session_limits (cn_reader s) of
            (r, lr) \<Rightarrow> seq (assign (\<lambda>s. s\<lparr>cn_reader := lr\<rparr>)) (ret r)))"

text \<open>One round of the loop: does it go on?\<close>

definition iteration :: "('w, 'b) session_env \<Rightarrow> ('w, 'b, bool) handler" where
  "iteration en =
     view (\<lambda>s.
       case nt_ctxErr (en_net en) (cn_world s) of
         Some e \<Rightarrow> fail (ErrContext e)
       | None \<Rightarrow>
           seq (unless (Buffered (cn_reader s) \<noteq> 0) (loop_Flush en ErrFlushBeforeRead))
             (bind_go (read_command en) (after_read en)))"

fun run :: "nat \<Rightarrow> ('w, 'b) session_env \<Rightarrow> ('w, 'b) commandSession \<Rightarrow>
    ((session_error, unit) outcome \<times> ('w, 'b) commandSession) option" where
  "run 0 en s = None"
| "run (Suc n) en s =
     (case iteration en s of
        (Ok True, t) \<Rightarrow> run n en t
      | (Ok False, t) \<Rightarrow> Some (Ok (), t)
      | (Err e, t) \<Rightarrow> Some (Err e, t)
      | (Panic, t) \<Rightarrow> Some (Panic, t))"

section \<open>Serving a connection\<close>

fun session_io :: "session_error \<Rightarrow> io_error option" where
  "session_io (ErrIO e) = Some e"
| "session_io (ErrWire (IO e)) = Some e"
| "session_io (ErrHandshake e) = Some e"
| "session_io (ErrFlushBeforeRead e) = Some e"
| "session_io (ErrFlushReply e) = Some e"
| "session_io (ErrReadCommand (IO e)) = Some e"
| "session_io (ErrContent (DrainFailed (CWire (IO e)))) = Some e"
| "session_io _ = None"

text \<open>Errors that end a connection silently: \<open>context.Canceled\<close> and \<open>net.ErrClosed\<close>.\<close>

definition quiet :: "'w net_ops \<Rightarrow> session_error \<Rightarrow> bool" where
  "quiet nt e \<longleftrightarrow> e = ErrContext Canceled \<or> (case session_io e of None \<Rightarrow> False | Some x \<Rightarrow> nt_Quiet nt x)"

definition effectiveMaxTransactions :: "Server \<Rightarrow> 'b Session \<Rightarrow> int" where
  "effectiveMaxTransactions sv se =
     (case se_Limits se of
        None \<Rightarrow> sv_maxTransactions sv
      | Some l \<Rightarrow>
          if lm_MailMax l \<noteq> 0 \<and> uint (lm_MailMax l) < sv_maxTransactions sv then uint (lm_MailMax l) else sv_maxTransactions sv)"

text \<open>The backend session with the limit that is in force, which is also the one that is advertised.\<close>

definition effectiveBackend :: "Server \<Rightarrow> 'b Session \<Rightarrow> 'b Session" where
  "effectiveBackend sv se =
     se\<lparr>se_Limits := map_option (\<lambda>l. l\<lparr>lm_MailMax := word_of_int (effectiveMaxTransactions sv se)\<rparr>) (se_Limits se)\<rparr>"

definition new_env :: "(nat \<Rightarrow> nat) \<Rightarrow> Server \<Rightarrow> 'w net_ops \<Rightarrow> fs_ops \<Rightarrow> 'b Session \<Rightarrow> ('w, 'b) session_env" where
  "new_env upr sv nt fs se =
     \<lparr>en_upr = upr, en_server = sv, en_backend = effectiveBackend sv se, en_maxTransactions = effectiveMaxTransactions sv se,
      en_net = nt, en_fs = fs\<rparr>"

definition newCommandSession ::
  "Server \<Rightarrow> tls_state option \<Rightarrow> bytes list \<Rightarrow> io_error \<Rightarrow> spoolManager option \<Rightarrow> 'w \<Rightarrow> 'b \<Rightarrow> ('w, 'b) commandSession" where
  "newCommandSession sv t chunks fin spools w b =
     \<lparr>cn_world = w, cn_user = b, cn_tlsState = t,
      cn_state = (newProtocolState (sv_mode sv))\<lparr>ps_tls := (t \<noteq> None)\<rparr>,
      cn_reader = NewLineReader chunks fin, cn_writer = NewWriter, cn_transactionOpen = False, cn_spool = None,
      cn_closed = False, cn_spools = spools, cn_extended = False, cn_smtpUTF8 = False, cn_binaryMIME = False,
      cn_recipients = [], cn_mailAttempts = 0, cn_trace = [], cn_errors = []\<rparr>"

definition greeting :: "('w, 'b) session_env \<Rightarrow> ('w, 'b, unit) handler" where
  "greeting en =
     seq (writeReply en
           ((text_reply 220 no_code (sv_identity (en_server en) @ '' Service ready''))\<lparr>wr_context := ReplyContextGreeting\<rparr>))
       (Flush en)"

text \<open>From the greeting to the deferred \<open>close\<close>: an error is reported unless it is a quiet one of the loop, a panic is
  recovered and reported.\<close>

definition session_outcome ::
  "('w, 'b) session_env \<Rightarrow> bool \<Rightarrow> (session_error, unit) outcome \<times> ('w, 'b) commandSession \<Rightarrow> ('w, 'b) commandSession" where
  "session_outcome en loop x =
     (case x of (r, t) \<Rightarrow>
        let u = (case r of
                   Ok _ \<Rightarrow> t
                 | Err e \<Rightarrow> if loop \<and> quiet (en_net en) e then t else snd (reportError en (RepError e) t)
                 | Panic \<Rightarrow> snd (reportError en RepPanic t)) in
        snd (session_close en u))"

definition serve_session ::
  "nat \<Rightarrow> ('w, 'b) session_env \<Rightarrow> ('w, 'b) commandSession \<Rightarrow> ('w, 'b) commandSession option" where
  "serve_session n en s =
     (case greeting en s of
        (Ok _, t) \<Rightarrow> map_option (session_outcome en True) (run n en t)
      | x \<Rightarrow> Some (session_outcome en False x))"

record ('w, 'b) served =
  sd_world :: 'w
  sd_user :: 'b
  sd_spools :: "spoolManager option"
  sd_errors :: "report list"

definition reports :: "Server \<Rightarrow> report \<Rightarrow> report list" where
  "reports sv r = (if sv_errorLog sv then [r] else [])"

definition writeGreetingError :: "'w net_ops \<Rightarrow> backend_error \<Rightarrow> 'w \<Rightarrow> 'w" where
  "writeGreetingError nt err w =
     (let reply = (errorReply err 421 ''Service not available'')\<lparr>wr_context := ReplyContextGreeting\<rparr>;
          w' = snd (nt_SetWriteDeadline nt w) in
      case encodeWireReply reply of Inl _ \<Rightarrow> w' | Inr octets \<Rightarrow> snd (nt_Write nt octets w'))"

definition service_error :: "EnhancedCode \<Rightarrow> backend_error" where
  "service_error e =
     ProtocolError \<lparr>se_Code = 421, se_Enhanced = e, se_Text = ''Service not available'', se_Command = [], se_Err = None\<rparr>"

text \<open>The TLS handshake before the session, where the listener has implicit TLS.\<close>

definition implicit_handshake ::
  "Server \<Rightarrow> 'w net_ops \<Rightarrow> bytes list \<Rightarrow> io_error \<Rightarrow> 'w \<Rightarrow> (session_error + tls_state option \<times> bytes list \<times> io_error) \<times> 'w" where
  "implicit_handshake sv nt chunks fin w =
     (if \<not> sv_implicitTLS sv then (Inr (None, chunks, fin), w)
      else if \<not> sv_tlsConfig sv then (Inl ErrTLSConfigRequired, w)
      else
        case nt_Handshake nt w of
          (Inl e, w') \<Rightarrow> (Inl (ErrHandshake e), w')
        | (Inr (t, cs, f), w') \<Rightarrow> (Inr (Some t, cs, f), w'))"

text \<open>The part of \<open>serveConnection\<close> before the session: the connection is over, or there is a session to serve.\<close>

definition open_session ::
  "(nat \<Rightarrow> nat) \<Rightarrow> Server \<Rightarrow> 'w net_ops \<Rightarrow> fs_ops \<Rightarrow> (tls_state option \<Rightarrow> ('b, 'b Session option) callback) \<Rightarrow>
   spoolManager option \<Rightarrow> bytes list \<Rightarrow> io_error \<Rightarrow> 'w \<Rightarrow> 'b \<Rightarrow>
   ('w, 'b) served + ('w, 'b) session_env \<times> ('w, 'b) commandSession" where
  "open_session upr sv nt fs newSession spools chunks0 fin0 w0 b0 =
     (let over = (\<lambda>w b errors. Inl \<lparr>sd_world = w, sd_user = b, sd_spools = spools, sd_errors = errors\<rparr>) in
      case implicit_handshake sv nt chunks0 fin0 w0 of
        (Inl e, w) \<Rightarrow> over w b0 (reports sv (RepError e))
      | (Inr (t, chunks, fin), w) \<Rightarrow>
          (case newSession t b0 of
             (Inl err, b) \<Rightarrow> over (writeGreetingError nt err w) b []
           | (Inr session, b) \<Rightarrow>
               (case (validateSession upr session, session) of
                  (Some problem, _) \<Rightarrow>
                    over (writeGreetingError nt (service_error no_code) w)
                      (case Option.bind session se_Close of None \<Rightarrow> b | Some f \<Rightarrow> f b) (reports sv (RepSession problem))
                | (None, None) \<Rightarrow> over w b []
                | (None, Some se) \<Rightarrow>
                    if sv_requireAuth sv \<and> \<not> authReachable upr sv se t then
                      over (writeGreetingError nt (service_error (enhanced 4 3 0)) w)
                        (case se_Close se of None \<Rightarrow> b | Some f \<Rightarrow> f b) (reports sv RepAuthContract)
                    else Inr (new_env upr sv nt fs se, newCommandSession sv t chunks fin spools w b))))"

definition served_as :: "('w, 'b) commandSession \<Rightarrow> ('w, 'b) served" where
  "served_as s = \<lparr>sd_world = cn_world s, sd_user = cn_user s, sd_spools = cn_spools s, sd_errors = cn_errors s\<rparr>"

definition serveConnection ::
  "nat \<Rightarrow> (nat \<Rightarrow> nat) \<Rightarrow> Server \<Rightarrow> 'w net_ops \<Rightarrow> fs_ops \<Rightarrow> (tls_state option \<Rightarrow> ('b, 'b Session option) callback) \<Rightarrow>
   spoolManager option \<Rightarrow> bytes list \<Rightarrow> io_error \<Rightarrow> 'w \<Rightarrow> 'b \<Rightarrow> ('w, 'b) served option" where
  "serveConnection n upr sv nt fs newSession spools chunks fin w b =
     (case open_session upr sv nt fs newSession spools chunks fin w b of
        Inl x \<Rightarrow> Some x
      | Inr (en, s) \<Rightarrow> map_option served_as (serve_session n en s))"

end
