(* ===== verification/Srv_Progress.thy ===== *)
theory Srv_Progress
  imports Srv_Loop
begin

text \<open>
  Every connection comes to an end. The handlers only ever consume input, and the one command that opens a new
  stream of input, STARTTLS, works once. Each round of the command loop consumes at least one line or starts TLS, so a
  connection whose peer sends finitely many octets runs finitely many rounds, whatever the peer sends and whatever the
  backend does.
\<close>

section \<open>Reading content consumes input\<close>

lemma ReadByte_le: "ReadByte lr = (r, lr') \<Longrightarrow> length (lr_stream lr') \<le> length (lr_stream lr)"
  by (cases rule: ReadByte_cases [of lr]) auto

lemma consumeTerminatorTail_le: "consumeTerminatorTail lr = (e, lr') \<Longrightarrow> length (lr_stream lr') \<le> length (lr_stream lr)"
  by (auto simp: consumeTerminatorTail_def dest!: ReadByte_le split: prod.splits sum.splits if_splits)

lemma dot_fail_lr [simp]: "du_lr (snd (dot_fail got e d)) = du_lr d"
  by (simp add: dot_fail_def)

text \<open>One octet of \<open>dotReadLoop\<close>: it stops, or goes on with a shorter stream.\<close>

lemma dotReadLoop_same_dot:
  assumes "\<not> k \<le> length got" "ReadByte (du_lr d) = (Inr c, lr1)" "du_atLineStart d \<and> c = CHR ''.''" "Peek 1 lr1 = (r, lr2)"
  shows "dotReadLoop k got d =
    (case r of
       Inl err \<Rightarrow> dot_fail got (ErrTruncatedDot (normalizeReadErr err)) (d\<lparr>du_lr := lr2\<rparr>)
     | Inr peek \<Rightarrow>
         if hd peek = CR then
           (case consumeTerminatorTail lr2 of
              (e, lr3) \<Rightarrow> dot_fail got (case e of None \<Rightarrow> IO EOF | Some x \<Rightarrow> x) (d\<lparr>du_lr := lr3\<rparr>))
         else if hd peek = LF then dot_fail got ErrBareLFTerminator (d\<lparr>du_lr := lr2\<rparr>)
         else dotReadLoop k got (d\<lparr>du_lr := lr2, du_atLineStart := False\<rparr>))"
proof -
  obtain e lr3 where "consumeTerminatorTail lr2 = (e, lr3)" by (cases "consumeTerminatorTail lr2")
  then show ?thesis
    by (subst dotReadLoop.simps, cases r; cases e)
      (simp_all only: assms prod.case sum.case option.case if_False if_True simp_thms)
qed

lemma dotReadLoop_octet:
  assumes "\<not> k \<le> length got" "ReadByte (du_lr d) = (Inr c, lr1)" "\<not> (du_atLineStart d \<and> c = CHR ''.'')"
    "(if \<not> du_atLineStart d \<and> du_previousCR d \<and> c = CHR ''.'' then bareCRDot lr1 else (None, lr1)) = (e, lr2)"
  shows "dotReadLoop k got d =
    (case e of
       Some err \<Rightarrow> dot_fail got err (d\<lparr>du_lr := lr2\<rparr>)
     | None \<Rightarrow> dotReadLoop k (got @ [c]) (d\<lparr>du_lr := lr2, du_atLineStart := (c = LF), du_previousCR := (c = CR)\<rparr>))"
  by (subst dotReadLoop.simps) (simp only: assms prod.case sum.case if_False)

lemma dotReadLoop_le: "length (lr_stream (du_lr (snd (dotReadLoop k got d)))) \<le> length (lr_stream (du_lr d))"
proof (induction "length (lr_stream (du_lr d))" arbitrary: got d rule: less_induct)
  case less
  obtain r lr1 where b: "ReadByte (du_lr d) = (r, lr1)" by (cases "ReadByte (du_lr d)")
  note le1 = ReadByte_le [OF b]
  consider "k \<le> length got" | e where "\<not> k \<le> length got" "r = Inl e" | c where "\<not> k \<le> length got" "r = Inr c"
    by (cases r) auto
  then show ?case
  proof cases
    case (3 c)
    have shorter: "length (lr_stream lr1) < length (lr_stream (du_lr d))" using ReadByte_shorter b 3(2) by metis
    show ?thesis
    proof (cases "du_atLineStart d \<and> c = CHR ''.''")
      case True
      obtain r2 lr2 where p: "Peek 1 lr1 = (r2, lr2)" by (cases "Peek 1 lr1")
      obtain e lr3 where q: "consumeTerminatorTail lr2 = (e, lr3)" by (cases "consumeTerminatorTail lr2")
      have le: "length (lr_stream lr2) < length (lr_stream (du_lr d))" "length (lr_stream lr3) \<le> length (lr_stream lr2)"
        using Peek_length [OF p] shorter consumeTerminatorTail_le [OF q] by simp_all
      show ?thesis
        using le less [of "d\<lparr>du_lr := lr2, du_atLineStart := False\<rparr>" got]
        by (simp add: dotReadLoop_same_dot [OF 3(1) b [unfolded 3(2)] True p] q split: sum.split)
    next
      case False
      obtain e lr2 where p: "(if \<not> du_atLineStart d \<and> du_previousCR d \<and> c = CHR ''.'' then bareCRDot lr1 else (None, lr1)) = (e, lr2)"
        by (metis surj_pair)
      then have "lr_stream lr2 = lr_stream lr1" by (auto split: if_splits dest: bareCRDot_stream)
      with shorter less [of "d\<lparr>du_lr := lr2, du_atLineStart := (c = LF), du_previousCR := (c = CR)\<rparr>" "got @ [c]"] show ?thesis
        by (simp add: dotReadLoop_octet [OF 3(1) b [unfolded 3(2)] False p] split: option.split)
    qed
  qed (use b le1 in \<open>simp_all add: dotReadLoop.simps\<close>)
qed

lemma dot_Read_le: "dot_Read k d = (x, d') \<Longrightarrow> length (lr_stream (du_lr d')) \<le> length (lr_stream (du_lr d))"
  using dotReadLoop_le [of k "[]" d] by (auto simp: dot_Read_def split: if_splits)

lemma sr_Read_le:
  "sr_Read k r = Some (x, r') \<Longrightarrow> length (lr_stream (du_lr (sr_dot r'))) \<le> length (lr_stream (du_lr (sr_dot r)))"
  by (auto simp: sr_Read_def Let_def dest!: dot_Read_le split: if_splits prod.splits)

text \<open>The reader of the session after content was read from a source over it.\<close>

definition src_over :: "line_reader \<Rightarrow> content_src \<Rightarrow> bool" where
  "src_over lr c \<longleftrightarrow> length (lr_stream (content_reader c lr)) \<le> length (lr_stream lr)"

lemma src_Read_over: "src_Read fs k c = Some (x, c') \<Longrightarrow> src_over lr c \<Longrightarrow> src_over lr c'"
  by (cases "(fs, k, c)" rule: src_Read.cases) (auto simp: src_over_def map_prod_def dest!: sr_Read_le split: prod.splits)

lemma multi_Read_over: "multi_Read fs k m = Some (x, m') \<Longrightarrow> src_over lr (mr_src m) \<Longrightarrow> src_over lr (mr_src m')"
  by (auto simp: multi_Read_def dest: src_Read_over split: option.splits list.splits if_splits)

lemma tracked_Read_over:
  "tracked_Read fs k t = Some (x, t') \<Longrightarrow> src_over lr (mr_src (td_reader t)) \<Longrightarrow> src_over lr (mr_src (td_reader t'))"
  by (auto simp: tracked_Read_def dest: multi_Read_over split: option.splits)

lemma run_prog_over:
  "run_prog fs p t = Some (x, t') \<Longrightarrow> src_over lr (mr_src (td_reader t)) \<Longrightarrow> src_over lr (mr_src (td_reader t'))"
proof (induction p arbitrary: t)
  case (DRead k f)
  then show ?case by (auto dest: tracked_Read_over split: option.splits)
qed auto

lemma drain_over:
  "drain fs t = Some (x, t') \<Longrightarrow> src_over lr (mr_src (td_reader t)) \<Longrightarrow> src_over lr (mr_src (td_reader t'))"
proof (induction fs t arbitrary: x t' rule: drain.induct)
  case (1 fs t)
  from 1(2) obtain bs e u where u: "tracked_Read fs 8192 t = Some ((bs, e), u)"
    by (subst (asm) drain.simps) (auto split: option.splits)
  with tracked_Read_over 1(3) have ou: "src_over lr (mr_src (td_reader u))" by blast
  show ?case
  proof (cases e)
    case None
    with 1(2) u have "drain fs u = Some (x, t')" by (subst (asm) drain.simps) simp
    with 1(1) [OF u refl refl None] ou show ?thesis by simp
  next
    case (Some y)
    with 1(2) u ou show ?thesis by (subst (asm) drain.simps) simp
  qed
qed

lemma drainRest_over:
  "drainRest fs t = Some (x, t') \<Longrightarrow> src_over lr (mr_src (td_reader t)) \<Longrightarrow> src_over lr (mr_src (td_reader t'))"
  unfolding drainRest_def by (auto dest: drain_over split: option.splits content_error.splits prod.splits)

lemma evaluateDataCall_over:
  assumes "evaluateDataCall fs mode rs c m p = Some (ev, m', b)" "src_over lr (mr_src m)"
  shows "src_over lr (mr_src m')"
proof -
  from assms(1) obtain res err t where t: "run_prog fs p \<lparr>td_reader = m, td_exhausted = False\<rparr> = Some ((res, err, b), t)"
    by (auto simp: evaluateDataCall_def Let_def split: option.splits if_splits prod.splits)
  from run_prog_over [OF t] assms(2) have "src_over lr (mr_src (td_reader t))" by simp
  with assms(1) t show ?thesis
    by (auto simp: evaluateDataCall_def Let_def dest: drainRest_over split: option.splits if_splits prod.splits)
qed

lemma CopyN_le: "CopyN wr n lr w = (e, lr', w') \<Longrightarrow> length (lr_stream lr') \<le> length (lr_stream lr)"
proof (induction wr n lr w arbitrary: e lr' w' rule: CopyN.induct)
  case (1 wr n lr w)
  show ?case
  proof (cases "n = 0")
    case False
    then have pos: "0 < min 32768 n" by simp
    show ?thesis
    proof (cases rule: br_Read_cases [OF pos, of lr, case_names ended piece])
      case (ended lr1)
      with False 1(2) show ?thesis by (subst (asm) CopyN.simps) auto
    next
      case (piece bs lr1)
      obtain e1 w1 where w: "wr bs w = (e1, w1)" by (cases "wr bs w")
      show ?thesis
      proof (cases e1)
        case None
        with False 1(2) piece w have "CopyN wr (n - length bs) lr1 w1 = (e, lr', w')" by (subst (asm) CopyN.simps) auto
        with 1(1) [OF False piece(1) [symmetric] refl w [symmetric] None] piece(2) show ?thesis by simp
      next
        case (Some x)
        with False 1(2) piece w show ?thesis by (subst (asm) CopyN.simps) auto
      qed
    qed
  qed (use 1(2) in \<open>simp add: CopyN.simps\<close>)
qed

lemma ReadBDATChunk_le: "ReadBDATChunk wr sz dl lim lr w = (e, lr', w') \<Longrightarrow> length (lr_stream lr') \<le> length (lr_stream lr)"
  by (auto simp: ReadBDATChunk_def CopyBDATChunk_def dest: CopyN_le split: option.splits prod.splits)

section \<open>Handlers consume input\<close>

definition reads :: "('w, 'b) commandSession \<Rightarrow> ('w, 'b) commandSession \<Rightarrow> bool" where
  "reads s t \<longleftrightarrow> ps_tls (cn_state t) = ps_tls (cn_state s) \<and>
     length (lr_stream (cn_reader t)) \<le> length (lr_stream (cn_reader s))"

interpretation rd: path_relation reads
  by unfold_locales (auto simp: reads_def)

abbreviation consumes :: "('w, 'b, 'a) handler \<Rightarrow> bool" where
  "consumes m \<equiv> along (\<lambda>_. True) reads m"

lemma consumes_fail: "consumes (fail e)" "consumes panic"
  by (simp_all add: rd.fail_along rd.panic_along)

lemma outputs_consumes: "outputs m \<Longrightarrow> consumes m"
  by (erule along_weaken) (simp_all add: reads_def output_fields)

lemma invoke_consumes: "consumes (invoke f)"
  by (rule along_intro) (auto simp: invoke_def reads_def split: prod.splits)

lemma invoke_opt_consumes: "consumes (invoke_opt f)"
  by (cases f) (simp_all add: invoke_opt_def invoke_consumes consumes_fail)

lemma transition_tls: "ev \<noteq> eventStartTLS \<Longrightarrow> ps_tls (snd (transition ev st)) = ps_tls st"
  by (cases ev) (simp_all add: transition_def)

lemma transit_snd: "snd (transit ev s) = s\<lparr>cn_state := snd (transition ev (cn_state s))\<rparr>"
  by (simp add: transit_def split: prod.split option.split)

lemma transit_consumes:
  assumes "ev \<noteq> eventStartTLS"
  shows "consumes (transit ev)"
proof (rule along_intro)
  fix s r t
  assume "transit ev s = (r, t)"
  with transit_snd [of ev s] have "t = s\<lparr>cn_state := snd (transition ev (cn_state s))\<rparr>" by simp
  with transition_tls [OF assms] show "reads s t \<and> (r = Panic \<longrightarrow> True) \<and> (\<forall>e. r = Err e \<longrightarrow> True)"
    by (simp add: reads_def)
qed

lemma assign_consumes: "(\<And>s. reads s (f s)) \<Longrightarrow> consumes (assign f)"
  by (rule rd.assign_along)

lemmas output_consumes = outputs_consumes [OF net_output] outputs_consumes [OF SetWriteDeadline_output]
  outputs_consumes [OF reportError_output] outputs_consumes [OF trace_output] outputs_consumes [OF bw_Flush_output]
  outputs_consumes [OF Flush_output] outputs_consumes [OF WriteString_output] outputs_consumes [OF writeReply_output]
  outputs_consumes [OF reply_with_output] outputs_consumes [OF writeResult_output] outputs_consumes [OF backendReply_output]
  replies_output [THEN outputs_consumes]

lemmas consume_rules = rd.path_rules consumes_fail output_consumes invoke_consumes invoke_opt_consumes transit_consumes
  assign_consumes reads_def

lemma drop_spool_consumes: "consumes (drop_spool en sp)"
  by (cases sp) (simp_all add: drop_spool_def consume_rules)

lemma life_reset_consumes: "consumes (life_reset en reason)"
  by (simp add: life_reset_def consume_rules drop_spool_consumes)

lemma life_resetIfOpen_consumes: "consumes (life_resetIfOpen en reason)"
  by (simp add: life_resetIfOpen_def consume_rules life_reset_consumes)

lemma life_mail_consumes: "consumes (life_mail en p q)"
  by (simp add: life_mail_def consume_rules life_reset_consumes split: sum.split)

lemma attachSpool_consumes: "consumes (attachSpool en sp)"
  by (simp add: attachSpool_def consume_rules drop_spool_consumes)

lemma clearTransaction_consumes: "consumes clearTransaction"
  by (simp add: clearTransaction_def consume_rules)

lemmas life_consumes = drop_spool_consumes life_reset_consumes life_resetIfOpen_consumes life_mail_consumes
  attachSpool_consumes clearTransaction_consumes

lemma handleHello_consumes: "consumes (handleHello en c)"
  by (simp add: handleHello_def greet_def consume_rules life_consumes outputs_consumes [OF hello_reply_output] split: sum.split)

lemma mail_transaction_consumes: "consumes (mail_transaction en p ps)"
  by (simp add: mail_transaction_def mail_ask_def mail_reply_def consume_rules life_consumes transition_tls split: option.split)

lemma handleMail_consumes: "consumes (handleMail en c)"
  by (simp add: handleMail_def consume_rules mail_transaction_consumes split: sum.split prod.split)

lemma rcpt_accept_consumes: "consumes (rcpt_accept en m ls)"
  by (simp add: rcpt_accept_def consume_rules)

lemma handleRcpt_consumes: "consumes (handleRcpt en c)"
  by (simp add: handleRcpt_def rcpt_request_def consume_rules rcpt_accept_consumes split: sum.split option.split prod.split)

lemma simple_handlers_consume:
  "consumes (handleRSET en c)" "consumes (handleNOOP en c)" "consumes (handleQUIT en c)" "consumes (handleVRFY en c)"
  "consumes (handleEXPN en c)" "consumes (handleHELP en c)" "consumes (handleETRN en c)"
  by (simp_all add: handleRSET_def handleNOOP_def handleQUIT_def handleVRFY_def handleEXPN_def handleHELP_def handleETRN_def
      consume_rules life_consumes split: sum.split option.split)

lemma finishContent_consumes: "consumes (finishContent en ev)"
  by (simp add: finishContent_def consume_rules life_consumes split: option.split)

text \<open>Evaluating content reads on from the session's reader.\<close>

lemma evaluateContent_consumes:
  assumes "src_over (cn_reader s) src" "evaluateContent en c src s = (r, t)"
  shows "reads s t"
proof -
  have tail: "reads s t'" if "src_over (cn_reader s) (mr_src m)"
    "seq (assign (\<lambda>s. s\<lparr>cn_user := b, cn_reader := content_reader (mr_src m) (cn_reader s)\<rparr>)) (content_reports en ev src') s = (r', t')"
    for m b ev src' r' t'
  proof -
    let ?s = "s\<lparr>cn_user := b, cn_reader := content_reader (mr_src m) (cn_reader s)\<rparr>"
    from that(2) have "content_reports en ev src' ?s = (r', t')" by (simp add: seq_def bind_go_def assign_def)
    with alongD [OF outputs_consumes [OF content_reports_output]] have "reads ?s t'" by blast
    with that(1) show ?thesis by (simp add: reads_def src_over_def)
  qed
  from assms show ?thesis
    by (auto simp: evaluateContent_def view_def panic_def fail_def rd.refl
        split: list.splits sum.splits option.splits prod.splits intro: tail dest: evaluateDataCall_over)
qed

text \<open>The parts of DATA and BDAT that start from the reader as it is.\<close>

lemma evaluated_consumes:
  assumes "\<And>a. consumes (f a)" "\<And>s. src_over (cn_reader s) (src s)"
  shows "consumes (view (\<lambda>s. bind_go (evaluateContent en c (src s)) f))"
proof (rule along_intro)
  fix s r t
  assume run: "view (\<lambda>s. bind_go (evaluateContent en c (src s)) f) s = (r, t)"
  obtain r1 u where u: "evaluateContent en c (src s) s = (r1, u)" by (cases "evaluateContent en c (src s) s")
  from evaluateContent_consumes [OF assms(2) u] have su: "reads s u" .
  have "reads s t"
  proof (cases r1)
    case (Ok a)
    with run u have "f a u = (r, t)" by (simp add: view_def bind_go_def)
    with alongD [OF assms(1)] su rd.trans show ?thesis by blast
  qed (use run u su in \<open>auto simp: view_def bind_go_def\<close>)
  then show "reads s t \<and> (r = Panic \<longrightarrow> True) \<and> (\<forall>e. r = Err e \<longrightarrow> True)" by simp
qed

lemma data_source_over: "src_over lr (data_source sv lr)"
  by (simp add: src_over_def data_source_def NewDotUnstuffReader_def)

lemma data_content_consumes: "consumes (data_content en)"
proof -
  have "consumes (view (\<lambda>s. case dot_SetDeadline dl (NewDotUnstuffReader (cn_reader s)) of
            Some e \<Rightarrow> fail (ErrWire e)
          | None \<Rightarrow> bind_go (evaluateContent en ''DATA'' (data_source (en_server en) (cn_reader s))) f))"
    if "\<And>a. consumes (f a)" for dl and f :: "dataEvaluation \<times> content_src \<Rightarrow> ('a, 'b, commandAction) handler"
    using evaluated_consumes [OF that, of "\<lambda>s. data_source (en_server en) (cn_reader s)"] data_source_over
    by (cases dl) (simp_all add: dot_SetDeadline_def setDeadline_def consume_rules)
  then show ?thesis
    unfolding data_content_def
    by (intro rd.bind_along output_consumes) (simp add: finishContent_consumes rd.view_along split: prod.split)
qed

lemma handleDATA_consumes: "consumes (handleDATA en c)"
  by (simp add: handleDATA_def consume_rules data_content_consumes)

lemma failBDAT_consumes: "consumes (failBDAT en e)"
  by (simp add: failBDAT_def consume_rules life_consumes)

lemma read_bdat_consumes:
  fixes en :: "('w, 'b) session_env"
  shows "consumes (read_bdat en wr sz x)"
proof -
  have "consumes (view (\<lambda>s :: ('w, 'b) commandSession. case ReadBDATChunk wr sz dl session_limits (cn_reader s) x of
      (err, lr, x') \<Rightarrow> seq (assign (\<lambda>s. s\<lparr>cn_reader := lr\<rparr>)) (ret (err, x'))))" for dl
  proof (rule along_intro)
    fix s t :: "('w, 'b) commandSession" and r
    assume "view (\<lambda>s. case ReadBDATChunk wr sz dl session_limits (cn_reader s) x of
      (err, lr, x') \<Rightarrow> seq (assign (\<lambda>s. s\<lparr>cn_reader := lr\<rparr>)) (ret (err, x'))) s = (r, t)"
    then show "reads s t \<and> (r = Panic \<longrightarrow> True) \<and> (\<forall>e. r = Err e \<longrightarrow> True)"
      by (auto simp: view_def seq_def bind_go_def assign_def ret_def reads_def dest: ReadBDATChunk_le split: prod.splits)
  qed
  then show ?thesis unfolding read_bdat_def by (intro rd.bind_along output_consumes)
qed

lemma wire_check_consumes: "consumes (wire_check e)"
  by (simp add: wire_check_def consume_rules split: option.split)

lemma discard_chunk_consumes: "consumes (discard_chunk en sz)"
  by (simp add: discard_chunk_def rd.bind_along read_bdat_consumes wire_check_consumes split: prod.split)

lemma store_chunk_consumes: "consumes (store_chunk en sz)"
  by (simp add: store_chunk_def consume_rules read_bdat_consumes wire_check_consumes split: prod.split option.split)

lemma bdat_deliver_consumes: "consumes (bdat_deliver en)"
proof -
  have "reads s t" if "evaluateContent en ''BDAT'' (SrcSpool reader) s = (r, t)" for reader s r t
    by (rule evaluateContent_consumes [OF _ that]) (simp add: src_over_def)
  then have "consumes (evaluateContent en ''BDAT'' (SrcSpool reader))" for reader by (simp add: along_def)
  then have "consumes (bind_go (evaluateContent en ''BDAT'' (SrcSpool reader)) (\<lambda>(ev, _). finishContent en ev))" for reader
    by (intro rd.bind_along) (auto simp: finishContent_consumes)
  then show ?thesis
    by (simp add: bdat_deliver_def consume_rules failBDAT_consumes split: prod.split option.split sum.split)
qed

lemma bdat_chunk_consumes: "consumes (bdat_chunk en fr)"
  by (simp add: bdat_chunk_def consume_rules store_chunk_consumes failBDAT_consumes bdat_deliver_consumes split: option.split)

lemma bdat_spooled_consumes: "consumes (bdat_spooled en fr)"
  by (simp add: bdat_spooled_def consume_rules bdat_chunk_consumes discard_chunk_consumes failBDAT_consumes life_consumes
      split: prod.split option.split sum.split)

lemma handleBDAT_consumes: "consumes (handleBDAT en c)"
  by (simp add: handleBDAT_def consume_rules bdat_spooled_consumes discard_chunk_consumes split: sum.split)

section \<open>AUTH consumes input\<close>

lemma verifyAUTH_consumes: "consumes (verifyAUTH en q)"
  by (simp add: verifyAUTH_def consume_rules split: VerificationKind.split option.split)

lemma ReadSASLResponse_le: "ReadSASLResponse dl lim lr = (r, lr') \<Longrightarrow> length (lr_stream lr') \<le> length (lr_stream lr)"
  by (auto simp: ReadSASLResponse_def session_bounds dest!: readCommandLine_le split: option.splits prod.splits sum.splits if_splits)

text \<open>A part that reads from the reader as it is and stores what is left of it.\<close>

lemma stored_consumes:
  fixes f :: "line_reader \<Rightarrow> 'x \<times> line_reader" and g :: "'x \<Rightarrow> ('w, 'b, 'a) handler"
  assumes "\<And>lr x lr'. f lr = (x, lr') \<Longrightarrow> length (lr_stream lr') \<le> length (lr_stream lr)" "\<And>x. consumes (g x)"
  shows "consumes (view (\<lambda>s. case f (cn_reader s) of (x, lr) \<Rightarrow> seq (assign (\<lambda>s. s\<lparr>cn_reader := lr\<rparr>)) (g x)))"
proof (rule along_intro)
  fix s t :: "('w, 'b) commandSession" and r
  assume run: "view (\<lambda>s. case f (cn_reader s) of (x, lr) \<Rightarrow> seq (assign (\<lambda>s. s\<lparr>cn_reader := lr\<rparr>)) (g x)) s = (r, t)"
  obtain x lr where f: "f (cn_reader s) = (x, lr)" by (cases "f (cn_reader s)")
  with run have "g x (s\<lparr>cn_reader := lr\<rparr>) = (r, t)" by (simp add: view_def seq_def bind_go_def assign_def)
  from alongD [OF assms(2) this] assms(1) [OF f] show "reads s t \<and> (r = Panic \<longrightarrow> True) \<and> (\<forall>e. r = Err e \<longrightarrow> True)"
    by (simp add: reads_def)
qed

lemma auth_round_consumes: "consumes (auth_round en ch)"
  unfolding auth_round_def
  by (intro rd.seq_along rd.bind_along output_consumes stored_consumes)
    (auto simp: consume_rules dest: ReadSASLResponse_le split: sum.split)

lemma auth_ends_consume:
  "consumes (authFailure en x)" "consumes (authExchangeError en e)" "consumes (finalizeAuthentication en x y z)"
  "consumes (auth_done en st x)"
proof -
  show fin: "consumes (finalizeAuthentication en x y z)" for x y z
    by (simp add: finalizeAuthentication_def consume_rules split: option.split)
  show fail: "consumes (authFailure en x)" for x by (simp add: authFailure_def Let_def consume_rules)
  show "consumes (authExchangeError en e)" by (simp add: authExchangeError_def consume_rules)
  show "consumes (auth_done en st x)"
    by (simp add: auth_done_def consume_rules fin fail split: sum.split)
qed

lemma auth_loop_reads: "auth_loop en responder step auth s = (r, t) \<Longrightarrow> reads s t"
proof (induction en responder step auth s arbitrary: r t rule: auth_loop.induct)
  case (1 en responder step auth s)
  consider (verify) q where "st_Verification step = Some q" | (challenge) ch where "st_Verification step = None" "st_Challenge step = Some ch"
    | (finished) "st_Verification step = None" "st_Challenge step = None"
    by (cases "st_Verification step"; cases "st_Challenge step") auto
  then show ?case
  proof cases
    case verify
    obtain r1 u where u: "verifyAUTH en q s = (r1, u)" by (cases "verifyAUTH en q s")
    from alongD [OF verifyAUTH_consumes u] have su: "reads s u" .
    have "reads u t" if "r1 = Ok (Inr (v, res))" "Continue (nt_Rand (en_net en) (cn_world u)) v responder = (Inr st', resp')"
      "auth_loop en resp' st' (Some res) u = (r, t)" for v res st' resp'
      using 1(2) [OF verify u [unfolded that(1)] refl refl that(2) [symmetric] refl that(3)] .
    with verify "1.prems" u su show ?thesis
      by (subst (asm) auth_loop.simps)
        (auto simp: bind_go_def split: outcome.splits sum.splits prod.splits
          dest!: alongD [OF outputs_consumes [OF backendReply_output]] alongD [OF auth_ends_consume(2)] intro: rd.trans)
  next
    case challenge
    obtain r1 u where u: "auth_round en ch s = (r1, u)" by (cases "auth_round en ch s")
    from alongD [OF auth_round_consumes u] have su: "reads s u" .
    have "reads u t" if "r1 = Ok (Inr line)" "decodeSASLResponse line = Some resp" "Next resp responder = (Inr st', resp')"
      "auth_loop en resp' st' auth u = (r, t)" for line resp st' resp'
      using 1(1) [OF challenge u [unfolded that(1)] refl that(2) that(3) [symmetric] refl that(4)] .
    with challenge "1.prems" u su show ?thesis
      by (subst (asm) auth_loop.simps)
        (auto simp: bind_go_def ret_def fail_def split: outcome.splits sum.splits prod.splits option.splits
          dest!: alongD [OF auth_ends_consume(2)] intro: rd.trans)
  next
    case finished
    with "1.prems" show ?thesis
      by (subst (asm) auth_loop.simps) (auto dest: alongD [OF auth_ends_consume(4)])
  qed
qed

lemma auth_loop_consumes: "consumes (auth_loop en responder step auth)"
  by (rule along_intro) (simp add: auth_loop_reads)

lemma handleAUTH_consumes: "consumes (handleAUTH en c)"
  by (simp add: handleAUTH_def Let_def consume_rules auth_ends_consume auth_loop_consumes split: sum.split prod.split)

lemma handleATRN_consumes: "consumes (executeExtensionCommand en c)"
  by (simp add: executeExtensionCommand_def handleATRN_def atrn_takeover_def consume_rules split: sum.split option.split)

section \<open>Commands advance the session\<close>

text \<open>A command consumes input, or it is the STARTTLS that turns a plaintext session into one with TLS.\<close>

definition advances :: "('w, 'b) commandSession \<Rightarrow> ('w, 'b) commandSession \<Rightarrow> bool" where
  "advances s t \<longleftrightarrow> reads s t \<or> \<not> ps_tls (cn_state s) \<and> ps_tls (cn_state t)"

interpretation adv: path_relation advances
  by unfold_locales (auto simp: advances_def reads_def)

definition moves :: "('w, 'b, 'a) handler \<Rightarrow> ('w, 'b) commandSession \<Rightarrow> bool" where
  "moves m s \<longleftrightarrow> (\<forall>r t. m s = (r, t) \<longrightarrow> advances s t)"

lemma consumes_moves: "consumes m \<Longrightarrow> moves m s"
  by (auto simp: moves_def advances_def along_def)

lemma bind_moves:
  assumes "consumes m" "\<And>a u. reads s u \<Longrightarrow> moves (f a) u"
  shows "moves (bind_go m f) s"
  unfolding moves_def
proof (intro allI impI)
  fix r t
  assume run: "bind_go m f s = (r, t)"
  obtain r1 u where u: "m s = (r1, u)" by (cases "m s")
  from alongD [OF assms(1) u] have su: "reads s u" .
  then have "advances s u" by (simp add: advances_def)
  with run u assms(2) [OF su] show "advances s t"
    by (cases r1) (auto simp: bind_go_def moves_def intro: adv.trans)
qed

lemma seq_moves: "consumes m \<Longrightarrow> (\<And>u. reads s u \<Longrightarrow> moves n u) \<Longrightarrow> moves (seq m n) s"
  by (simp add: seq_def bind_moves)

lemma transit_StartTLS:
  "transit eventStartTLS s = (r, t) \<Longrightarrow> (r = Ok () \<and> ps_tls (cn_state t)) \<or> (\<exists>e. r = Err e \<and> t = s)"
  by (auto simp: transit_def transition_def split: if_splits)

lemma handshakeTLS_consumes: "consumes (handshakeTLS en)"
proof -
  have "consumes (view (\<lambda>s. case DiscardBuffered (cn_reader s) of
            (discarded, lr) \<Rightarrow>
              seq (assign (\<lambda>s. s\<lparr>cn_reader := lr\<rparr>))
              (seq (unless (discarded = 0) (reportError en (RepPrefetched discarded)))
                (bind_go (net (nt_Handshake (en_net en)))
                  (\<lambda>r. case r of Inl e \<Rightarrow> fail (ErrHandshake e) | Inr x \<Rightarrow> ret x)))))"
    by (rule stored_consumes) (auto simp: consume_rules dest: DiscardBuffered_stream split: sum.split)
  then show ?thesis by (simp add: handshakeTLS_def consume_rules)
qed

lemma handleSTARTTLS_moves:
  assumes "\<not> ps_tls (cn_state s)"
  shows "moves (handleSTARTTLS en c) s"
proof -
  let ?tail = "\<lambda>chunks fin. seq (assign (\<lambda>s. s\<lparr>cn_extended := False\<rparr>))
     (seq clearTransaction (seq (assign (\<lambda>s. s\<lparr>cn_reader := NewLineReader chunks fin, cn_writer := NewWriter\<rparr>)) (ret no_action)))"
  have tail: "moves (seq (transit eventStartTLS) (?tail chunks fin)) u" if "\<not> ps_tls (cn_state u)" for chunks fin and u :: "('a, 'b) commandSession"
    using that transit_StartTLS [of u]
    by (fastforce simp: moves_def seq_def bind_go_eq assign_def clearTransaction_def ret_def advances_def rd.refl)
  have rest: "moves (bind_go (handshakeTLS en) (\<lambda>(t, chunks, fin).
      seq (assign (start_tls t)) (seq (life_reset en ResetStartTLS) (seq (transit eventStartTLS) (?tail chunks fin))))) u"
    if "\<not> ps_tls (cn_state u)" for u :: "('a, 'b) commandSession"
    using that
    by (auto intro!: bind_moves handshakeTLS_consumes seq_moves life_consumes tail assign_consumes simp: reads_def start_tls_def)
  have reply: "moves (seq (writeReply en x) (seq (Flush en) m)) s" if "\<And>u. \<not> ps_tls (cn_state u) \<Longrightarrow> moves m u" for x m
    using assms that by (intro seq_moves output_consumes) (simp add: reads_def)
  show ?thesis
  proof (cases "cmd_Argument c = [] \<and> cn_extended s \<and> sv_tlsConfig (en_server en)")
    case True
    then have "handleSTARTTLS en c s = seq (writeReply en (text_reply 220 (enhanced 2 0 0) ''Ready to start TLS''))
        (seq (Flush en) (bind_go (handshakeTLS en) (\<lambda>(t, chunks, fin).
          seq (assign (start_tls t)) (seq (life_reset en ResetStartTLS) (seq (transit eventStartTLS) (?tail chunks fin)))))) s"
      by (simp add: handleSTARTTLS_def view_def)
    with reply [OF rest] show ?thesis by (simp add: moves_def)
  next
    case False
    then have "handleSTARTTLS en c s = syntaxReply en ''STARTTLS'' s \<or> handleSTARTTLS en c s = notImplementedReply en ''STARTTLS'' s"
      by (auto simp: handleSTARTTLS_def view_def)
    moreover have "moves (syntaxReply en ''STARTTLS'') s" "moves (notImplementedReply en ''STARTTLS'') s"
      by (intro consumes_moves output_consumes)+
    ultimately show ?thesis by (auto simp: moves_def)
  qed
qed

text \<open>Every command, executed from any state.\<close>

lemma STARTTLS_allowed: "legality upr st ''STARTTLS'' = commandAllowed \<Longrightarrow> \<not> ps_tls st"
proof -
  have "ToUpper upr ''STARTTLS'' = ''STARTTLS''"
    by (subst ToUpper_ascii) (simp_all add: is_ascii_def ToUpperASCII_def upper_char_def is_lower_def)
  then show "legality upr st ''STARTTLS'' = commandAllowed \<Longrightarrow> \<not> ps_tls st"
    by (simp add: legality_allowed_iff command_rule_simps)
qed

lemma dispatch_moves:
  assumes "verb = ''STARTTLS'' \<Longrightarrow> \<not> ps_tls (cn_state s)"
  shows "moves (dispatch en verb c) s"
  using assms
  by (simp add: dispatch_def consumes_moves handleSTARTTLS_moves handleHello_consumes handleMail_consumes handleRcpt_consumes
      handleDATA_consumes handleBDAT_consumes simple_handlers_consume handleAUTH_consumes handleATRN_consumes)

lemma checked_moves: "moves (checked en verb c) s"
proof (cases "legality (en_upr en) (cn_state s) verb = commandAllowed")
  case True
  then have "checked en verb c s = dispatch en verb c s" by (simp add: checked_def view_def)
  moreover have "moves (dispatch en verb c) s"
    by (rule dispatch_moves) (use True STARTTLS_allowed in blast)
  ultimately show ?thesis by (simp add: moves_def)
next
  case False
  then obtain reply a where "checked en verb c s = reply_with en reply a s"
    by (cases "legality (en_upr en) (cn_state s) verb") (auto simp: checked_def view_def)
  with consumes_moves [OF outputs_consumes [OF reply_with_output], of en reply a s] show ?thesis by (simp add: moves_def)
qed

lemma execute_moves: "moves (execute en c) s"
proof -
  have "consumes (traceCommand en v a)" for v a by (simp add: traceCommand_def output_consumes)
  moreover have "moves (view (\<lambda>s. if cn_mailAttempts s > en_maxTransactions en then reply_with en reply a else checked en verb c)) u"
    for u reply a verb
    using checked_moves [of en verb c u] consumes_moves [OF outputs_consumes [OF reply_with_output], of en reply a u]
    by (simp add: moves_def view_def)
  ultimately show ?thesis
    unfolding execute_def Let_def
    by (intro seq_moves) (auto intro!: seq_moves checked_moves simp: consume_rules)
qed

section \<open>The loop ends\<close>

definition round_of :: "('w, 'b) commandSession \<Rightarrow> ('w, 'b) commandSession \<Rightarrow> bool" where
  "round_of s t \<longleftrightarrow> \<not> ps_tls (cn_state s) \<and> ps_tls (cn_state t) \<or>
     ps_tls (cn_state t) = ps_tls (cn_state s) \<and> length (lr_stream (cn_reader t)) < length (lr_stream (cn_reader s))"

lemma round_between: "reads s u \<Longrightarrow> round_of u v \<Longrightarrow> advances v t \<Longrightarrow> round_of s t"
  by (auto simp: round_of_def reads_def advances_def)

lemma ReadCommand_less:
  assumes "ReadCommand dl lim lr = (r, lr')" "r = Inr c \<or> (\<exists>e. r = Inl e \<and> isFramedCommandSyntaxError e)"
  shows "length (lr_stream lr') < length (lr_stream lr)"
proof -
  obtain r1 lr1 where l: "readCommandLine (MaxCommandLineLength (withDefaults lim)) lr = (r1, lr1)"
    by (cases "readCommandLine (MaxCommandLineLength (withDefaults lim)) lr")
  show ?thesis
  proof (cases r1)
    case (Inr line)
    from readCommandLine_less [OF l [unfolded Inr]] session_bounds have "length (lr_stream lr1) < length (lr_stream lr)" by blast
    with assms l Inr show ?thesis
      by (auto simp: ReadCommand_def Let_def setDeadline_def isFramedCommandSyntaxError_def split: option.splits if_splits prod.splits)
  next
    case (Inl e)
    obtain lr2 where "readCommandLine (MaxCommandLineLength (withDefaults lim)) lr =
        (fst (command_line_spec (MaxCommandLineLength (withDefaults lim)) (lr_stream lr) (lr_fin lr)), lr2)"
      using readCommandLine_spec [OF session_bounds(2)] by metis
    with l Inl have "fst (command_line_spec (MaxCommandLineLength (withDefaults lim)) (lr_stream lr) (lr_fin lr)) = Inl e" by simp
    then have "\<not> isFramedCommandSyntaxError e"
      by (auto simp: command_line_spec_def line_outcome_def isFramedCommandSyntaxError_def split: prod.splits if_splits)
    with assms l Inl show ?thesis
      by (auto simp: ReadCommand_def setDeadline_def isFramedCommandSyntaxError_def split: option.splits)
  qed
qed

lemma loop_Flush_outputs: "(\<And>e. benign (Some (wrap e))) \<Longrightarrow> outputs (loop_Flush en wrap)"
  by (simp add: loop_Flush_def outp.path_rules outp.fail_along bw_Flush_output split: option.split)

lemma after_action_outputs: "outputs (after_action en a)"
  by (simp add: after_action_def outp.path_rules loop_Flush_outputs)

lemma handleCommandReadError_consumes: "consumes (handleCommandReadError en e)"
  by (simp add: handleCommandReadError_def consume_rules life_consumes)

lemma read_command_round:
  assumes "read_command en s = (Ok r, t)" "r = Inr c \<or> (\<exists>e. r = Inl e \<and> isFramedCommandSyntaxError e)"
  shows "round_of s t"
proof -
  from assms(1) obtain dl u where u: "net (nt_SetReadDeadline (en_net en)) s = (Ok dl, u)"
    by (auto simp: read_command_def bind_go_eq)
  obtain x lr where rc: "ReadCommand dl session_limits (cn_reader u) = (x, lr)"
    by (cases "ReadCommand dl session_limits (cn_reader u)")
  with assms(1) u have t: "x = r" "t = u\<lparr>cn_reader := lr\<rparr>"
    by (auto simp: read_command_def view_def seq_def bind_go_def assign_def ret_def)
  have "cn_reader u = cn_reader s" "cn_state u = cn_state s"
    using output_fields(3,4) [OF alongD [OF net_output u]] by simp_all
  with ReadCommand_less [OF rc [unfolded t(1)] assms(2)] t(2) show ?thesis by (simp add: round_of_def)
qed

lemma handled_framed: "handleCommandReadError en e s = (Ok (Some a), t) \<Longrightarrow> isFramedCommandSyntaxError e"
  by (auto simp: handleCommandReadError_def view_def ret_def split: if_splits)

lemma after_read_continues:
  assumes "after_read en r s = (Ok True, t)"
  shows "advances s t \<and> ((\<exists>c. r = Inr c) \<or> (\<exists>e. r = Inl e \<and> isFramedCommandSyntaxError e))"
proof (cases r)
  case (Inr c)
  with assms obtain a u where u: "execute en c s = (Ok a, u)" "after_action en a u = (Ok True, t)"
    by (auto simp: after_read_def bind_go_eq)
  from u(1) execute_moves [of en c s] have "advances s u" by (simp add: moves_def)
  moreover have "advances u t" using alongD [OF outputs_consumes [OF after_action_outputs] u(2)] by (simp add: advances_def)
  ultimately show ?thesis using Inr adv.trans by blast
next
  case (Inl e)
  with assms obtain a u where u: "handleCommandReadError en e s = (Ok (Some a), u)" "after_action en a u = (Ok True, t)"
    by (auto simp: after_read_def bind_go_eq ret_def fail_def split: if_splits option.splits)
  from alongD [OF handleCommandReadError_consumes u(1)] alongD [OF outputs_consumes [OF after_action_outputs] u(2)]
  have "reads s t" by (rule rd.trans)
  with handled_framed [OF u(1)] Inl show ?thesis by (simp add: advances_def)
qed

lemma iteration_round:
  assumes "iteration en s = (Ok True, t)"
  shows "round_of s t"
proof -
  let ?flush = "unless (Buffered (cn_reader s) \<noteq> 0) (loop_Flush en ErrFlushBeforeRead)"
  have flush: "consumes ?flush"
    by (intro rd.unless_along outputs_consumes loop_Flush_outputs) simp
  from assms have "bind_go ?flush (\<lambda>_. bind_go (read_command en) (after_read en)) s = (Ok True, t)"
    by (cases "nt_ctxErr (en_net en) (cn_world s)") (simp_all add: iteration_def view_def fail_def seq_def)
  then obtain u where u1: "?flush s = (Ok (), u)" "bind_go (read_command en) (after_read en) u = (Ok True, t)"
    unfolding bind_go_eq [of ?flush] by auto
  from u1(2) obtain r v where u: "?flush s = (Ok (), u)" "read_command en u = (Ok r, v)" "after_read en r v = (Ok True, t)"
    unfolding bind_go_eq using u1(1) by auto
  from after_read_continues [OF u(3)] read_command_round [OF u(2)] have "round_of u v" "advances v t" by blast+
  with round_between [OF alongD [OF flush u(1)]] show ?thesis by blast
qed

text \<open>Either the loop goes on, or its result is there with any fuel.\<close>

lemma run_step:
  obtains (more) t where "iteration en s = (Ok True, t)" "\<And>n. run (Suc n) en s = run n en t"
  | (ended) x where "\<And>n. run (Suc n) en s = Some x"
proof -
  obtain r t where it: "iteration en s = (r, t)" by (cases "iteration en s")
  show thesis
  proof (cases r)
    case (Ok b)
    with it more ended show thesis by (cases b) simp_all
  qed (use it ended in simp_all)
qed

lemma run_more: "run n en s = Some x \<Longrightarrow> run (n + k) en s = Some x"
proof (induction n arbitrary: s)
  case (Suc n)
  then show ?case by (cases rule: run_step [of en s]) simp_all
qed simp

text \<open>With TLS one round per octet is enough; before TLS a session may start over once.\<close>

lemma run_ends_tls: "ps_tls (cn_state s) \<Longrightarrow> length (lr_stream (cn_reader s)) < n \<Longrightarrow> \<exists>x. run n en s = Some x"
proof (induction n arbitrary: s)
  case (Suc n)
  show ?case
  proof (cases rule: run_step [of en s])
    case (more t)
    from iteration_round [OF more(1)] Suc.prems have "ps_tls (cn_state t)" "length (lr_stream (cn_reader t)) < n"
      by (auto simp: round_of_def)
    with Suc.IH more(2) show ?thesis by simp
  qed simp
qed simp

lemma run_ends: "\<exists>n x. run n en s = Some x"
proof (induction "length (lr_stream (cn_reader s))" arbitrary: s rule: less_induct)
  case less
  show ?case
  proof (cases rule: run_step [of en s])
    case (more t)
    from iteration_round [OF more(1)]
    consider "ps_tls (cn_state t)" | "length (lr_stream (cn_reader t)) < length (lr_stream (cn_reader s))"
      by (auto simp: round_of_def)
    then obtain n x where "run n en t = Some x"
      using less run_ends_tls [of t "Suc (length (lr_stream (cn_reader t)))" en] by cases blast+
    then have "run (Suc n) en s = Some x" using more(2) by simp
    then show ?thesis by blast
  next
    case (ended x)
    then show ?thesis by blast
  qed
qed

lemma serve_session_more:
  assumes "serve_session n en s = Some x"
  shows "serve_session (n + k) en s = Some x"
proof (cases "greeting en s")
  case (Pair r t)
  with assms show ?thesis by (cases r) (auto simp: serve_session_def dest: run_more)
qed

lemma serve_session_ends: "\<exists>n x. serve_session n en s = Some x"
proof (cases "greeting en s")
  case (Pair r t)
  from run_ends obtain n x where "run n en t = Some x" by blast
  then have "\<exists>x. serve_session n en s = Some x" using Pair by (cases r) (simp_all add: serve_session_def)
  then show ?thesis by blast
qed

lemma serveConnection_ends:
  "\<exists>n x. \<forall>k. serveConnection (n + k) upr sv nt fs newSession spools chunks fin w b = Some x"
proof (cases "open_session upr sv nt fs newSession spools chunks fin w b")
  case (Inr p)
  obtain en s where p: "p = (en, s)" by (cases p)
  from serve_session_ends obtain n x where "serve_session n en s = Some x" by blast
  with serve_session_more have "serve_session (n + k) en s = Some x" for k by blast
  with Inr p have "\<forall>k. serveConnection (n + k) upr sv nt fs newSession spools chunks fin w b = Some (served_as x)"
    by (simp add: serveConnection_def)
  then show ?thesis by blast
qed (simp add: serveConnection_def)

text \<open>C3: A connection always comes to an end, whatever the peer sends, the backend answers and the network does: enough
  rounds of the command loop give an outcome, and more of them do not change it. The peer's octets are a finite stream
  that ends with an error of the network, and so are those after a STARTTLS.\<close>

theorem session_terminates:
  "\<exists>n x. \<forall>k. serveConnection (n + k) upr sv nt fs newSession spools chunks fin w b = Some x"
  by (rule serveConnection_ends)

end
