(* ===== verification/Srv_Contract.thy ===== *)
theory Srv_Contract
  imports Srv_Progress
begin

text \<open>
  What a backend may rely on: the order in which a connection calls it. The contract of smtpserver/session.go is an
  automaton over the calls, \<open>contract_step\<close>. A backend that records its calls is a \<open>recorder\<close>; every backend can be
  made to record (\<open>logged\<close>). The locale \<open>serving\<close> holds a session over a recording backend: the invariant that relates its
  state to the automaton, and for the greeting, the mail transaction and its content that every handler keeps the
  invariant (\<open>good\<close>). Srv_Conformance goes on to the other commands, the loop and whole connections.
\<close>

section \<open>The contract\<close>

datatype call =
  CallMail bool | CallRcpt bool | CallData | CallReset ResetReason | CallClose | CallVerify bool | CallCommit | CallQuery
| CallETRN | CallATRN | CallTakeover

text \<open>No transaction, one with the number of accepted recipients, one whose content was delivered, and after \<open>Close\<close>.\<close>

datatype life = Idle | Opened nat | Delivered | Over

record monitor =
  mn_life :: life
  mn_tls :: bool
  mn_committed :: bool
  mn_verified :: bool
  mn_mails :: nat

record policy =
  pl_requireTLS :: bool
  pl_requireAuth :: bool
  pl_maxTransactions :: int

fun is_opened :: "life \<Rightarrow> bool" where
  "is_opened (Opened _) = True"
| "is_opened _ = False"

definition require :: "bool \<Rightarrow> 'a \<Rightarrow> 'a option" where
  "require b x = (if b then Some x else None)"

fun contract_step :: "policy \<Rightarrow> monitor \<Rightarrow> call \<Rightarrow> monitor option" where
  "contract_step p m (CallMail ok) =
     require (mn_life m = Idle \<and> (pl_requireTLS p \<longrightarrow> mn_tls m) \<and> (pl_requireAuth p \<longrightarrow> mn_committed m) \<and>
              int (mn_mails m) < pl_maxTransactions p)
       (m\<lparr>mn_life := (if ok then Opened 0 else Idle), mn_mails := Suc (mn_mails m)\<rparr>)"
| "contract_step p m (CallRcpt ok) =
     (case mn_life m of Opened n \<Rightarrow> Some (m\<lparr>mn_life := Opened (if ok then Suc n else n)\<rparr>) | _ \<Rightarrow> None)"
| "contract_step p m CallData = (case mn_life m of Opened (Suc n) \<Rightarrow> Some (m\<lparr>mn_life := Delivered\<rparr>) | _ \<Rightarrow> None)"
| "contract_step p m (CallReset ResetStartTLS) =
     require (mn_life m = Idle \<and> \<not> mn_tls m) (m\<lparr>mn_tls := True, mn_committed := False, mn_verified := False\<rparr>)"
| "contract_step p m (CallReset ResetCompleted) = require (mn_life m = Delivered) (m\<lparr>mn_life := Idle\<rparr>)"
| "contract_step p m (CallReset ResetFailed) =
     require (is_opened (mn_life m) \<or> mn_life m = Delivered) (m\<lparr>mn_life := Idle\<rparr>)"
| "contract_step p m (CallReset ResetSessionEnd) =
     require (is_opened (mn_life m) \<or> mn_life m = Delivered) (m\<lparr>mn_life := Idle\<rparr>)"
| "contract_step p m (CallReset _) = require (is_opened (mn_life m)) (m\<lparr>mn_life := Idle\<rparr>)"
| "contract_step p m CallClose = require (mn_life m = Idle) (m\<lparr>mn_life := Over\<rparr>)"
| "contract_step p m (CallVerify ok) = require (mn_life m = Idle \<and> \<not> mn_committed m) (m\<lparr>mn_verified := ok\<rparr>)"
| "contract_step p m CallCommit =
     require (mn_life m = Idle \<and> \<not> mn_committed m \<and> mn_verified m) (m\<lparr>mn_committed := True, mn_verified := False\<rparr>)"
| "contract_step p m CallQuery = require (mn_life m = Idle \<or> is_opened (mn_life m)) m"
| "contract_step p m CallETRN = require (mn_life m = Idle) m"
| "contract_step p m CallATRN = require (mn_life m = Idle \<and> mn_committed m) m"
| "contract_step p m CallTakeover = require (mn_life m = Idle \<and> mn_committed m) m"

fun contract_run :: "policy \<Rightarrow> monitor \<Rightarrow> call list \<Rightarrow> monitor option" where
  "contract_run p m [] = Some m"
| "contract_run p m (c # cs) = Option.bind (contract_step p m c) (\<lambda>m'. contract_run p m' cs)"

definition start_monitor :: "bool \<Rightarrow> monitor" where
  "start_monitor tls = \<lparr>mn_life = Idle, mn_tls = tls, mn_committed = False, mn_verified = False, mn_mails = 0\<rparr>"

lemma contract_run_snoc: "contract_run p m (cs @ [c]) = Option.bind (contract_run p m cs) (\<lambda>m'. contract_step p m' c)"
  by (induction cs arbitrary: m) (auto simp: bind_eq_None_conv split: Option.bind_splits)

lemma require_Some [simp]: "require b x = Some y \<longleftrightarrow> b \<and> x = y"
  by (simp add: require_def)

section \<open>Backends that record\<close>

primrec returns :: "('b \<Rightarrow> bool) \<Rightarrow> 'b data_prog \<Rightarrow> bool" where
  "returns P (DReturn rs e b) = P b"
| "returns P (DRead k f) = (\<forall>x. returns P (f x))"

definition accepting :: "backend_error + AuthResult option \<Rightarrow> bool" where
  "accepting r \<longleftrightarrow> (case r of Inr (Some x) \<Rightarrow> ar_Failure x = None | _ \<Rightarrow> False)"

definition accepting_keys :: "backend_error + SCRAMKeys option \<Rightarrow> bool" where
  "accepting_keys r \<longleftrightarrow> (case r of Inr (Some k) \<Rightarrow> ar_Failure (sk_Result k) = None | _ \<Rightarrow> False)"

locale recorder =
  fixes se :: "'b Session" and hist :: "'b \<Rightarrow> call list"
  assumes Mail: "se_Mail se = Some f1 \<Longrightarrow> hist (snd (f1 p q b)) = hist b @ [CallMail (is_ok (fst (f1 p q b)))]"
    and Rcpt: "se_Rcpt se = Some f2 \<Longrightarrow> hist (snd (f2 p q' b)) = hist b @ [CallRcpt (fst (fst (f2 p q' b)) = None)]"
    and Data: "se_Data se = Some f3 \<Longrightarrow> returns (\<lambda>b'. hist b' = hist b @ [CallData]) (f3 b)"
    and Reset: "se_Reset se = Some f4 \<Longrightarrow> hist (f4 reason b) = hist b @ [CallReset reason]"
    and Close: "se_Close se = Some f5 \<Longrightarrow> hist (f5 b) = hist b @ [CallClose]"
    and Authenticate: "se_Authenticate se = Some f6 \<Longrightarrow> hist (snd (f6 cr b)) = hist b @ [CallVerify (accepting (fst (f6 cr b)))]"
    and ChallengeResponse:
      "se_ChallengeResponse se = Some f7 \<Longrightarrow> hist (snd (f7 ch b)) = hist b @ [CallVerify (accepting (fst (f7 ch b)))]"
    and SCRAMCredentials:
      "se_SCRAMCredentials se = Some f8 \<Longrightarrow> hist (snd (f8 cr b)) = hist b @ [CallVerify (accepting_keys (fst (f8 cr b)))]"
    and CommitAuth: "se_CommitAuth se = Some f9 \<Longrightarrow> hist (f9 r b) = hist b @ [CallCommit]"
    and Verify: "se_Verify se = Some f10 \<Longrightarrow> hist (snd (f10 a b)) = hist b @ [CallQuery]"
    and Expand: "se_Expand se = Some f11 \<Longrightarrow> hist (snd (f11 a b)) = hist b @ [CallQuery]"
    and Help: "se_Help se = Some f12 \<Longrightarrow> hist (snd (f12 a b)) = hist b @ [CallQuery]"
    and ETRN: "se_ETRN se = Some f13 \<Longrightarrow> hist (snd (f13 a b)) = hist b @ [CallETRN]"
    and ATRN: "se_ATRN se = Some f14 \<Longrightarrow> hist (snd (f14 ds b)) = hist b @ [CallATRN]"
    and Takeover: "se_ATRN se = Some f14 \<Longrightarrow> fst (f14 ds b) = Inr (Some x) \<Longrightarrow> at_Takeover x = Some g \<Longrightarrow>
      hist (snd (g b')) = hist b' @ [CallTakeover]"

text \<open>Any backend, with a record of its calls beside its state.\<close>

definition logging :: "('r \<Rightarrow> call) \<Rightarrow> ('b \<Rightarrow> 'r \<times> 'b) \<Rightarrow> 'b \<times> call list \<Rightarrow> 'r \<times> ('b \<times> call list)" where
  "logging c f x = (case f (fst x) of (r, b) \<Rightarrow> (r, (b, snd x @ [c r])))"

definition logging_unit :: "call \<Rightarrow> ('b \<Rightarrow> 'b) \<Rightarrow> 'b \<times> call list \<Rightarrow> 'b \<times> call list" where
  "logging_unit c f x = (f (fst x), snd x @ [c])"

primrec log_prog :: "call list \<Rightarrow> 'b data_prog \<Rightarrow> ('b \<times> call list) data_prog" where
  "log_prog l (DReturn rs e b) = DReturn rs e (b, l @ [CallData])"
| "log_prog l (DRead k f) = DRead k (\<lambda>x. log_prog l (f x))"

definition log_result :: "'b ATRNResult \<Rightarrow> ('b \<times> call list) ATRNResult" where
  "log_result x = \<lparr>at_Takeover = map_option (logging (\<lambda>_. CallTakeover)) (at_Takeover x)\<rparr>"

definition log_atrn ::
  "('b \<Rightarrow> (backend_error + 'b ATRNResult option) \<times> 'b) \<Rightarrow> 'b \<times> call list \<Rightarrow>
   (backend_error + ('b \<times> call list) ATRNResult option) \<times> ('b \<times> call list)" where
  "log_atrn f x = (case f (fst x) of (r, b) \<Rightarrow> (map_sum id (map_option log_result) r, (b, snd x @ [CallATRN])))"

definition logged :: "'b Session \<Rightarrow> ('b \<times> call list) Session" where
  "logged se =
     \<lparr>se_Mail = map_option (\<lambda>f p q. logging (\<lambda>r. CallMail (is_ok r)) (f p q)) (se_Mail se),
      se_Rcpt = map_option (\<lambda>f p q. logging (\<lambda>r. CallRcpt (fst r = None)) (f p q)) (se_Rcpt se),
      se_Data = map_option (\<lambda>f x. log_prog (snd x) (f (fst x))) (se_Data se),
      se_Reset = map_option (\<lambda>f reason. logging_unit (CallReset reason) (f reason)) (se_Reset se),
      se_Close = map_option (logging_unit CallClose) (se_Close se),
      se_Authenticate = map_option (\<lambda>f c. logging (\<lambda>r. CallVerify (accepting r)) (f c)) (se_Authenticate se),
      se_ChallengeResponse = map_option (\<lambda>f c. logging (\<lambda>r. CallVerify (accepting r)) (f c)) (se_ChallengeResponse se),
      se_SCRAMCredentials = map_option (\<lambda>f c. logging (\<lambda>r. CallVerify (accepting_keys r)) (f c)) (se_SCRAMCredentials se),
      se_CommitAuth = map_option (\<lambda>f r. logging_unit CallCommit (f r)) (se_CommitAuth se),
      se_Verify = map_option (\<lambda>f a. logging (\<lambda>_. CallQuery) (f a)) (se_Verify se),
      se_Expand = map_option (\<lambda>f a. logging (\<lambda>_. CallQuery) (f a)) (se_Expand se),
      se_Help = map_option (\<lambda>f a. logging (\<lambda>_. CallQuery) (f a)) (se_Help se),
      se_ETRN = map_option (\<lambda>f a. logging (\<lambda>_. CallETRN) (f a)) (se_ETRN se),
      se_ATRN = map_option (\<lambda>f ds. log_atrn (f ds)) (se_ATRN se),
      se_ParameterExtensions = se_ParameterExtensions se, se_Limits = se_Limits se\<rparr>"

lemma logging_hist: "snd (snd (logging c f x)) = snd x @ [c (fst (logging c f x))]"
  by (simp add: logging_def split: prod.split)

lemma logging_unit_hist: "snd (logging_unit c f x) = snd x @ [c]"
  by (simp add: logging_unit_def)

lemma log_prog_returns: "returns (\<lambda>b'. snd b' = l @ [CallData]) (log_prog l p)"
  by (induction p) simp_all

lemma log_atrn_hist: "snd (snd (log_atrn f x)) = snd x @ [CallATRN]"
  by (simp add: log_atrn_def split: prod.split)

lemma log_atrn_takeover:
  assumes "fst (log_atrn f x) = Inr (Some y)" "at_Takeover y = Some g"
  shows "snd (snd (g z)) = snd z @ [CallTakeover]"
proof -
  obtain r b where f: "f (fst x) = (r, b)" by (cases "f (fst x)")
  with assms obtain y' where "r = Inr (Some y')" "y = log_result y'" by (cases r) (auto simp: log_atrn_def)
  with assms(2) show ?thesis by (auto simp: log_result_def logging_hist)
qed

interpretation logs: recorder "logged se" snd
proof
qed (auto simp: logged_def logging_hist logging_unit_hist log_prog_returns log_atrn_hist intro: log_atrn_takeover)

section \<open>The invariant\<close>

definition session_policy :: "('w, 'b) session_env \<Rightarrow> policy" where
  "session_policy en =
     \<lparr>pl_requireTLS = sv_requireTLS (en_server en), pl_requireAuth = sv_requireAuth (en_server en),
      pl_maxTransactions = en_maxTransactions en\<rparr>"

text \<open>The flags of the lifecycle are those of the automaton.\<close>

definition linked :: "monitor \<Rightarrow> ('w, 'b) commandSession \<Rightarrow> bool" where
  "linked m s \<longleftrightarrow> (cn_transactionOpen s \<longleftrightarrow> mn_life m \<noteq> Idle) \<and> mn_life m \<noteq> Over \<and>
     (mn_life m = Idle \<longrightarrow> cn_spool s = None) \<and> \<not> cn_closed s"

text \<open>What the phase says about the automaton and the transaction.\<close>

definition phase_ok :: "Server \<Rightarrow> monitor \<Rightarrow> ('w, 'b) commandSession \<Rightarrow> bool" where
  "phase_ok sv m s =
     (case ps_phase (cn_state s) of
        phaseConnected \<Rightarrow> mn_life m = Idle \<and> cn_recipients s = []
      | phaseReady \<Rightarrow> mn_life m = Idle \<and> cn_recipients s = []
      | phaseMail \<Rightarrow> is_opened (mn_life m) \<and> cn_recipients s = [] \<and> cn_spool s = None
      | phaseRecipients \<Rightarrow> (\<exists>n. mn_life m = Opened n \<and> length (cn_recipients s) \<le> n) \<and> cn_recipients s \<noteq> [] \<and>
          int (length (cn_recipients s)) \<le> sv_maxRcpt sv
      | phaseFailedBDAT \<Rightarrow> mn_life m = Idle
      | phaseClosed \<Rightarrow> False)"

definition facts_ok :: "Server \<Rightarrow> monitor \<Rightarrow> ('w, 'b) commandSession \<Rightarrow> bool" where
  "facts_ok sv m s \<longleftrightarrow> mn_tls m = ps_tls (cn_state s) \<and> mn_committed m = ps_authenticated (cn_state s) \<and>
     int (mn_mails m) \<le> cn_mailAttempts s \<and> (sv_chunking sv \<longrightarrow> cn_spools s \<noteq> None)"

text \<open>What \<open>validateSession\<close> and \<open>NewServer\<close> have checked: the callbacks every session has, and a limit for the message
  size, which must stay below the largest \<open>int64\<close>.\<close>

definition servable :: "('w, 'b) session_env \<Rightarrow> bool" where
  "servable en \<longleftrightarrow> se_Mail (en_backend en) \<noteq> None \<and> se_Rcpt (en_backend en) \<noteq> None \<and> se_Data (en_backend en) \<noteq> None \<and>
     se_Reset (en_backend en) \<noteq> None \<and> se_Close (en_backend en) \<noteq> None \<and>
     0 \<le> sv_maxMessage (en_server en) \<and> sv_maxMessage (en_server en) < MaxInt64"

lemma callbacks:
  assumes "servable en"
  shows "se_Mail (en_backend en) \<noteq> None" "se_Rcpt (en_backend en) \<noteq> None" "se_Data (en_backend en) \<noteq> None"
    "se_Reset (en_backend en) \<noteq> None" "se_Close (en_backend en) \<noteq> None"
  using assms by (simp_all add: servable_def)

lemma message_limit:
  assumes "servable en"
  shows "0 \<le> sv_maxMessage (en_server en)" "sv_maxMessage (en_server en) < MaxInt64"
  using assms by (simp_all add: servable_def)

locale serving = recorder "en_backend en" hist
  for en :: "('w, 'b) session_env" and hist :: "'b \<Rightarrow> call list" +
  fixes m0 :: monitor
begin

abbreviation pol :: policy where
  "pol \<equiv> session_policy en"

definition now :: "('w, 'b) commandSession \<Rightarrow> monitor option" where
  "now s = contract_run pol m0 (hist (cn_user s))"

definition base :: "monitor \<Rightarrow> ('w, 'b) commandSession \<Rightarrow> bool" where
  "base m s \<longleftrightarrow> servable en \<and> now s = Some m \<and> linked m s \<and> facts_ok (en_server en) m s"

text \<open>Between commands, and at any moment.\<close>

definition steady :: "('w, 'b) commandSession \<Rightarrow> bool" where
  "steady s \<longleftrightarrow> (\<exists>m. base m s \<and> phase_ok (en_server en) m s)"

definition closable :: "('w, 'b) commandSession \<Rightarrow> bool" where
  "closable s \<longleftrightarrow> servable en \<and> (\<exists>m. now s = Some m \<and> linked m s)"

definition good :: "(session_error, commandAction) outcome \<Rightarrow> ('w, 'b) commandSession \<Rightarrow> bool" where
  "good r t \<longleftrightarrow> closable t \<and>
     (case r of Ok a \<Rightarrow> ca_closeConnection a \<or> steady t | Err e \<Rightarrow> benign (Some e) | Panic \<Rightarrow> False)"

lemma base_servable: "base m s \<Longrightarrow> servable en"
  by (simp add: base_def)

lemma base_closable: "base m s \<Longrightarrow> closable s"
  by (auto simp: base_def closable_def)

lemma steady_closable: "steady s \<Longrightarrow> closable s"
  by (auto simp: steady_def base_closable)

lemma good_simps [simp]:
  "good (Ok a) t \<longleftrightarrow> closable t \<and> (ca_closeConnection a \<or> steady t)"
  "good (Err e) t \<longleftrightarrow> closable t \<and> benign (Some e)"
  "\<not> good Panic t"
  by (simp_all add: good_def)

lemma base_output: "output_only s t \<Longrightarrow> base m s \<Longrightarrow> base m t"
  by (auto simp: base_def now_def linked_def facts_ok_def output_fields)

lemma phase_ok_output: "output_only s t \<Longrightarrow> phase_ok sv m s \<Longrightarrow> phase_ok sv m t"
  by (simp add: phase_ok_def output_fields split: sessionPhase.splits)

lemma steady_output: "output_only s t \<Longrightarrow> steady s \<Longrightarrow> steady t"
  by (auto simp: steady_def intro: base_output phase_ok_output)

lemma closable_output: "output_only s t \<Longrightarrow> closable s \<Longrightarrow> closable t"
  by (simp add: closable_def now_def linked_def output_fields)

lemma base_update [simp]:
  "base m (s\<lparr>cn_recipients := x1\<rparr>) = base m s" "base m (s\<lparr>cn_smtpUTF8 := x2\<rparr>) = base m s"
  "base m (s\<lparr>cn_binaryMIME := x2\<rparr>) = base m s" "base m (s\<lparr>cn_extended := x2\<rparr>) = base m s"
  "base m (s\<lparr>cn_reader := x3\<rparr>) = base m s" "base m (s\<lparr>cn_tlsState := x4\<rparr>) = base m s"
  "base m (s\<lparr>cn_writer := x5\<rparr>) = base m s"
  by (simp_all add: base_def now_def linked_def facts_ok_def)

text \<open>Rules for going through a handler.\<close>

lemma after_outputs:
  assumes "outputs h" "\<And>a t. output_only s t \<Longrightarrow> Q (Ok a) t" "\<And>e t. output_only s t \<Longrightarrow> benign (Some e) \<Longrightarrow> Q (Err e) t"
  shows "after h Q s"
proof (rule after_intro)
  fix r t
  assume run: "h s = (r, t)"
  with alongD [OF assms(1)] have "output_only s t" by blast
  with run along_Panic [OF assms(1)] along_Err [OF assms(1)] assms(2,3) show "Q r t" by (cases r) auto
qed

lemma good_reply: "outputs h \<Longrightarrow> steady s \<Longrightarrow> after h good s"
  by (erule after_outputs) (auto intro: steady_output closable_output dest: steady_closable)

lemma report_reply: "outputs h \<Longrightarrow> outputs n \<Longrightarrow> steady s \<Longrightarrow> after h (onwards (\<lambda>_. n) good) s"
  by (erule after_outputs) (auto intro: good_reply steady_output closable_output dest: steady_closable)

lemmas good_replies = good_reply [OF reply_with_output] good_reply [OF backendReply_output] replies_output [THEN good_reply]

lemma then_reply:
  assumes "outputs h" "\<And>t. output_only s t \<Longrightarrow> after n good t" "closable s"
  shows "after (seq h n) good s"
  unfolding after_seq using assms by (auto intro!: after_outputs intro: closable_output)

lemma life_reset_run:
  assumes "servable en"
  obtains b sps where "life_reset en reason s = (Ok (), s\<lparr>cn_spool := None, cn_transactionOpen := False, cn_spools := sps, cn_user := b\<rparr>)"
    "hist b = hist (cn_user s) @ [CallReset reason]" "sps = None \<longleftrightarrow> cn_spools s = None"
proof -
  obtain f where f: "se_Reset (en_backend en) = Some f" using callbacks(4) [OF assms] by blast
  show thesis
  proof (cases "cn_spool s")
    case None
    with f that [of "f reason (cn_user s)" "cn_spools s"] Reset [OF f] show thesis
      by (simp add: life_reset_def view_def seq_def bind_go_def assign_def drop_spool_def ret_def invoke_opt_def invoke_def)
  next
    case (Some sp)
    with f that [of "f reason (cn_user s)" "map_option (\<lambda>m. fst (snd (spool_Close (en_fs en) (m, sp)))) (cn_spools s)"] Reset [OF f]
    show thesis
      by (simp add: life_reset_def view_def seq_def bind_go_def assign_def drop_spool_def ret_def invoke_opt_def invoke_def)
  qed
qed

text \<open>A reset that ends a transaction.\<close>

lemma after_reset:
  assumes "base m s" "contract_step pol m (CallReset r) = Some m'" "r \<noteq> ResetStartTLS"
    "\<And>t. base m' t \<Longrightarrow> m' = m\<lparr>mn_life := Idle\<rparr> \<Longrightarrow> cn_state t = cn_state s \<Longrightarrow>
       cn_recipients t = cn_recipients s \<Longrightarrow> cn_extended t = cn_extended s \<Longrightarrow>
       cn_mailAttempts t = cn_mailAttempts s \<Longrightarrow> cn_spool t = None \<Longrightarrow> \<not> cn_transactionOpen t \<Longrightarrow> Q (Ok ()) t"
  shows "after (life_reset en r) Q s"
proof -
  obtain b sps where run: "life_reset en r s = (Ok (), s\<lparr>cn_spool := None, cn_transactionOpen := False, cn_spools := sps, cn_user := b\<rparr>)"
    "hist b = hist (cn_user s) @ [CallReset r]" "sps = None \<longleftrightarrow> cn_spools s = None"
    by (rule life_reset_run [OF base_servable [OF assms(1)]])
  from assms(2,3) have m': "mn_life m' = Idle" "m' = m\<lparr>mn_life := Idle\<rparr>" by (cases r; auto)+
  with assms(1,2) run(2,3) have "base m' (s\<lparr>cn_spool := None, cn_transactionOpen := False, cn_spools := sps, cn_user := b\<rparr>)"
    by (simp add: base_def now_def linked_def facts_ok_def contract_run_snoc)
  with m' run(1) show ?thesis by (simp add: after_def assms(4))
qed

lemma after_transit:
  assumes "base m s" "ev \<noteq> eventStartTLS" "ev \<noteq> eventAuthenticated" "phases_contain (fst (phaseTransitions ev)) (ps_phase (cn_state s))"
    "\<And>st. base m (s\<lparr>cn_state := st\<rparr>) \<Longrightarrow> ps_phase st = snd (phaseTransitions ev) \<Longrightarrow> Q (Ok ()) (s\<lparr>cn_state := st\<rparr>)"
  shows "after (transit ev) Q s"
proof -
  let ?st = "applyEvent ev ((cn_state s)\<lparr>ps_phase := snd (phaseTransitions ev)\<rparr>)"
  have run: "transit ev s = (Ok (), s\<lparr>cn_state := ?st\<rparr>)" using assms(4) by (simp add: transit_def transition_def)
  have "ps_tls ?st = ps_tls (cn_state s)" "ps_authenticated ?st = ps_authenticated (cn_state s)" "ps_phase ?st = snd (phaseTransitions ev)"
    using assms(2,3) by (cases ev; simp)+
  moreover from this assms(1) have "base m (s\<lparr>cn_state := ?st\<rparr>)" by (simp add: base_def now_def linked_def facts_ok_def)
  ultimately show ?thesis using assms(5) [of ?st] run by (simp add: after_def)
qed

lemma after_invoke: "after (invoke f) Q s \<longleftrightarrow> Q (Ok (fst (f (cn_user s)))) (s\<lparr>cn_user := snd (f (cn_user s))\<rparr>)"
  by (simp add: after_def invoke_def split: prod.split)

text \<open>A call that only moves the automaton.\<close>

lemma base_call:
  assumes "base m s" "hist b = hist (cn_user s) @ [c]" "contract_step pol m c = Some m'"
    "linked m' (s\<lparr>cn_user := b\<rparr>)" "facts_ok (en_server en) m' s"
  shows "base m' (s\<lparr>cn_user := b\<rparr>)"
  using assms by (simp add: base_def now_def contract_run_snoc facts_ok_def)

lemma base_same_call: "base m s \<Longrightarrow> hist b = hist (cn_user s) @ [c] \<Longrightarrow> contract_step pol m c = Some m \<Longrightarrow> base m (s\<lparr>cn_user := b\<rparr>)"
  by (rule base_call) (auto simp: base_def linked_def)

end

section \<open>Handlers keep the contract\<close>

context serving
begin

lemma step_reset_open:
  "is_opened (mn_life m) \<Longrightarrow> r \<notin> {ResetStartTLS, ResetCompleted} \<Longrightarrow> contract_step pol m (CallReset r) = Some (m\<lparr>mn_life := Idle\<rparr>)"
  by (cases r) auto

text \<open>Ending the transaction if there is one, before a greeting and before MAIL.\<close>

lemma after_reset_open:
  assumes "base m s" "mn_life m = Idle \<or> is_opened (mn_life m)" "r \<in> {ResetExplicit, ResetNewMail}"
    "\<And>t. base (m\<lparr>mn_life := Idle\<rparr>) t \<Longrightarrow> cn_state t = cn_state s \<Longrightarrow>
       cn_recipients t = cn_recipients s \<Longrightarrow> cn_mailAttempts t = cn_mailAttempts s \<Longrightarrow> Q (Ok ()) t"
  shows "after (view (\<lambda>s. unless (\<not> cn_transactionOpen s) (life_reset en r))) Q s"
proof (cases "mn_life m = Idle")
  case True
  then have "m\<lparr>mn_life := Idle\<rparr> = m" by simp
  moreover from True assms(1) have "\<not> cn_transactionOpen s" by (simp add: base_def linked_def)
  ultimately show ?thesis using assms(1) assms(4) [of s] by (simp add: after_simps)
next
  case False
  with assms(1,2) have "cn_transactionOpen s" "is_opened (mn_life m)" by (simp_all add: base_def linked_def)
  then show ?thesis
    using assms(3,4) by (auto simp: after_simps intro!: after_reset [OF assms(1) step_reset_open])
qed

lemma phase_life: "phase_ok sv m s \<Longrightarrow> mn_life m = Idle \<or> is_opened (mn_life m)"
  by (auto simp: phase_ok_def split: sessionPhase.splits)

lemma steadyI: "base m s \<Longrightarrow> phase_ok (en_server en) m s \<Longrightarrow> steady s"
  by (auto simp: steady_def)

lemma ready_ok: "mn_life m = Idle \<Longrightarrow> ps_phase (cn_state s) = phaseReady \<Longrightarrow> cn_recipients s = [] \<Longrightarrow> phase_ok sv m s"
  by (simp add: phase_ok_def)

lemma base_greet [simp]: "base m (greet h s) = base m s"
  by (simp add: base_def now_def linked_def facts_ok_def greet_def)

lemma handleHello_good:
  assumes "steady s" "ps_phase (cn_state s) \<in> {phaseConnected, phaseReady, phaseMail, phaseRecipients}"
  shows "after (handleHello en c) good s"
proof -
  from assms(1) obtain m where m: "base m s" "phase_ok (en_server en) m s" by (auto simp: steady_def)
  have tail: "after (seq (transit eventHello) (seq (assign (greet h)) (hello_reply en h))) good t"
    if "base (m\<lparr>mn_life := Idle\<rparr>) t" "cn_state t = cn_state s" for t h
    unfolding after_seq
  proof (rule after_transit [OF that(1)])
    fix st
    assume "base (m\<lparr>mn_life := Idle\<rparr>) (t\<lparr>cn_state := st\<rparr>)" "ps_phase st = snd (phaseTransitions eventHello)"
    then have "steady (greet h (t\<lparr>cn_state := st\<rparr>))"
      by (intro steadyI [of "m\<lparr>mn_life := Idle\<rparr>"] ready_ok) (simp_all, simp_all add: greet_def)
    then show "onwards (\<lambda>_. seq (assign (greet h)) (hello_reply en h)) good (Ok ()) (t\<lparr>cn_state := st\<rparr>)"
      by (simp add: after_simps good_reply hello_reply_output)
  qed (use assms(2) that(2) in auto)
  show ?thesis
    unfolding handleHello_def
    by (auto simp: after_seq [of "view _"] split: sum.split
        intro!: good_reply [OF replies_output(1) assms(1)] after_reset_open [OF m(1) phase_life [OF m(2)]] tail)
qed

end

context serving
begin

text \<open>MAIL: the transaction limit of the server is not used up.\<close>

lemma Mail_step:
  assumes "base m s" "mn_life m = Idle" "se_Mail (en_backend en) = Some f"
    "sv_requireTLS (en_server en) \<longrightarrow> ps_tls (cn_state s)" "sv_requireAuth (en_server en) \<longrightarrow> ps_authenticated (cn_state s)"
    "int (mn_mails m) < cn_mailAttempts s" "cn_mailAttempts s \<le> en_maxTransactions en"
  shows "base (m\<lparr>mn_life := (if is_ok (fst (f p q (cn_user s))) then Opened 0 else Idle), mn_mails := Suc (mn_mails m)\<rparr>)
    (s\<lparr>cn_user := snd (f p q (cn_user s)), cn_transactionOpen := is_ok (fst (f p q (cn_user s)))\<rparr>)"
  using assms(1,2,4-7) Mail [OF assms(3), of p q "cn_user s"]
  by (simp add: base_def now_def contract_run_snoc session_policy_def linked_def facts_ok_def)

lemma after_life_mail:
  assumes "base m s" "mn_life m = Idle"
    "sv_requireTLS (en_server en) \<longrightarrow> ps_tls (cn_state s)" "sv_requireAuth (en_server en) \<longrightarrow> ps_authenticated (cn_state s)"
    "int (mn_mails m) < cn_mailAttempts s" "cn_mailAttempts s \<le> en_maxTransactions en"
    "\<And>e m' t. base m' t \<Longrightarrow> mn_life m' = Idle \<Longrightarrow> cn_state t = cn_state s \<Longrightarrow> cn_recipients t = cn_recipients s \<Longrightarrow> Q (Ok (Some e)) t"
    "\<And>m' t. base m' t \<Longrightarrow> mn_life m' = Opened 0 \<Longrightarrow> cn_state t = cn_state s \<Longrightarrow> cn_spool t = None \<Longrightarrow> Q (Ok None) t"
  shows "after (life_mail en p q) Q s"
proof -
  obtain f where f: "se_Mail (en_backend en) = Some f" using callbacks(1) [OF base_servable [OF assms(1)]] by blast
  obtain r b where fr: "f p q (cn_user s) = (r, b)" by (cases "f p q (cn_user s)")
  from assms(1,2) have closed: "\<not> cn_transactionOpen s" "cn_spool s = None" by (simp_all add: base_def linked_def)
  from Mail_step [OF assms(1,2) f assms(3-6), of p q] fr
  have step: "base (m\<lparr>mn_life := (if is_ok r then Opened 0 else Idle), mn_mails := Suc (mn_mails m)\<rparr>)
      (s\<lparr>cn_user := b, cn_transactionOpen := is_ok r\<rparr>)" by simp
  show ?thesis
  proof (cases r)
    case (Inl e)
    have "s\<lparr>cn_user := b, cn_transactionOpen := False\<rparr> = s\<lparr>cn_user := b\<rparr>" using closed(1) by (cases s) simp
    with Inl step assms(7) [of "m\<lparr>mn_life := Idle, mn_mails := Suc (mn_mails m)\<rparr>" "s\<lparr>cn_user := b\<rparr>"] show ?thesis
      by (simp add: life_mail_def after_simps closed(1) f invoke_opt_def after_invoke fr is_ok_def)
  next
    case (Inr u)
    with step assms(8) [of "m\<lparr>mn_life := Opened 0, mn_mails := Suc (mn_mails m)\<rparr>" "s\<lparr>cn_user := b, cn_transactionOpen := True\<rparr>"] show ?thesis
      by (simp add: life_mail_def after_simps closed f invoke_opt_def after_invoke fr is_ok_def)
  qed
qed

lemma mail_reply_good:
  assumes "base m s" "mn_life m = Idle" "ps_phase (cn_state s) = phaseReady" "cn_recipients s = []"
    "sv_requireTLS (en_server en) \<longrightarrow> ps_tls (cn_state s)" "sv_requireAuth (en_server en) \<longrightarrow> ps_authenticated (cn_state s)"
    "int (mn_mails m) < cn_mailAttempts s" "cn_mailAttempts s \<le> en_maxTransactions en"
  shows "after (bind_go (life_mail en p params) (mail_reply en params)) good s"
  unfolding after_bind
proof (rule after_life_mail [OF assms(1,2,5-8)], goal_cases)
  case (1 e m' t)
  then have "steady (t\<lparr>cn_smtpUTF8 := False, cn_binaryMIME := False, cn_recipients := []\<rparr>)"
    by (intro steadyI [of m'] ready_ok) (simp_all add: assms(3))
  with 1 assms(3) show ?case by (simp add: mail_reply_def after_simps clearTransaction_def good_reply backendReply_output)
next
  case (2 m' t)
  show ?case
    unfolding mail_reply_def onwards_simps option.case after_seq
  proof (rule after_transit [OF 2(1)])
    fix st
    assume "base m' (t\<lparr>cn_state := st\<rparr>)" "ps_phase st = snd (phaseTransitions eventMailAccepted)"
    with 2 have "steady (t\<lparr>cn_state := st, cn_smtpUTF8 := requested_utf8 params, cn_binaryMIME := requested_binary params, cn_recipients := []\<rparr>)"
      by (intro steadyI [of m']) (simp_all add: phase_ok_def)
    then show "onwards (\<lambda>_. seq (assign (\<lambda>s. s\<lparr>cn_smtpUTF8 := requested_utf8 params, cn_binaryMIME := requested_binary params,
        cn_recipients := []\<rparr>)) (reply_with en (text_reply 250 (enhanced 2 1 0) ''Sender OK'') no_action)) good (Ok ()) (t\<lparr>cn_state := st\<rparr>)"
      by (simp add: after_simps good_reply reply_with_output)
  qed (use 2 assms(3) in auto)
qed

lemma mail_transaction_good:
  assumes "base m s" "phase_ok (en_server en) m s" "ps_phase (cn_state s) \<in> {phaseReady, phaseMail, phaseRecipients}"
    "sv_requireTLS (en_server en) \<longrightarrow> ps_tls (cn_state s)" "sv_requireAuth (en_server en) \<longrightarrow> ps_authenticated (cn_state s)"
    "int (mn_mails m) < cn_mailAttempts s" "cn_mailAttempts s \<le> en_maxTransactions en"
  shows "after (mail_transaction en path params) good s"
proof -
  let ?m = "m\<lparr>mn_life := Idle\<rparr>"
  from assms(1,4,5) have policy: "sv_requireTLS (en_server en) \<longrightarrow> mn_tls m" "sv_requireAuth (en_server en) \<longrightarrow> mn_committed m"
    by (auto simp: base_def facts_ok_def)
  have body: "after (mail_ask en path params) good t"
    if "base ?m t" "ps_phase (cn_state t) = phaseReady" "cn_recipients t = []" "cn_mailAttempts t = cn_mailAttempts s" for t
  proof -
    have "steady t" using that by (intro steadyI [of ?m] ready_ok) simp_all
    moreover from that(1) have "mn_tls m = ps_tls (cn_state t)" "mn_committed m = ps_authenticated (cn_state t)"
      by (simp_all add: base_def facts_ok_def)
    ultimately show ?thesis
      using that policy assms(6,7) by (auto simp: mail_ask_def intro!: good_replies mail_reply_good [OF that(1)])
  qed
  show ?thesis
  proof (cases "cn_transactionOpen s")
    case True
    with assms(1,2) have opened: "is_opened (mn_life m)" and phase: "ps_phase (cn_state s) \<in> {phaseMail, phaseRecipients}"
      using phase_life [OF assms(2)] assms(3) by (auto simp: base_def linked_def phase_ok_def)
    have "after (seq (life_reset en ResetNewMail) (seq (transit eventTransactionFailed) clearTransaction)) (onwards (\<lambda>_. n) good) s"
      if "\<And>t. base ?m t \<Longrightarrow> ps_phase (cn_state t) = phaseReady \<Longrightarrow> cn_recipients t = [] \<Longrightarrow>
        cn_mailAttempts t = cn_mailAttempts s \<Longrightarrow> after n good t" for n
      unfolding after_seq [of "life_reset _ _"]
    proof (rule after_reset [OF assms(1) step_reset_open [OF opened]])
      fix t
      assume t: "base ?m t" "cn_state t = cn_state s" "cn_mailAttempts t = cn_mailAttempts s"
      have "after (seq (transit eventTransactionFailed) clearTransaction) (onwards (\<lambda>_. n) good) t"
        unfolding after_seq
      proof (rule after_transit [OF t(1)])
        fix st
        assume "base ?m (t\<lparr>cn_state := st\<rparr>)" "ps_phase st = snd (phaseTransitions eventTransactionFailed)"
        then show "onwards (\<lambda>_. clearTransaction) (onwards (\<lambda>_. n) good) (Ok ()) (t\<lparr>cn_state := st\<rparr>)"
          unfolding clearTransaction_def onwards_simps after_assign by (intro that) (simp_all add: t(3))
      qed (use phase t(2) in auto)
      then show "onwards (\<lambda>_. seq (transit eventTransactionFailed) clearTransaction) (onwards (\<lambda>_. n) good) (Ok ()) t" by simp
    qed simp_all
    then have "after (seq (life_reset en ResetNewMail) (seq (transit eventTransactionFailed) clearTransaction))
        (onwards (\<lambda>_. mail_ask en path params) good) s"
      using body by blast
    with True show ?thesis
      unfolding mail_transaction_def after_seq [of "view _"] after_view after_unless by (simp only: simp_thms if_False)
  next
    case False
    with assms(1) have idle: "mn_life m = Idle" by (simp add: base_def linked_def)
    with assms(2,3) have "ps_phase (cn_state s) = phaseReady" "cn_recipients s = []" by (auto simp: phase_ok_def)
    moreover from idle have "?m = m" by simp
    ultimately have "after (mail_ask en path params) good s" using assms(1) body by simp
    with False show ?thesis
      unfolding mail_transaction_def after_seq [of "view _"] after_view after_unless by (simp only: simp_thms if_True onwards_simps)
  qed
qed

lemma handleMail_good:
  assumes "base m s" "phase_ok (en_server en) m s" "ps_phase (cn_state s) \<in> {phaseReady, phaseMail, phaseRecipients}"
    "int (mn_mails m) < cn_mailAttempts s" "cn_mailAttempts s \<le> en_maxTransactions en"
  shows "after (handleMail en c) good s"
  unfolding handleMail_def after_view using steadyI [OF assms(1,2)]
  by (auto intro!: good_replies mail_transaction_good [OF assms(1-3)] assms(4,5) split: sum.split)

text \<open>RCPT.\<close>

lemma rcpt_accept_good:
  assumes "base m s" "mn_life m = Opened (Suc n)" "length (cn_recipients s) \<le> n"
    "ps_phase (cn_state s) = phaseMail \<or> ps_phase (cn_state s) = phaseRecipients"
    "int (length (cn_recipients s)) < sv_maxRcpt (en_server en)"
  shows "after (rcpt_accept en mailbox lines) good s"
proof -
  let ?s = "s\<lparr>cn_recipients := cn_recipients s @ [mailbox]\<rparr>"
  have "steady (?s\<lparr>cn_state := st\<rparr>)" if "base m (?s\<lparr>cn_state := st\<rparr>)" "ps_phase st = phaseRecipients" for st
    using that assms by (intro steadyI [OF that(1)]) (auto simp: phase_ok_def)
  moreover from this [of "cn_state s"] assms have "ps_phase (cn_state s) = phaseRecipients \<Longrightarrow> steady ?s" by simp
  ultimately show ?thesis
    unfolding rcpt_accept_def using assms
    by (auto simp: after_simps intro!: after_transit [of m] good_replies)
qed

lemma rcpt_request_good:
  assumes "base m s" "phase_ok (en_server en) m s" "ps_phase (cn_state s) \<in> {phaseMail, phaseRecipients}"
    "int (length (cn_recipients s)) < sv_maxRcpt (en_server en)"
  shows "after (rcpt_request en path params) good s"
proof -
  obtain f where f: "se_Rcpt (en_backend en) = Some f" using callbacks(2) [OF base_servable [OF assms(1)]] by blast
  obtain err lines b where fr: "f (path_Mailbox path) params (cn_user s) = ((err, lines), b)" by (metis surj_pair)
  from assms(2,3) obtain n where n: "mn_life m = Opened n" "length (cn_recipients s) \<le> n"
    by (cases "mn_life m") (auto simp: phase_ok_def)
  let ?m = "m\<lparr>mn_life := Opened (if err = None then Suc n else n)\<rparr>"
  let ?s = "s\<lparr>cn_user := b\<rparr>"
  from Rcpt [OF f, of "path_Mailbox path" params "cn_user s"] fr
  have base: "base ?m ?s"
    using assms(1) n(1) by (intro base_call [OF assms(1), of _ "CallRcpt (err = None)"]) (simp_all add: base_def linked_def facts_ok_def)
  have "phase_ok (en_server en) ?m ?s" using assms(2,3) n by (auto simp: phase_ok_def)
  with base have "steady ?s" by (rule steadyI)
  then show ?thesis
    unfolding rcpt_request_def using f fr base n assms(3,4)
    by (auto simp: after_simps invoke_opt_def after_invoke split: option.split
        intro!: good_replies report_reply [OF reportError_output backendReply_output] rcpt_accept_good [of ?m _ n])
qed

lemma handleRcpt_good:
  assumes "steady s" "ps_phase (cn_state s) \<in> {phaseMail, phaseRecipients}"
  shows "after (handleRcpt en c) good s"
proof -
  from assms(1) obtain m where m: "base m s" "phase_ok (en_server en) m s" by (auto simp: steady_def)
  show ?thesis
    unfolding handleRcpt_def after_view
    using assms(1) by (auto split: sum.split intro!: good_replies rcpt_request_good [OF m assms(2)])
qed

end

section \<open>Content is always evaluated\<close>

lemma run_prog_returns: "returns P p \<Longrightarrow> run_prog fs p t = Some ((rs, e, b), t') \<Longrightarrow> P b"
proof (induction p arbitrary: t)
  case (DRead k f)
  then obtain x u where "tracked_Read fs k t = Some (x, u)" "run_prog fs (f x) u = Some ((rs, e, b), t')"
    by (auto split: option.splits)
  with DRead.prems(1) DRead.IH [OF rangeI, of x u] show ?case by (cases x) simp
qed auto

lemma evaluateDataCall_returns: "returns P p \<Longrightarrow> evaluateDataCall fs mode rs c m p = Some (ev, m', b) \<Longrightarrow> P b"
  by (auto simp: evaluateDataCall_def Let_def dest: run_prog_returns split: option.splits prod.splits if_splits)

lemma data_source_total:
  assumes "0 \<le> sv_maxMessage sv" "sv_maxMessage sv < MaxInt64"
  shows "evaluateDataCall fs mode rs c \<lparr>mr_header = Some h, mr_src = data_source sv lr, mr_gone = False\<rparr> p \<noteq> None"
proof -
  obtain f where "undot (lr_fin lr) True False (lr_stream lr) = f" by blast
  from evaluateDataCall_dot [OF start_inv [OF assms this], of fs mode rs c h p] show ?thesis by (auto simp: data_source_def)
qed

definition from_spool :: "tracked_reader \<Rightarrow> bool" where
  "from_spool t \<longleftrightarrow> (\<exists>r. mr_src (td_reader t) = SrcSpool r)"

lemma tracked_Read_spool:
  assumes "from_spool t"
  obtains x u where "tracked_Read fs k t = Some (x, u)" "from_spool u"
proof -
  obtain r where r: "mr_src (td_reader t) = SrcSpool r" using assms by (auto simp: from_spool_def)
  have "\<exists>y r'. src_Read fs k (SrcSpool r) = Some (y, SrcSpool r')"
    by (cases r) (auto simp: map_prod_def split: prod.split)
  then obtain y r' where y: "src_Read fs k (SrcSpool r) = Some (y, SrcSpool r')" by blast
  obtain bs e where "y = (bs, e)" by (cases y)
  with r y have "\<exists>x u. tracked_Read fs k t = Some (x, u) \<and> from_spool u"
    by (cases rule: header_cases [of "td_reader t"]; cases "mr_gone (td_reader t)")
      (simp_all add: tracked_Read_def multi_Read_header multi_Read_src from_spool_def)
  then show thesis using that by blast
qed

lemma run_prog_spool: "from_spool t \<Longrightarrow> \<exists>x u. run_prog fs p t = Some (x, u) \<and> from_spool u"
proof (induction p arbitrary: t)
  case (DRead k f)
  obtain x u where "tracked_Read fs k t = Some (x, u)" "from_spool u" using tracked_Read_spool [OF DRead.prems] by metis
  with DRead.IH show ?case by auto
qed auto

lemma drain_spool: "from_spool t \<Longrightarrow> \<exists>x u. drain fs t = Some (x, u) \<and> from_spool u"
proof (induction fs t rule: drain.induct)
  case (1 fs t)
  obtain bs e u where u: "tracked_Read fs 8192 t = Some ((bs, e), u)" "from_spool u"
    using tracked_Read_spool [OF "1.prems"] by (metis surj_pair)
  show ?case
  proof (cases e)
    case None
    with 1(1) [OF u(1) refl refl None u(2)] u show ?thesis by (subst drain.simps) simp
  next
    case (Some y)
    with u show ?thesis by (subst drain.simps) simp
  qed
qed

lemma spool_source_total:
  "evaluateDataCall fs mode rs c \<lparr>mr_header = Some h, mr_src = SrcSpool r, mr_gone = False\<rparr> p \<noteq> None"
proof -
  let ?t = "\<lparr>td_reader = \<lparr>mr_header = Some h, mr_src = SrcSpool r, mr_gone = False\<rparr>, td_exhausted = False\<rparr>"
  have "from_spool ?t" by (simp add: from_spool_def)
  then obtain res err b u where run: "run_prog fs p ?t = Some ((res, err, b), u)" "from_spool u"
    using run_prog_spool [of ?t fs p] by (metis surj_pair)
  obtain x v where d: "drain fs u = Some (x, v)" "from_spool v" using drain_spool [OF run(2)] by metis
  obtain y w where "drain fs v = Some (y, w)" using drain_spool [OF d(2)] by metis
  with d have "drainRest fs u \<noteq> None" by (auto simp: drainRest_def split: option.splits content_error.splits)
  with run(1) show ?thesis by (auto simp: evaluateDataCall_def Let_def split: option.splits if_splits)
qed

context serving
begin

lemma after_resetIfOpen:
  assumes "base m s" "mn_life m = Idle \<or> contract_step pol m (CallReset r) = Some (m\<lparr>mn_life := Idle\<rparr>)" "r \<noteq> ResetStartTLS"
    "\<And>t. base (m\<lparr>mn_life := Idle\<rparr>) t \<Longrightarrow> cn_state t = cn_state s \<Longrightarrow> cn_recipients t = cn_recipients s \<Longrightarrow> Q (Ok ()) t"
  shows "after (life_resetIfOpen en r) Q s"
proof (cases "mn_life m = Idle")
  case True
  then have "m\<lparr>mn_life := Idle\<rparr> = m" by simp
  moreover from True assms(1) have "\<not> cn_transactionOpen s" "cn_spool s = None" by (simp_all add: base_def linked_def)
  ultimately show ?thesis using assms(1) assms(4) [of s] by (simp add: life_resetIfOpen_def after_simps)
next
  case False
  with assms(1) have "cn_transactionOpen s" by (simp add: base_def linked_def)
  with False assms(2-4) show ?thesis by (auto simp: life_resetIfOpen_def after_simps intro!: after_reset [OF assms(1)])
qed

lemma handleRSET_good:
  assumes "steady s" "ps_phase (cn_state s) \<in> {phaseReady, phaseMail, phaseRecipients, phaseFailedBDAT}"
  shows "after (handleRSET en c) good s"
proof -
  from assms(1) obtain m where m: "base m s" "phase_ok (en_server en) m s" by (auto simp: steady_def)
  let ?m = "m\<lparr>mn_life := Idle\<rparr>"
  have tail: "after (seq (transit eventReset) (seq clearTransaction (reply_with en x a))) good t"
    if "base ?m t" "cn_state t = cn_state s" for t x a
    unfolding after_seq [of "transit _"]
  proof (rule after_transit [OF that(1)])
    fix st
    assume "base ?m (t\<lparr>cn_state := st\<rparr>)" "ps_phase st = snd (phaseTransitions eventReset)"
    then have "steady (t\<lparr>cn_state := st, cn_smtpUTF8 := False, cn_binaryMIME := False, cn_recipients := []\<rparr>)"
      by (intro steadyI [of ?m] ready_ok) simp_all
    then show "onwards (\<lambda>_. seq clearTransaction (reply_with en x a)) good (Ok ()) (t\<lparr>cn_state := st\<rparr>)"
      by (simp add: after_simps clearTransaction_def good_replies)
  qed (use assms(2) that(2) in auto)
  show ?thesis
  proof (cases "cmd_Argument c = []")
    case True
    then show ?thesis
      unfolding handleRSET_def if_not_P [OF _] after_seq [of "life_resetIfOpen _ _"]
      using phase_life [OF m(2)]
      by (auto simp: after_seq [of "life_resetIfOpen _ _"] step_reset_open intro!: after_resetIfOpen [OF m(1)] tail)
  qed (simp add: handleRSET_def good_replies assms(1))
qed

text \<open>Calls that leave the transaction alone.\<close>

lemma phase_ok_user [simp]: "phase_ok sv m (s\<lparr>cn_user := b\<rparr>) = phase_ok sv m s" "phase_ok sv m (s\<lparr>cn_reader := lr\<rparr>) = phase_ok sv m s"
  by (simp_all add: phase_ok_def split: sessionPhase.split)

lemma after_same_call:
  assumes "base m s" "phase_ok (en_server en) m s" "hist (snd (f (cn_user s))) = hist (cn_user s) @ [c]" "contract_step pol m c = Some m"
    "\<And>r. outputs (g r)"
  shows "after (bind_go (invoke f) g) good s"
proof -
  from assms(1-4) have "steady (s\<lparr>cn_user := snd (f (cn_user s))\<rparr>)"
    by (intro steadyI [OF base_same_call [OF assms(1,3,4)]]) simp
  with assms(5) show ?thesis by (simp add: after_bind after_invoke good_reply)
qed

lemma query_step: "phase_ok sv m s \<Longrightarrow> contract_step pol m CallQuery = Some m"
  using phase_life by fastforce

lemma handleVRFY_good: "steady s \<Longrightarrow> after (handleVRFY en c) good s"
  by (auto simp: handleVRFY_def steady_def [of s] split: option.split
      intro!: good_replies after_same_call [where c = CallQuery] Verify query_step output_rules steadyI split: sum.split)

lemma handleEXPN_good: "steady s \<Longrightarrow> after (handleEXPN en c) good s"
  by (auto simp: handleEXPN_def steady_def [of s] split: option.split
      intro!: good_replies after_same_call [where c = CallQuery] Expand query_step output_rules steadyI split: sum.split)

lemma handleHELP_good: "steady s \<Longrightarrow> after (handleHELP en c) good s"
  by (auto simp: handleHELP_def steady_def [of s] split: option.split
      intro!: good_replies after_same_call [where c = CallQuery] Help query_step output_rules steadyI split: sum.split)

lemma handleETRN_good: "steady s \<Longrightarrow> ps_phase (cn_state s) = phaseReady \<Longrightarrow> after (handleETRN en c) good s"
  by (auto simp: handleETRN_def steady_def [of s] phase_ok_def split: option.split
      intro!: good_replies after_same_call [where c = CallETRN] ETRN output_rules steadyI split: sum.split)

lemma simple_good: "steady s \<Longrightarrow> after (handleNOOP en c) good s" "steady s \<Longrightarrow> after (handleQUIT en c) good s"
  by (auto simp: handleNOOP_def handleQUIT_def intro!: good_replies)

end

context serving
begin

text \<open>Content goes to the backend once, and the transaction ends with it.\<close>

lemma evaluateContent_good:
  assumes "base m s" "mn_life m = Opened (Suc n)" "cn_recipients s \<noteq> []"
    and total: "\<And>mode rs c h p. evaluateDataCall (en_fs en) mode rs c
      \<lparr>mr_header = Some h, mr_src = src, mr_gone = False\<rparr> (p :: 'b data_prog) \<noteq> None"
    and ok: "\<And>ev src' t. base (m\<lparr>mn_life := Delivered\<rparr>) t \<Longrightarrow> cn_state t = cn_state s \<Longrightarrow> Q (Ok (ev, src')) t"
    and err: "\<And>e m' t. benign (Some e) \<Longrightarrow> base m' t \<Longrightarrow> Q (Err e) t"
  shows "after (evaluateContent en command src) Q s"
proof (cases "received_header en (hd (cn_recipients s)) s")
  case (Inl e)
  with assms(3) err [of "ErrWire e" m s] assms(1) show ?thesis
    by (cases "cn_recipients s") (simp_all add: evaluateContent_def after_simps)
next
  case (Inr h)
  obtain f where f: "se_Data (en_backend en) = Some f" using callbacks(3) [OF base_servable [OF assms(1)]] by blast
  let ?m = "\<lparr>mr_header = Some h, mr_src = src, mr_gone = False\<rparr>"
  obtain ev mr b where call: "evaluateDataCall (en_fs en) (ps_mode (cn_state s)) (cn_recipients s) command ?m (f (cn_user s)) = Some (ev, mr, b)"
    using total [of "ps_mode (cn_state s)" "cn_recipients s" command h "f (cn_user s)"] by (metis option.exhaust surj_pair)
  let ?s = "s\<lparr>cn_user := b, cn_reader := content_reader (mr_src mr) (cn_reader s)\<rparr>"
  have "hist b = hist (cn_user s) @ [CallData]" using evaluateDataCall_returns [OF Data [OF f] call] .
  then have "base (m\<lparr>mn_life := Delivered\<rparr>) (s\<lparr>cn_user := b\<rparr>)"
    using assms(1,2) by (intro base_call [OF assms(1), of _ CallData]) (simp_all add: base_def linked_def facts_ok_def)
  then have delivered: "base (m\<lparr>mn_life := Delivered\<rparr>) ?s" by simp
  have reports: "outputs (unless (de_defect ev = []) (reportError en (RepDefect (de_defect ev))))"
    "outputs (case de_cause ev of None \<Rightarrow> ret () | Some c \<Rightarrow> reportError en (RepCause c))"
    by (auto intro!: outp.path_rules reportError_output split: option.split)
  have "after (seq (case de_cause ev of None \<Rightarrow> ret () | Some c \<Rightarrow> reportError en (RepCause c)) (ret (ev, mr_src mr))) Q t"
    if "base (m\<lparr>mn_life := Delivered\<rparr>) t" "cn_state t = cn_state s" for t
    unfolding after_seq using that
    by (intro after_outputs [OF reports(2)]) (auto simp: after_ret output_fields intro: ok err base_output)
  then have "after (content_reports en ev (mr_src mr)) Q ?s"
    unfolding content_reports_def after_seq [of "unless _ _"]
    using base_output [OF _ delivered] by (intro after_outputs [OF reports(1)]) (auto simp: output_fields intro: err)
  with assms(3) Inr f call show ?thesis
    by (cases "cn_recipients s") (simp_all add: evaluateContent_def after_simps)
qed

lemma after_deferring: "after h (\<lambda>r t. after d (\<lambda>x u. x = Ok () \<and> Q r u) t) s \<Longrightarrow> after (deferring h d) Q s"
  by (auto simp: after_def deferring_def split: prod.splits)

lemma settle_good:
  assumes "base m s" "mn_life m = Delivered" "ps_phase (cn_state s) = phaseRecipients"
  shows "after (seq (life_reset en (if c then ResetCompleted else ResetFailed))
    (seq clearTransaction (transit (if c then eventTransactionComplete else eventTransactionFailed)))) (\<lambda>x u. x = Ok () \<and> steady u) s"
  unfolding after_seq [of "life_reset _ _"]
proof (rule after_reset [OF assms(1), of _ "m\<lparr>mn_life := Idle\<rparr>"])
  fix t
  assume t: "base (m\<lparr>mn_life := Idle\<rparr>) t" "cn_state t = cn_state s"
  let ?t = "t\<lparr>cn_smtpUTF8 := False, cn_binaryMIME := False, cn_recipients := []\<rparr>"
  from t(1) have "base (m\<lparr>mn_life := Idle\<rparr>) ?t" by simp
  then have "after (transit (if c then eventTransactionComplete else eventTransactionFailed)) (\<lambda>x u. x = Ok () \<and> steady u) ?t"
    by (rule after_transit) (use assms(3) t(2) in \<open>auto intro!: steadyI ready_ok\<close>)
  then show "onwards (\<lambda>_. seq clearTransaction (transit (if c then eventTransactionComplete else eventTransactionFailed)))
      (\<lambda>x u. x = Ok () \<and> steady u) (Ok ()) t"
    by (simp add: after_simps clearTransaction_def)
qed (use assms(2) in auto)

lemma finishContent_good:
  assumes "base m s" "mn_life m = Delivered" "ps_phase (cn_state s) = phaseRecipients"
  shows "after (finishContent en ev) good s"
proof -
  have out: "outputs (seq (each (writeResult en) (de_result ev)) (ret sync))"
    by (intro outp.path_rules writeResult_output)
  let ?settle = "seq (life_reset en (if de_completed ev then ResetCompleted else ResetFailed))
      (seq clearTransaction (transit (if de_completed ev then eventTransactionComplete else eventTransactionFailed)))"
  have settled: "after ?settle (\<lambda>x u. x = Ok () \<and> good r u) t"
    if "output_only s t" "\<And>e. r = Err e \<Longrightarrow> benign (Some e)" "r \<noteq> Panic" for r t
  proof (rule after_mono [OF settle_good])
    show "base m t" "mn_life m = Delivered" "ps_phase (cn_state t) = phaseRecipients"
      using assms that(1) by (simp_all add: base_output output_fields)
  qed (use that in \<open>cases r; simp add: steady_closable\<close>)
  have "after (deferring (seq (each (writeResult en) (de_result ev)) (ret sync)) ?settle) good s"
    by (intro after_deferring after_outputs [OF out] settled) simp_all
  then show ?thesis
    using base_closable [OF assms(1)] unfolding finishContent_def
    by (simp add: after_fail after_ret split: option.split)
qed

lemma content_good:
  assumes "base m s" "phase_ok (en_server en) m s" "ps_phase (cn_state s) = phaseRecipients"
    and total: "\<And>mode rs c h p. evaluateDataCall (en_fs en) mode rs c
      \<lparr>mr_header = Some h, mr_src = src, mr_gone = False\<rparr> (p :: 'b data_prog) \<noteq> None"
  shows "after (bind_go (evaluateContent en command src) (\<lambda>(ev, src). view (\<lambda>s. finishContent en (f ev src s)))) good s"
proof -
  from assms(2,3) obtain k where k: "mn_life m = Opened k" "length (cn_recipients s) \<le> k" "cn_recipients s \<noteq> []"
    by (auto simp: phase_ok_def)
  then obtain n where "k = Suc n" by (cases k) simp_all
  with k have "mn_life m = Opened (Suc n)" "cn_recipients s \<noteq> []" by simp_all
  then show ?thesis
    unfolding after_bind using assms(3)
    by (intro evaluateContent_good [OF assms(1) _ _ total])
      (auto simp: after_view base_closable intro!: finishContent_good)
qed

end

context serving
begin

lemma data_content_good:
  assumes "base m s" "phase_ok (en_server en) m s" "ps_phase (cn_state s) = phaseRecipients"
  shows "after (data_content en) good s"
proof -
  have "after (view (\<lambda>s. case dot_SetDeadline dl (NewDotUnstuffReader (cn_reader s)) of
      Some e \<Rightarrow> fail (ErrWire e)
    | None \<Rightarrow> bind_go (evaluateContent en ''DATA'' (data_source (en_server en) (cn_reader s)))
        (\<lambda>(ev, src). view (\<lambda>s. finishContent en (if src_exceeded src then sizeExceededEvaluation ''DATA'' s else ev))))) good t"
    if "output_only s t" for dl t
  proof -
    have t: "base m t" "phase_ok (en_server en) m t" "ps_phase (cn_state t) = phaseRecipients"
      using that assms by (auto intro: base_output phase_ok_output simp: output_fields)
    show ?thesis
      unfolding after_view using base_closable [OF t(1)]
      by (cases "dot_SetDeadline dl (NewDotUnstuffReader (cn_reader t))")
        (simp_all add: after_fail content_good [OF t data_source_total [OF message_limit [OF base_servable [OF assms(1)]]]])
  qed
  then show ?thesis
    unfolding data_content_def after_bind using base_closable [OF assms(1)]
    by (intro after_outputs [OF net_output]) (auto intro: closable_output)
qed

lemma handleDATA_good:
  assumes "steady s" "ps_phase (cn_state s) = phaseRecipients"
  shows "after (handleDATA en c) good s"
proof -
  from assms(1) obtain m where m: "base m s" "phase_ok (en_server en) m s" by (auto simp: steady_def)
  have "after (data_content en) good t" if "output_only s t" for t
    using that m assms(2) by (intro data_content_good [of m]) (auto intro: base_output phase_ok_output simp: output_fields)
  then have "after (seq (writeReply en r) (seq (Flush en) (data_content en))) good s" for r
    using steady_closable [OF assms(1)]
    by (intro then_reply output_rules writeReply_output Flush_output) (auto intro: closable_output outp.trans)
  then show ?thesis
    unfolding handleDATA_def after_view using assms(1) by (auto simp: after_view intro!: good_replies)
qed

text \<open>BDAT: reading a chunk only moves the reader.\<close>

definition keeps :: "('w, 'b) commandSession \<Rightarrow> ('w, 'b) commandSession \<Rightarrow> bool" where
  "keeps s t \<longleftrightarrow> cn_state t = cn_state s \<and> cn_recipients t = cn_recipients s \<and> cn_spool t = cn_spool s \<and> cn_spools t = cn_spools s"

lemma phase_ok_keeps: "keeps s t \<Longrightarrow> phase_ok sv m s \<Longrightarrow> phase_ok sv m t"
  by (simp add: phase_ok_def keeps_def split: sessionPhase.splits)

lemma after_read_bdat:
  assumes "base m s" "\<And>r t. base m t \<Longrightarrow> keeps s t \<Longrightarrow> Q (Ok r) t" "\<And>e t. benign (Some e) \<Longrightarrow> base m t \<Longrightarrow> Q (Err e) t"
  shows "after (read_bdat en wr sz x) Q s"
  unfolding read_bdat_def after_bind
  by (intro after_outputs [OF net_output])
    (auto simp: after_simps keeps_def output_fields split: prod.split intro!: assms(2,3) intro: base_output [OF _ assms(1)])

lemma wire_check_after: "after (wire_check e) Q s \<longleftrightarrow> (case e of None \<Rightarrow> Q (Ok ()) s | Some x \<Rightarrow> Q (Err (ErrWire x)) s)"
  by (simp add: wire_check_def after_simps split: option.split)

lemma after_discard:
  assumes "base m s" "\<And>t. base m t \<Longrightarrow> keeps s t \<Longrightarrow> after n good t"
  shows "after (seq (discard_chunk en sz) n) good s"
  unfolding after_seq discard_chunk_def after_bind
  by (rule after_read_bdat [OF assms(1)]) (auto simp: wire_check_after base_closable assms(2) split: option.split)

lemma failBDAT_good:
  assumes "base m s" "is_opened (mn_life m)" "ps_phase (cn_state s) = phaseRecipients"
  shows "after (failBDAT en e) good s"
  unfolding failBDAT_def after_seq [of "life_resetIfOpen _ _"]
proof (rule after_resetIfOpen [OF assms(1)])
  let ?m = "m\<lparr>mn_life := Idle\<rparr>"
  fix t
  assume t: "base ?m t" "cn_state t = cn_state s"
  have "after (transit eventBDATFailed) (onwards (\<lambda>_. n) good) t" if "outputs n" for n
  proof (rule after_transit [OF t(1)])
    fix st
    assume "base ?m (t\<lparr>cn_state := st\<rparr>)" "ps_phase st = snd (phaseTransitions eventBDATFailed)"
    then have "steady (t\<lparr>cn_state := st\<rparr>)" by (intro steadyI [of ?m]) (simp_all add: phase_ok_def)
    then show "onwards (\<lambda>_. n) good (Ok ()) (t\<lparr>cn_state := st\<rparr>)" by (simp add: good_reply that)
  qed (use assms(3) t(2) in auto)
  then show "onwards (\<lambda>_. seq (transit eventBDATFailed)
      (if e = errSpoolMessageTooLarge then
         reply_with en (text_reply 552 (enhanced 5 3 4) ''Message size exceeds fixed maximum message size'') no_action
       else if e \<in> {errSpoolTotalExhausted, errSpoolMemoryExhausted, errSpoolConcurrentExhausted} then
         reply_with en (text_reply 452 (enhanced 4 3 1) ''Insufficient system storage'') no_action
       else seq (reportError en (RepSpool e)) (reply_with en (text_reply 451 (enhanced 4 3 0) ''Temporary storage failure'') no_action)))
    good (Ok ()) t"
    by (simp add: after_seq [of "transit _"] output_rules reply_with_output reportError_output)
qed (use assms(2) in \<open>simp_all add: step_reset_open\<close>)

lemma after_store:
  assumes "base m s" "phase_ok (en_server en) m s" "ps_phase (cn_state s) = phaseRecipients" "cn_spool s \<noteq> None" "cn_spools s \<noteq> None"
    "\<And>r t. base m t \<Longrightarrow> phase_ok (en_server en) m t \<Longrightarrow> ps_phase (cn_state t) = phaseRecipients \<Longrightarrow> cn_spool t \<noteq> None \<Longrightarrow> Q (Ok r) t"
    "\<And>e t. benign (Some e) \<Longrightarrow> base m t \<Longrightarrow> Q (Err e) t"
  shows "after (store_chunk en sz) Q s"
proof -
  obtain mg sp where some: "cn_spools s = Some mg" "cn_spool s = Some sp" using assms(4,5) by blast
  have opened: "is_opened (mn_life m)" using assms(2,3) by (auto simp: phase_ok_def)
  have stored: "base m (t\<lparr>cn_spools := Some x, cn_spool := Some y\<rparr>)" if "base m t" for t x y
    using that opened by (auto simp: base_def now_def linked_def facts_ok_def)
  have kept: "phase_ok (en_server en) m (t\<lparr>cn_spools := Some x, cn_spool := Some y\<rparr>)"
    "ps_phase (cn_state (t\<lparr>cn_spools := Some x, cn_spool := Some y\<rparr>)) = phaseRecipients" if "keeps s t" for t x y
    using that assms(2,3) by (auto simp: phase_ok_def keeps_def)
  show ?thesis
    unfolding store_chunk_def after_view some
    by (simp add: after_bind) (rule after_read_bdat [OF assms(1)],
      auto simp: after_simps wire_check_after split: option.split intro!: assms(6,7) stored kept)
qed

end

context serving
begin

lemma bdat_deliver_good:
  assumes "base m s" "phase_ok (en_server en) m s" "ps_phase (cn_state s) = phaseRecipients" "cn_spool s \<noteq> None"
  shows "after (bdat_deliver en) good s"
proof -
  obtain sp where sp: "cn_spool s = Some sp" using assms(4) by blast
  have opened: "is_opened (mn_life m)" using assms(2,3) by (auto simp: phase_ok_def)
  have moved: "base m (s\<lparr>cn_spool := Some sp'\<rparr>)" "phase_ok (en_server en) m (s\<lparr>cn_spool := Some sp'\<rparr>)" for sp'
    using assms opened by (auto simp: base_def now_def linked_def facts_ok_def phase_ok_def)
  have "view (\<lambda>_. finishContent en ev) = finishContent en ev" for ev by (simp add: view_def fun_eq_iff)
  with content_good [OF moved _ spool_source_total, where f = "\<lambda>ev _ _. ev"] assms(3)
  have "after (bind_go (evaluateContent en ''BDAT'' (SrcSpool reader)) (\<lambda>(ev, _). finishContent en ev)) good (s\<lparr>cn_spool := Some sp'\<rparr>)"
    for reader sp' by simp
  with failBDAT_good [OF moved(1) opened] assms(3) show ?thesis
    by (auto simp: bdat_deliver_def sp after_simps split: prod.split sum.split)
qed

lemma bdat_chunk_good:
  assumes "base m s" "phase_ok (en_server en) m s" "ps_phase (cn_state s) = phaseRecipients" "cn_spool s \<noteq> None" "cn_spools s \<noteq> None"
  shows "after (bdat_chunk en fr) good s"
  unfolding bdat_chunk_def after_bind
proof (rule after_store [OF assms])
  fix r t
  assume t: "base m t" "phase_ok (en_server en) m t" "ps_phase (cn_state t) = phaseRecipients" "cn_spool t \<noteq> None"
  have "is_opened (mn_life m)" using t(2,3) by (auto simp: phase_ok_def)
  with t show "onwards (\<lambda>err. case err of
        Some e \<Rightarrow> failBDAT en e
      | None \<Rightarrow> if \<not> bdat_Last fr then reply_with en (text_reply 250 (enhanced 2 0 0) ''BDAT chunk accepted'') no_action
               else bdat_deliver en) good (Ok r) t"
    by (auto split: option.split intro!: good_replies steadyI [OF t(1,2)] bdat_deliver_good failBDAT_good [OF t(1)])
qed (simp add: base_closable)

lemma bdat_spooled_good:
  assumes "base m s" "phase_ok (en_server en) m s" "ps_phase (cn_state s) = phaseRecipients" "cn_spools s \<noteq> None"
  shows "after (bdat_spooled en fr) good s"
proof -
  have opened: "is_opened (mn_life m)" using assms(2,3) by (auto simp: phase_ok_def)
  have new: "base m (s\<lparr>cn_spools := Some m', cn_spool := x\<rparr>)" "phase_ok (en_server en) m (s\<lparr>cn_spools := Some m', cn_spool := x\<rparr>)"
    "base m (s\<lparr>cn_spools := Some m'\<rparr>)" for m' x
    using assms opened by (auto simp: base_def now_def linked_def facts_ok_def phase_ok_def)
  have "after (seq (discard_chunk en sz) (failBDAT en e)) good (s\<lparr>cn_spools := Some m'\<rparr>)" for m' sz e
    using assms(3) by (intro after_discard [OF new(3)] failBDAT_good [OF _ opened]) (auto simp: keeps_def)
  moreover have "after (bdat_chunk en fr) good (s\<lparr>cn_spools := Some m', cn_spool := Some sp\<rparr>)" for m' sp
    using assms(3) new by (intro bdat_chunk_good [of m]) simp_all
  ultimately show ?thesis
    using assms bdat_chunk_good [OF assms(1-3)]
    by (auto simp: bdat_spooled_def after_simps attachSpool_def drop_spool_def split: option.split prod.split sum.split)
qed

lemma handleBDAT_good:
  assumes "steady s" "ps_phase (cn_state s) \<in> {phaseReady, phaseMail, phaseRecipients, phaseFailedBDAT}"
  shows "after (handleBDAT en c) good s"
proof -
  from assms(1) obtain m where m: "base m s" "phase_ok (en_server en) m s" by (auto simp: steady_def)
  have discard: "after (seq (discard_chunk en sz) n) good s" if "outputs n" for sz n
    by (rule after_discard [OF m(1)]) (auto intro!: good_reply [OF that] steadyI intro: phase_ok_keeps [OF _ m(2)])
  have "cn_recipients s \<noteq> [] \<Longrightarrow> ps_phase (cn_state s) \<noteq> phaseFailedBDAT \<Longrightarrow> ps_phase (cn_state s) = phaseRecipients"
    using m(2) assms(2) by (auto simp: phase_ok_def)
  moreover have "sv_chunking (en_server en) \<Longrightarrow> cn_spools s \<noteq> None" using m(1) by (simp add: base_def facts_ok_def)
  ultimately show ?thesis
    unfolding handleBDAT_def using assms(1)
    by (auto simp: after_view split: sum.split intro!: good_replies discard bdat_spooled_good [OF m] reply_with_output replies_output)
qed

text \<open>A malformed line after a chunk ends the transaction too.\<close>

lemma handleCommandReadError_good:
  assumes "steady s"
  shows "after (handleCommandReadError en e) (\<lambda>r t. case r of Ok (Some a) \<Rightarrow> good (Ok a) t | Ok None \<Rightarrow> steady t
    | Err x \<Rightarrow> closable t \<and> benign (Some x) | Panic \<Rightarrow> False) s" (is "after _ ?Q s")
proof (cases "cn_spool s = None \<or> \<not> isFramedCommandSyntaxError e")
  case False
  from assms(1) obtain m where m: "base m s" "phase_ok (en_server en) m s" by (auto simp: steady_def)
  let ?m = "m\<lparr>mn_life := Idle\<rparr>"
  from False m have opened: "is_opened (mn_life m)" and phase: "ps_phase (cn_state s) = phaseRecipients"
    by (auto simp: base_def linked_def phase_ok_def split: sessionPhase.splits)
  have tail: "after (seq (transit eventBDATFailed) (seq (writeReply en r) (ret (Some sync)))) ?Q t"
    if t: "base ?m t" "cn_state t = cn_state s" for r t
    unfolding after_seq
  proof (rule after_transit [OF t(1)])
    fix st
    assume "base ?m (t\<lparr>cn_state := st\<rparr>)" "ps_phase st = snd (phaseTransitions eventBDATFailed)"
    then have "steady (t\<lparr>cn_state := st\<rparr>)" by (intro steadyI [of ?m]) (simp_all add: phase_ok_def)
    then show "onwards (\<lambda>_. seq (writeReply en r) (ret (Some sync))) ?Q (Ok ()) (t\<lparr>cn_state := st\<rparr>)"
      by (auto simp: after_seq after_ret intro!: after_outputs [OF writeReply_output] steady_closable dest!: steady_output)
  qed (use phase t(2) in auto)
  from False show ?thesis
    unfolding handleCommandReadError_def after_view
    by (auto simp: after_seq [of "life_resetIfOpen _ _"] step_reset_open opened intro!: after_resetIfOpen [OF m(1)] tail)
qed (use assms in \<open>auto simp: handleCommandReadError_def after_simps\<close>)

end

end
