(* ===== verification/Srv_Conformance.thy ===== *)
theory Srv_Conformance
  imports Srv_Contract
begin

text \<open>
  Every connection keeps the contract of the backend: the handlers of AUTH, STARTTLS and ATRN, the dispatch of commands,
  the command loop and the end of the session keep the invariant of Srv_Contract, and a new session satisfies it. So the
  calls of a whole connection are a history of the automaton that ends with \<open>Close\<close>, and the session never gets into an
  error of its own: no panic, no transition its state machine refuses, no command without a handler, no SASL exchange
  without progress.
\<close>

section \<open>SASL exchanges\<close>

text \<open>A step that asks for nothing ends the exchange.\<close>

definition productive :: "ResponderStep \<Rightarrow> bool" where
  "productive step \<longleftrightarrow> st_Verification step \<noteq> None \<or> st_Challenge step \<noteq> None \<or> st_Done step"

definition past_verification :: "Responder \<Rightarrow> bool" where
  "past_verification r \<longleftrightarrow> re_state r \<in> {responderSCRAMProof, responderSCRAMEmpty}"

definition legal_responder :: "Responder \<Rightarrow> bool" where
  "legal_responder r \<longleftrightarrow> (\<exists>h. responder_ok h r)"

lemma legal_call:
  assumes "legal_responder r"
  shows "legal_responder (snd (respond c r))" "fst (respond c r) \<noteq> Inl SaslPanic"
proof -
  from assms obtain h where "responder_ok h r" by (auto simp: legal_responder_def)
  then have "responder_ok (h @ [(c, Inl SaslPanic)]) r" by (rule responder_ok_mono) auto
  then have "Sasl_Responder.good (h @ [(c, Inl SaslPanic)]) (respond c r)"
    by (cases c) (auto intro!: Start_good Next_good [where out = "Inl SaslPanic"] Continue_good [where out = "Inl SaslPanic"])
  then show "legal_responder (snd (respond c r))" "fst (respond c r) \<noteq> Inl SaslPanic"
    by (auto simp: Sasl_Responder.good_def legal_responder_def)
qed

lemmas step_defs = finish_def await_def refuse_def verify_def challengeStep_def no_step_def productive_def past_verification_def

lemma mechanism_steps:
  "plain p r = (Inr step, r') \<Longrightarrow> productive step \<and> \<not> st_Accepted step \<and> \<not> past_verification r'"
  "external p r = (Inr step, r') \<Longrightarrow> productive step \<and> \<not> st_Accepted step \<and> \<not> past_verification r'"
  "oauth p r = (Inr step, r') \<Longrightarrow> productive step \<and> \<not> st_Accepted step \<and> \<not> past_verification r'"
  "scramFirst p r = (Inr step, r') \<Longrightarrow> productive step \<and> \<not> st_Accepted step \<and> \<not> past_verification r'"
  by (auto simp: plain_def external_def oauth_def scramFirst_def step_defs split: list.splits sum.splits if_splits prod.splits)

lemma Start_steps:
  "Start rnd initial r = (Inr step, r') \<Longrightarrow> productive step \<and> \<not> st_Accepted step \<and> \<not> past_verification r'"
  by (auto simp: Start_def step_defs dest: mechanism_steps [unfolded productive_def past_verification_def]
      split: option.splits sum.splits if_splits)

lemma scramProof_steps: "scramProof p r = (Inr step, r') \<Longrightarrow> productive step \<and> \<not> st_Accepted step"
  by (auto simp: scramProof_def step_defs Let_def split: option.splits sum.splits if_splits)

lemma Next_steps:
  "Next p r = (Inr step, r') \<Longrightarrow> productive step \<and> (st_Accepted step \<or> past_verification r' \<longrightarrow> past_verification r)"
  by (cases "re_state r")
    (auto simp: Next_def step_defs dest: mechanism_steps [unfolded productive_def past_verification_def]
      scramProof_steps [unfolded productive_def] split: if_splits)

lemma Continue_steps:
  "Continue rnd v r = (Inr step, r') \<Longrightarrow> productive step \<and> (st_Accepted step \<or> past_verification r' \<longrightarrow> vf_Accepted v)"
  by (auto simp: Continue_def Let_def scramServerFirst_def step_defs split: responderState.splits option.splits if_splits)

lemma verified_accepting:
  "verified x = Inr (v, a) \<Longrightarrow> accepting x = (ar_Failure a = None) \<and> vf_Accepted v = (ar_Failure a = None)"
  "verified_keys y = Inr (v, a) \<Longrightarrow> accepting_keys y = (ar_Failure a = None) \<and> vf_Accepted v = (ar_Failure a = None)"
  by (auto simp: verified_def verified_keys_def accepting_def accepting_keys_def authVerification_def Let_def split: sum.splits option.splits if_splits)

context serving
begin

text \<open>In an exchange: nothing is open, nobody is authenticated.\<close>

definition asking :: "monitor \<Rightarrow> ('w, 'b) commandSession \<Rightarrow> bool" where
  "asking m s \<longleftrightarrow> base m s \<and> mn_life m = Idle \<and> \<not> mn_committed m \<and> ps_phase (cn_state s) = phaseReady \<and> cn_recipients s = []"

lemma asking_steady: "asking m s \<Longrightarrow> steady s"
  by (auto simp: asking_def intro: steadyI ready_ok)

lemma asking_output: "output_only s t \<Longrightarrow> asking m s \<Longrightarrow> asking m t"
  by (auto simp: asking_def output_fields intro: base_output)

lemma asking_reader [simp]: "asking m (s\<lparr>cn_reader := lr\<rparr>) = asking m s"
  by (simp add: asking_def)

lemma asking_call:
  assumes "asking m s" "hist b = hist (cn_user s) @ [CallVerify k]"
  shows "asking (m\<lparr>mn_verified := k\<rparr>) (s\<lparr>cn_user := b\<rparr>)"
proof -
  have "base (m\<lparr>mn_verified := k\<rparr>) (s\<lparr>cn_user := b\<rparr>)"
    using assms by (intro base_call [of m s b "CallVerify k"]) (auto simp: asking_def base_def linked_def facts_ok_def)
  with assms(1) show ?thesis by (simp add: asking_def)
qed

definition vouched :: "AuthResult option \<Rightarrow> monitor \<Rightarrow> bool" where
  "vouched a m \<longleftrightarrow> (\<exists>x. a = Some x \<and> ar_Failure x = None) \<and> mn_verified m"

definition verify_post :: "(session_error, backend_error + Verification \<times> AuthResult) outcome \<Rightarrow> ('w, 'b) commandSession \<Rightarrow> bool" where
  "verify_post r t \<longleftrightarrow> (\<exists>x m. r = Ok x \<and> asking m t \<and> (\<forall>v a. x = Inr (v, a) \<longrightarrow> vf_Accepted v \<longrightarrow> vouched (Some a) m))"

lemma verify_postI:
  "asking m s \<Longrightarrow> hist b = hist (cn_user s) @ [CallVerify k] \<Longrightarrow> (\<And>v a. x = Inr (v, a) \<Longrightarrow> k = (ar_Failure a = None) \<and> vf_Accepted v = (ar_Failure a = None)) \<Longrightarrow>
     verify_post (Ok x) (s\<lparr>cn_user := b\<rparr>)"
  unfolding verify_post_def vouched_def using asking_call [of m s b k] by (intro exI [of _ x] exI [of _ "m\<lparr>mn_verified := k\<rparr>"]) auto

lemma verifyAUTH_after:
  assumes "asking m s"
  shows "after (verifyAUTH en q) verify_post s"
proof -
  have none: "verify_post (Ok (Inl e)) s" for e using assms by (auto simp: verify_post_def)
  note simps = verifyAUTH_def after_simps after_invoke
  show ?thesis
  proof (cases "vr_Kind q")
    case VerifyCredentials
    then show ?thesis
      by (cases "se_Authenticate (en_backend en)")
        (auto simp: simps none intro!: verify_postI [OF assms Authenticate] verified_accepting)
  next
    case VerifyChallengeResponse
    then show ?thesis
      by (cases "se_ChallengeResponse (en_backend en)")
        (auto simp: simps none intro!: verify_postI [OF assms ChallengeResponse] verified_accepting)
  next
    case VerifySCRAMKeys
    then show ?thesis
      by (cases "se_SCRAMCredentials (en_backend en)")
        (auto simp: simps none intro!: verify_postI [OF assms SCRAMCredentials] verified_accepting)
  qed
qed

end

context serving
begin

definition round_post :: "monitor \<Rightarrow> (session_error, 'x) outcome \<Rightarrow> ('w, 'b) commandSession \<Rightarrow> bool" where
  "round_post m r t \<longleftrightarrow> asking m t \<and> r \<noteq> Panic \<and> (\<forall>e. r = Err e \<longrightarrow> benign (Some e))"

lemma after_asking:
  assumes "outputs h" "asking m s" "\<And>a t. asking m t \<Longrightarrow> after (f a) (round_post m) t"
  shows "after (bind_go h f) (round_post m) s"
  unfolding after_bind using assms(2,3)
  by (intro after_outputs [OF assms(1)]) (auto simp: round_post_def intro: asking_output)

lemma auth_round_after:
  assumes "asking m s"
  shows "after (auth_round en c) (round_post m) s"
proof -
  have long: "after (bind_go (reply_with en r a) (\<lambda>a. ret (Inl a :: commandAction + bytes))) (round_post m) t" if "asking m t" for r a t
    using that by (intro after_asking [OF reply_with_output]) (simp_all add: after_ret round_post_def)
  have line: "after (seq (trace en d l) (ret (Inr x :: commandAction + bytes))) (round_post m) t" if "asking m t" for d l x t
    unfolding seq_def using that by (intro after_asking [OF trace_output]) (simp_all add: after_ret round_post_def)
  show ?thesis
    unfolding auth_round_def seq_def [of "writeReply _ _"] seq_def [of "Flush _"]
  proof (intro after_asking [OF writeReply_output assms] after_asking [OF Flush_output] after_asking [OF net_output], goal_cases)
    case (3 _ _ _ _ dl t)
    obtain r lr where r: "ReadSASLResponse dl session_limits (cn_reader t) = (r, lr)" by fastforce
    from 3(3) have "asking m (t\<lparr>cn_reader := lr\<rparr>)" by simp
    then show ?case
      unfolding after_view r prod.case after_seq [of "assign _"] after_assign onwards_simps
      by (cases r) (simp_all add: long line after_fail round_post_def)
  qed simp_all
qed

lemma commit_good:
  assumes "asking m s" "mn_verified m" "hist b = hist (cn_user s) @ [CallCommit]" "outputs n"
  shows "after (seq (transit eventAuthenticated) n) good (s\<lparr>cn_user := b\<rparr>)"
proof -
  let ?m = "m\<lparr>mn_committed := True, mn_verified := False\<rparr>"
  let ?s = "s\<lparr>cn_user := b, cn_state := (cn_state s)\<lparr>ps_phase := phaseReady, ps_authenticated := True\<rparr>\<rparr>"
  have "transit eventAuthenticated (s\<lparr>cn_user := b\<rparr>) = (Ok (), ?s)"
    using assms(1) by (simp add: asking_def transit_def transition_def)
  moreover have "base ?m ?s"
    using assms(1-3) by (auto simp: asking_def base_def now_def contract_run_snoc linked_def facts_ok_def)
  then have "steady ?s" using assms(1) by (intro steadyI [of ?m] ready_ok) (simp_all add: asking_def)
  ultimately show ?thesis using assms(4) by (simp add: after_seq, simp add: after_def [of "transit _"] good_reply)
qed

lemma auth_done_good:
  assumes "asking m s" "st_Done step" "st_Accepted step \<Longrightarrow> vouched a m"
  shows "after (auth_done en step a) good s"
proof (cases "st_Accepted step")
  case True
  with assms(3) obtain x where x: "a = Some x" "ar_Failure x = None" "mn_verified m" by (auto simp: vouched_def)
  note steady = asking_steady [OF assms(1)]
  show ?thesis
  proof (cases "se_CommitAuth (en_backend en)")
    case None
    with True assms(2) x(1,2) steady show ?thesis
      by (auto simp: auth_done_def finalizeAuthentication_def after_simps intro!: report_reply reportError_output reply_with_output)
  next
    case (Some f)
    with True assms(2) x commit_good [OF assms(1) x(3) CommitAuth [OF Some] reply_with_output] show ?thesis
      by (simp add: auth_done_def finalizeAuthentication_def after_bind after_seq [of "invoke _"] after_invoke after_ret)
  qed
qed (use assms(2) asking_steady [OF assms(1)] in \<open>auto simp: auth_done_def authFailure_def Let_def intro!: good_replies\<close>)

lemma authExchangeError_good: "steady s \<Longrightarrow> e \<noteq> SaslPanic \<Longrightarrow> after (authExchangeError en e) good s"
  by (auto simp: authExchangeError_def after_simps steady_closable intro!: good_replies)

definition exchanging :: "Responder \<Rightarrow> ResponderStep \<Rightarrow> AuthResult option \<Rightarrow> monitor \<Rightarrow> bool" where
  "exchanging r step a m \<longleftrightarrow> legal_responder r \<and> productive step \<and> (st_Accepted step \<or> past_verification r \<longrightarrow> vouched a m)"

lemma auth_next:
  assumes "asking m t" "exchanging r step a m"
    "\<And>step' r'. Next response r = (Inr step', r') \<Longrightarrow> exchanging r' step' a m \<Longrightarrow> after (auth_loop en r' step' a) good t"
  shows "after (case Next response r of (Inl e, _) \<Rightarrow> authExchangeError en e | (Inr step', r') \<Rightarrow> auth_loop en r' step' a) good t"
proof -
  from assms(2) legal_call [of r "CallNext response"]
  have legal: "legal_responder (snd (Next response r))" "fst (Next response r) \<noteq> Inl SaslPanic"
    by (auto simp: exchanging_def)
  obtain x r' where x: "Next response r = (x, r')" by fastforce
  show ?thesis
  proof (cases x)
    case (Inl e)
    with x legal(2) asking_steady [OF assms(1)] show ?thesis by (simp add: authExchangeError_good)
  next
    case (Inr step')
    from Next_steps [of response r step' r'] x Inr legal(1) assms(2) have "exchanging r' step' a m" by (auto simp: exchanging_def)
    with assms(3) x Inr show ?thesis by simp
  qed
qed

lemma auth_continue:
  assumes "asking m t" "legal_responder r" "vf_Accepted v \<Longrightarrow> vouched (Some a) m"
    "\<And>step' r'. Continue rnd v r = (Inr step', r') \<Longrightarrow> exchanging r' step' (Some a) m \<Longrightarrow> after (auth_loop en r' step' (Some a)) good t"
  shows "after (case Continue rnd v r of (Inl e, _) \<Rightarrow> authExchangeError en e | (Inr step', r') \<Rightarrow> auth_loop en r' step' (Some a)) good t"
proof -
  from assms(2) legal_call [of r "CallContinue rnd v"]
  have legal: "legal_responder (snd (Continue rnd v r))" "fst (Continue rnd v r) \<noteq> Inl SaslPanic" by auto
  obtain x r' where x: "Continue rnd v r = (x, r')" by fastforce
  show ?thesis
  proof (cases x)
    case (Inl e)
    with x legal(2) asking_steady [OF assms(1)] show ?thesis by (simp add: authExchangeError_good)
  next
    case (Inr step')
    from Continue_steps [of rnd v r step' r'] x Inr legal(1) assms(3) have "exchanging r' step' (Some a) m" by (auto simp: exchanging_def)
    with assms(4) x Inr show ?thesis by simp
  qed
qed

end

section \<open>The AUTH loop\<close>

text \<open>What the loop does after a verification and after a line from the client.\<close>

definition verified_step ::
  "('w, 'b) session_env \<Rightarrow> Responder \<Rightarrow> backend_error + Verification \<times> AuthResult \<Rightarrow> ('w, 'b, commandAction) handler" where
  "verified_step en r x =
     (case x of
        Inl err \<Rightarrow> backendReply en ''AUTH'' err 454 ''Temporary authentication failure''
      | Inr (v, a) \<Rightarrow>
          (\<lambda>t. (case Continue (nt_Rand (en_net en) (cn_world t)) v r of
                 (Inl e, _) \<Rightarrow> authExchangeError en e
               | (Inr step', r') \<Rightarrow> auth_loop en r' step' (Some a)) t))"

definition answered_step ::
  "('w, 'b) session_env \<Rightarrow> Responder \<Rightarrow> AuthResult option \<Rightarrow> commandAction + bytes \<Rightarrow> ('w, 'b, commandAction) handler" where
  "answered_step en r a x =
     (case x of
        Inl action \<Rightarrow> ret action
      | Inr line \<Rightarrow>
          (case decodeSASLResponse line of
             None \<Rightarrow> fail ErrSASLResponse
           | Some response \<Rightarrow>
               (case Next response r of
                  (Inl e, _) \<Rightarrow> authExchangeError en e
                | (Inr step', r') \<Rightarrow> auth_loop en r' step' a)))"

lemma auth_loop_unfold:
  "auth_loop en r step a =
     (case (st_Verification step, st_Challenge step) of
        (Some q, _) \<Rightarrow> bind_go (verifyAUTH en q) (verified_step en r)
      | (None, Some c) \<Rightarrow> bind_go (auth_round en c) (answered_step en r a)
      | (None, None) \<Rightarrow> auth_done en step a)"
proof (rule ext)
  fix s
  have "bind_go (verifyAUTH en q) (verified_step en r) s = auth_loop en r step a s" if "st_Verification step = Some q" for q
    by (subst auth_loop.simps) (auto simp: that bind_go_def verified_step_def split: prod.split outcome.split sum.split)
  moreover have "bind_go (auth_round en c) (answered_step en r a) s = auth_loop en r step a s"
    if "st_Verification step = None" "st_Challenge step = Some c" for c
    by (subst auth_loop.simps) (auto simp: that bind_go_def answered_step_def split: prod.split outcome.split sum.split option.split)
  moreover have "auth_done en step a s = auth_loop en r step a s" if "st_Verification step = None" "st_Challenge step = None"
    by (subst auth_loop.simps) (simp add: that)
  ultimately show "auth_loop en r step a s =
     (case (st_Verification step, st_Challenge step) of
        (Some q, _) \<Rightarrow> bind_go (verifyAUTH en q) (verified_step en r)
      | (None, Some c) \<Rightarrow> bind_go (auth_round en c) (answered_step en r a)
      | (None, None) \<Rightarrow> auth_done en step a) s" by (auto split: option.split)
qed

context serving
begin

lemma verified_step_good:
  assumes "asking m s" "legal_responder r"
    and loop: "\<And>t v b step' r' m'. verifyAUTH en q s = (Ok (Inr (v, b)), t) \<Longrightarrow>
      Continue (nt_Rand (en_net en) (cn_world t)) v r = (Inr step', r') \<Longrightarrow> asking m' t \<Longrightarrow> exchanging r' step' (Some b) m' \<Longrightarrow>
      after (auth_loop en r' step' (Some b)) good t"
  shows "after (bind_go (verifyAUTH en q) (verified_step en r)) good s"
  unfolding after_bind
proof (rule after_intro)
  fix x t
  assume run: "verifyAUTH en q s = (x, t)"
  from afterD [OF verifyAUTH_after [OF assms(1)] run] obtain y m' where y: "x = Ok y" "asking m' t"
    "\<And>v a. y = Inr (v, a) \<Longrightarrow> vf_Accepted v \<Longrightarrow> vouched (Some a) m'" unfolding verify_post_def by blast
  show "onwards (verified_step en r) good x t"
  proof (cases y)
    case (Inl e)
    then show ?thesis using good_reply [OF backendReply_output asking_steady [OF y(2)]] by (simp add: y(1) verified_step_def)
  next
    case (Inr p)
    obtain v b where p: "p = (v, b)" by (cases p)
    have "after (case Continue (nt_Rand (en_net en) (cn_world t)) v r of
        (Inl e, _) \<Rightarrow> authExchangeError en e | (Inr step', r') \<Rightarrow> auth_loop en r' step' (Some b)) good t"
      using y Inr p run by (intro auth_continue [OF y(2) assms(2)] loop) simp_all
    then show ?thesis by (simp add: y(1) Inr p verified_step_def after_def)
  qed
qed

lemma answered_step_good:
  assumes "asking m s" "exchanging r step a m"
    and loop: "\<And>t line response step' r'. auth_round en c s = (Ok (Inr line), t) \<Longrightarrow> decodeSASLResponse line = Some response \<Longrightarrow>
      Next response r = (Inr step', r') \<Longrightarrow> asking m t \<Longrightarrow> exchanging r' step' a m \<Longrightarrow> after (auth_loop en r' step' a) good t"
  shows "after (bind_go (auth_round en c) (answered_step en r a)) good s"
  unfolding after_bind
proof (rule after_intro)
  fix x t
  assume run: "auth_round en c s = (x, t)"
  from afterD [OF auth_round_after [OF assms(1)] run] have t: "asking m t" "x \<noteq> Panic" "\<And>e. x = Err e \<Longrightarrow> benign (Some e)"
    by (auto simp: round_post_def)
  have "after (case Next response r of (Inl e, _) \<Rightarrow> authExchangeError en e | (Inr step', r') \<Rightarrow> auth_loop en r' step' a) good t"
    if "x = Ok (Inr line)" "decodeSASLResponse line = Some response" for line response
    using that run t(1) by (intro auth_next [OF t(1) assms(2)] loop) simp_all
  moreover have "steady t" "closable t" using asking_steady [OF t(1)] steady_closable by auto
  ultimately show "onwards (answered_step en r a) good x t"
    using t(2,3) by (cases x) (auto simp: answered_step_def after_simps split: sum.split option.split)
qed

lemma auth_loop_good:
  "e' = en \<Longrightarrow> asking m s \<Longrightarrow> exchanging r step a m \<Longrightarrow> after (auth_loop e' r step a) good s"
proof (induction e' r step a s arbitrary: m rule: auth_loop.induct)
  case (1 e' r step a s)
  from "1.prems"(3) have legal: "legal_responder r" "productive step" "st_Accepted step \<Longrightarrow> vouched a m" by (auto simp: exchanging_def)
  have verification: "after (bind_go (verifyAUTH en q) (verified_step en r)) good s" if "st_Verification step = Some q" for q
    using 1(2) [OF that] "1.prems"(1) by (intro verified_step_good [OF "1.prems"(2) legal(1)]) metis
  have challenge: "after (bind_go (auth_round en c) (answered_step en r a)) good s"
    if "st_Verification step = None" "st_Challenge step = Some c" for c
    using 1(1) [OF that] "1.prems"(1) by (intro answered_step_good [OF "1.prems"(2,3)]) metis
  show ?case
    unfolding auth_loop_unfold "1.prems"(1)
    using verification challenge auth_done_good [OF "1.prems"(2), of step a] legal(2,3)
    by (auto simp: productive_def split: option.split)
qed

lemma handleAUTH_good:
  assumes "steady s" "ps_phase (cn_state s) = phaseReady" "\<not> ps_authenticated (cn_state s)"
  shows "after (handleAUTH en c) good s"
proof -
  from assms obtain m where asking: "asking m s" by (auto simp: steady_def asking_def phase_ok_def base_def facts_ok_def)
  have "after (case Start rnd initial r of (Inl e, _) \<Rightarrow> authExchangeError en e | (Inr step, r') \<Rightarrow> auth_loop en r' step None) good s"
    if "NewResponder upr name cfg = Inr r" for rnd initial r upr name cfg
  proof -
    from NewResponder_ok [OF that] have "legal_responder r" by (auto simp: legal_responder_def)
    from legal_call [OF this, of "CallStart rnd initial"]
    have legal: "legal_responder (snd (Start rnd initial r))" "fst (Start rnd initial r) \<noteq> Inl SaslPanic" by simp_all
    obtain x r' where x: "Start rnd initial r = (x, r')" by fastforce
    show ?thesis
    proof (cases x)
      case (Inl e)
      with x legal(2) assms(1) show ?thesis by (simp add: authExchangeError_good)
    next
      case (Inr step)
      from Start_steps [of rnd initial r step r'] x Inr legal(1) have "exchanging r' step None m" by (auto simp: exchanging_def)
      from auth_loop_good [OF refl asking this] x Inr show ?thesis by simp
    qed
  qed
  with assms(1) show ?thesis
    unfolding handleAUTH_def Let_def by (auto simp: after_view split: sum.split intro!: good_replies)
qed

end

section \<open>STARTTLS and ATRN\<close>

context serving
begin

text \<open>Between the backend's reset and the transition the monitor is ahead of the session.\<close>

lemma after_tls_reset:
  assumes "base m s" "mn_life m = Idle" "\<not> mn_tls m" "ps_phase (cn_state s) = phaseReady"
    "\<And>t. base (m\<lparr>mn_tls := True, mn_committed := False, mn_verified := False\<rparr>) t \<Longrightarrow> ps_phase (cn_state t) = phaseConnected \<Longrightarrow> after n Q t"
  shows "after (seq (life_reset en ResetStartTLS) (seq (transit eventStartTLS) n)) Q s"
proof -
  let ?m = "m\<lparr>mn_tls := True, mn_committed := False, mn_verified := False\<rparr>"
  obtain b sps where run: "life_reset en ResetStartTLS s = (Ok (), s\<lparr>cn_spool := None, cn_transactionOpen := False, cn_spools := sps, cn_user := b\<rparr>)"
    "hist b = hist (cn_user s) @ [CallReset ResetStartTLS]" "sps = None \<longleftrightarrow> cn_spools s = None"
    by (rule life_reset_run [OF base_servable [OF assms(1)]])
  let ?t = "s\<lparr>cn_spool := None, cn_transactionOpen := False, cn_spools := sps, cn_user := b\<rparr>"
  let ?u = "?t\<lparr>cn_state := applyEvent eventStartTLS ((cn_state s)\<lparr>ps_phase := phaseConnected\<rparr>)\<rparr>"
  have step: "transit eventStartTLS ?t = (Ok (), ?u)" using assms(4) by (simp add: transit_def transition_def)
  have "base ?m ?u"
    using assms(1-3) run(2,3) by (auto simp: base_def now_def contract_run_snoc linked_def facts_ok_def)
  from assms(5) [OF this] run(1) step show ?thesis
    by (simp add: after_seq, simp add: after_def [of "life_reset _ _"], simp add: after_def [of "transit _"] after_seq)
qed

lemma after_handshake:
  assumes "base m s" "sv_tlsConfig (en_server en)"
    "\<And>r t. base m t \<Longrightarrow> cn_state t = cn_state s \<Longrightarrow> Q (Ok r) t" "\<And>e t. benign (Some e) \<Longrightarrow> base m t \<Longrightarrow> Q (Err e) t"
  shows "after (handshakeTLS en) Q s"
proof -
  have peer: "after (bind_go (net (nt_Handshake (en_net en))) (\<lambda>r. case r of Inl e \<Rightarrow> fail (ErrHandshake e) | Inr x \<Rightarrow> ret x)) Q t"
    if "base m t" "cn_state t = cn_state s" for t
    unfolding after_bind using that
    by (intro after_outputs [OF net_output]) (auto simp: after_simps output_fields split: sum.split intro: assms(3,4) base_output)
  have "after (seq (unless b (reportError en r)) (bind_go (net (nt_Handshake (en_net en)))
      (\<lambda>r. case r of Inl e \<Rightarrow> fail (ErrHandshake e) | Inr x \<Rightarrow> ret x))) Q t"
    if "base m t" "cn_state t = cn_state s" for t b r
    unfolding after_seq using that
    by (intro after_outputs [OF outp.unless_along [OF reportError_output]]) (auto simp: output_fields intro: peer assms(4) base_output)
  with assms(1,2) show ?thesis by (simp add: handshakeTLS_def after_view after_seq [of "assign _"] after_assign split: prod.split)
qed

lemma handleSTARTTLS_good:
  assumes "steady s" "ps_phase (cn_state s) = phaseReady" "\<not> ps_tls (cn_state s)"
  shows "after (handleSTARTTLS en c) good s"
proof -
  from assms obtain m where m: "base m s" "mn_life m = Idle" "\<not> mn_tls m"
    by (auto simp: steady_def phase_ok_def base_def facts_ok_def)
  let ?m = "m\<lparr>mn_tls := True, mn_committed := False, mn_verified := False\<rparr>"
  let ?rest = "\<lambda>chunks fin. seq (assign (\<lambda>s. s\<lparr>cn_extended := False\<rparr>)) (seq clearTransaction
      (seq (assign (\<lambda>s. s\<lparr>cn_reader := NewLineReader chunks fin, cn_writer := NewWriter\<rparr>)) (ret no_action)))"
  have rest: "after (?rest chunks fin) good t" if "base ?m t" "ps_phase (cn_state t) = phaseConnected" for chunks fin t
  proof -
    have "steady (t\<lparr>cn_extended := False, cn_smtpUTF8 := False, cn_binaryMIME := False, cn_recipients := [],
        cn_reader := NewLineReader chunks fin, cn_writer := NewWriter\<rparr>)"
      using that m(2) by (intro steadyI [of ?m]) (simp_all add: phase_ok_def)
    then show ?thesis by (simp add: after_simps clearTransaction_def steady_closable)
  qed
  have "after (bind_go (handshakeTLS en) (\<lambda>(t, chunks, fin). seq (assign (start_tls t))
      (seq (life_reset en ResetStartTLS) (seq (transit eventStartTLS) (?rest chunks fin))))) good t"
    if "output_only s t" "sv_tlsConfig (en_server en)" for t
  proof -
    have t: "base m t" "ps_phase (cn_state t) = phaseReady" using that m(1) assms(2) by (auto simp: output_fields intro: base_output)
    show ?thesis
      unfolding after_bind
      by (rule after_handshake [OF t(1) that(2)])
        (auto simp: after_seq [of "assign _"] after_assign start_tls_def base_closable t(2) intro!: after_tls_reset [of m] rest m(2,3))
  qed
  then have "after (seq (writeReply en r) (seq (Flush en) (bind_go (handshakeTLS en) (\<lambda>(t, chunks, fin). seq (assign (start_tls t))
      (seq (life_reset en ResetStartTLS) (seq (transit eventStartTLS) (?rest chunks fin))))))) good s"
    if "sv_tlsConfig (en_server en)" for r
    using that steady_closable [OF assms(1)]
    by (intro then_reply writeReply_output Flush_output) (auto intro: closable_output outp.trans)
  then show ?thesis
    unfolding handleSTARTTLS_def using assms(1) by (auto simp: after_view intro!: good_replies)
qed

lemma atrn_takeover_good:
  assumes "base m s" "mn_life m = Idle" "mn_committed m" "\<And>z. hist (snd (g z)) = hist z @ [CallTakeover]"
  shows "after (atrn_takeover en g) good s"
proof -
  have "after (bind_go (invoke g) (\<lambda>err. seq (case err of None \<Rightarrow> ret () | Some e \<Rightarrow> reportError en (RepTakeover e)) (ret sync_close))) good t"
    if "output_only s t" for t
  proof -
    have "base m (t\<lparr>cn_user := snd (g (cn_user t))\<rparr>)"
      using base_output [OF that assms(1)] assms by (intro base_same_call [of m _ _ CallTakeover]) simp_all
    then show ?thesis
      by (auto simp: after_bind after_invoke after_seq after_ret sync_close_def base_closable split: option.split
          intro!: after_outputs [OF reportError_output] dest: base_output intro: base_closable)
  qed
  then show ?thesis
    unfolding atrn_takeover_def using base_closable [OF assms(1)]
    by (intro then_reply writeReply_output Flush_output) (auto intro: closable_output outp.trans)
qed

lemma handleATRN_good:
  assumes "steady s" "ps_phase (cn_state s) = phaseReady"
  shows "after (handleATRN en c) good s"
proof -
  from assms obtain m where m: "base m s" "phase_ok (en_server en) m s" "mn_life m = Idle"
    by (auto simp: steady_def phase_ok_def)
  have asked: "after (bind_go (invoke (f domains)) (\<lambda>r. case r of
      Inl err \<Rightarrow> backendReply en ''ATRN'' err 451 atrn_text
    | Inr result \<Rightarrow> (case Option.bind result at_Takeover of
        None \<Rightarrow> seq (reportError en RepNoTakeover) (backendReply en ''ATRN'' (OtherError 0) 451 atrn_text)
      | Some takeover \<Rightarrow> atrn_takeover en takeover))) good s"
    if f: "se_ATRN (en_backend en) = Some f" and "ps_authenticated (cn_state s)" for f domains
  proof -
    let ?s = "s\<lparr>cn_user := snd (f domains (cn_user s))\<rparr>"
    have committed: "mn_committed m" using m(1) that(2) by (simp add: base_def facts_ok_def)
    have base: "base m ?s" using m committed by (intro base_same_call [OF m(1) ATRN [OF f]]) simp
    then have steady: "steady ?s" using m(2) by (intro steadyI [of m]) simp_all
    have "after (atrn_takeover en g) good ?s" if "fst (f domains (cn_user s)) = Inr (Some x)" "at_Takeover x = Some g" for x g
      by (rule atrn_takeover_good [OF base m(3) committed Takeover [OF f that]])
    with steady show ?thesis
      by (auto simp: after_bind after_invoke after_seq [of "reportError _ _"] bind_eq_Some_conv split: sum.split option.split
          intro!: good_replies report_reply [OF reportError_output backendReply_output])
  qed
  show ?thesis
    unfolding handleATRN_def after_view
    using assms(1) by (auto simp: after_view after_seq [of "reportError _ _"] split: option.split
        intro!: good_replies asked report_reply [OF reportError_output reply_with_output])
qed

end

section \<open>Commands and the loop\<close>

lemma verb_ascii: "validateCommandVerb verb = None \<Longrightarrow> list_all is_ascii verb"
  by (auto simp: validateCommandVerb_def list_all_iff verb_char_def wire_defs is_ascii_def split: if_splits)

lemma upper_ascii: "list_all is_ascii s \<Longrightarrow> list_all is_ascii (ToUpperASCII s)"
  by (auto simp: ToUpperASCII_def list_all_iff upper_char_def is_ascii_def is_lower_def)

lemma verb_upper:
  assumes "validateCommandVerb verb = None"
  shows "ToUpper upr (ToUpper upr verb) = ToUpper upr verb"
  using verb_ascii [OF assms] upper_ascii [OF verb_ascii [OF assms]] by simp

lemma legal_commands:
  assumes "legality upr st verb = commandAllowed" "ToUpper upr verb = verb"
  obtains (hello) "verb \<in> {''HELO'', ''EHLO'', ''LHLO''}" "ps_phase st \<in> {phaseConnected, phaseReady, phaseMail, phaseRecipients}"
  | (mail) "verb = ''MAIL''" "ps_phase st \<in> {phaseReady, phaseMail, phaseRecipients}"
  | (rcpt) "verb = ''RCPT''" "ps_phase st \<in> {phaseMail, phaseRecipients}"
  | (data) "verb = ''DATA''" "ps_phase st = phaseRecipients"
  | (bdat) "verb = ''BDAT''" "ps_phase st \<in> {phaseReady, phaseMail, phaseRecipients, phaseFailedBDAT}"
  | (rset) "verb = ''RSET''" "ps_phase st \<in> {phaseReady, phaseMail, phaseRecipients, phaseFailedBDAT}"
  | (plain) "verb \<in> {''NOOP'', ''QUIT'', ''VRFY'', ''EXPN'', ''HELP''}"
  | (etrn) "verb = ''ETRN''" "ps_phase st = phaseReady"
  | (starttls) "verb = ''STARTTLS''" "ps_phase st = phaseReady" "\<not> ps_tls st"
  | (auth) "verb = ''AUTH''" "ps_phase st = phaseReady" "\<not> ps_authenticated st"
  | (atrn) "verb = ''ATRN''" "ps_phase st = phaseReady"
proof -
  from assms obtain r where r: "command_rule verb = Some r" "phases_contain (cr_phases r) (ps_phase st)"
    "\<not> (cr_requirePlaintext r \<and> ps_tls st)" "\<not> (cr_requireUnauthenticated r \<and> ps_authenticated st)"
    by (auto simp: legality_allowed_iff)
  from r(1) have "(verb, r) \<in> set commandRules \<or> verb = ''ATRN'' \<and> r = rule modeSetSMTP [phaseReady]"
    by (auto simp: command_rule_def extensionCommandRule_def dest: map_of_SomeD split: option.splits if_splits)
  then have legal: "verb \<in> {''HELO'', ''EHLO'', ''LHLO''} \<and> ps_phase st \<in> {phaseConnected, phaseReady, phaseMail, phaseRecipients} \<or>
    verb = ''MAIL'' \<and> ps_phase st \<in> {phaseReady, phaseMail, phaseRecipients} \<or>
    verb = ''RCPT'' \<and> ps_phase st \<in> {phaseMail, phaseRecipients} \<or>
    verb = ''DATA'' \<and> ps_phase st = phaseRecipients \<or>
    verb = ''BDAT'' \<and> ps_phase st \<in> {phaseReady, phaseMail, phaseRecipients, phaseFailedBDAT} \<or>
    verb = ''RSET'' \<and> ps_phase st \<in> {phaseReady, phaseMail, phaseRecipients, phaseFailedBDAT} \<or>
    verb \<in> {''NOOP'', ''QUIT'', ''VRFY'', ''EXPN'', ''HELP''} \<or>
    verb = ''ETRN'' \<and> ps_phase st = phaseReady \<or>
    verb = ''STARTTLS'' \<and> ps_phase st = phaseReady \<and> \<not> ps_tls st \<or>
    verb = ''AUTH'' \<and> ps_phase st = phaseReady \<and> \<not> ps_authenticated st \<or>
    verb = ''ATRN'' \<and> ps_phase st = phaseReady"
    unfolding commandRules_def set_simps insert_iff empty_iff prod.inject
    by (elim disjE conjE FalseE; hypsubst) (use r(2-4) in simp_all)
  show thesis by (insert legal, elim disjE conjE; (rule that; assumption))
qed

lemma dispatch_simps:
  "verb \<in> {''HELO'', ''EHLO'', ''LHLO''} \<Longrightarrow> dispatch en verb c = handleHello en c"
  "dispatch en ''MAIL'' c = handleMail en c" "dispatch en ''RCPT'' c = handleRcpt en c" "dispatch en ''DATA'' c = handleDATA en c"
  "dispatch en ''BDAT'' c = handleBDAT en c" "dispatch en ''RSET'' c = handleRSET en c" "dispatch en ''NOOP'' c = handleNOOP en c"
  "dispatch en ''QUIT'' c = handleQUIT en c" "dispatch en ''VRFY'' c = handleVRFY en c" "dispatch en ''EXPN'' c = handleEXPN en c"
  "dispatch en ''HELP'' c = handleHELP en c" "dispatch en ''ETRN'' c = handleETRN en c"
  "dispatch en ''STARTTLS'' c = handleSTARTTLS en c" "dispatch en ''AUTH'' c = handleAUTH en c"
  "dispatch en ''ATRN'' c = executeExtensionCommand en c"
  by (simp_all add: dispatch_def)

context serving
begin

definition mail_ready :: "('w, 'b) commandSession \<Rightarrow> bool" where
  "mail_ready s \<longleftrightarrow> (\<exists>m. base m s \<and> phase_ok (en_server en) m s \<and> int (mn_mails m) < cn_mailAttempts s) \<and>
     cn_mailAttempts s \<le> en_maxTransactions en"

lemma dispatch_good:
  assumes "steady s" "legality (en_upr en) (cn_state s) verb = commandAllowed" "ToUpper (en_upr en) verb = verb"
    "ToUpper (en_upr en) (cmd_Verb c) = verb" "verb = ''MAIL'' \<Longrightarrow> mail_ready s"
  shows "after (dispatch en verb c) good s"
  using assms(2,3)
proof (cases rule: legal_commands)
  case mail
  with assms(5) show ?thesis by (auto simp: mail_ready_def dispatch_simps intro!: handleMail_good)
next
  case plain
  with assms(1) show ?thesis
    by (auto simp: dispatch_simps intro!: simple_good handleVRFY_good handleEXPN_good handleHELP_good)
next
  case atrn
  with assms(1,4) show ?thesis by (simp add: dispatch_simps executeExtensionCommand_def handleATRN_good)
next
  case starttls
  with assms(1) show ?thesis by (simp add: dispatch_simps handleSTARTTLS_good)
next
  case auth
  with assms(1) show ?thesis by (simp add: dispatch_simps handleAUTH_good)
qed (use assms(1) in \<open>simp_all only: dispatch_simps handleHello_good handleRcpt_good handleDATA_good handleBDAT_good
    handleRSET_good handleETRN_good\<close>)

lemma checked_good:
  assumes "steady s" "ToUpper (en_upr en) verb = verb" "ToUpper (en_upr en) (cmd_Verb c) = verb" "verb = ''MAIL'' \<Longrightarrow> mail_ready s"
  shows "after (checked en verb c) good s"
  unfolding checked_def after_view using assms(1) dispatch_good [OF assms(1) _ assms(2-4)]
  by (auto split: commandLegality.split intro!: good_replies)

lemma execute_good:
  assumes "steady s" "validateCommandVerb (cmd_Verb c) = None"
  shows "after (execute en c) good s"
proof -
  let ?verb = "ToUpper (en_upr en) (cmd_Verb c)"
  have mail: "after (seq (assign (\<lambda>s. s\<lparr>cn_mailAttempts := cn_mailAttempts s + 1\<rparr>))
      (view (\<lambda>s. if cn_mailAttempts s > en_maxTransactions en then reply_with en r sync_close else checked en ?verb c))) good t"
    if "steady t" for t r
  proof -
    from that obtain m where m: "base m t" "phase_ok (en_server en) m t" by (auto simp: steady_def)
    let ?t = "t\<lparr>cn_mailAttempts := cn_mailAttempts t + 1\<rparr>"
    have "base m ?t" "phase_ok (en_server en) m ?t" "int (mn_mails m) < cn_mailAttempts ?t"
      using m by (auto simp: base_def now_def linked_def facts_ok_def phase_ok_def split: sessionPhase.splits)
    then have "steady ?t" "cn_mailAttempts ?t \<le> en_maxTransactions en \<Longrightarrow> mail_ready ?t"
      by (auto simp: mail_ready_def intro: steadyI)
    then show ?thesis
      by (auto simp: after_simps intro!: good_replies checked_good verb_upper assms(2))
  qed
  have "after (checked en ?verb c) good t" if "steady t" "?verb \<noteq> ''MAIL''" for t
    using that by (intro checked_good verb_upper assms(2)) simp_all
  with mail show ?thesis
    unfolding execute_def Let_def using assms(1)
    by (intro then_reply) (auto simp: traceCommand_def intro!: trace_output intro: steady_output steady_closable)
qed

end

context serving
begin

definition loop_post :: "(session_error, bool) outcome \<Rightarrow> ('w, 'b) commandSession \<Rightarrow> bool" where
  "loop_post r t \<longleftrightarrow> closable t \<and>
     (case r of Ok again \<Rightarrow> again \<longrightarrow> steady t | Err e \<Rightarrow> benign (Some e) | Panic \<Rightarrow> False)"

lemma loop_Flush_output: "(\<And>x. benign (Some (wrap x))) \<Longrightarrow> outputs (loop_Flush en wrap)"
  unfolding loop_Flush_def by (intro outp.bind_along bw_Flush_output) (auto intro: outp.ret_along outp.fail_along split: option.split)

lemma after_action_post:
  assumes "good (Ok a) s"
  shows "after (after_action en a) loop_post s"
proof -
  have "outputs (unless b (loop_Flush en ErrFlushReply))" for b by (intro outp.unless_along loop_Flush_output) simp
  then show ?thesis
    unfolding after_action_def after_seq using assms
    by (intro after_outputs) (auto simp: after_ret loop_post_def intro: closable_output steady_output)
qed

lemma after_read_post:
  assumes "steady s" "\<And>c. r = Inr c \<Longrightarrow> validateCommandVerb (cmd_Verb c) = None"
  shows "after (after_read en r) loop_post s"
proof (cases r)
  case (Inl e)
  have "after (bind_go (handleCommandReadError en e) (\<lambda>h. case h of None \<Rightarrow> fail (ErrReadCommand e) | Some a \<Rightarrow> after_action en a)) loop_post s"
    unfolding after_bind
    by (rule after_mono [OF handleCommandReadError_good [OF assms(1)]])
      (auto simp: loop_post_def [of "Err _"] after_fail steady_closable split: outcome.splits option.splits intro!: after_action_post)
  with Inl steady_closable [OF assms(1)] show ?thesis
    by (auto simp: after_read_def after_ret loop_post_def [of "Ok False"])
next
  case (Inr c)
  have "after (bind_go (execute en c) (after_action en)) loop_post s"
    unfolding after_bind
  proof (rule after_mono [OF execute_good [OF assms(1) assms(2) [OF Inr]]])
    fix r t
    assume "good r t"
    then show "onwards (after_action en) loop_post r t" by (cases r) (auto simp: loop_post_def [of "Err _"] intro!: after_action_post)
  qed
  with Inr show ?thesis by (simp add: after_read_def)
qed

lemma iteration_post:
  assumes "steady s"
  shows "after (iteration en) loop_post s"
proof -
  have command: "after (bind_go (read_command en) (after_read en)) loop_post t" if "steady t" for t
    unfolding read_command_def after_bind
  proof (intro after_outputs [OF net_output], goal_cases)
    case (1 dl u)
    obtain r lr where r: "ReadCommand dl session_limits (cn_reader u) = (r, lr)" by fastforce
    have "steady u" by (rule steady_output [OF 1 that])
    then have "steady (u\<lparr>cn_reader := lr\<rparr>)" by (simp add: steady_def)
    moreover have "validateCommandVerb (cmd_Verb c) = None" if "r = Inr c" for c
      using ReadCommand_Inr [of dl session_limits "cn_reader u" c lr] r that by auto
    ultimately show ?case by (simp add: after_simps r after_read_post)
  next
    case (2 e u)
    then show ?case using steady_closable [OF that] by (auto simp: loop_post_def intro: closable_output)
  qed
  have "outputs (unless b (loop_Flush en ErrFlushBeforeRead))" for b by (intro outp.unless_along loop_Flush_output) simp
  then have "after (seq (unless b (loop_Flush en ErrFlushBeforeRead)) (bind_go (read_command en) (after_read en))) loop_post s" for b
    unfolding after_seq using assms steady_closable [OF assms]
    by (intro after_outputs) (auto simp: loop_post_def [of "Err _"] intro!: command intro: steady_output closable_output)
  then show ?thesis
    using steady_closable [OF assms] by (auto simp: iteration_def after_view after_fail loop_post_def [of "Err _"] split: option.split)
qed

text \<open>The loop ends where the session can be closed, and not with an error of its own.\<close>

lemma run_good: "steady s \<Longrightarrow> run n en s = Some (r, t) \<Longrightarrow> closable t \<and> r \<noteq> Panic \<and> (\<forall>e. r = Err e \<longrightarrow> benign (Some e))"
proof (induction n arbitrary: s)
  case (Suc n)
  obtain x u where x: "iteration en s = (x, u)" by fastforce
  from afterD [OF iteration_post [OF Suc.prems(1)] x] have post: "loop_post x u" .
  show ?case
  proof (cases "x = Ok True")
    case True
    with post have "steady u" by (simp add: loop_post_def)
    with Suc.IH [of u] Suc.prems(2) x True show ?thesis by simp
  next
    case False
    with Suc.prems(2) x post show ?thesis by (auto simp: loop_post_def split: outcome.splits bool.splits)
  qed
qed simp

lemma session_close_ends:
  assumes "closable s"
  shows "\<exists>m. now (snd (session_close en s)) = Some m \<and> mn_life m = Over"
proof -
  from assms obtain m where m: "now s = Some m" "linked m s" and ok: "servable en" by (auto simp: closable_def)
  obtain f where f: "se_Close (en_backend en) = Some f" using callbacks(5) [OF ok] by blast
  let ?s = "s\<lparr>cn_closed := True\<rparr>"
  have close: "after (invoke_opt (map_option (\<lambda>f b. ((), f b)) (se_Close (en_backend en)))) (\<lambda>_ t. \<exists>m. now t = Some m \<and> mn_life m = Over) t"
    if "contract_run pol m0 (hist (cn_user t)) = Some (m\<lparr>mn_life := Idle\<rparr>)" for t
    using that Close [OF f, of "cn_user t"] by (simp add: f invoke_opt_def after_invoke now_def contract_run_snoc)
  have "after (life_close en) (\<lambda>_ t. \<exists>m. now t = Some m \<and> mn_life m = Over) s"
  proof (cases "mn_life m = Idle")
    case True
    then have "m\<lparr>mn_life := Idle\<rparr> = m" by simp
    with True m close [of ?s] show ?thesis
      by (simp add: life_close_def life_resetIfOpen_def after_simps linked_def now_def)
  next
    case False
    obtain b sps where run: "life_reset en ResetSessionEnd ?s = (Ok (), ?s\<lparr>cn_spool := None, cn_transactionOpen := False, cn_spools := sps, cn_user := b\<rparr>)"
      "hist b = hist (cn_user ?s) @ [CallReset ResetSessionEnd]" by (rule life_reset_run [OF ok])
    from False m(2) have "is_opened (mn_life m) \<or> mn_life m = Delivered" by (cases "mn_life m") (auto simp: linked_def)
    with m(1) run(2) have "contract_run pol m0 (hist b) = Some (m\<lparr>mn_life := Idle\<rparr>)" by (simp add: now_def contract_run_snoc)
    with False m(2) run(1) show ?thesis
      by (simp add: life_close_def life_resetIfOpen_def after_simps linked_def)
        (simp add: after_def [of "life_reset _ _"] close)
  qed
  then show ?thesis by (auto simp: session_close_def after_def seq_def bind_go_def assign_def now_def split: prod.splits outcome.splits)
qed

lemma serve_session_good:
  assumes "steady s" "serve_session n en s = Some t"
  shows "\<exists>m. now t = Some m \<and> mn_life m = Over"
proof -
  have report: "closable (snd (reportError en x u))" if "closable u" for x u
    using closable_output [OF alongD [OF reportError_output] that] by (metis prod.collapse)
  have ends: "\<exists>m. now (session_outcome en b (r, u)) = Some m \<and> mn_life m = Over" if "closable u" for b r u
    using that report [OF that] by (auto simp: session_outcome_def Let_def split: outcome.split intro!: session_close_ends)
  obtain r u where u: "greeting en s = (r, u)" by fastforce
  have "outputs (greeting en)" by (simp add: greeting_def outp.seq_along writeReply_output Flush_output)
  from steady_output [OF alongD [OF this u] assms(1)] have "steady u" .
  with assms(2) u ends run_good [of u n] steady_closable [of u] show ?thesis
    by (cases r) (auto simp: serve_session_def)
qed

end

context serving
begin

lemma start_steady:
  assumes "servable en" "hist b = []" "m0 = start_monitor (t \<noteq> None)" "sv_chunking (en_server en) \<longrightarrow> spools \<noteq> None"
  shows "steady (newCommandSession (en_server en) t chunks fin spools w b)"
proof (rule steadyI)
  have m0: "mn_life m0 = Idle" "mn_tls m0 = (t \<noteq> None)" "\<not> mn_committed m0" "mn_mails m0 = 0"
    using assms(3) by (simp_all add: start_monitor_def)
  show "base m0 (newCommandSession (en_server en) t chunks fin spools w b)"
    using assms(1,2,4) m0 by (simp add: base_def now_def linked_def facts_ok_def newCommandSession_def newProtocolState_def)
  show "phase_ok (en_server en) m0 (newCommandSession (en_server en) t chunks fin spools w b)"
    using m0 by (simp add: phase_ok_def newCommandSession_def newProtocolState_def)
qed

end

section \<open>Whole connections\<close>

lemma effective_recorder: "recorder se h \<Longrightarrow> recorder (effectiveBackend sv se) h"
  by (simp add: recorder_def effectiveBackend_def)

interpretation served: serving "new_env upr sv nt fs (logged se)" snd m0 for upr sv nt fs se m0
proof -
  have "recorder (effectiveBackend sv (logged se)) snd" by (intro effective_recorder logs.recorder_axioms)
  then show "serving (new_env upr sv nt fs (logged se)) snd" by (simp add: new_env_def serving_def)
qed

text \<open>The backend with every session it opens made to record.\<close>

definition log_new ::
  "(tls_state option \<Rightarrow> ('b, 'b Session option) callback) \<Rightarrow> tls_state option \<Rightarrow> ('b \<times> call list, ('b \<times> call list) Session option) callback" where
  "log_new newSession t x =
     (case newSession t (fst x) of (r, b) \<Rightarrow> (map_sum id (map_option logged) r, (b, snd x)))"

definition server_policy :: "Server \<Rightarrow> policy" where
  "server_policy sv =
     \<lparr>pl_requireTLS = sv_requireTLS sv, pl_requireAuth = sv_requireAuth sv, pl_maxTransactions = sv_maxTransactions sv\<rparr>"

lemma contract_run_relax:
  assumes "pl_requireTLS q = pl_requireTLS p" "pl_requireAuth q = pl_requireAuth p" "pl_maxTransactions p \<le> pl_maxTransactions q"
  shows "contract_run p m cs = Some m' \<Longrightarrow> contract_run q m cs = Some m'"
proof (induction cs arbitrary: m)
  case (Cons c cs)
  then obtain m1 where m1: "contract_step p m c = Some m1" "contract_run p m1 cs = Some m'" by (auto simp: bind_eq_Some_conv)
  have "contract_step q m c = Some m1"
  proof (cases c)
    case (CallMail ok)
    with m1(1) assms show ?thesis by auto
  next
    case (CallReset r)
    with m1(1) show ?thesis by (cases r) auto
  qed (use m1(1) in auto)
  with Cons.IH [OF m1(2)] show ?case by simp
qed simp

lemma policy_relax:
  "contract_run (session_policy (new_env upr sv nt fs se)) m cs = Some m' \<Longrightarrow> contract_run (server_policy sv) m cs = Some m'"
  by (erule contract_run_relax [rotated 3])
    (simp_all add: session_policy_def server_policy_def new_env_def effectiveMaxTransactions_def split: option.split)

lemma logged_servable:
  "wf_session upr (logged se) \<Longrightarrow> 0 \<le> sv_maxMessage sv \<Longrightarrow> sv_maxMessage sv < MaxInt64 \<Longrightarrow> servable (new_env upr sv nt fs (logged se))"
  by (simp add: wf_session_def servable_def new_env_def effectiveBackend_def)

lemma session_start:
  assumes "wf_session upr (logged se)" "0 \<le> sv_maxMessage sv" "sv_maxMessage sv < MaxInt64" "sv_chunking sv \<longrightarrow> spools \<noteq> None"
  shows "served.steady upr sv nt fs se (start_monitor (t \<noteq> None)) (newCommandSession sv t chunks fin spools w (b, []))"
  using served.start_steady [OF logged_servable [OF assms(1-3)] _ refl, where b = "(b, [])" and t = t and spools = spools] assms(4)
  by (simp add: new_env_def)

lemma logged_close: "snd (case se_Close (logged se) of None \<Rightarrow> (b, []) | Some f \<Rightarrow> f (b, [])) \<in> {[], [CallClose]}"
  using logs.Close [of se] by (auto split: option.split)

lemma open_logged:
  fixes newSession :: "tls_state option \<Rightarrow> ('b, 'b Session option) callback" and nt :: "'w net_ops"
  shows "case open_session upr sv nt fs (log_new newSession) spools chunks fin w (b, []) of
    Inl y \<Rightarrow> snd (sd_user y) \<in> {[], [CallClose]}
  | Inr (en, s) \<Rightarrow> \<exists>se t cs f v b'. en = new_env upr sv nt fs (logged (se :: 'b Session)) \<and>
      s = newCommandSession sv t cs f spools v (b', []) \<and> wf_session upr (logged se) \<and> (t \<noteq> None) = sv_implicitTLS sv"
proof -
  obtain r v where h: "implicit_handshake sv nt chunks fin w = (r, v)" by fastforce
  show ?thesis
  proof (cases r)
    case (Inr y)
    obtain t cs f where y: "y = (t, cs, f)" by (cases y)
    from h Inr y have tls: "(t \<noteq> None) = sv_implicitTLS sv" by (auto simp: implicit_handshake_def split: if_splits sum.splits prod.splits)
    obtain n b' where n: "newSession t b = (n, b')" by fastforce
    show ?thesis
    proof (cases n)
      case (Inr session)
      note simps = open_session_def Let_def h \<open>r = Inr y\<close> y n Inr log_new_def
      show ?thesis
      proof (cases session)
        case None
        then show ?thesis by (simp add: simps validateSession_def)
      next
        case (Some se)
        show ?thesis
        proof (cases "validateSession upr (Some (logged se))")
          case None
          then have "wf_session upr (logged se)" by (simp add: validateSession_wf)
          with tls have "\<exists>se' t' cs' f' v' b''. new_env upr sv nt fs (logged se) = new_env upr sv nt fs (logged (se' :: 'b Session)) \<and>
              newCommandSession sv t cs f spools v (b', []) = newCommandSession sv t' cs' f' spools v' (b'', []) \<and>
              wf_session upr (logged se') \<and> (t' \<noteq> None) = sv_implicitTLS sv" by blast
          with None Some logged_close [where se = se and b = b'] show ?thesis by (simp add: simps del: not_None_eq) blast
        qed (use Some logged_close [where se = se and b = b'] in \<open>simp add: simps\<close>)
      qed
    qed (simp add: open_session_def Let_def h Inr y n log_new_def)
  qed (simp add: open_session_def Let_def h)
qed

lemma connection_calls:
  assumes "0 \<le> sv_maxMessage sv" "sv_maxMessage sv < MaxInt64" "sv_chunking sv \<longrightarrow> spools \<noteq> None"
    "serveConnection n upr sv nt fs (log_new newSession) spools chunks fin w (b, []) = Some x"
  shows "\<exists>m. contract_run (server_policy sv) (start_monitor (sv_implicitTLS sv)) (snd (sd_user x)) = Some m \<and>
    (snd (sd_user x) = [] \<or> mn_life m = Over)"
proof (cases "open_session upr sv nt fs (log_new newSession) spools chunks fin w (b, [])")
  case (Inl y)
  with open_logged [where upr = upr and sv = sv and nt = nt and fs = fs and newSession = newSession and spools = spools and
      chunks = chunks and fin = fin and w = w and b = b] assms(4) have "snd (sd_user x) \<in> {[], [CallClose]}"
    by (simp add: serveConnection_def)
  then show ?thesis by (auto simp: start_monitor_def)
next
  case (Inr p)
  then obtain se t cs f v b' where p: "p = (new_env upr sv nt fs (logged se), newCommandSession sv t cs f spools v (b', []))"
    "wf_session upr (logged se)" "(t \<noteq> None) = sv_implicitTLS sv"
    using open_logged [where upr = upr and sv = sv and nt = nt and fs = fs and newSession = newSession and spools = spools and
      chunks = chunks and fin = fin and w = w and b = b] by (cases p) auto
  obtain y where y: "serve_session n (new_env upr sv nt fs (logged se)) (newCommandSession sv t cs f spools v (b', [])) = Some y" "x = served_as y"
    using assms(4) Inr p(1) by (auto simp: serveConnection_def)
  from served.serve_session_good [OF session_start [OF p(2) assms(1-3)] y(1)] p(3)
  obtain m where m: "contract_run (session_policy (new_env upr sv nt fs (logged se))) (start_monitor (sv_implicitTLS sv)) (snd (cn_user y)) = Some m"
    "mn_life m = Over" by (auto simp: served.now_def)
  from policy_relax [OF m(1)] m(2) y(2) show ?thesis by (auto simp: served_as_def)
qed

text \<open>A network that takes every octet written to it, a backend that accepts everything, and a client with one message.\<close>

definition demo_net :: "bytes net_ops" where
  "demo_net =
     \<lparr>nt_ctxErr = (\<lambda>_. None), nt_SetWriteDeadline = (\<lambda>w. (None, w)), nt_SetReadDeadline = (\<lambda>w. (None, w)),
      nt_Write = (\<lambda>p w. (None, w @ p)), nt_Handshake = (\<lambda>w. (Inl EOF, w)),
      nt_Now = (\<lambda>_. \<lparr>ts_zero = False, ts_Weekday = 1, ts_Day = 2, ts_Month = 3, ts_Year = 2026, ts_Hour = 4, ts_Min = 5, ts_Sec = 6,
                      ts_Offset = 0\<rparr>),
      nt_Rand = (\<lambda>_. None), nt_Quiet = (\<lambda>_. False)\<rparr>"

definition demo_fs :: fs_ops where
  "demo_fs =
     \<lparr>fs_windows = False, fs_create = (\<lambda>_. Inl EOF), fs_remove = (\<lambda>_. None), fs_not_exist = (\<lambda>_. False),
      fs_write = (\<lambda>_ p. (length p, None)), fs_read = (\<lambda>_ _. None), fs_seek = (\<lambda>_. None), fs_close = (\<lambda>_. None)\<rparr>"

definition demo_session :: "unit Session" where
  "demo_session = sample_session\<lparr>se_Mail := Some (\<lambda>_ _ b. (Inr (), b)), se_Rcpt := Some (\<lambda>_ _ b. ((None, []), b)),
     se_Data := Some (\<lambda>b. DRead 8192 (\<lambda>_. DReturn
       [\<lparr>rr_Recipient = [], rr_Command = ''DATA'', rr_Code = 250, rr_Enhanced = no_code, rr_Text = ''OK''\<rparr>] None b)), se_Reset := Some (\<lambda>_ b. b), se_Close := Some (\<lambda>b. b)\<rparr>"

definition demo_input :: "bytes list" where
  "demo_input =
     [''HELO c'' @ CRLF, ''MAIL FROM:<a@b>'' @ CRLF @ ''RCPT TO:<c@d>'' @ CRLF @ ''DATA'' @ CRLF, ''Hi'' @ CRLF @ ''.'' @ CRLF @ ''QUIT'' @ CRLF]"

text \<open>C1: the contract of a backend session. Record every call a connection makes to its backend, from \<open>NewSession\<close> on,
  for a server with any options (its message limit below \<open>MaxInt64\<close>), any network, any peer and callbacks that return. The recorded calls are a history of the contract: MAIL only
  outside a transaction, under the server's TLS, authentication and transaction-count policy; RCPT and DATA only inside
  one, DATA after an accepted recipient and once; every transaction ended by exactly one \<open>Reset\<close> with a reason that fits;
  \<open>CommitAuth\<close> only right after an accepted verification, at most once per TLS state; ETRN and ATRN between transactions;
  \<open>Close\<close> once and last. The connection also ends.\<close>

theorem connection_contract:
  assumes "0 \<le> sv_maxMessage sv" "sv_maxMessage sv < MaxInt64" "sv_chunking sv \<longrightarrow> spools \<noteq> None"
  shows "\<exists>n x m. serveConnection n upr sv nt fs (log_new newSession) spools chunks fin w (b, []) = Some x \<and>
    contract_run (server_policy sv) (start_monitor (sv_implicitTLS sv)) (snd (sd_user x)) = Some m \<and>
    (snd (sd_user x) = [] \<or> mn_life m = Over)"
proof -
  obtain n x where "\<And>k. serveConnection (n + k) upr sv nt fs (log_new newSession) spools chunks fin w (b, []) = Some x"
    using serveConnection_ends [of upr sv nt fs "log_new newSession" spools chunks fin w "(b, [])"] by metis
  from this [of 0] have run: "serveConnection n upr sv nt fs (log_new newSession) spools chunks fin w (b, []) = Some x" by simp
  from connection_calls [OF assms run] run show ?thesis by blast
qed

theorem connection_contract_witness:
  "\<exists>n x m. serveConnection n id sample_server demo_net demo_fs (log_new (\<lambda>_ b. (Inr (Some demo_session), b))) None demo_input EOF [] ((), []) = Some x \<and>
    contract_run (server_policy sample_server) (start_monitor False) (snd (sd_user x)) = Some m \<and> (snd (sd_user x) = [] \<or> mn_life m = Over)"
  using connection_contract [of sample_server None id demo_net demo_fs "\<lambda>_ b. (Inr (Some demo_session), b)" demo_input EOF "[]" "()"]
  by (simp add: sample_server_def MaxInt64_def)

text \<open>C2: no error of the session's own making. For a server whose message limit is below \<open>MaxInt64\<close>, the command loop
  of a connection ends, and not with a panic, a transition
  that the state machine refuses, a command without a handler, a SASL exchange without progress or a handshake without a TLS
  configuration: what is left are failures of the network, of the peer's framing, of the randomness or of the backend.\<close>

theorem session_no_internal_error:
  assumes "wf_session upr (logged se)" "0 \<le> sv_maxMessage sv" "sv_maxMessage sv < MaxInt64" "sv_chunking sv \<longrightarrow> spools \<noteq> None"
  shows "\<exists>n r t. run n (new_env upr sv nt fs (logged se))
      (snd (greeting (new_env upr sv nt fs (logged se)) (newCommandSession sv tls chunks fin spools w (b, [])))) = Some (r, t) \<and>
    r \<noteq> Panic \<and> (\<forall>e. r = Err e \<longrightarrow> benign (Some e))"
proof -
  let ?en = "new_env upr sv nt fs (logged se)"
  obtain g s where g: "greeting ?en (newCommandSession sv tls chunks fin spools w (b, [])) = (g, s)" by fastforce
  have "outputs (greeting ?en)" by (simp add: greeting_def outp.seq_along writeReply_output Flush_output)
  from served.steady_output [OF alongD [OF this g] session_start [OF assms]]
  have steady: "served.steady upr sv nt fs se (start_monitor (tls \<noteq> None)) s" .
  obtain n r t where run: "run n ?en s = Some (r, t)" using run_ends [of ?en s] by auto
  from served.run_good [OF steady run] run g show ?thesis by auto
qed

lemma demo_session_valid: "wf_session id (logged demo_session)"
proof -
  have "validateExtensionSession id (logged demo_session) = validateExtensionSession id sample_session"
    by (simp add: validateExtensionSession_def logged_def demo_session_def)
  then show ?thesis by (simp add: wf_session_def sample_session_valid, simp add: logged_def demo_session_def sample_session_def)
qed

theorem session_no_internal_error_witness:
  "wf_session id (logged demo_session) \<and>
   (\<exists>n r t. run n (new_env id sample_server demo_net demo_fs (logged demo_session)) (snd (greeting (new_env id sample_server demo_net demo_fs
       (logged demo_session)) (newCommandSession sample_server None demo_input EOF None [] ((), [])))) = Some (r, t) \<and>
     r \<noteq> Panic \<and> (\<forall>e. r = Err e \<longrightarrow> benign (Some e)))"
  using session_no_internal_error [OF demo_session_valid, of sample_server None demo_net demo_fs None demo_input EOF "[]" "()"] demo_session_valid
  by (simp add: sample_server_def MaxInt64_def)

end
