(* ===== verification/Spec2Isabelle.thy ===== *)
theory Spec2Isabelle
  imports Wire_Ehlo Srv_Connections Sasl_Client Srv_Conformance
begin

text \<open>
  A verification development for go-smtp, an SMTP and LMTP library in Go: its wire codec (internal/smtpwire), its SASL
  mechanisms (internal/smtpsasl), its protocol vocabulary (the root package smtp) and its server (smtpserver).

  \<^bold>\<open>The program.\<close> A connection of the server runs a loop that reads a command line with the wire codec, looks its verb up
  in the legality table of the session's state machine, runs the handler of the command, and flushes the replies at
  synchronization points. Handlers parse arguments with the codec, move the state machine, and call the backend through a
  lifecycle object that brackets transactions. Message content goes to the backend as a reader over the connection (DATA)
  or over a spool filled by chunks (BDAT). STARTTLS replaces the connection under the session, AUTH runs a SASL responder,
  ATRN hands the connection to the backend. Around it, a server is constructed from options, and a registry of connections
  enforces limits and shutdown.

  \<^bold>\<open>Conventions.\<close> Go strings and byte slices are lists of characters, errors are values of a sum type, panics are values
  too, machine integers that can overflow are words. The Unicode case table, the network, the clock, the randomness, the
  file system, TLS and the backend are arguments of the definitions; what they answer is arbitrary unless a theorem says
  otherwise. Loops over the peer's octets terminate because the octets are consumed; the command loop of a connection takes
  fuel, and Srv_Progress shows that enough fuel always exists.

  \<^bold>\<open>The theories.\<close>
  \<^item> Go_Base, Go_Unicode, Go_Time, Go_Base64, Go_Crypto: what the sources use of Go's standard library, with the lemmas
    shared by all components. Go_Effect: computations with state, errors and panics, the locale \<open>path_relation\<close> for
    relations that every step of a computation respects, and the rules for what holds after a run.
  \<^item> Wire_Reader, Wire_Reply (reply.go, reply_encoder.go, enhanced.go), Wire_Command (command_decoder.go, encoder.go),
    Wire_DotStuff (dotstuff.go), Wire_Bdat (bdat.go), Wire_Ehlo (ehlo.go, hello.go, received.go), Wire_Path (path.go):
    both directions of the wire format. Shown: encoders and decoders are inverse on pipelined streams, for any
    segmentation; what a decoder accepts is well formed, within its limits, and consumes exactly its line, reply or chunk;
    the dot reader refines a reference reader, and where it ends a message a receiver that takes CR, LF or CR LF before the
    dot and LF or CR LF behind it ends it as well; a strict receiver may still read on, as a bare LF before the dot is
    enough for this one.
  \<^item> Smtp_Types (the root package), Srv_Types (session.go, backend.go): the vocabulary; round trips of status codes, xtext
    and limits.
  \<^item> Srv_State (state.go): phases, the legality table and transitions, with the histories in which a command is legal.
    Srv_Spool (spool.go): the CHUNKING store against its budgets and its content. Srv_Reply (reply.go, cmd_reply.go).
    Srv_Data (data.go, cmd_data.go): the data call, its limit and its resynchronization. Srv_Params (cmd_params.go,
    ext_params.go): MAIL and RCPT parameters. Srv_Capability (capability.go, ext_capabilities.go, floor_extensions.go):
    what is advertised is what is accepted. Srv_Config (server.go, config.go): construction. Srv_Connections
    (connections.go): limits and shutdown of the registry.
  \<^item> Sasl_Responder (responder.go), Sasl_Client (sasl.go): both halves of the mechanisms; acceptance is sound; for every
    mechanism the server asks its backend about the client's own credentials, as long as the encodings can carry them; a
    SCRAM exchange between the two halves with the right password succeeds.
  \<^item> Srv_Session (cmd_session.go, cmd_data.go, cmd_reply.go, lifecycle.go, floor_extensions.go, tls.go), Srv_Auth
    (cmd_auth.go, authentication.go), Srv_Loop (ext_atrn.go, cmd_session.go, loop.go, cmd_server.go): a whole connection,
    composed of the components above, from \<open>serveConnection\<close> down to every handler.
  \<^item> Srv_Progress: every handler consumes input or ends the session, STARTTLS happens once, so every connection ends.
  \<^item> Srv_Contract, Srv_Conformance: the contract between server and backend as an automaton over the backend's calls, the
    locale \<open>serving\<close> with the invariant that ties a session to it, and the proof that the calls of every connection are a
    history of the automaton and that a session never fails by an error of its own.

  \<^bold>\<open>Interfaces.\<close> Each contract that several proofs rely on is a locale, interpreted on the definitions of the model: a
  printer with its parser (\<open>codec\<close>), a self-delimiting wire format (\<open>framing\<close>), writers and readers (\<open>sink\<close>, \<open>source\<close> and
  their extensions \<open>dot_sink\<close>, \<open>bdat_sink\<close>, \<open>total_writer\<close>), indifference to network segmentation (\<open>chunk_blind\<close>), a
  relation kept along a computation (\<open>path_relation\<close>, for output, input and progress), a backend that records its calls
  (\<open>recorder\<close>) and a session over it (\<open>serving\<close>).

  \<^bold>\<open>Not modelled.\<close> The accept loop of \<open>Serve\<close> and the mutexes themselves. The registry of connections is a sequence of its
  critical sections in any order, with the \<open>wait.Done()\<close> of a leaving handler as a step of its own. A \<open>Write\<close> or \<open>Close\<close> of a
  spool is one step, although the code takes the manager's mutex several times in it. Callbacks of the backend return: one
  that panics or never returns is outside the model, and the \<open>recover\<close> of \<open>serveConnection\<close> is there for panics of the server's
  own code only. The clock and the
  random source are read from the state of the world, which reading does not change; the answers of the file system are
  functions of the call. Deadlines and contexts only appear through what the operations of the network answer. TLS itself, the
  file system and the operating system are arguments. The client package smtpclient, the Unicode normalisation and
  SASLprep packages with their generated tables, the sample backends, the examples and the interoperability harness are
  left out.
\<close>

end
